(* ===== verification/Prelude.thy ===== *)
theory Prelude
  imports Main "HOL-Library.Char_ord" "HOL-Library.List_Lexorder"
begin

text \<open>
  Shared vocabulary of the development.

  \<^item> A Python validator is a list of guarded raises, in source order: \<open>checks\<close> returns the
    error of the first guard that fires, \<open>None\<close> when the validator returns normally.
  \<^item> A Python function that may raise returns \<open>error + value\<close>; \<open>raise_or\<close> puts a validator in
    front of a result.
  \<^item> Strings are lists of characters. A character is a code point below 256; the character
    predicates below agree with CPython's \<open>str\<close> methods on those code points.
  \<^item> An aware \<open>datetime\<close> is the instant it denotes (an integer number of microseconds), since
    aware datetimes compare by instant.
\<close>

named_theorems contract_defs \<open>unfolding rules of the validators\<close>

type_synonym instant = int
type_synonym digest = string

subsection \<open>Validators as ordered lists of guarded raises\<close>

fun checks :: "(bool \<times> 'e) list \<Rightarrow> 'e option" where
  "checks [] = None"
| "checks ((bad, e) # cs) = (if bad then Some e else checks cs)"

lemma checks_None [simp]: "checks cs = None \<longleftrightarrow> (\<forall>c \<in> set cs. \<not> fst c)"
  by (induction cs rule: checks.induct) auto

lemma checks_append [simp]:
  "checks (cs @ ds) = (case checks cs of None \<Rightarrow> checks ds | Some e \<Rightarrow> Some e)"
  by (induction cs rule: checks.induct) auto

lemma checks_Some_mem: "checks cs = Some e \<Longrightarrow> (True, e) \<in> set cs"
  by (induction cs rule: checks.induct) (auto split: if_splits)

text \<open>
  Inside a proof a validator is read as the conjunction of its negated guards
  (\<open>checks_None\<close>); \<open>checks.simps\<close> is added where the first error matters.
\<close>

declare checks.simps [simp del]

text \<open>Sequencing two validators: the second runs only when the first returned.\<close>

definition and_then :: "'e option \<Rightarrow> 'e option \<Rightarrow> 'e option" where
  "and_then v w = (case v of None \<Rightarrow> w | Some e \<Rightarrow> Some e)"

lemma and_then_None [simp]: "and_then v w = None \<longleftrightarrow> v = None \<and> w = None"
  by (cases v) (auto simp: and_then_def)

lemma and_then_simps [simp]: "and_then None w = w" "and_then (Some e) w = Some e"
  by (simp_all add: and_then_def)

definition raise_or :: "'e option \<Rightarrow> 'a \<Rightarrow> 'e + 'a" where
  "raise_or v a = (case v of None \<Rightarrow> Inr a | Some e \<Rightarrow> Inl e)"

lemma raise_or_Inr [simp]: "raise_or v a = Inr b \<longleftrightarrow> v = None \<and> a = b"
  by (cases v) (auto simp: raise_or_def)

lemma raise_or_Inl [simp]: "raise_or v a = Inl e \<longleftrightarrow> v = Some e"
  by (cases v) (auto simp: raise_or_def)

text \<open>\<open>x is not None and P(x)\<close>\<close>

definition some_and :: "('a \<Rightarrow> bool) \<Rightarrow> 'a option \<Rightarrow> bool" where
  "some_and P m = (case m of None \<Rightarrow> False | Some x \<Rightarrow> P x)"

lemma some_and_simps [simp]: "some_and P None = False" "some_and P (Some x) = P x"
  by (simp_all add: some_and_def)

subsection \<open>Results\<close>

fun bind_result :: "'e + 'a \<Rightarrow> ('a \<Rightarrow> 'e + 'b) \<Rightarrow> 'e + 'b" where
  "bind_result (Inl e) f = Inl e"
| "bind_result (Inr a) f = f a"

lemma bind_result_Inr [simp]:
  "bind_result m f = Inr b \<longleftrightarrow> (\<exists>a. m = Inr a \<and> f a = Inr b)"
  by (cases m) auto

text \<open>A guard in front of a computation: \<open>guard(); return m\<close>.\<close>

lemma guard_Inr [simp]:
  "case_option m Inl v = Inr b \<longleftrightarrow> v = None \<and> m = Inr b"
  by (cases v) auto

lemma guard_Inr_pair [simp]:
  "(case v of Inl e \<Rightarrow> Inl e | Inr a \<Rightarrow> f a) = Inr b \<longleftrightarrow> (\<exists>a. v = Inr a \<and> f a = Inr b)"
  by (cases v) auto

fun map_result :: "('a \<Rightarrow> 'e + 'b) \<Rightarrow> 'a list \<Rightarrow> 'e + 'b list" where
  "map_result f [] = Inr []"
| "map_result f (x # xs) =
     bind_result (f x) (\<lambda>y. bind_result (map_result f xs) (\<lambda>ys. Inr (y # ys)))"

lemma map_result_Inr:
  "map_result f xs = Inr ys \<longleftrightarrow> list_all2 (\<lambda>x y. f x = Inr y) xs ys"
  by (induction xs arbitrary: ys) (auto simp: list_all2_Cons1)

lemma map_result_Inl_ex: "map_result f xs = Inl e \<Longrightarrow> \<exists>x \<in> set xs. f x = Inl e"
proof (induction xs)
  case (Cons x xs)
  then show ?case by (cases "f x"; cases "map_result f xs") auto
qed simp

lemma map_result_length: "map_result f xs = Inr ys \<Longrightarrow> length ys = length xs"
  by (simp add: map_result_Inr list_all2_lengthD)

subsection \<open>Characters and strings\<close>

definition code :: "char \<Rightarrow> nat" where
  "code c = of_char c"

text \<open>\<open>str.isspace\<close>, which is also what \<open>strip\<close>, \<open>split\<close> and the pattern \<open>\s\<close> use.\<close>

definition py_space :: "char \<Rightarrow> bool" where
  "py_space c = (let n = code c in (9 \<le> n \<and> n \<le> 13) \<or> (28 \<le> n \<and> n \<le> 32) \<or> n = 133 \<or> n = 160)"

definition py_alpha :: "char \<Rightarrow> bool" where
  "py_alpha c = (let n = code c in
     (65 \<le> n \<and> n \<le> 90) \<or> (97 \<le> n \<and> n \<le> 122) \<or> n = 170 \<or> n = 181 \<or> n = 186 \<or>
     (192 \<le> n \<and> n \<le> 214) \<or> (216 \<le> n \<and> n \<le> 246) \<or> (248 \<le> n \<and> n \<le> 255))"

definition is_digit :: "char \<Rightarrow> bool" where
  "is_digit c = (48 \<le> code c \<and> code c \<le> 57)"

definition is_lower :: "char \<Rightarrow> bool" where
  "is_lower c = (97 \<le> code c \<and> code c \<le> 122)"

definition is_upper :: "char \<Rightarrow> bool" where
  "is_upper c = (65 \<le> code c \<and> code c \<le> 90)"

definition py_lower_char :: "char \<Rightarrow> char" where
  "py_lower_char c = (let n = code c in
     if (65 \<le> n \<and> n \<le> 90) \<or> (192 \<le> n \<and> n \<le> 214) \<or> (216 \<le> n \<and> n \<le> 222)
     then char_of (n + 32) else c)"

definition py_lower :: "string \<Rightarrow> string" where
  "py_lower s = map py_lower_char s"

definition py_lstrip :: "string \<Rightarrow> string" where
  "py_lstrip s = dropWhile py_space s"

definition py_rstrip :: "string \<Rightarrow> string" where
  "py_rstrip s = rev (dropWhile py_space (rev s))"

definition py_strip :: "string \<Rightarrow> string" where
  "py_strip s = py_rstrip (py_lstrip s)"

lemma dropWhile_idem: "dropWhile P (dropWhile P xs) = dropWhile P xs"
  by (induction xs) auto

lemma dropWhile_rev_lstrip:
  "dropWhile P xs = xs \<Longrightarrow> dropWhile P (rev (dropWhile P (rev xs))) = rev (dropWhile P (rev xs))"
proof (cases xs)
  case (Cons x ys)
  assume fixed: "dropWhile P xs = xs"
  have "\<not> P x"
  proof
    assume "P x"
    with fixed Cons have "dropWhile P ys = x # ys" by simp
    moreover have "length (dropWhile P ys) \<le> length ys" by (rule length_dropWhile_le)
    ultimately show False by simp
  qed
  then have "dropWhile P (rev ys @ [x]) = dropWhile P (rev ys) @ [x]"
    by (induction "rev ys" arbitrary: ys) (auto simp: dropWhile_append)
  with Cons \<open>\<not> P x\<close> show ?thesis by simp
qed simp

lemma py_strip_idem [simp]: "py_strip (py_strip s) = py_strip s"
  by (simp add: py_strip_def py_lstrip_def py_rstrip_def dropWhile_rev_lstrip dropWhile_idem)

text \<open>\<open>not s.strip()\<close> is \<open>blank s\<close>.\<close>

definition blank :: "string \<Rightarrow> bool" where
  "blank s = (py_strip s = [])"

lemma blank_strip [simp]: "blank (py_strip s) = blank s"
  by (simp add: blank_def)

lemma blank_Nil [simp]: "blank []"
  by (simp add: blank_def py_strip_def py_lstrip_def py_rstrip_def)

lemma not_blank_strip: "\<not> blank s \<Longrightarrow> py_strip s \<noteq> []"
  by (simp add: blank_def)

text \<open>Joining with a separator, as \<open>sep.join(parts)\<close>.\<close>

fun py_join :: "string \<Rightarrow> string list \<Rightarrow> string" where
  "py_join sep [] = []"
| "py_join sep [x] = x"
| "py_join sep (x # y # zs) = x @ sep @ py_join sep (y # zs)"

text \<open>Splitting on a single character, as \<open>value.split("|")\<close>: never empty.\<close>

fun split_on :: "char \<Rightarrow> string \<Rightarrow> string list" where
  "split_on c [] = [[]]"
| "split_on c (x # xs) =
     (if x = c then [] # split_on c xs
      else (case split_on c xs of [] \<Rightarrow> [[x]] | w # ws \<Rightarrow> (x # w) # ws))"

lemma split_on_not_Nil [simp]: "split_on c s \<noteq> []"
  by (cases s) (auto split: list.splits)

lemma split_on_plain: "c \<notin> set s \<Longrightarrow> split_on c s = [s]"
  by (induction s) auto

lemma split_on_append: "c \<notin> set s \<Longrightarrow> split_on c (s @ c # t) = s # split_on c t"
  by (induction s) auto

lemma split_on_join:
  "ws \<noteq> [] \<Longrightarrow> \<forall>w \<in> set ws. c \<notin> set w \<Longrightarrow> split_on c (py_join [c] ws) = ws"
proof (induction ws)
  case (Cons x ws)
  then show ?case
    by (cases ws) (auto simp: split_on_append split_on_plain)
qed simp

lemma py_join_Cons: "ws \<noteq> [] \<Longrightarrow> py_join sep (w # ws) = w @ sep @ py_join sep ws"
  by (cases ws) auto

lemma py_join_hd: "py_join sep ((x # w) # ws) = x # py_join sep (w # ws)"
  by (cases ws) auto

lemma join_split_on: "py_join [c] (split_on c s) = s"
proof (induction s)
  case (Cons x s)
  then show ?case
    by (auto simp: py_join_Cons py_join_hd split: list.splits)
qed simp

text \<open>Decimal rendering of a non-negative integer, as \<open>str(n)\<close>.\<close>

definition digit_char :: "nat \<Rightarrow> char" where
  "digit_char d = char_of (48 + d)"

fun nat_str :: "nat \<Rightarrow> string" where
  "nat_str n = (if n < 10 then [digit_char n] else nat_str (n div 10) @ [digit_char (n mod 10)])"

declare nat_str.simps [simp del]

definition digit_val :: "char \<Rightarrow> nat" where
  "digit_val c = code c - 48"

definition str_nat :: "string \<Rightarrow> nat" where
  "str_nat s = foldl (\<lambda>n c. 10 * n + digit_val c) 0 s"

lemma code_digit_char: "d < 10 \<Longrightarrow> code (digit_char d) = 48 + d"
  by (simp add: code_def digit_char_def)

lemma digit_val_digit_char [simp]: "d < 10 \<Longrightarrow> digit_val (digit_char d) = d"
  by (simp add: digit_val_def code_digit_char)

lemma is_digit_digit_char [simp]: "d < 10 \<Longrightarrow> is_digit (digit_char d)"
  by (simp add: is_digit_def code_digit_char)

lemma str_nat_nat_str [simp]: "str_nat (nat_str n) = n"
proof (induction n rule: nat_str.induct)
  case (1 n)
  show ?case
  proof (cases "n < 10")
    case True
    then show ?thesis by (simp add: nat_str.simps[of n] str_nat_def)
  next
    case False
    with 1 show ?thesis by (simp add: nat_str.simps[of n] str_nat_def)
  qed
qed

lemma nat_str_digits: "c \<in> set (nat_str n) \<Longrightarrow> is_digit c"
proof (induction n rule: nat_str.induct)
  case (1 n)
  then show ?case by (cases "n < 10") (auto simp: nat_str.simps[of n])
qed

lemma nat_str_not_Nil [simp]: "nat_str n \<noteq> []"
  by (simp add: nat_str.simps[of n])

lemma nat_str_hd: "n \<noteq> 0 \<Longrightarrow> hd (nat_str n) \<noteq> digit_char 0"
proof (induction n rule: nat_str.induct)
  case (1 n)
  have inj: "n < 10 \<Longrightarrow> digit_char n = digit_char 0 \<Longrightarrow> n = 0"
    using digit_val_digit_char[of n] digit_val_digit_char[of 0] by simp
  from 1 inj show ?case by (cases "n < 10") (auto simp: nat_str.simps[of n])
qed

lemma nat_str_0 [simp]: "nat_str 0 = [digit_char 0]"
  by (simp add: nat_str.simps[of 0])

subsection \<open>Substrings\<close>

fun starts_with :: "string \<Rightarrow> string \<Rightarrow> bool" where
  "starts_with [] s = True"
| "starts_with (p # ps) [] = False"
| "starts_with (p # ps) (c # cs) = (p = c \<and> starts_with ps cs)"

lemma starts_with_iff: "starts_with p s \<longleftrightarrow> (\<exists>t. s = p @ t)"
  by (induction p s rule: starts_with.induct) auto

text \<open>\<open>needle in hay\<close>\<close>

fun contains :: "string \<Rightarrow> string \<Rightarrow> bool" where
  "contains p [] = (p = [])"
| "contains p (c # cs) = (starts_with p (c # cs) \<or> contains p cs)"

lemma contains_iff: "contains p s \<longleftrightarrow> (\<exists>a b. s = a @ p @ b)"
proof (induction s)
  case (Cons c cs)
  note IH = Cons
  show ?case
  proof
    assume "contains p (c # cs)"
    then show "\<exists>a b. c # cs = a @ p @ b"
      using Cons by (metis append_Cons append_Nil contains.simps(2) starts_with_iff)
  next
    assume "\<exists>a b. c # cs = a @ p @ b"
    then obtain a b where eq: "c # cs = a @ p @ b" by blast
    show "contains p (c # cs)"
    proof (cases a)
      case Nil
      with eq have "starts_with p (c # cs)" by (simp add: starts_with_iff)
      then show ?thesis by simp
    next
      case (Cons x xs)
      with eq have "cs = xs @ p @ b" by simp
      with IH show ?thesis by auto
    qed
  qed
qed auto

text \<open>\<open>hay.replace(needle, by)\<close> for a non-empty needle: leftmost, non-overlapping.\<close>

function replace :: "string \<Rightarrow> string \<Rightarrow> string \<Rightarrow> string" where
  "replace old new [] = []"
| "replace old new (c # cs) =
     (if old \<noteq> [] \<and> starts_with old (c # cs)
      then new @ replace old new (drop (length old) (c # cs))
      else c # replace old new cs)"
  by pat_completeness auto
termination
  by (relation "measure (\<lambda>(old, new, s). length s)") (auto simp: Suc_le_eq)

lemma replace_absent: "\<not> contains old s \<Longrightarrow> replace old new s = s"
  by (induction s) auto

end
