(* ===== verification/Contract_States.thy ===== *)
theory Contract_States
  imports Prelude
begin

text \<open>
  \<^verbatim>\<open>src/core/contracts/states.py\<close>: the three lifecycle state machines (runs, tasks, attempts),
  their transition tables and the guard every transition goes through. A status argument is a
  \<open>status_val\<close>: a member of the expected enum, a bare string, or an object of another class,
  since the guard's first job is to tell these apart.
\<close>

datatype run_status =
  RunCreated | RunQueued | RunRunning | RunCancelling | RunSucceeded | RunFailed | RunCancelled

datatype task_status =
  TaskPending | TaskReady | TaskRunning | TaskCancelling | TaskSucceeded | TaskFailed
| TaskCancelled | TaskSkipped

datatype attempt_status =
  AttemptCreated | AttemptRunning | AttemptCancelling | AttemptSucceeded | AttemptFailed
| AttemptCancelled | AttemptTimedOut

fun run_status_value :: "run_status \<Rightarrow> string" where
  "run_status_value RunCreated = ''created''"
| "run_status_value RunQueued = ''queued''"
| "run_status_value RunRunning = ''running''"
| "run_status_value RunCancelling = ''cancelling''"
| "run_status_value RunSucceeded = ''succeeded''"
| "run_status_value RunFailed = ''failed''"
| "run_status_value RunCancelled = ''cancelled''"

fun task_status_value :: "task_status \<Rightarrow> string" where
  "task_status_value TaskPending = ''pending''"
| "task_status_value TaskReady = ''ready''"
| "task_status_value TaskRunning = ''running''"
| "task_status_value TaskCancelling = ''cancelling''"
| "task_status_value TaskSucceeded = ''succeeded''"
| "task_status_value TaskFailed = ''failed''"
| "task_status_value TaskCancelled = ''cancelled''"
| "task_status_value TaskSkipped = ''skipped''"

fun attempt_status_value :: "attempt_status \<Rightarrow> string" where
  "attempt_status_value AttemptCreated = ''created''"
| "attempt_status_value AttemptRunning = ''running''"
| "attempt_status_value AttemptCancelling = ''cancelling''"
| "attempt_status_value AttemptSucceeded = ''succeeded''"
| "attempt_status_value AttemptFailed = ''failed''"
| "attempt_status_value AttemptCancelled = ''cancelled''"
| "attempt_status_value AttemptTimedOut = ''timed_out''"

fun run_transitions :: "run_status \<Rightarrow> run_status set" where
  "run_transitions RunCreated = {RunQueued, RunFailed, RunCancelled}"
| "run_transitions RunQueued = {RunRunning, RunFailed, RunCancelled}"
| "run_transitions RunRunning = {RunSucceeded, RunFailed, RunCancelling}"
| "run_transitions RunCancelling = {RunCancelled, RunFailed}"
| "run_transitions RunSucceeded = {}"
| "run_transitions RunFailed = {}"
| "run_transitions RunCancelled = {}"

fun task_transitions :: "task_status \<Rightarrow> task_status set" where
  "task_transitions TaskPending = {TaskReady, TaskFailed, TaskCancelled, TaskSkipped}"
| "task_transitions TaskReady = {TaskRunning, TaskFailed, TaskCancelled, TaskSkipped}"
| "task_transitions TaskRunning = {TaskSucceeded, TaskFailed, TaskCancelling}"
| "task_transitions TaskCancelling = {TaskCancelled, TaskFailed}"
| "task_transitions TaskSucceeded = {}"
| "task_transitions TaskFailed = {}"
| "task_transitions TaskCancelled = {}"
| "task_transitions TaskSkipped = {}"

fun attempt_transitions :: "attempt_status \<Rightarrow> attempt_status set" where
  "attempt_transitions AttemptCreated = {AttemptRunning, AttemptFailed, AttemptCancelled}"
| "attempt_transitions AttemptRunning =
     {AttemptSucceeded, AttemptFailed, AttemptCancelling, AttemptTimedOut}"
| "attempt_transitions AttemptCancelling = {AttemptCancelled, AttemptFailed}"
| "attempt_transitions AttemptSucceeded = {}"
| "attempt_transitions AttemptFailed = {}"
| "attempt_transitions AttemptCancelled = {}"
| "attempt_transitions AttemptTimedOut = {}"

definition terminal_run_statuses :: "run_status set" where
  "terminal_run_statuses = {RunSucceeded, RunFailed, RunCancelled}"

definition terminal_task_statuses :: "task_status set" where
  "terminal_task_statuses = {TaskSucceeded, TaskFailed, TaskCancelled, TaskSkipped}"

definition terminal_attempt_statuses :: "attempt_status set" where
  "terminal_attempt_statuses = {AttemptSucceeded, AttemptFailed, AttemptCancelled, AttemptTimedOut}"

lemmas terminal_defs =
  terminal_run_statuses_def terminal_task_statuses_def terminal_attempt_statuses_def

subsection \<open>Status arguments\<close>

datatype 's status_val = Member 's | RawStr string | OtherObj string

text \<open>What pydantic makes of a status field: a member, or a string naming one.\<close>

definition coerce_status :: "('s \<times> string) list \<Rightarrow> 's status_val \<Rightarrow> 's option" where
  "coerce_status members v =
     (case v of Member s \<Rightarrow> Some s
      | RawStr w \<Rightarrow> map_option fst (find (\<lambda>(s, n). n = w) members)
      | OtherObj n \<Rightarrow> None)"

lemma coerce_status_Member [simp]: "coerce_status ms (Member s) = Some s"
  by (simp add: coerce_status_def)

definition run_members :: "(run_status \<times> string) list" where
  "run_members = map (\<lambda>s. (s, run_status_value s))
     [RunCreated, RunQueued, RunRunning, RunCancelling, RunSucceeded, RunFailed, RunCancelled]"

definition task_members :: "(task_status \<times> string) list" where
  "task_members = map (\<lambda>s. (s, task_status_value s))
     [TaskPending, TaskReady, TaskRunning, TaskCancelling, TaskSucceeded, TaskFailed,
      TaskCancelled, TaskSkipped]"

definition attempt_members :: "(attempt_status \<times> string) list" where
  "attempt_members = map (\<lambda>s. (s, attempt_status_value s))
     [AttemptCreated, AttemptRunning, AttemptCancelling, AttemptSucceeded, AttemptFailed,
      AttemptCancelled, AttemptTimedOut]"

subsection \<open>Errors of the lifecycle contracts\<close>

datatype violation =
  FieldConstraint string
| UpdatedBeforeCreated
| StartedBeforeCreated
| UpdatedBeforeStarted
| CompletedBeforeStart
| UpdatedBeforeCompleted
| TerminalWithoutCompletion
| CompletionWithoutTerminal
| BlankReason
| MissingStartedAt
| ForbiddenStartedAt
| CancellationPairIncomplete
| CancellationMissing
| FailedCleanupWithoutStart
| CancellationBeforeCreated
| CancellationBeforeStarted
| CancellationAfterUpdated
| CancellationAfterCompleted
| CancellationForbidden
| SelfDependency
| DuplicateDependency

datatype status_role = CurrentRole | TargetRole

datatype life_error =
  StatusTypeMismatch status_role string
| TerminalImmutable string
| IllegalTransition string string
| NaiveTransitionTime
| TransitionTimePrecedesUpdate
| ReasonRequired
| ValidationFailed violation

subsection \<open>The transition guard\<close>

definition ensure_status_type :: "status_role \<Rightarrow> 's status_val \<Rightarrow> life_error option" where
  "ensure_status_type role v =
     (case v of Member s \<Rightarrow> None
      | RawStr w \<Rightarrow> Some (StatusTypeMismatch role ''str'')
      | OtherObj n \<Rightarrow> Some (StatusTypeMismatch role n))"

lemma ensure_status_type_None [simp]: "ensure_status_type role v = None \<longleftrightarrow> (\<exists>s. v = Member s)"
  by (cases v) (auto simp: ensure_status_type_def)

lemma ensure_status_type_Member [simp]: "ensure_status_type role (Member s) = None"
  by (simp add: ensure_status_type_def)

definition ensure_legal_transition ::
  "('s \<Rightarrow> string) \<Rightarrow> ('s \<Rightarrow> 's set) \<Rightarrow> 's set \<Rightarrow> 's status_val \<Rightarrow> 's status_val \<Rightarrow> life_error option"
where
  "ensure_legal_transition name legal_transitions terminal_statuses current target =
     and_then (ensure_status_type CurrentRole current)
    (and_then (ensure_status_type TargetRole target)
     (case (current, target) of
        (Member c, Member t) \<Rightarrow>
          checks [(c \<in> terminal_statuses, TerminalImmutable (name c)),
                  (t \<notin> legal_transitions c, IllegalTransition (name c) (name t))]
      | _ \<Rightarrow> None))"

lemma ensure_legal_transition_None [simp]:
  "ensure_legal_transition name legal terminals c t = None \<longleftrightarrow>
     (\<exists>s s'. c = Member s \<and> t = Member s' \<and> s \<notin> terminals \<and> s' \<in> legal s)"
  by (cases c; cases t) (auto simp: ensure_legal_transition_def ensure_status_type_def)

subsection \<open>The tables as a well-founded order\<close>

text \<open>
  Every legal transition strictly decreases a rank, so a lifecycle cannot cycle; the rank of
  the initial state bounds the number of transitions of any record.
\<close>

fun run_rank :: "run_status \<Rightarrow> nat" where
  "run_rank RunCreated = 4"
| "run_rank RunQueued = 3"
| "run_rank RunRunning = 2"
| "run_rank RunCancelling = 1"
| "run_rank _ = 0"

fun task_rank :: "task_status \<Rightarrow> nat" where
  "task_rank TaskPending = 4"
| "task_rank TaskReady = 3"
| "task_rank TaskRunning = 2"
| "task_rank TaskCancelling = 1"
| "task_rank _ = 0"

fun attempt_rank :: "attempt_status \<Rightarrow> nat" where
  "attempt_rank AttemptCreated = 3"
| "attempt_rank AttemptRunning = 2"
| "attempt_rank AttemptCancelling = 1"
| "attempt_rank _ = 0"

lemma run_rank_decreases: "t \<in> run_transitions s \<Longrightarrow> run_rank t < run_rank s"
  by (cases s) auto

lemma task_rank_decreases: "t \<in> task_transitions s \<Longrightarrow> task_rank t < task_rank s"
  by (cases s) auto

lemma attempt_rank_decreases: "t \<in> attempt_transitions s \<Longrightarrow> attempt_rank t < attempt_rank s"
  by (cases s) auto

lemma run_terminal_iff: "s \<in> terminal_run_statuses \<longleftrightarrow> run_transitions s = {}"
  by (cases s) (auto simp: terminal_defs)

lemma task_terminal_iff: "s \<in> terminal_task_statuses \<longleftrightarrow> task_transitions s = {}"
  by (cases s) (auto simp: terminal_defs)

lemma attempt_terminal_iff: "s \<in> terminal_attempt_statuses \<longleftrightarrow> attempt_transitions s = {}"
  by (cases s) (auto simp: terminal_defs)

end
