(* ===== verification/Json_Values.thy ===== *)
theory Json_Values
  imports Complex_Main Prelude
begin

text \<open>
  \<^verbatim>\<open>src/core/contracts/base.py\<close>: the JSON values the contracts carry. A Python value is a
  \<open>pyval\<close>; \<open>VDict\<close>/\<open>VList\<close> are the mutable containers and \<open>VProxy\<close>/\<open>VTuple\<close> the frozen ones
  (\<open>MappingProxyType\<close>, \<open>tuple\<close>). Mappings are association lists in insertion order. A float is a
  finite number or one of the values \<open>math.isfinite\<close> rejects.
\<close>

datatype pyfloat = Finite rat | PosInf | NegInf | NaN

definition is_finite :: "pyfloat \<Rightarrow> bool" where
  "is_finite x = (case x of Finite q \<Rightarrow> True | _ \<Rightarrow> False)"

datatype pyval =
  VNone
| VBool bool
| VInt int
| VFloat pyfloat
| VStr string
| VBytes string
| VList "pyval list"
| VTuple "pyval list"
| VDict "(string \<times> pyval) list"
| VProxy "(string \<times> pyval) list"

subsection \<open>Thaw, freeze, serialize\<close>

text \<open>Each function is paired with its loop over the items of a mapping and over a sequence.\<close>

fun thaw_value :: "pyval \<Rightarrow> pyval"
  and thaw_items :: "(string \<times> pyval) list \<Rightarrow> (string \<times> pyval) list"
  and thaw_list :: "pyval list \<Rightarrow> pyval list" where
  "thaw_value (VDict kvs) = VDict (thaw_items kvs)"
| "thaw_value (VProxy kvs) = VDict (thaw_items kvs)"
| "thaw_value (VTuple vs) = VList (thaw_list vs)"
| "thaw_value v = v"
| "thaw_items [] = []"
| "thaw_items ((k, v) # kvs) = (k, thaw_value v) # thaw_items kvs"
| "thaw_list [] = []"
| "thaw_list (v # vs) = thaw_value v # thaw_list vs"

datatype freeze_error = NumberNotFinite

fun freeze_value :: "pyval \<Rightarrow> freeze_error + pyval"
  and freeze_items :: "(string \<times> pyval) list \<Rightarrow> freeze_error + (string \<times> pyval) list"
  and freeze_list :: "pyval list \<Rightarrow> freeze_error + pyval list" where
  "freeze_value (VDict kvs) = bind_result (freeze_items kvs) (\<lambda>ks. Inr (VProxy ks))"
| "freeze_value (VList vs) = bind_result (freeze_list vs) (\<lambda>ws. Inr (VTuple ws))"
| "freeze_value (VFloat x) = (if is_finite x then Inr (VFloat x) else Inl NumberNotFinite)"
| "freeze_value v = Inr v"
| "freeze_items [] = Inr []"
| "freeze_items ((k, v) # kvs) =
     bind_result (freeze_value v) (\<lambda>w. bind_result (freeze_items kvs) (\<lambda>ks. Inr ((k, w) # ks)))"
| "freeze_list [] = Inr []"
| "freeze_list (v # vs) =
     bind_result (freeze_value v) (\<lambda>w. bind_result (freeze_list vs) (\<lambda>ws. Inr (w # ws)))"

fun serialize_value :: "pyval \<Rightarrow> pyval"
  and serialize_items :: "(string \<times> pyval) list \<Rightarrow> (string \<times> pyval) list"
  and serialize_list :: "pyval list \<Rightarrow> pyval list" where
  "serialize_value (VDict kvs) = VDict (serialize_items kvs)"
| "serialize_value (VProxy kvs) = VDict (serialize_items kvs)"
| "serialize_value (VTuple vs) = VList (serialize_list vs)"
| "serialize_value v = v"
| "serialize_items [] = []"
| "serialize_items ((k, v) # kvs) = (k, serialize_value v) # serialize_items kvs"
| "serialize_list [] = []"
| "serialize_list (v # vs) = serialize_value v # serialize_list vs"

text \<open>The object-level entry points, on the items of a mapping.\<close>

definition freeze_json_object :: "(string \<times> pyval) list \<Rightarrow> freeze_error + pyval" where
  "freeze_json_object kvs = bind_result (freeze_items kvs) (\<lambda>ks. Inr (VProxy ks))"

definition serialize_json_object :: "pyval \<Rightarrow> pyval" where
  "serialize_json_object v =
     (case v of VProxy kvs \<Rightarrow> VDict (serialize_items kvs)
      | VDict kvs \<Rightarrow> VDict (serialize_items kvs) | _ \<Rightarrow> v)"

text \<open>
  Validation of a \<open>JsonObject\<close> field: thaw (the before-validator), pydantic's check that the
  value is a mapping to JSON values, freeze (the after-validator).
\<close>

fun json_shaped :: "pyval \<Rightarrow> bool"
  and json_shaped_items :: "(string \<times> pyval) list \<Rightarrow> bool"
  and json_shaped_list :: "pyval list \<Rightarrow> bool" where
  "json_shaped (VDict kvs) = json_shaped_items kvs"
| "json_shaped (VList vs) = json_shaped_list vs"
| "json_shaped VNone = True"
| "json_shaped (VBool b) = True"
| "json_shaped (VInt i) = True"
| "json_shaped (VFloat x) = True"
| "json_shaped (VStr s) = True"
| "json_shaped (VBytes s) = False"
| "json_shaped (VTuple vs) = False"
| "json_shaped (VProxy kvs) = False"
| "json_shaped_items [] = True"
| "json_shaped_items ((k, v) # kvs) = (json_shaped v \<and> json_shaped_items kvs)"
| "json_shaped_list [] = True"
| "json_shaped_list (v # vs) = (json_shaped v \<and> json_shaped_list vs)"

definition validate_json_object :: "pyval \<Rightarrow> pyval option" where
  "validate_json_object v =
     (case thaw_value v of
        VDict kvs \<Rightarrow>
          if json_shaped_items kvs
          then (case freeze_json_object kvs of Inr w \<Rightarrow> Some w | Inl e \<Rightarrow> None)
          else None
      | _ \<Rightarrow> None)"

subsection \<open>Round trips\<close>

lemma serialize_freeze:
  shows "json_shaped v \<Longrightarrow> freeze_value v = Inr w \<Longrightarrow> serialize_value w = v"
    and "json_shaped_items kvs \<Longrightarrow> freeze_items kvs = Inr ks \<Longrightarrow> serialize_items ks = kvs"
    and "json_shaped_list vs \<Longrightarrow> freeze_list vs = Inr ws \<Longrightarrow> serialize_list ws = vs"
  by (induction v and kvs and vs arbitrary: w and ks and ws
      rule: json_shaped_json_shaped_items_json_shaped_list.induct)
    (auto split: if_splits)

lemma thaw_freeze:
  shows "json_shaped v \<Longrightarrow> freeze_value v = Inr w \<Longrightarrow> thaw_value w = v"
    and "json_shaped_items kvs \<Longrightarrow> freeze_items kvs = Inr ks \<Longrightarrow> thaw_items ks = kvs"
    and "json_shaped_list vs \<Longrightarrow> freeze_list vs = Inr ws \<Longrightarrow> thaw_list ws = vs"
  by (induction v and kvs and vs arbitrary: w and ks and ws
      rule: json_shaped_json_shaped_items_json_shaped_list.induct)
    (auto split: if_splits)

lemma thaw_json_shaped:
  shows "json_shaped v \<Longrightarrow> thaw_value v = v"
    and "json_shaped_items kvs \<Longrightarrow> thaw_items kvs = kvs"
    and "json_shaped_list vs \<Longrightarrow> thaw_list vs = vs"
  by (induction v and kvs and vs rule: json_shaped_json_shaped_items_json_shaped_list.induct)
    auto


lemma json_shaped_thaw_freeze_items:
  "json_shaped_items kvs \<Longrightarrow> freeze_items kvs = Inr ks \<Longrightarrow> thaw_items ks = kvs"
  by (rule thaw_freeze(2))

lemma validate_json_object_Some:
  "validate_json_object v = Some w \<longleftrightarrow>
     (\<exists>kvs ks. thaw_value v = VDict kvs \<and> json_shaped_items kvs \<and> freeze_items kvs = Inr ks \<and>
        w = VProxy ks)"
  by (auto simp: validate_json_object_def freeze_json_object_def
      split: pyval.splits if_splits sum.splits)

text \<open>A validated object validates again to itself: dumping and revalidating loses nothing.\<close>

lemma validate_json_object_idem:
  "validate_json_object v = Some w \<Longrightarrow> validate_json_object w = Some w"
  by (auto simp: validate_json_object_Some thaw_freeze(2))

lemma serialize_validated:
  "validate_json_object v = Some w \<Longrightarrow> serialize_json_object w = thaw_value v"
  by (auto simp: validate_json_object_Some serialize_json_object_def serialize_freeze(2))

end
