(* ===== verification/Contract_Base.thy ===== *)
theory Contract_Base
  imports Json_Values
begin

text \<open>
  \<^verbatim>\<open>src/core/contracts/base.py\<close>: the constrained string types, the duplicate test and the
  error of a contract's constructor. A constructor raises either because a field breaks its
  declared constraint (\<open>FieldError\<close> with the field's name) or because a validator of the model
  raises (\<open>RuleError\<close> with its message).
\<close>

datatype contract_error = FieldError string | RuleError string

text \<open>\<open>ContractId\<close>, \<open>Version\<close>, \<open>IdempotencyKey\<close> of \<^verbatim>\<open>src/core/contracts/base.py\<close>.\<close>

definition contract_id_ok :: "string \<Rightarrow> bool" where
  "contract_id_ok s = (1 \<le> length s \<and> length s \<le> 255)"

definition version_ok :: "string \<Rightarrow> bool" where
  "version_ok s = (1 \<le> length s \<and> length s \<le> 100)"

definition idempotency_key_ok :: "string \<Rightarrow> bool" where
  "idempotency_key_ok s = (1 \<le> length s \<and> length s \<le> 512)"

definition optional_text_ok :: "string option \<Rightarrow> bool" where
  "optional_text_ok m = (case m of None \<Rightarrow> True | Some s \<Rightarrow> 1 \<le> length s)"

lemma optional_text_ok_simps [simp]:
  "optional_text_ok None" "optional_text_ok (Some s) = (s \<noteq> [])"
  by (cases s; simp add: optional_text_ok_def)+

text \<open>\<open>require_unique\<close> and the duplicate tests of the validators: \<open>len(xs) != len(set(xs))\<close>.\<close>

definition require_unique :: "'a list \<Rightarrow> bool" where
  "require_unique xs = (length xs = card (set xs))"

lemma require_unique_distinct [simp]: "require_unique xs = distinct xs"
  by (auto simp: require_unique_def dest: distinct_card card_distinct sym)

definition optional_id_ok :: "string option \<Rightarrow> bool" where
  "optional_id_ok m = (case m of None \<Rightarrow> True | Some s \<Rightarrow> contract_id_ok s)"

lemma optional_id_ok_simps [simp]:
  "optional_id_ok None" "optional_id_ok (Some s) = contract_id_ok s"
  by (simp_all add: optional_id_ok_def)

definition is_hex_lower :: "char \<Rightarrow> bool" where
  "is_hex_lower c = (is_digit c \<or> (97 \<le> code c \<and> code c \<le> 102))"

definition content_sha256_ok :: "string \<Rightarrow> bool" where
  "content_sha256_ok s = (length s = 64 \<and> list_all is_hex_lower s)"

text \<open>A required text: \<open>Field(min_length=1)\<close> alone, and with a bound.\<close>

definition text_ok :: "nat \<Rightarrow> string \<Rightarrow> bool" where
  "text_ok n s = (1 \<le> length s \<and> length s \<le> n)"

end
