(* ===== verification/Lifecycle.thy ===== *)
theory Lifecycle
  imports Contract_States Contract_Base
begin

text \<open>
  \<^verbatim>\<open>src/core/contracts/lifecycle.py\<close>: the shared lifecycle validation and the \<open>Run\<close> record.
  \<open>life\<close> holds the fields \<open>Run\<close>, \<open>Task\<close> and \<open>Attempt\<close> have in common; each contract extends it.
  \<open>run_model_validate\<close> is \<open>Run.model_validate\<close>: pydantic's field constraints, in field order,
  then the model validator. The interface \<open>lifecycle_machine\<close> states what a lifecycle contract
  promises to its callers; \<open>Run\<close> is its first implementation.
\<close>

subsection \<open>Times, reasons, and field constraints\<close>

datatype py_datetime = Naive int | Aware instant

record 's life =
  lf_status :: "'s status_val"
  lf_created_at :: instant
  lf_updated_at :: instant
  lf_started_at :: "instant option"
  lf_completed_at :: "instant option"
  lf_status_reason :: "string option"
  lf_cancel_at :: "instant option"
  lf_cancel_reason :: "string option"

subsection \<open>Shared validation\<close>

definition validate_transition_time :: "py_datetime \<Rightarrow> instant \<Rightarrow> life_error + instant" where
  "validate_transition_time at_time updated_at =
     (case at_time of Naive n \<Rightarrow> Inl NaiveTransitionTime
      | Aware a \<Rightarrow> if a < updated_at then Inl TransitionTimePrecedesUpdate else Inr a)"

lemma validate_transition_time_Inr [simp]:
  "validate_transition_time at_time u = Inr a \<longleftrightarrow> at_time = Aware a \<and> u \<le> a"
  by (cases at_time) (auto simp: validate_transition_time_def)

definition reason_blank :: "string option \<Rightarrow> bool" where
  "reason_blank reason = (case reason of None \<Rightarrow> True | Some r \<Rightarrow> blank r)"

definition require_reason :: "string option \<Rightarrow> life_error + string" where
  "require_reason reason =
     (case reason of None \<Rightarrow> Inl ReasonRequired
      | Some r \<Rightarrow> if blank r then Inl ReasonRequired else Inr (py_strip r))"

lemma reason_blank_simps [simp]: "reason_blank None" "reason_blank (Some r) = blank r"
  by (simp_all add: reason_blank_def)

lemma require_reason_Inr [simp]:
  "require_reason reason = Inr w \<longleftrightarrow> (\<exists>r. reason = Some r \<and> \<not> blank r \<and> w = py_strip r)"
  by (cases reason) (auto simp: require_reason_def)

text \<open>\<open>updates["status_reason"] = _require_reason(reason)\<close>, evaluated only under its guard.\<close>

definition reason_for :: "bool \<Rightarrow> string option \<Rightarrow> life_error + string" where
  "reason_for needed reason = (if needed then require_reason reason else Inr [])"

lemma reason_for_blank: "reason_for True reason = Inr w \<Longrightarrow> \<not> blank w"
  by (auto simp: reason_for_def)

definition validate_lifecycle_timestamps ::
  "instant \<Rightarrow> instant \<Rightarrow> instant option \<Rightarrow> instant option \<Rightarrow> bool \<Rightarrow> violation option" where
  "validate_lifecycle_timestamps created updated started completed is_terminal = checks
     [(updated < created, UpdatedBeforeCreated),
      (some_and (\<lambda>s. s < created) started, StartedBeforeCreated),
      (some_and (\<lambda>s. updated < s) started, UpdatedBeforeStarted),
      (some_and (\<lambda>c. c < (case started of None \<Rightarrow> created | Some s \<Rightarrow> s)) completed,
         CompletedBeforeStart),
      (some_and (\<lambda>c. updated < c) completed, UpdatedBeforeCompleted),
      (is_terminal \<and> completed = None, TerminalWithoutCompletion),
      (\<not> is_terminal \<and> completed \<noteq> None, CompletionWithoutTerminal)]"

definition validate_cancellation_provenance ::
  "instant \<Rightarrow> instant \<Rightarrow> instant option \<Rightarrow> instant option \<Rightarrow> instant option \<Rightarrow> string option \<Rightarrow>
   bool \<Rightarrow> bool \<Rightarrow> bool \<Rightarrow> violation option" where
  "validate_cancellation_provenance created updated started completed cancel_at cancel_reason
       required allowed failed_cleanup =
     and_then (checks
       [((cancel_at \<noteq> None) \<noteq> (cancel_reason \<noteq> None), CancellationPairIncomplete),
        (required \<and> cancel_at = None, CancellationMissing)])
     (case cancel_at of None \<Rightarrow> None
      | Some q \<Rightarrow> checks
          [(reason_blank cancel_reason, BlankReason),
           (failed_cleanup \<and> started = None, FailedCleanupWithoutStart),
           (q < created, CancellationBeforeCreated),
           (some_and (\<lambda>s. q < s) started, CancellationBeforeStarted),
           (updated < q, CancellationAfterUpdated),
           (some_and (\<lambda>c. c < q) completed, CancellationAfterCompleted),
           (\<not> allowed, CancellationForbidden)])"

lemmas lifecycle_checks [contract_defs] =
  validate_lifecycle_timestamps_def validate_cancellation_provenance_def

subsection \<open>The interface of a lifecycle contract\<close>

text \<open>
  Callers see a lifecycle record through two operations, \<open>transition_to\<close> and
  \<open>request_cancellation\<close>. A history is a sequence of such calls, stopped by the first exception.
\<close>

datatype 's life_event =
  Transition "'s status_val" py_datetime "string option"
| Cancel py_datetime string

definition life_step ::
  "('r \<Rightarrow> 's status_val \<Rightarrow> py_datetime \<Rightarrow> string option \<Rightarrow> life_error + 'r) \<Rightarrow>
   ('r \<Rightarrow> py_datetime \<Rightarrow> string \<Rightarrow> life_error + 'r) \<Rightarrow> 'r \<Rightarrow> 's life_event \<Rightarrow> life_error + 'r" where
  "life_step transition cancel r e =
     (case e of Transition t at_time why \<Rightarrow> transition r t at_time why 
      | Cancel at_time why \<Rightarrow> cancel r at_time why)"

fun life_run :: "('r \<Rightarrow> 'e \<Rightarrow> life_error + 'r) \<Rightarrow> 'r \<Rightarrow> 'e list \<Rightarrow> life_error + 'r" where
  "life_run step r [] = Inr r"
| "life_run step r (e # es) = bind_result (step r e) (\<lambda>r'. life_run step r' es)"

fun transition_count :: "'s life_event list \<Rightarrow> nat" where
  "transition_count [] = 0"
| "transition_count (Transition t at_time why # es) = Suc (transition_count es)"
| "transition_count (Cancel at_time why # es) = transition_count es"

locale lifecycle_machine =
  fixes transition :: "'r \<Rightarrow> 's status_val \<Rightarrow> py_datetime \<Rightarrow> string option \<Rightarrow> life_error + 'r"
    and cancel :: "'r \<Rightarrow> py_datetime \<Rightarrow> string \<Rightarrow> life_error + 'r"
    and status_of :: "'r \<Rightarrow> 's status_val"
    and updated_of :: "'r \<Rightarrow> instant"
    and identity_of :: "'r \<Rightarrow> 'i"
    and valid :: "'r \<Rightarrow> bool"
    and legal :: "'s \<Rightarrow> 's set"
    and rank :: "'s \<Rightarrow> nat"
  assumes valid_member: "valid r \<Longrightarrow> \<exists>s. status_of r = Member s"
    and transition_valid: "transition r t at_time why = Inr r' \<Longrightarrow> valid r'"
    and transition_legal: "transition r t at_time why = Inr r' \<Longrightarrow> status_of r = Member s \<Longrightarrow>
      \<exists>s'. status_of r' = Member s' \<and> t = Member s' \<and> s' \<in> legal s"
    and transition_time: "transition r t at_time why = Inr r' \<Longrightarrow> updated_of r \<le> updated_of r'"
    and transition_identity: "transition r t at_time why = Inr r' \<Longrightarrow> identity_of r' = identity_of r"
    and cancel_cases: "valid r \<Longrightarrow> cancel r at_time w = Inr r' \<Longrightarrow>
      r' = r \<or> (\<exists>t. transition r (Member t) at_time (Some w) = Inr r')"
    and rank_legal: "s' \<in> legal s \<Longrightarrow> rank s' < rank s"
begin

definition rank_of :: "'r \<Rightarrow> nat" where
  "rank_of r = (case status_of r of Member s \<Rightarrow> rank s | _ \<Rightarrow> 0)"

lemma transition_rank:
  assumes "valid r" "transition r t at_time why = Inr r'"
  shows "rank_of r' < rank_of r"
proof -
  obtain s where s: "status_of r = Member s" using valid_member assms(1) by blast
  from transition_legal[OF assms(2) s] rank_legal s show ?thesis
    by (auto simp: rank_of_def)
qed

lemma step_cases:
  assumes "valid r" "life_step transition cancel r e = Inr r'"
  obtains "r' = r" "transition_count [e] = 0"
  | t at_time why where "transition r t at_time why = Inr r'"
  using assms by (cases e) (auto simp: life_step_def dest: cancel_cases)

lemma step_valid:
  assumes "valid r" "life_step transition cancel r e = Inr r'"
  shows "valid r'" and "updated_of r \<le> updated_of r'" and "identity_of r' = identity_of r"
    and "transition_count [e] + rank_of r' \<le> rank_of r"
proof -
  have le1: "transition_count [e] \<le> Suc 0" by (cases e) auto
  have "valid r' \<and> updated_of r \<le> updated_of r' \<and> identity_of r' = identity_of r \<and>
      transition_count [e] + rank_of r' \<le> rank_of r"
    using assms
  proof (cases rule: step_cases)
    case 1
    with assms show ?thesis by simp
  next
    case (2 t at_time why)
    with assms(1) le1 show ?thesis
      using transition_valid transition_time transition_rank transition_identity by fastforce
  qed
  then show "valid r'" "updated_of r \<le> updated_of r'" "identity_of r' = identity_of r"
    "transition_count [e] + rank_of r' \<le> rank_of r" by auto
qed

text \<open>A history keeps the record valid, moves time forward and spends rank on each transition.\<close>

lemma history:
  "valid r \<Longrightarrow> life_run (life_step transition cancel) r es = Inr r' \<Longrightarrow>
     valid r' \<and> updated_of r \<le> updated_of r' \<and> identity_of r' = identity_of r \<and>
     transition_count es + rank_of r' \<le> rank_of r"
proof (induction es arbitrary: r)
  case (Cons e es)
  then obtain r1 where r1: "life_step transition cancel r e = Inr r1"
      "life_run (life_step transition cancel) r1 es = Inr r'"
    by auto
  note step = step_valid[OF Cons.prems(1) r1(1)]
  have "transition_count (e # es) = transition_count [e] + transition_count es"
    by (cases e) auto
  with Cons.IH[OF step(1) r1(2)] step show ?case by auto
qed simp

text \<open>A record with no legal successor is final: every history that returns leaves it as it is.\<close>

lemma terminal_final:
  assumes "valid r" "status_of r = Member s" "legal s = {}"
  shows "life_run (life_step transition cancel) r es = Inr r' \<Longrightarrow> r' = r"
proof (induction es)
  case (Cons e es)
  then obtain r1 where r1: "life_step transition cancel r e = Inr r1"
      "life_run (life_step transition cancel) r1 es = Inr r'"
    by auto
  have "r1 = r"
    using step_cases[OF assms(1) r1(1)] transition_legal[OF _ assms(2)] assms(3) by (metis empty_iff)
  with Cons r1 show ?case by simp
qed simp

lemma terminal_rejects:
  assumes "valid r" "status_of r = Member s" "legal s = {}"
  shows "\<exists>e. transition r t at_time why = Inl e"
  using transition_legal[OF _ assms(2)] assms(3)
  by (metis empty_iff sumE)

end

subsection \<open>The Run contract\<close>

record run = "run_status life" +
  run_id :: string
  run_tenant_id :: string
  run_workflow_definition_id :: string
  run_workflow_definition_version :: string
  run_routing_policy_id :: string
  run_routing_policy_version :: string
  run_idempotency_key :: string
  run_requested_by :: string

definition run_field_violation :: "run \<Rightarrow> violation option" where
  "run_field_violation r = checks
     [(\<not> contract_id_ok (run_id r), FieldConstraint ''run_id''),
      (\<not> contract_id_ok (run_tenant_id r), FieldConstraint ''tenant_id''),
      (\<not> contract_id_ok (run_workflow_definition_id r), FieldConstraint ''workflow_definition_id''),
      (\<not> version_ok (run_workflow_definition_version r),
         FieldConstraint ''workflow_definition_version''),
      (\<not> contract_id_ok (run_routing_policy_id r), FieldConstraint ''routing_policy_id''),
      (\<not> version_ok (run_routing_policy_version r), FieldConstraint ''routing_policy_version''),
      (\<not> idempotency_key_ok (run_idempotency_key r), FieldConstraint ''idempotency_key''),
      (\<not> contract_id_ok (run_requested_by r), FieldConstraint ''requested_by''),
      (coerce_status run_members (lf_status r) = None, FieldConstraint ''status''),
      (\<not> optional_text_ok (lf_status_reason r), FieldConstraint ''status_reason''),
      (\<not> optional_text_ok (lf_cancel_reason r), FieldConstraint ''cancellation_reason'')]"

text \<open>\<open>Run.validate_lifecycle\<close>, for a record whose status is the member \<open>s\<close>.\<close>

definition run_validate_lifecycle :: "run_status \<Rightarrow> run \<Rightarrow> violation option" where
  "run_validate_lifecycle s r =
     and_then (validate_lifecycle_timestamps (lf_created_at r) (lf_updated_at r) (lf_started_at r)
                 (lf_completed_at r) (s \<in> terminal_run_statuses))
    (and_then (checks
       [(s \<in> {RunFailed, RunCancelled} \<and> reason_blank (lf_status_reason r), BlankReason),
        (s = RunCancelling \<and> reason_blank (lf_status_reason r), BlankReason),
        (s \<in> {RunRunning, RunCancelling, RunSucceeded} \<and> lf_started_at r = None, MissingStartedAt),
        (s \<in> {RunCreated, RunQueued} \<and> lf_started_at r \<noteq> None, ForbiddenStartedAt)])
     (validate_cancellation_provenance (lf_created_at r) (lf_updated_at r) (lf_started_at r)
        (lf_completed_at r) (lf_cancel_at r) (lf_cancel_reason r)
        (s \<in> {RunCancelling, RunCancelled}) (s \<in> {RunCancelling, RunCancelled, RunFailed})
        (s = RunFailed)))"

definition run_model_validate :: "run \<Rightarrow> violation + run" where
  "run_model_validate r =
     (case run_field_violation r of Some v \<Rightarrow> Inl v
      | None \<Rightarrow>
        (case coerce_status run_members (lf_status r) of
           None \<Rightarrow> Inl (FieldConstraint ''status'')
         | Some s \<Rightarrow> raise_or (run_validate_lifecycle s r) (r\<lparr>lf_status := Member s\<rparr>)))"

definition run_valid :: "run \<Rightarrow> bool" where
  "run_valid r \<longleftrightarrow> run_model_validate r = Inr r"

fun validated :: "violation + 'a \<Rightarrow> life_error + 'a" where
  "validated (Inl v) = Inl (ValidationFailed v)"
| "validated (Inr a) = Inr a"

lemma validated_Inr [simp]: "validated m = Inr a \<longleftrightarrow> m = Inr a"
  by (cases m) auto

text \<open>
  The dictionary of updates \<open>transition_to\<close> builds, applied to the record: status and
  \<open>updated_at\<close>, then each conditional entry in source order. \<open>why\<close> is the stripped reason.
\<close>

definition run_apply_updates :: "run \<Rightarrow> run_status \<Rightarrow> instant \<Rightarrow> string \<Rightarrow> run" where
  "run_apply_updates r target at_time why =
     (let r1 = r\<lparr>lf_status := Member target, lf_updated_at := at_time\<rparr>;
          r2 = (if target = RunRunning \<and> lf_started_at r = None
                then r1\<lparr>lf_started_at := Some at_time\<rparr> else r1);
          r3 = (if target \<in> terminal_run_statuses then r2\<lparr>lf_completed_at := Some at_time\<rparr> else r2);
          r4 = (if target \<in> {RunFailed, RunCancelled, RunCancelling}
                then r3\<lparr>lf_status_reason := Some why\<rparr> else r3)
      in (if target \<in> {RunCancelling, RunCancelled} \<and> lf_cancel_at r = None
          then r4\<lparr>lf_cancel_at := Some at_time, lf_cancel_reason := Some why\<rparr> else r4))"

definition run_transition_to ::
  "run \<Rightarrow> run_status status_val \<Rightarrow> py_datetime \<Rightarrow> string option \<Rightarrow> life_error + run" where
  "run_transition_to r target at_time reason =
     (case ensure_legal_transition run_status_value run_transitions terminal_run_statuses
             (lf_status r) target of
        Some e \<Rightarrow> Inl e
      | None \<Rightarrow>
        (case target of
           Member t \<Rightarrow>
             bind_result (validate_transition_time at_time (lf_updated_at r)) (\<lambda>a.
             bind_result (reason_for (t \<in> {RunFailed, RunCancelled, RunCancelling}) reason) (\<lambda>why.
             validated (run_model_validate (run_apply_updates r t a why))))
         | _ \<Rightarrow> Inl (StatusTypeMismatch TargetRole [])))"

definition run_request_cancellation :: "run \<Rightarrow> py_datetime \<Rightarrow> string \<Rightarrow> life_error + run" where
  "run_request_cancellation r at_time reason =
     (case ensure_status_type CurrentRole (lf_status r) of
        Some e \<Rightarrow> Inl e
      | None \<Rightarrow>
        bind_result (validated (run_model_validate r)) (\<lambda>v.
          (case lf_status v of
             Member s \<Rightarrow>
               if s \<in> {RunCancelling, RunCancelled} then Inr v
               else if s \<in> terminal_run_statuses then Inl (TerminalImmutable (run_status_value s))
               else run_transition_to v
                      (Member (if s = RunRunning then RunCancelling else RunCancelled))
                      at_time (Some reason)
           | _ \<Rightarrow> Inl (StatusTypeMismatch CurrentRole []))))"

lemmas run_defs [contract_defs] =
  run_field_violation_def run_validate_lifecycle_def run_apply_updates_def


subsection \<open>Validity of runs\<close>

lemma run_model_validate_Inr:
  "run_model_validate r = Inr r' \<longleftrightarrow>
     (\<exists>s. coerce_status run_members (lf_status r) = Some s \<and> run_field_violation r = None \<and>
          run_validate_lifecycle s r = None \<and> r' = r\<lparr>lf_status := Member s\<rparr>)"
  by (auto simp: run_model_validate_def split: option.splits)

lemma run_field_violation_status [simp]:
  "run_field_violation r = None \<Longrightarrow> run_field_violation (r\<lparr>lf_status := Member s\<rparr>) = None"
  by (simp add: run_field_violation_def)

lemma run_validate_lifecycle_status [simp]:
  "run_validate_lifecycle s (r\<lparr>lf_status := v\<rparr>) = run_validate_lifecycle s r"
  by (simp add: run_validate_lifecycle_def)

lemma run_valid_iff:
  "run_valid r \<longleftrightarrow>
     (\<exists>s. lf_status r = Member s \<and> run_field_violation r = None \<and> run_validate_lifecycle s r = None)"
proof
  assume "run_valid r"
  then obtain s where s: "run_field_violation r = None" "run_validate_lifecycle s r = None"
      "r = r\<lparr>lf_status := Member s\<rparr>"
    by (auto simp: run_valid_def run_model_validate_Inr)
  from s(3) have "lf_status r = Member s" by (metis life.select_convs(1) life.surjective life.update_convs(1))
  with s show "\<exists>s. lf_status r = Member s \<and> run_field_violation r = None \<and>
      run_validate_lifecycle s r = None" by blast
qed (auto simp: run_valid_def run_model_validate_Inr)

lemma run_model_validate_valid: "run_model_validate r = Inr r' \<Longrightarrow> run_valid r'"
  by (auto simp: run_model_validate_Inr run_valid_iff)

text \<open>The updated record, field by field.\<close>

lemma run_apply_updates_select [simp]:
  "lf_status (run_apply_updates r t a why) = Member t"
  "lf_created_at (run_apply_updates r t a why) = lf_created_at r"
  "lf_updated_at (run_apply_updates r t a why) = a"
  "lf_started_at (run_apply_updates r t a why) =
     (if t = RunRunning \<and> lf_started_at r = None then Some a else lf_started_at r)"
  "lf_completed_at (run_apply_updates r t a why) =
     (if t \<in> terminal_run_statuses then Some a else lf_completed_at r)"
  "lf_status_reason (run_apply_updates r t a why) =
     (if t \<in> {RunFailed, RunCancelled, RunCancelling} then Some why else lf_status_reason r)"
  "lf_cancel_at (run_apply_updates r t a why) =
     (if t \<in> {RunCancelling, RunCancelled} \<and> lf_cancel_at r = None then Some a else lf_cancel_at r)"
  "lf_cancel_reason (run_apply_updates r t a why) =
     (if t \<in> {RunCancelling, RunCancelled} \<and> lf_cancel_at r = None then Some why
      else lf_cancel_reason r)"
  by (auto simp: run_apply_updates_def Let_def)

lemma run_apply_updates_identity [simp]:
  "run.more (run_apply_updates r t a why) = run.more r"
  "run_id (run_apply_updates r t a why) = run_id r"
  "run_tenant_id (run_apply_updates r t a why) = run_tenant_id r"
  "run_workflow_definition_id (run_apply_updates r t a why) = run_workflow_definition_id r"
  "run_workflow_definition_version (run_apply_updates r t a why) = run_workflow_definition_version r"
  "run_routing_policy_id (run_apply_updates r t a why) = run_routing_policy_id r"
  "run_routing_policy_version (run_apply_updates r t a why) = run_routing_policy_version r"
  "run_idempotency_key (run_apply_updates r t a why) = run_idempotency_key r"
  "run_requested_by (run_apply_updates r t a why) = run_requested_by r"
  by (auto simp: run_apply_updates_def Let_def)

lemma run_apply_updates_fields:
  assumes "run_field_violation r = None"
    and "t \<in> {RunFailed, RunCancelled, RunCancelling} \<Longrightarrow> why \<noteq> []"
  shows "run_field_violation (run_apply_updates r t a why) = None"
  using assms by (auto simp: run_field_violation_def)

lemma run_apply_updates_lifecycle:
  assumes "run_validate_lifecycle s r = None" "t \<in> run_transitions s" "lf_updated_at r \<le> a"
    and "t \<in> {RunFailed, RunCancelled, RunCancelling} \<Longrightarrow> \<not> blank why"
  shows "run_validate_lifecycle t (run_apply_updates r t a why) = None"
  using assms
  by (cases s; cases "lf_started_at r"; cases "lf_cancel_at r")
    (auto simp: run_validate_lifecycle_def lifecycle_checks terminal_defs)


subsection \<open>Operations of a valid run\<close>

lemma run_transition_Inr:
  "run_transition_to r t at_time reason = Inr r' \<longleftrightarrow>
     (\<exists>s s' a why. lf_status r = Member s \<and> t = Member s' \<and> s \<notin> terminal_run_statuses \<and>
        s' \<in> run_transitions s \<and> at_time = Aware a \<and> lf_updated_at r \<le> a \<and>
        reason_for (s' \<in> {RunFailed, RunCancelled, RunCancelling}) reason = Inr why \<and>
        run_model_validate (run_apply_updates r s' a why) = Inr r')"
  by (auto simp: run_transition_to_def)

lemma run_apply_updates_valid:
  assumes "run_valid r" "lf_status r = Member s" "t \<in> run_transitions s" "lf_updated_at r \<le> a"
    and "t \<in> {RunFailed, RunCancelled, RunCancelling} \<Longrightarrow> \<not> blank why"
  shows "run_model_validate (run_apply_updates r t a why) = Inr (run_apply_updates r t a why)"
proof -
  have "run_field_violation (run_apply_updates r t a why) = None"
    using assms by (intro run_apply_updates_fields) (auto simp: run_valid_iff)
  moreover have "run_validate_lifecycle t (run_apply_updates r t a why) = None"
    using assms by (intro run_apply_updates_lifecycle[of s]) (auto simp: run_valid_iff)
  ultimately show ?thesis
    using run_valid_iff run_valid_def run_apply_updates_select(1) by metis
qed

lemma run_cancel_cases:
  assumes "run_valid r" "run_request_cancellation r at_time w = Inr r'"
  shows "r' = r \<or> (\<exists>t. run_transition_to r (Member t) at_time (Some w) = Inr r')"
  using assms
  by (auto simp: run_request_cancellation_def run_valid_def split: option.splits status_val.splits
      if_splits)

definition run_identity :: "run \<Rightarrow> string list" where
  "run_identity r =
     [run_id r, run_tenant_id r, run_workflow_definition_id r, run_workflow_definition_version r,
      run_routing_policy_id r, run_routing_policy_version r, run_idempotency_key r,
      run_requested_by r]"

interpretation run_machine: lifecycle_machine run_transition_to run_request_cancellation lf_status
  lf_updated_at run_identity run_valid run_transitions run_rank
proof
  show "run_valid r \<Longrightarrow> \<exists>s. lf_status r = Member s" for r by (auto simp: run_valid_iff)
  show "run_transition_to r t at_time why = Inr r' \<Longrightarrow> run_valid r'" for r t at_time why r'
    by (auto simp: run_transition_Inr dest: run_model_validate_valid)
  show "run_transition_to r t at_time why = Inr r' \<Longrightarrow> lf_status r = Member s \<Longrightarrow>
      \<exists>s'. lf_status r' = Member s' \<and> t = Member s' \<and> s' \<in> run_transitions s" for r t at_time why r' s
    by (auto simp: run_transition_Inr run_model_validate_Inr)
  show "run_transition_to r t at_time why = Inr r' \<Longrightarrow> lf_updated_at r \<le> lf_updated_at r'"
    for r t at_time why r'
    by (auto simp: run_transition_Inr run_model_validate_Inr)
  show "run_transition_to r t at_time why = Inr r' \<Longrightarrow> run_identity r' = run_identity r"
    for r t at_time why r'
    by (auto simp: run_transition_Inr run_model_validate_Inr run_identity_def)
  show "run_valid r \<Longrightarrow> run_request_cancellation r at_time w = Inr r' \<Longrightarrow>
      r' = r \<or> (\<exists>t. run_transition_to r (Member t) at_time (Some w) = Inr r')" for r at_time w r'
    by (rule run_cancel_cases)
  show "s' \<in> run_transitions s \<Longrightarrow> run_rank s' < run_rank s" for s' s
    by (rule run_rank_decreases)
qed


subsection \<open>Properties of runs\<close>

definition run_example :: run where
  "run_example = \<lparr>lf_status = Member RunRunning, lf_created_at = 10, lf_updated_at = 30,
     lf_started_at = Some 20, lf_completed_at = None, lf_status_reason = None,
     lf_cancel_at = None, lf_cancel_reason = None,
     run_id = ''run-1'', run_tenant_id = ''t'', run_workflow_definition_id = ''wf'',
     run_workflow_definition_version = ''1'', run_routing_policy_id = ''rp'',
     run_routing_policy_version = ''1'', run_idempotency_key = ''k'', run_requested_by = ''u''\<rparr>"

lemma run_example_valid: "run_valid run_example"
  by (simp add: run_valid_iff run_example_def run_field_violation_def run_validate_lifecycle_def
      lifecycle_checks terminal_defs contract_id_ok_def version_ok_def idempotency_key_ok_def)

lemma run_example_status [simp]: "lf_status run_example = Member RunRunning"
    "lf_updated_at run_example = 30"
  by (simp_all add: run_example_def)

text \<open>
  C16: On a valid run, \<open>transition_to\<close> returns exactly when the target is a legal successor of the
  current status, the time is aware and not before \<open>updated_at\<close>, and a reason is given where one
  is needed; the result is the run with precisely the documented updates. In particular no legal
  request is ever refused by the revalidation at the end, and no illegal one gets through.
\<close>

theorem run_transition_exact:
  assumes "run_valid r" and "lf_status r = Member s"
  shows "run_transition_to r (Member t) at_time reason = Inr r' \<longleftrightarrow>
     t \<in> run_transitions s \<and>
     (\<exists>a why. at_time = Aware a \<and> lf_updated_at r \<le> a \<and>
        reason_for (t \<in> {RunFailed, RunCancelled, RunCancelling}) reason = Inr why \<and>
        r' = run_apply_updates r t a why)"
proof -
  have "run_model_validate (run_apply_updates r t a why) = Inr r' \<longleftrightarrow> r' = run_apply_updates r t a why"
    if "t \<in> run_transitions s" "lf_updated_at r \<le> a"
      "reason_for (t \<in> {RunFailed, RunCancelled, RunCancelling}) reason = Inr why" for a why
    using run_apply_updates_valid[OF assms that(1,2)] that(3) reason_for_blank by fastforce
  moreover have "s \<notin> terminal_run_statuses" if "t \<in> run_transitions s"
    using that by (auto simp: run_terminal_iff)
  ultimately show ?thesis using assms(2) by (auto simp: run_transition_Inr)
qed

theorem run_transition_exact_witness:
  "run_transition_to run_example (Member RunFailed) (Aware 40) (Some '' timeout '') =
     Inr (run_apply_updates run_example RunFailed 40 ''timeout'')"
proof -
  have "py_strip '' timeout '' = ''timeout''" by code_simp
  moreover have "\<not> blank '' timeout ''" by code_simp
  ultimately show ?thesis
    using run_transition_exact[OF run_example_valid run_example_status(1), of RunFailed "Aware 40"
        "Some '' timeout ''" "run_apply_updates run_example RunFailed 40 ''timeout''"]
    by (auto simp: reason_for_def)
qed

text \<open>
  Whatever sequence of transitions and cancellation requests a valid run goes through, it stays
  valid, its clock never goes back, its identity never changes, and it makes at most four
  transitions before it is final.
\<close>

theorem run_history:
  assumes "run_valid r"
    and "life_run (life_step run_transition_to run_request_cancellation) r es = Inr r'"
  shows "run_valid r' \<and> lf_updated_at r \<le> lf_updated_at r' \<and> run_identity r' = run_identity r \<and>
    transition_count es \<le> 4"
proof -
  have "run_rank s \<le> 4" for s by (cases s) auto
  then have "run_machine.rank_of r \<le> 4"
    by (simp add: run_machine.rank_of_def split: status_val.splits)
  with run_machine.history[OF assms] show ?thesis by auto
qed

definition run_example_events :: "run_status life_event list" where
  "run_example_events =
     [Cancel (Aware 40) ''stop'', Cancel (Aware 1) ''again'',
      Transition (Member RunCancelled) (Aware 50) (Some ''done'')]"

lemma run_example_run:
  "isl (life_run (life_step run_transition_to run_request_cancellation) run_example
     run_example_events) = False"
  by code_simp

theorem run_history_witness:
  "\<exists>r'. life_run (life_step run_transition_to run_request_cancellation) run_example
          run_example_events = Inr r' \<and> run_valid r' \<and> lf_updated_at run_example \<le> lf_updated_at r'"
  using run_example_run run_history[OF run_example_valid]
  by (metis isl_def sum.collapse(2))

text \<open>
  Cancelling a valid run either is a no-op on a run already cancelling or cancelled, or moves
  an unfinished run: a running one to cancelling, one not yet started straight to cancelled, with
  the cancellation provenance recorded. Repeating the request afterwards, at any time and for any
  reason, returns the same record.
\<close>

theorem run_cancellation_idempotent:
  assumes "run_valid r" and "run_request_cancellation r at_time why = Inr r'"
  shows "(lf_status r' = Member RunCancelling \<or> lf_status r' = Member RunCancelled) \<and>
    lf_cancel_at r' \<noteq> None \<and> run_request_cancellation r' at_time' why' = Inr r'"
proof -
  have valid: "run_valid r'"
    using run_machine.cancel_cases[OF assms] assms(1) run_machine.transition_valid by blast
  obtain s where s: "lf_status r = Member s" using assms(1) by (auto simp: run_valid_iff)
  have status: "lf_status r' = Member RunCancelling \<or> lf_status r' = Member RunCancelled"
    using assms s run_machine.transition_legal[OF _ s]
    by (fastforce simp: run_request_cancellation_def run_valid_def split: if_splits)
  moreover have "lf_cancel_at r' \<noteq> None"
    using valid status by (auto simp: run_valid_iff run_validate_lifecycle_def lifecycle_checks)
  moreover have "run_request_cancellation r' at_time' why' = Inr r'"
    using valid status by (auto simp: run_request_cancellation_def run_valid_def)
  ultimately show ?thesis by blast
qed

theorem run_cancellation_idempotent_witness:
  "run_request_cancellation (run_apply_updates run_example RunCancelling 40 ''stop'') (Naive 0) [] =
     Inr (run_apply_updates run_example RunCancelling 40 ''stop'')"
proof -
  have "run_request_cancellation run_example (Aware 40) ''stop'' =
      Inr (run_apply_updates run_example RunCancelling 40 ''stop'')"
    by code_simp
  then show ?thesis using run_cancellation_idempotent[OF run_example_valid] by blast
qed

end
