(* ===== verification/Task_Lifecycle.thy ===== *)
theory Task_Lifecycle
  imports Lifecycle
begin

text \<open>
  \<^verbatim>\<open>src/core/contracts/task_lifecycle.py\<close>: the \<open>Task\<close> and \<open>Attempt\<close> contracts, over the shared
  lifecycle validation of theory \<open>Lifecycle\<close>. Both implement the interface \<open>lifecycle_machine\<close>.
\<close>

subsection \<open>The Task contract\<close>

record task = "task_status life" +
  task_id :: string
  task_run_id :: string
  task_key :: string
  task_type :: string
  task_objective :: string
  task_idempotency_key :: string
  task_dependency_ids :: "string list"
  task_assigned_worker_type :: "string option"
  task_input :: pyval

definition task_field_violation :: "task \<Rightarrow> violation option" where
  "task_field_violation r = checks
     [(\<not> contract_id_ok (task_id r), FieldConstraint ''task_id''),
      (\<not> contract_id_ok (task_run_id r), FieldConstraint ''run_id''),
      (\<not> contract_id_ok (task_key r), FieldConstraint ''task_key''),
      (\<not> contract_id_ok (task_type r), FieldConstraint ''task_type''),
      (\<not> 1 \<le> length (task_objective r), FieldConstraint ''objective''),
      (\<not> idempotency_key_ok (task_idempotency_key r), FieldConstraint ''idempotency_key''),
      (\<not> list_all contract_id_ok (task_dependency_ids r), FieldConstraint ''dependency_ids''),
      (\<not> optional_id_ok (task_assigned_worker_type r), FieldConstraint ''assigned_worker_type''),
      (validate_json_object (task_input r) = None, FieldConstraint ''input''),
      (coerce_status task_members (lf_status r) = None, FieldConstraint ''status''),
      (\<not> optional_text_ok (lf_status_reason r), FieldConstraint ''status_reason''),
      (\<not> optional_text_ok (lf_cancel_reason r), FieldConstraint ''cancellation_reason'')]"

definition task_validate_contract :: "task_status \<Rightarrow> task \<Rightarrow> violation option" where
  "task_validate_contract s r =
     and_then (checks
       [(task_id r \<in> set (task_dependency_ids r), SelfDependency),
        (\<not> require_unique (task_dependency_ids r), DuplicateDependency)])
    (and_then (validate_lifecycle_timestamps (lf_created_at r) (lf_updated_at r) (lf_started_at r)
                 (lf_completed_at r) (s \<in> terminal_task_statuses))
    (and_then (checks
       [(s \<in> {TaskFailed, TaskCancelled, TaskSkipped, TaskCancelling} \<and>
           reason_blank (lf_status_reason r), BlankReason),
        (s \<in> {TaskRunning, TaskCancelling, TaskSucceeded} \<and> lf_started_at r = None,
           MissingStartedAt),
        (s \<in> {TaskPending, TaskReady, TaskSkipped} \<and> lf_started_at r \<noteq> None,
           ForbiddenStartedAt)])
     (validate_cancellation_provenance (lf_created_at r) (lf_updated_at r) (lf_started_at r)
        (lf_completed_at r) (lf_cancel_at r) (lf_cancel_reason r)
        (s \<in> {TaskCancelling, TaskCancelled}) (s \<in> {TaskCancelling, TaskCancelled, TaskFailed})
        (s = TaskFailed))))"

definition task_model_validate :: "task \<Rightarrow> violation + task" where
  "task_model_validate r =
     (case task_field_violation r of Some v \<Rightarrow> Inl v
      | None \<Rightarrow>
        (case (coerce_status task_members (lf_status r), validate_json_object (task_input r)) of
           (Some s, Some w) \<Rightarrow>
             raise_or (task_validate_contract s r) (r\<lparr>lf_status := Member s, task_input := w\<rparr>)
         | _ \<Rightarrow> Inl (FieldConstraint ''status'')))"

definition task_valid :: "task \<Rightarrow> bool" where
  "task_valid r \<longleftrightarrow> task_model_validate r = Inr r"

definition task_apply_updates :: "task \<Rightarrow> task_status \<Rightarrow> instant \<Rightarrow> string \<Rightarrow> task" where
  "task_apply_updates r target at_time why =
     (let r1 = r\<lparr>lf_status := Member target, lf_updated_at := at_time\<rparr>;
          r2 = (if target = TaskRunning \<and> lf_started_at r = None
                then r1\<lparr>lf_started_at := Some at_time\<rparr> else r1);
          r3 = (if target \<in> terminal_task_statuses then r2\<lparr>lf_completed_at := Some at_time\<rparr> else r2);
          r4 = (if target \<in> {TaskFailed, TaskCancelled, TaskSkipped, TaskCancelling}
                then r3\<lparr>lf_status_reason := Some why\<rparr> else r3)
      in (if target \<in> {TaskCancelling, TaskCancelled} \<and> lf_cancel_at r = None
          then r4\<lparr>lf_cancel_at := Some at_time, lf_cancel_reason := Some why\<rparr> else r4))"

definition task_transition_to ::
  "task \<Rightarrow> task_status status_val \<Rightarrow> py_datetime \<Rightarrow> string option \<Rightarrow> life_error + task" where
  "task_transition_to r target at_time reason =
     (case ensure_legal_transition task_status_value task_transitions terminal_task_statuses
             (lf_status r) target of
        Some e \<Rightarrow> Inl e
      | None \<Rightarrow>
        (case target of
           Member t \<Rightarrow>
             bind_result (validate_transition_time at_time (lf_updated_at r)) (\<lambda>a.
             bind_result
               (reason_for (t \<in> {TaskFailed, TaskCancelled, TaskSkipped, TaskCancelling}) reason)
               (\<lambda>why. validated (task_model_validate (task_apply_updates r t a why))))
         | _ \<Rightarrow> Inl (StatusTypeMismatch TargetRole [])))"

definition task_request_cancellation :: "task \<Rightarrow> py_datetime \<Rightarrow> string \<Rightarrow> life_error + task" where
  "task_request_cancellation r at_time reason =
     (case ensure_status_type CurrentRole (lf_status r) of
        Some e \<Rightarrow> Inl e
      | None \<Rightarrow>
        bind_result (validated (task_model_validate r)) (\<lambda>v.
          (case lf_status v of
             Member s \<Rightarrow>
               if s \<in> {TaskCancelling, TaskCancelled} then Inr v
               else if s \<in> terminal_task_statuses then Inl (TerminalImmutable (task_status_value s))
               else task_transition_to v
                      (Member (if s = TaskRunning then TaskCancelling else TaskCancelled))
                      at_time (Some reason)
           | _ \<Rightarrow> Inl (StatusTypeMismatch CurrentRole []))))"

lemma task_model_validate_Inr:
  "task_model_validate r = Inr r' \<longleftrightarrow>
     (\<exists>s w. coerce_status task_members (lf_status r) = Some s \<and>
          validate_json_object (task_input r) = Some w \<and> task_field_violation r = None \<and>
          task_validate_contract s r = None \<and> r' = r\<lparr>lf_status := Member s, task_input := w\<rparr>)"
  by (auto simp: task_model_validate_def split: option.splits)

lemma task_valid_iff:
  "task_valid r \<longleftrightarrow>
     (\<exists>s. lf_status r = Member s \<and> validate_json_object (task_input r) = Some (task_input r) \<and> task_field_violation r = None \<and> task_validate_contract s r = None)"
proof
  assume "task_valid r"
  then obtain s w where s: "validate_json_object (task_input r) = Some w" "task_field_violation r = None" "task_validate_contract s r = None"
      "r = r\<lparr>lf_status := Member s, task_input := w\<rparr>"
    by (auto simp: task_valid_def task_model_validate_Inr)
  have "lf_status r = Member s" by (subst s(4)) simp
  moreover have "task_input r = w" by (subst s(4)) simp
  ultimately
  show "\<exists>s. lf_status r = Member s \<and> validate_json_object (task_input r) = Some (task_input r) \<and> task_field_violation r = None \<and> task_validate_contract s r = None"
    using s by auto
next
  assume "\<exists>s. lf_status r = Member s \<and> validate_json_object (task_input r) = Some (task_input r) \<and> task_field_violation r = None \<and> task_validate_contract s r = None"
  then show "task_valid r"
    by (auto simp: task_valid_def task_model_validate_Inr)
qed

text \<open>The updated record, field by field.\<close>

lemma task_apply_updates_select [simp]:
  "lf_status (task_apply_updates r t a why) = Member t"
  "lf_created_at (task_apply_updates r t a why) = lf_created_at r"
  "lf_updated_at (task_apply_updates r t a why) = a"
  "lf_started_at (task_apply_updates r t a why) =
     (if t = TaskRunning \<and> lf_started_at r = None then Some a else lf_started_at r)"
  "lf_completed_at (task_apply_updates r t a why) =
     (if t \<in> terminal_task_statuses then Some a else lf_completed_at r)"
  "lf_status_reason (task_apply_updates r t a why) =
     (if t \<in> {TaskFailed, TaskCancelled, TaskSkipped, TaskCancelling} then Some why else lf_status_reason r)"
  "lf_cancel_at (task_apply_updates r t a why) =
     (if t \<in> {TaskCancelling, TaskCancelled} \<and> lf_cancel_at r = None then Some a else lf_cancel_at r)"
  "lf_cancel_reason (task_apply_updates r t a why) =
     (if t \<in> {TaskCancelling, TaskCancelled} \<and> lf_cancel_at r = None then Some why else lf_cancel_reason r)"
  by (auto simp: task_apply_updates_def Let_def)

lemma task_apply_updates_identity [simp]:
  "task_id (task_apply_updates r t a why) = task_id r"
  "task_run_id (task_apply_updates r t a why) = task_run_id r"
  "task_key (task_apply_updates r t a why) = task_key r"
  "task_type (task_apply_updates r t a why) = task_type r"
  "task_objective (task_apply_updates r t a why) = task_objective r"
  "task_idempotency_key (task_apply_updates r t a why) = task_idempotency_key r"
  "task_dependency_ids (task_apply_updates r t a why) = task_dependency_ids r"
  "task_assigned_worker_type (task_apply_updates r t a why) = task_assigned_worker_type r"
  "task_input (task_apply_updates r t a why) = task_input r"
  by (auto simp: task_apply_updates_def Let_def)

lemma task_apply_updates_fields:
  assumes "task_field_violation r = None" "t \<in> {TaskFailed, TaskCancelled, TaskSkipped, TaskCancelling} \<Longrightarrow> why \<noteq> []"
  shows "task_field_violation (task_apply_updates r t a why) = None"
  using assms by (auto simp: task_field_violation_def)

lemma task_apply_updates_lifecycle:
  assumes "task_validate_contract s r = None" "t \<in> task_transitions s" "lf_updated_at r \<le> a"
    and "t \<in> {TaskFailed, TaskCancelled, TaskSkipped, TaskCancelling} \<Longrightarrow> \<not> blank why"
  shows "task_validate_contract t (task_apply_updates r t a why) = None"
  using assms
  by (cases s; cases "lf_started_at r"; cases "lf_cancel_at r")
    (auto simp: task_validate_contract_def lifecycle_checks terminal_defs)

lemma task_transition_Inr:
  "task_transition_to r t at_time reason = Inr r' \<longleftrightarrow>
     (\<exists>s s' a why. lf_status r = Member s \<and> t = Member s' \<and> s \<notin> terminal_task_statuses \<and>
        s' \<in> task_transitions s \<and> at_time = Aware a \<and> lf_updated_at r \<le> a \<and>
        reason_for (s' \<in> {TaskFailed, TaskCancelled, TaskSkipped, TaskCancelling}) reason = Inr why \<and>
        task_model_validate (task_apply_updates r s' a why) = Inr r')"
  by (auto simp: task_transition_to_def)

lemma task_apply_updates_valid:
  assumes "task_valid r" "lf_status r = Member s" "t \<in> task_transitions s" "lf_updated_at r \<le> a"
    and "t \<in> {TaskFailed, TaskCancelled, TaskSkipped, TaskCancelling} \<Longrightarrow> \<not> blank why"
  shows "task_model_validate (task_apply_updates r t a why) = Inr (task_apply_updates r t a why)"
proof -
  have "task_field_violation (task_apply_updates r t a why) = None"
    using assms by (intro task_apply_updates_fields) (auto simp: task_valid_iff)
  moreover have "task_validate_contract t (task_apply_updates r t a why) = None"
    using assms by (intro task_apply_updates_lifecycle[of s]) (auto simp: task_valid_iff)
  ultimately have "task_valid (task_apply_updates r t a why)"
    using assms(1) by (auto simp: task_valid_iff)
  then show ?thesis by (simp add: task_valid_def)
qed

lemma task_model_validate_valid: "task_model_validate r = Inr r' \<Longrightarrow> task_valid r'"
  by (auto simp: task_model_validate_Inr task_valid_iff task_field_violation_def task_validate_contract_def validate_json_object_idem)

lemma task_cancel_cases:
  assumes "task_valid r" "task_request_cancellation r at_time w = Inr r'"
  shows "r' = r \<or> (\<exists>t. task_transition_to r (Member t) at_time (Some w) = Inr r')"
  using assms
  by (auto simp: task_request_cancellation_def task_valid_def split: status_val.splits if_splits)

definition task_identity :: "task \<Rightarrow> string \<times> string \<times> string \<times> string \<times> string \<times> string \<times> string list \<times> string option" where
  "task_identity r =
     (task_id r, task_run_id r, task_key r, task_type r, task_objective r, task_idempotency_key r,
      task_dependency_ids r, task_assigned_worker_type r)"

interpretation task_machine: lifecycle_machine task_transition_to task_request_cancellation lf_status
  lf_updated_at task_identity task_valid task_transitions task_rank
proof
  show "task_valid r \<Longrightarrow> \<exists>s. lf_status r = Member s" for r by (auto simp: task_valid_iff)
  show "task_transition_to r t at_time why = Inr r' \<Longrightarrow> task_valid r'" for r t at_time why r'
    by (auto simp: task_transition_Inr dest: task_model_validate_valid)
  show "task_transition_to r t at_time why = Inr r' \<Longrightarrow> lf_status r = Member s \<Longrightarrow>
      \<exists>s'. lf_status r' = Member s' \<and> t = Member s' \<and> s' \<in> task_transitions s" for r t at_time why r' s
    by (auto simp: task_transition_Inr task_model_validate_Inr)
  show "task_transition_to r t at_time why = Inr r' \<Longrightarrow> lf_updated_at r \<le> lf_updated_at r'"
    for r t at_time why r'
    by (auto simp: task_transition_Inr task_model_validate_Inr)
  show "task_transition_to r t at_time why = Inr r' \<Longrightarrow> task_identity r' = task_identity r"
    for r t at_time why r'
    by (auto simp: task_transition_Inr task_model_validate_Inr task_identity_def)
  show "task_valid r \<Longrightarrow> task_request_cancellation r at_time w = Inr r' \<Longrightarrow>
      r' = r \<or> (\<exists>t. task_transition_to r (Member t) at_time (Some w) = Inr r')" for r at_time w r'
    by (rule task_cancel_cases)
  show "s' \<in> task_transitions s \<Longrightarrow> task_rank s' < task_rank s" for s' s
    by (rule task_rank_decreases)
qed

subsection \<open>The Attempt contract\<close>

record attempt = "attempt_status life" +
  attempt_id :: string
  attempt_task_id :: string
  attempt_ordinal :: int
  attempt_idempotency_key :: string
  attempt_executor_id :: "string option"

definition attempt_field_violation :: "attempt \<Rightarrow> violation option" where
  "attempt_field_violation r = checks
     [(\<not> contract_id_ok (attempt_id r), FieldConstraint ''attempt_id''),
      (\<not> contract_id_ok (attempt_task_id r), FieldConstraint ''task_id''),
      (\<not> 1 \<le> attempt_ordinal r, FieldConstraint ''ordinal''),
      (\<not> idempotency_key_ok (attempt_idempotency_key r), FieldConstraint ''idempotency_key''),
      (\<not> optional_id_ok (attempt_executor_id r), FieldConstraint ''executor_id''),
      (coerce_status attempt_members (lf_status r) = None, FieldConstraint ''status''),
      (\<not> optional_text_ok (lf_status_reason r), FieldConstraint ''status_reason''),
      (\<not> optional_text_ok (lf_cancel_reason r), FieldConstraint ''cancellation_reason'')]"

definition attempt_validate_lifecycle :: "attempt_status \<Rightarrow> attempt \<Rightarrow> violation option" where
  "attempt_validate_lifecycle s r =
     and_then (validate_lifecycle_timestamps (lf_created_at r) (lf_updated_at r) (lf_started_at r)
                 (lf_completed_at r) (s \<in> terminal_attempt_statuses))
    (and_then (checks
       [(s \<in> {AttemptFailed, AttemptCancelled, AttemptTimedOut, AttemptCancelling} \<and>
           reason_blank (lf_status_reason r), BlankReason),
        (s \<in> {AttemptRunning, AttemptCancelling, AttemptSucceeded, AttemptTimedOut} \<and>
           lf_started_at r = None, MissingStartedAt),
        (s = AttemptCreated \<and> lf_started_at r \<noteq> None, ForbiddenStartedAt)])
     (validate_cancellation_provenance (lf_created_at r) (lf_updated_at r) (lf_started_at r)
        (lf_completed_at r) (lf_cancel_at r) (lf_cancel_reason r)
        (s \<in> {AttemptCancelling, AttemptCancelled})
        (s \<in> {AttemptCancelling, AttemptCancelled, AttemptFailed})
        (s = AttemptFailed)))"

definition attempt_model_validate :: "attempt \<Rightarrow> violation + attempt" where
  "attempt_model_validate r =
     (case attempt_field_violation r of Some v \<Rightarrow> Inl v
      | None \<Rightarrow>
        (case coerce_status attempt_members (lf_status r) of
           None \<Rightarrow> Inl (FieldConstraint ''status'')
         | Some s \<Rightarrow> raise_or (attempt_validate_lifecycle s r) (r\<lparr>lf_status := Member s\<rparr>)))"

definition attempt_valid :: "attempt \<Rightarrow> bool" where
  "attempt_valid r \<longleftrightarrow> attempt_model_validate r = Inr r"

definition attempt_apply_updates ::
  "attempt \<Rightarrow> attempt_status \<Rightarrow> instant \<Rightarrow> string \<Rightarrow> attempt" where
  "attempt_apply_updates r target at_time why =
     (let r1 = r\<lparr>lf_status := Member target, lf_updated_at := at_time\<rparr>;
          r2 = (if target = AttemptRunning \<and> lf_started_at r = None
                then r1\<lparr>lf_started_at := Some at_time\<rparr> else r1);
          r3 = (if target \<in> terminal_attempt_statuses
                then r2\<lparr>lf_completed_at := Some at_time\<rparr> else r2);
          r4 = (if target \<in> {AttemptFailed, AttemptCancelled, AttemptTimedOut, AttemptCancelling}
                then r3\<lparr>lf_status_reason := Some why\<rparr> else r3)
      in (if target \<in> {AttemptCancelling, AttemptCancelled} \<and> lf_cancel_at r = None
          then r4\<lparr>lf_cancel_at := Some at_time, lf_cancel_reason := Some why\<rparr> else r4))"

definition attempt_transition_to ::
  "attempt \<Rightarrow> attempt_status status_val \<Rightarrow> py_datetime \<Rightarrow> string option \<Rightarrow> life_error + attempt" where
  "attempt_transition_to r target at_time reason =
     (case ensure_legal_transition attempt_status_value attempt_transitions
             terminal_attempt_statuses (lf_status r) target of
        Some e \<Rightarrow> Inl e
      | None \<Rightarrow>
        (case target of
           Member t \<Rightarrow>
             bind_result (validate_transition_time at_time (lf_updated_at r)) (\<lambda>a.
             bind_result
               (reason_for
                  (t \<in> {AttemptFailed, AttemptCancelled, AttemptTimedOut, AttemptCancelling}) reason)
               (\<lambda>why. validated (attempt_model_validate (attempt_apply_updates r t a why))))
         | _ \<Rightarrow> Inl (StatusTypeMismatch TargetRole [])))"

definition attempt_request_cancellation ::
  "attempt \<Rightarrow> py_datetime \<Rightarrow> string \<Rightarrow> life_error + attempt" where
  "attempt_request_cancellation r at_time reason =
     (case ensure_status_type CurrentRole (lf_status r) of
        Some e \<Rightarrow> Inl e
      | None \<Rightarrow>
        bind_result (validated (attempt_model_validate r)) (\<lambda>v.
          (case lf_status v of
             Member s \<Rightarrow>
               if s \<in> {AttemptCancelling, AttemptCancelled} then Inr v
               else if s \<in> terminal_attempt_statuses
               then Inl (TerminalImmutable (attempt_status_value s))
               else attempt_transition_to v
                      (Member (if s = AttemptRunning then AttemptCancelling else AttemptCancelled))
                      at_time (Some reason)
           | _ \<Rightarrow> Inl (StatusTypeMismatch CurrentRole []))))"

lemma attempt_model_validate_Inr:
  "attempt_model_validate r = Inr r' \<longleftrightarrow>
     (\<exists>s. coerce_status attempt_members (lf_status r) = Some s \<and> attempt_field_violation r = None \<and>
          attempt_validate_lifecycle s r = None \<and> r' = r\<lparr>lf_status := Member s\<rparr>)"
  by (auto simp: attempt_model_validate_def split: option.splits)

lemma attempt_valid_iff:
  "attempt_valid r \<longleftrightarrow>
     (\<exists>s. lf_status r = Member s \<and> attempt_field_violation r = None \<and> attempt_validate_lifecycle s r = None)"
proof
  assume "attempt_valid r"
  then obtain s where s: "attempt_field_violation r = None" "attempt_validate_lifecycle s r = None"
      "r = r\<lparr>lf_status := Member s\<rparr>"
    by (auto simp: attempt_valid_def attempt_model_validate_Inr)
  have "lf_status r = Member s" by (subst s(3)) simp
  with s show "\<exists>s. lf_status r = Member s \<and> attempt_field_violation r = None \<and> attempt_validate_lifecycle s r = None"
    by blast
next
  assume "\<exists>s. lf_status r = Member s \<and> attempt_field_violation r = None \<and> attempt_validate_lifecycle s r = None"
  then show "attempt_valid r"
    by (auto simp: attempt_valid_def attempt_model_validate_Inr)
qed

text \<open>The updated record, field by field.\<close>

lemma attempt_apply_updates_select [simp]:
  "lf_status (attempt_apply_updates r t a why) = Member t"
  "lf_created_at (attempt_apply_updates r t a why) = lf_created_at r"
  "lf_updated_at (attempt_apply_updates r t a why) = a"
  "lf_started_at (attempt_apply_updates r t a why) =
     (if t = AttemptRunning \<and> lf_started_at r = None then Some a else lf_started_at r)"
  "lf_completed_at (attempt_apply_updates r t a why) =
     (if t \<in> terminal_attempt_statuses then Some a else lf_completed_at r)"
  "lf_status_reason (attempt_apply_updates r t a why) =
     (if t \<in> {AttemptFailed, AttemptCancelled, AttemptTimedOut, AttemptCancelling} then Some why else lf_status_reason r)"
  "lf_cancel_at (attempt_apply_updates r t a why) =
     (if t \<in> {AttemptCancelling, AttemptCancelled} \<and> lf_cancel_at r = None then Some a else lf_cancel_at r)"
  "lf_cancel_reason (attempt_apply_updates r t a why) =
     (if t \<in> {AttemptCancelling, AttemptCancelled} \<and> lf_cancel_at r = None then Some why else lf_cancel_reason r)"
  by (auto simp: attempt_apply_updates_def Let_def)

lemma attempt_apply_updates_identity [simp]:
  "attempt_id (attempt_apply_updates r t a why) = attempt_id r"
  "attempt_task_id (attempt_apply_updates r t a why) = attempt_task_id r"
  "attempt_ordinal (attempt_apply_updates r t a why) = attempt_ordinal r"
  "attempt_idempotency_key (attempt_apply_updates r t a why) = attempt_idempotency_key r"
  "attempt_executor_id (attempt_apply_updates r t a why) = attempt_executor_id r"
  by (auto simp: attempt_apply_updates_def Let_def)

lemma attempt_apply_updates_fields:
  assumes "attempt_field_violation r = None" "t \<in> {AttemptFailed, AttemptCancelled, AttemptTimedOut, AttemptCancelling} \<Longrightarrow> why \<noteq> []"
  shows "attempt_field_violation (attempt_apply_updates r t a why) = None"
  using assms by (auto simp: attempt_field_violation_def)

lemma attempt_apply_updates_lifecycle:
  assumes "attempt_validate_lifecycle s r = None" "t \<in> attempt_transitions s" "lf_updated_at r \<le> a"
    and "t \<in> {AttemptFailed, AttemptCancelled, AttemptTimedOut, AttemptCancelling} \<Longrightarrow> \<not> blank why"
  shows "attempt_validate_lifecycle t (attempt_apply_updates r t a why) = None"
  using assms
  by (cases s; cases "lf_started_at r"; cases "lf_cancel_at r")
    (auto simp: attempt_validate_lifecycle_def lifecycle_checks terminal_defs)

lemma attempt_transition_Inr:
  "attempt_transition_to r t at_time reason = Inr r' \<longleftrightarrow>
     (\<exists>s s' a why. lf_status r = Member s \<and> t = Member s' \<and> s \<notin> terminal_attempt_statuses \<and>
        s' \<in> attempt_transitions s \<and> at_time = Aware a \<and> lf_updated_at r \<le> a \<and>
        reason_for (s' \<in> {AttemptFailed, AttemptCancelled, AttemptTimedOut, AttemptCancelling}) reason = Inr why \<and>
        attempt_model_validate (attempt_apply_updates r s' a why) = Inr r')"
  by (auto simp: attempt_transition_to_def)

lemma attempt_apply_updates_valid:
  assumes "attempt_valid r" "lf_status r = Member s" "t \<in> attempt_transitions s" "lf_updated_at r \<le> a"
    and "t \<in> {AttemptFailed, AttemptCancelled, AttemptTimedOut, AttemptCancelling} \<Longrightarrow> \<not> blank why"
  shows "attempt_model_validate (attempt_apply_updates r t a why) = Inr (attempt_apply_updates r t a why)"
proof -
  have "attempt_field_violation (attempt_apply_updates r t a why) = None"
    using assms by (intro attempt_apply_updates_fields) (auto simp: attempt_valid_iff)
  moreover have "attempt_validate_lifecycle t (attempt_apply_updates r t a why) = None"
    using assms by (intro attempt_apply_updates_lifecycle[of s]) (auto simp: attempt_valid_iff)
  ultimately have "attempt_valid (attempt_apply_updates r t a why)"
    using assms(1) by (auto simp: attempt_valid_iff)
  then show ?thesis by (simp add: attempt_valid_def)
qed

lemma attempt_model_validate_valid: "attempt_model_validate r = Inr r' \<Longrightarrow> attempt_valid r'"
  by (auto simp: attempt_model_validate_Inr attempt_valid_iff attempt_field_violation_def attempt_validate_lifecycle_def)

lemma attempt_cancel_cases:
  assumes "attempt_valid r" "attempt_request_cancellation r at_time w = Inr r'"
  shows "r' = r \<or> (\<exists>t. attempt_transition_to r (Member t) at_time (Some w) = Inr r')"
  using assms
  by (auto simp: attempt_request_cancellation_def attempt_valid_def split: status_val.splits if_splits)

definition attempt_identity :: "attempt \<Rightarrow> string \<times> string \<times> int \<times> string \<times> string option" where
  "attempt_identity r =
     (attempt_id r, attempt_task_id r, attempt_ordinal r, attempt_idempotency_key r,
      attempt_executor_id r)"

interpretation attempt_machine: lifecycle_machine attempt_transition_to attempt_request_cancellation lf_status
  lf_updated_at attempt_identity attempt_valid attempt_transitions attempt_rank
proof
  show "attempt_valid r \<Longrightarrow> \<exists>s. lf_status r = Member s" for r by (auto simp: attempt_valid_iff)
  show "attempt_transition_to r t at_time why = Inr r' \<Longrightarrow> attempt_valid r'" for r t at_time why r'
    by (auto simp: attempt_transition_Inr dest: attempt_model_validate_valid)
  show "attempt_transition_to r t at_time why = Inr r' \<Longrightarrow> lf_status r = Member s \<Longrightarrow>
      \<exists>s'. lf_status r' = Member s' \<and> t = Member s' \<and> s' \<in> attempt_transitions s" for r t at_time why r' s
    by (auto simp: attempt_transition_Inr attempt_model_validate_Inr)
  show "attempt_transition_to r t at_time why = Inr r' \<Longrightarrow> lf_updated_at r \<le> lf_updated_at r'"
    for r t at_time why r'
    by (auto simp: attempt_transition_Inr attempt_model_validate_Inr)
  show "attempt_transition_to r t at_time why = Inr r' \<Longrightarrow> attempt_identity r' = attempt_identity r"
    for r t at_time why r'
    by (auto simp: attempt_transition_Inr attempt_model_validate_Inr attempt_identity_def)
  show "attempt_valid r \<Longrightarrow> attempt_request_cancellation r at_time w = Inr r' \<Longrightarrow>
      r' = r \<or> (\<exists>t. attempt_transition_to r (Member t) at_time (Some w) = Inr r')" for r at_time w r'
    by (rule attempt_cancel_cases)
  show "s' \<in> attempt_transitions s \<Longrightarrow> attempt_rank s' < attempt_rank s" for s' s
    by (rule attempt_rank_decreases)
qed


subsection \<open>Properties of tasks and attempts\<close>

definition task_example :: task where
  "task_example = \<lparr>lf_status = Member TaskReady, lf_created_at = 10, lf_updated_at = 30,
     lf_started_at = None, lf_completed_at = None, lf_status_reason = None,
     lf_cancel_at = None, lf_cancel_reason = None,
     task_id = ''task-2'', task_run_id = ''run-1'', task_key = ''k'', task_type = ''search'',
     task_objective = ''find'', task_idempotency_key = ''i'', task_dependency_ids = [''task-1''],
     task_assigned_worker_type = None, task_input = VProxy [(''q'', VTuple [VInt 1])]\<rparr>"

lemma task_example_valid: "task_valid task_example"
  by (simp add: task_valid_iff task_example_def task_field_violation_def
      task_validate_contract_def lifecycle_checks terminal_defs contract_id_ok_def
      idempotency_key_ok_def optional_id_ok_def validate_json_object_def freeze_json_object_def)

definition attempt_example :: attempt where
  "attempt_example = \<lparr>lf_status = Member AttemptRunning, lf_created_at = 10, lf_updated_at = 30,
     lf_started_at = Some 20, lf_completed_at = None, lf_status_reason = None,
     lf_cancel_at = None, lf_cancel_reason = None,
     attempt_id = ''a'', attempt_task_id = ''task-2'', attempt_ordinal = 1,
     attempt_idempotency_key = ''i'', attempt_executor_id = None\<rparr>"

lemma attempt_example_valid: "attempt_valid attempt_example"
  by (simp add: attempt_valid_iff attempt_example_def attempt_field_violation_def
      attempt_validate_lifecycle_def lifecycle_checks terminal_defs contract_id_ok_def
      idempotency_key_ok_def optional_id_ok_def)

text \<open>
  On a valid task, \<open>transition_to\<close> returns exactly for a legal target at an aware time not
  before \<open>updated_at\<close>, with a reason where one is needed, and the result is the task with the
  documented updates: the final revalidation, dependency and input checks included, never refuses
  a legal request.
\<close>

theorem task_transition_exact:
  assumes "task_valid r" and "lf_status r = Member s"
  shows "task_transition_to r (Member t) at_time reason = Inr r' \<longleftrightarrow>
     t \<in> task_transitions s \<and>
     (\<exists>a why. at_time = Aware a \<and> lf_updated_at r \<le> a \<and>
        reason_for (t \<in> {TaskFailed, TaskCancelled, TaskSkipped, TaskCancelling}) reason = Inr why \<and>
        r' = task_apply_updates r t a why)"
proof -
  have "task_model_validate (task_apply_updates r t a why) = Inr r' \<longleftrightarrow>
      r' = task_apply_updates r t a why"
    if "t \<in> task_transitions s" "lf_updated_at r \<le> a"
      "reason_for (t \<in> {TaskFailed, TaskCancelled, TaskSkipped, TaskCancelling}) reason = Inr why"
    for a why
    using task_apply_updates_valid[OF assms that(1,2)] that(3) reason_for_blank by fastforce
  moreover have "s \<notin> terminal_task_statuses" if "t \<in> task_transitions s"
    using that by (auto simp: task_terminal_iff)
  ultimately show ?thesis using assms(2) by (auto simp: task_transition_Inr)
qed

theorem task_transition_exact_witness:
  "task_transition_to task_example (Member TaskRunning) (Aware 40) None =
     Inr (task_apply_updates task_example TaskRunning 40 [])"
proof -
  have "lf_status task_example = Member TaskReady" "lf_updated_at task_example = 30"
    by (simp_all add: task_example_def)
  then show ?thesis
    using task_transition_exact[OF task_example_valid, of TaskReady TaskRunning "Aware 40" None
        "task_apply_updates task_example TaskRunning 40 []"]
    by (simp add: reason_for_def)
qed

text \<open>
  Any history of transitions and cancellation requests keeps a valid task valid, never moves
  its clock back, never changes its identity or its dependencies, and makes at most four
  transitions.
\<close>

theorem task_history:
  assumes "task_valid r"
    and "life_run (life_step task_transition_to task_request_cancellation) r es = Inr r'"
  shows "task_valid r' \<and> lf_updated_at r \<le> lf_updated_at r' \<and> task_identity r' = task_identity r \<and>
    transition_count es \<le> 4"
proof -
  have "task_rank s \<le> 4" for s by (cases s) auto
  then have "task_machine.rank_of r \<le> 4"
    by (simp add: task_machine.rank_of_def split: status_val.splits)
  with task_machine.history[OF assms] show ?thesis by auto
qed

theorem task_history_witness:
  "\<exists>r'. life_run (life_step task_transition_to task_request_cancellation) task_example
          [Transition (Member TaskRunning) (Aware 40) None, Cancel (Aware 50) ''stop''] = Inr r' \<and>
        task_valid r'"
proof -
  let ?run = "life_run (life_step task_transition_to task_request_cancellation) task_example
      [Transition (Member TaskRunning) (Aware 40) None, Cancel (Aware 50) ''stop'']"
  have "isl ?run = False" by code_simp
  then show ?thesis using task_history[OF task_example_valid] by (metis isl_def sum.collapse(2))
qed

text \<open>
  A valid attempt makes at most three transitions in any history, keeps its ordinal and the
  rest of its identity, stays valid, and is never revived: from a terminal attempt every history
  that returns at all returns that same attempt.
\<close>

theorem attempt_history:
  assumes "attempt_valid r"
    and "life_run (life_step attempt_transition_to attempt_request_cancellation) r es = Inr r'"
  shows "attempt_valid r' \<and> lf_updated_at r \<le> lf_updated_at r' \<and>
    attempt_identity r' = attempt_identity r \<and> transition_count es \<le> 3 \<and>
    (\<forall>s \<in> terminal_attempt_statuses. lf_status r = Member s \<longrightarrow> r' = r)"
proof -
  have "attempt_rank s \<le> 3" for s by (cases s) auto
  then have "attempt_machine.rank_of r \<le> 3"
    by (simp add: attempt_machine.rank_of_def split: status_val.splits)
  moreover have "r' = r" if "lf_status r = Member s" "s \<in> terminal_attempt_statuses" for s
    using attempt_machine.terminal_final[OF assms(1) that(1) _ assms(2)] that(2)
    by (simp add: attempt_terminal_iff)
  ultimately show ?thesis using attempt_machine.history[OF assms] by auto
qed

theorem attempt_history_witness:
  "\<exists>r'. life_run (life_step attempt_transition_to attempt_request_cancellation) attempt_example
          [Transition (Member AttemptTimedOut) (Aware 40) (Some ''deadline'')] = Inr r' \<and>
        attempt_valid r'"
proof -
  let ?run = "life_run (life_step attempt_transition_to attempt_request_cancellation)
      attempt_example [Transition (Member AttemptTimedOut) (Aware 40) (Some ''deadline'')]"
  have "isl ?run = False" by code_simp
  then show ?thesis using attempt_history[OF attempt_example_valid] by (metis isl_def sum.collapse(2))
qed

end
