(* ===== verification/Execution_Plan.thy ===== *)
theory Execution_Plan
  imports Lifecycle
begin

text \<open>
  The immutable routing authority: \<^verbatim>\<open>src/core/contracts/execution_plan.py\<close>, the version-pinned
  definitions it refers to (\<^verbatim>\<open>src/core/contracts/definitions.py\<close>), the authority binding of
  \<^verbatim>\<open>src/models/execution_authority.py\<close> and the compiler of
  \<^verbatim>\<open>src/ai_brain/router/execution_plan_compiler.py\<close>.
  A constructor's violation is what it raises: the field constraints, then the model's validator.
  Nested contracts are instances already built by their own constructors, which pydantic does not
  validate again.
\<close>

subsection \<open>Workflow and routing policy definitions\<close>

datatype workflow_control_mode = Predefined | BoundedAgentic

record workflow_definition =
  wd_id :: string
  wd_version :: string
  wd_name :: string
  wd_description :: string
  wd_control_mode :: workflow_control_mode
  wd_task_types :: "string list"
  wd_input_schema :: pyval
  wd_output_schema :: pyval
  wd_default_policy_id :: string
  wd_default_policy_version :: string
  wd_created_at :: instant

definition workflow_definition_violation :: "workflow_definition \<Rightarrow> contract_error option" where
  "workflow_definition_violation w = checks
     [(\<not> contract_id_ok (wd_id w), FieldError ''workflow_definition_id''),
      (\<not> version_ok (wd_version w), FieldError ''workflow_version''),
      (\<not> text_ok 200 (wd_name w), FieldError ''name''),
      (wd_description w = [], FieldError ''description''),
      (\<not> list_all contract_id_ok (wd_task_types w) \<or> wd_task_types w = [], FieldError ''task_types''),
      (validate_json_object (wd_input_schema w) = None, FieldError ''input_schema''),
      (validate_json_object (wd_output_schema w) = None, FieldError ''output_schema''),
      (\<not> contract_id_ok (wd_default_policy_id w), FieldError ''default_routing_policy_id''),
      (\<not> version_ok (wd_default_policy_version w), FieldError ''default_routing_policy_version''),
      (\<not> require_unique (wd_task_types w), RuleError ''task_types entries must be unique'')]"

record routing_policy =
  rp_id :: string
  rp_version :: string
  rp_strategy :: string
  rp_collaboration_mode :: string
  rp_worker_types :: "string list"
  rp_max_parallel_tasks :: int
  rp_max_attempts_per_task :: int
  rp_task_timeout_seconds :: int
  rp_provider_allowlist :: "string list"
  rp_model_allowlist :: "string list"
  rp_metadata :: pyval

definition routing_policy_violation :: "routing_policy \<Rightarrow> contract_error option" where
  "routing_policy_violation p = checks
     [(\<not> contract_id_ok (rp_id p), FieldError ''routing_policy_id''),
      (\<not> version_ok (rp_version p), FieldError ''routing_policy_version''),
      (\<not> contract_id_ok (rp_strategy p), FieldError ''strategy''),
      (\<not> contract_id_ok (rp_collaboration_mode p), FieldError ''collaboration_mode''),
      (\<not> list_all contract_id_ok (rp_worker_types p), FieldError ''worker_types''),
      (\<not> 1 \<le> rp_max_parallel_tasks p, FieldError ''max_parallel_tasks''),
      (\<not> 1 \<le> rp_max_attempts_per_task p, FieldError ''max_attempts_per_task''),
      (\<not> 1 \<le> rp_task_timeout_seconds p, FieldError ''task_timeout_seconds''),
      (\<not> list_all contract_id_ok (rp_provider_allowlist p), FieldError ''provider_allowlist''),
      (\<not> list_all contract_id_ok (rp_model_allowlist p), FieldError ''model_allowlist''),
      (validate_json_object (rp_metadata p) = None, FieldError ''metadata''),
      (\<not> require_unique (rp_worker_types p), RuleError ''worker_types entries must be unique''),
      (\<not> require_unique (rp_provider_allowlist p),
         RuleError ''provider_allowlist entries must be unique''),
      (\<not> require_unique (rp_model_allowlist p),
         RuleError ''model_allowlist entries must be unique'')]"

subsection \<open>The parts of a routing decision\<close>

datatype collaboration_mode = FastPath | Direct | Parallel | Hierarchical | Debate | Ensemble

fun mode_value :: "collaboration_mode \<Rightarrow> string" where
  "mode_value FastPath = ''fast_path''"
| "mode_value Direct = ''direct''"
| "mode_value Parallel = ''parallel''"
| "mode_value Hierarchical = ''hierarchical''"
| "mode_value Debate = ''debate''"
| "mode_value Ensemble = ''ensemble''"

definition all_modes :: "collaboration_mode list" where
  "all_modes = [FastPath, Direct, Parallel, Hierarchical, Debate, Ensemble]"

text \<open>\<open>CollaborationMode(value)\<close>: the member with that value.\<close>

definition mode_of_value :: "string \<Rightarrow> collaboration_mode option" where
  "mode_of_value s = List.find (\<lambda>m. mode_value m = s) all_modes"

lemma mode_of_value_Some: "mode_of_value s = Some m \<longleftrightarrow> s = mode_value m"
proof
  assume "mode_of_value s = Some m"
  then show "s = mode_value m" by (auto simp: mode_of_value_def find_Some_iff)
next
  assume "s = mode_value m"
  then show "mode_of_value s = Some m" by (cases m) (auto simp: mode_of_value_def all_modes_def)
qed

datatype mode_support = Implemented | ExplicitlyRejected | OutOfWave2

fun collaboration_mode_support :: "collaboration_mode \<Rightarrow> mode_support" where
  "collaboration_mode_support FastPath = Implemented"
| "collaboration_mode_support Direct = Implemented"
| "collaboration_mode_support Parallel = Implemented"
| "collaboration_mode_support Hierarchical = Implemented"
| "collaboration_mode_support Debate = ExplicitlyRejected"
| "collaboration_mode_support Ensemble = ExplicitlyRejected"

datatype fallback_mode = FailClosed | OrderedProviderModel
datatype amendment_status = AmendApproved | AmendRejected

record worker =
  wk_id :: string
  wk_type :: string
  wk_objective :: string
  wk_output_schema :: pyval
  wk_permission_scopes :: "string list"
  wk_tool_allowlist :: "string list"

definition worker_violation :: "worker \<Rightarrow> contract_error option" where
  "worker_violation w = checks
     [(\<not> contract_id_ok (wk_id w), FieldError ''worker_id''),
      (\<not> contract_id_ok (wk_type w), FieldError ''worker_type''),
      (wk_objective w = [], FieldError ''objective''),
      (validate_json_object (wk_output_schema w) = None, FieldError ''output_schema''),
      (\<not> list_all contract_id_ok (wk_permission_scopes w), FieldError ''permission_scopes''),
      (\<not> list_all contract_id_ok (wk_tool_allowlist w), FieldError ''tool_allowlist''),
      (\<not> require_unique (wk_permission_scopes w),
         RuleError ''permission_scopes entries must be unique''),
      (\<not> require_unique (wk_tool_allowlist w), RuleError ''tool_allowlist entries must be unique'')]"

record edge =
  ed_source :: string
  ed_target :: string
  ed_relation :: string

definition edge_violation :: "edge \<Rightarrow> contract_error option" where
  "edge_violation e = checks
     [(\<not> contract_id_ok (ed_source e), FieldError ''source_node_id''),
      (\<not> contract_id_ok (ed_target e), FieldError ''target_node_id''),
      (\<not> contract_id_ok (ed_relation e), FieldError ''relation''),
      (ed_source e = ed_target e, RuleError ''A routing edge cannot target itself'')]"

record route =
  rt_provider :: string
  rt_model :: string

definition route_violation :: "route \<Rightarrow> contract_error option" where
  "route_violation r = checks
     [(\<not> contract_id_ok (rt_provider r), FieldError ''provider''),
      (\<not> contract_id_ok (rt_model r), FieldError ''model'')]"

record provider_policy =
  pp_primary :: route
  pp_fallback_mode :: fallback_mode
  pp_fallbacks :: "route list"
  pp_provider_allowlist :: "string list"
  pp_model_allowlist :: "string list"

definition policy_routes :: "provider_policy \<Rightarrow> route list" where
  "policy_routes p = pp_primary p # pp_fallbacks p"

fun route_allowlist_violation :: "string list \<Rightarrow> string list \<Rightarrow> route list \<Rightarrow> contract_error option" where
  "route_allowlist_violation ps ms [] = None"
| "route_allowlist_violation ps ms (r # rs) =
     (if rt_provider r \<notin> set ps then Some (RuleError ''Provider is not in the provider allowlist'')
      else if rt_model r \<notin> set ms then Some (RuleError ''Model is not in the model allowlist'')
      else route_allowlist_violation ps ms rs)"

lemma route_allowlist_None [simp]:
  "route_allowlist_violation ps ms rs = None \<longleftrightarrow>
     (\<forall>r \<in> set rs. rt_provider r \<in> set ps \<and> rt_model r \<in> set ms)"
  by (induction rs) auto

definition provider_policy_violation :: "provider_policy \<Rightarrow> contract_error option" where
  "provider_policy_violation p = and_then (checks
     [(\<not> list_all contract_id_ok (pp_provider_allowlist p) \<or> pp_provider_allowlist p = [],
         FieldError ''provider_allowlist''),
      (\<not> list_all contract_id_ok (pp_model_allowlist p) \<or> pp_model_allowlist p = [],
         FieldError ''model_allowlist''),
      (\<not> require_unique (pp_provider_allowlist p),
         RuleError ''provider_allowlist entries must be unique''),
      (\<not> require_unique (pp_model_allowlist p), RuleError ''model_allowlist entries must be unique''),
      (\<not> require_unique (map (\<lambda>r. (rt_provider r, rt_model r)) (policy_routes p)),
         RuleError ''provider/model routes must be unique''),
      (pp_fallback_mode p = FailClosed \<and> pp_fallbacks p \<noteq> [],
         RuleError ''fail_closed policy cannot declare fallback routes''),
      (pp_fallback_mode p = OrderedProviderModel \<and> pp_fallbacks p = [],
         RuleError ''ordered_provider_model requires at least one fallback'')])
     (route_allowlist_violation (pp_provider_allowlist p) (pp_model_allowlist p) (policy_routes p))"

text \<open>A \<open>Decimal\<close> bounded below by zero with \<open>allow_inf_nan=False\<close>.\<close>

definition nonneg_decimal_ok :: "pyfloat \<Rightarrow> bool" where
  "nonneg_decimal_ok x = (case x of Finite q \<Rightarrow> 0 \<le> q | _ \<Rightarrow> False)"

record budget =
  bu_max_cost_usd :: pyfloat
  bu_max_total_tokens :: int
  bu_max_tool_invocations :: int
  bu_max_parallel_tasks :: int
  bu_max_attempts_per_task :: int
  bu_task_timeout_seconds :: int

definition budget_violation :: "budget \<Rightarrow> contract_error option" where
  "budget_violation b = checks
     [(\<not> nonneg_decimal_ok (bu_max_cost_usd b), FieldError ''max_cost_usd''),
      (\<not> 1 \<le> bu_max_total_tokens b, FieldError ''max_total_tokens''),
      (\<not> 0 \<le> bu_max_tool_invocations b, FieldError ''max_tool_invocations''),
      (\<not> 1 \<le> bu_max_parallel_tasks b, FieldError ''max_parallel_tasks''),
      (\<not> 1 \<le> bu_max_attempts_per_task b, FieldError ''max_attempts_per_task''),
      (\<not> 1 \<le> bu_task_timeout_seconds b, FieldError ''task_timeout_seconds'')]"

subsection \<open>The routing decision\<close>

record decision =
  rd_id :: string
  rd_strategy :: string
  rd_domains :: "string list"
  rd_mode :: collaboration_mode
  rd_supervisor_id :: "string option"
  rd_supervisor_type :: "string option"
  rd_workers :: "worker list"
  rd_edges :: "edge list"
  rd_policy :: provider_policy
  rd_budget :: budget
  rd_stop_conditions :: "string list"
  rd_evaluator_requirements :: "string list"

definition worker_ids :: "decision \<Rightarrow> string list" where
  "worker_ids d = map wk_id (rd_workers d)"

definition topology_nodes :: "decision \<Rightarrow> string list" where
  "topology_nodes d =
     worker_ids d @ (case rd_supervisor_id d of None \<Rightarrow> [] | Some s \<Rightarrow> [s])"

definition edge_key :: "edge \<Rightarrow> string \<times> string \<times> string" where
  "edge_key e = (ed_source e, ed_target e, ed_relation e)"

fun edge_node_violation :: "string list \<Rightarrow> edge list \<Rightarrow> contract_error option" where
  "edge_node_violation ns [] = None"
| "edge_node_violation ns (e # es) =
     (if ed_source e \<notin> set ns \<or> ed_target e \<notin> set ns
      then Some (RuleError ''Routing edge references unknown topology node'')
      else edge_node_violation ns es)"

lemma edge_node_None [simp]:
  "edge_node_violation ns es = None \<longleftrightarrow> (\<forall>e \<in> set es. ed_source e \<in> set ns \<and> ed_target e \<in> set ns)"
  by (induction es) auto

definition decision_field_violation :: "decision \<Rightarrow> contract_error option" where
  "decision_field_violation d = checks
     [(\<not> contract_id_ok (rd_id d), FieldError ''routing_decision_id''),
      (\<not> contract_id_ok (rd_strategy d), FieldError ''strategy''),
      (\<not> list_all contract_id_ok (rd_domains d) \<or> rd_domains d = [], FieldError ''domains''),
      (\<not> optional_id_ok (rd_supervisor_id d), FieldError ''supervisor_id''),
      (\<not> optional_id_ok (rd_supervisor_type d), FieldError ''supervisor_type''),
      (rd_workers d = [], FieldError ''workers''),
      (\<not> list_all contract_id_ok (rd_stop_conditions d) \<or> rd_stop_conditions d = [],
         FieldError ''stop_conditions''),
      (\<not> list_all contract_id_ok (rd_evaluator_requirements d), FieldError ''evaluator_requirements'')]"

definition validate_authority :: "decision \<Rightarrow> contract_error option" where
  "validate_authority d =
     and_then (checks
       [(\<not> require_unique (rd_domains d), RuleError ''domains entries must be unique''),
        (\<not> require_unique (rd_stop_conditions d), RuleError ''stop_conditions entries must be unique''),
        (\<not> require_unique (rd_evaluator_requirements d),
           RuleError ''evaluator_requirements entries must be unique''),
        ((rd_supervisor_id d = None) \<noteq> (rd_supervisor_type d = None),
           RuleError ''supervisor_id and supervisor_type must be provided together''),
        (\<not> require_unique (worker_ids d), RuleError ''worker_id entries must be unique''),
        (some_and (\<lambda>s. s \<in> set (worker_ids d)) (rd_supervisor_id d),
           RuleError ''supervisor_id must be distinct from worker ids''),
        (\<not> require_unique (map edge_key (rd_edges d)), RuleError ''routing edges must be unique'')])
     (and_then (edge_node_violation (topology_nodes d) (rd_edges d))
     (checks
       [(bu_max_parallel_tasks (rd_budget d) > int (length (rd_workers d)),
           RuleError ''max_parallel_tasks cannot exceed admitted worker count''),
        (rd_mode d \<in> {FastPath, Direct} \<and> length (rd_workers d) \<noteq> 1,
           RuleError ''requires exactly one worker''),
        (rd_mode d \<in> {FastPath, Direct} \<and> rd_supervisor_id d \<noteq> None,
           RuleError ''cannot declare a supervisor''),
        (rd_mode d \<in> {FastPath, Direct} \<and> rd_edges d \<noteq> [],
           RuleError ''cannot declare routing edges''),
        (rd_mode d = Parallel \<and> length (rd_workers d) < 2,
           RuleError ''parallel requires at least two workers''),
        (rd_mode d = Hierarchical \<and> rd_supervisor_id d = None,
           RuleError ''hierarchical requires an explicit supervisor'')]))"

definition new_decision :: "decision \<Rightarrow> contract_error + decision" where
  "new_decision d = raise_or (and_then (decision_field_violation d) (validate_authority d)) d"

definition decision_valid :: "decision \<Rightarrow> bool" where
  "decision_valid d = (new_decision d = Inr d)"

subsection \<open>The plan\<close>

record amendment =
  am_prior_plan_id :: string
  am_prior_plan_version :: int
  am_reason :: string
  am_policy_validation :: amendment_status
  am_budget_validation :: amendment_status

text \<open>\<open>normalize_reason\<close> stores the stripped reason, which must not be empty.\<close>

definition new_amendment :: "amendment \<Rightarrow> contract_error + amendment" where
  "new_amendment a = raise_or (checks
     [(\<not> contract_id_ok (am_prior_plan_id a), FieldError ''prior_execution_plan_id''),
      (\<not> 1 \<le> am_prior_plan_version a, FieldError ''prior_plan_version''),
      (am_reason a = [], FieldError ''reason''),
      (py_strip (am_reason a) = [], RuleError ''amendment reason must be non-empty'')])
     (a\<lparr>am_reason := py_strip (am_reason a)\<rparr>)"

record plan =
  pl_id :: string
  pl_version :: int
  pl_run_id :: string
  pl_workflow_definition_id :: string
  pl_workflow_definition_version :: string
  pl_routing_policy_id :: string
  pl_routing_policy_version :: string
  pl_decision :: decision
  pl_compiled_at :: instant
  pl_deadline :: instant
  pl_amendment :: "amendment option"

definition plan_field_violation :: "plan \<Rightarrow> contract_error option" where
  "plan_field_violation p = checks
     [(\<not> contract_id_ok (pl_id p), FieldError ''execution_plan_id''),
      (\<not> 1 \<le> pl_version p, FieldError ''plan_version''),
      (\<not> contract_id_ok (pl_run_id p), FieldError ''run_id''),
      (\<not> contract_id_ok (pl_workflow_definition_id p), FieldError ''workflow_definition_id''),
      (\<not> version_ok (pl_workflow_definition_version p), FieldError ''workflow_definition_version''),
      (\<not> contract_id_ok (pl_routing_policy_id p), FieldError ''routing_policy_id''),
      (\<not> version_ok (pl_routing_policy_version p), FieldError ''routing_policy_version'')]"

definition validate_version_and_deadline :: "plan \<Rightarrow> contract_error option" where
  "validate_version_and_deadline p =
     (if pl_deadline p \<le> pl_compiled_at p then Some (RuleError ''deadline must follow compiled_at'')
      else if pl_version p = 1
      then (if pl_amendment p \<noteq> None then Some (RuleError ''plan version 1 cannot be an amendment'')
            else None)
      else
       (case pl_amendment p of
          None \<Rightarrow> Some (RuleError ''plan version greater than 1 requires amendment metadata'')
        | Some a \<Rightarrow> checks
           [(am_prior_plan_version a \<noteq> pl_version p - 1,
               RuleError ''amendment must reference the immediately prior plan version''),
            (am_prior_plan_id a = pl_id p,
               RuleError ''amendment must reference a distinct prior execution plan''),
            (am_policy_validation a \<noteq> AmendApproved \<or> am_budget_validation a \<noteq> AmendApproved,
               RuleError ''amended plans require approved policy and budget validation'')]))"

definition new_plan :: "plan \<Rightarrow> contract_error + plan" where
  "new_plan p = raise_or (and_then (plan_field_violation p) (validate_version_and_deadline p)) p"

subsection \<open>Compilation of a routing proposal\<close>

text \<open>The authority binding; its two callables are the values they return for this compilation.\<close>

record authority_binding =
  ab_id :: string
  ab_version :: string
  ab_run :: run
  ab_workflow :: workflow_definition
  ab_policy :: routing_policy
  ab_domains :: "string list"
  ab_supervisor_id :: "string option"
  ab_supervisor_type :: "string option"
  ab_workers :: "worker list"
  ab_edges :: "edge list"
  ab_provider_policy :: provider_policy
  ab_budget :: budget
  ab_stop_conditions :: "string list"
  ab_evaluator_requirements :: "string list"
  ab_deadline :: py_datetime
  ab_next_plan_id :: string
  ab_clock :: py_datetime

text \<open>
  A proposed model is an arbitrary object: its attributes are values, \<open>None\<close> where the attribute
  is missing. Of the proposal, the fields the compiler reads.
\<close>

record model_object =
  mo_provider :: "pyval option"
  mo_model_name :: "pyval option"
  mo_name :: "pyval option"
  mo_model :: "pyval option"

record proposal =
  pr_mode :: string
  pr_strategy :: string
  pr_worker_types :: "string list"
  pr_supervisor_type :: "string option"
  pr_domains :: "string list"
  pr_primary_model :: model_object
  pr_fallback_models :: "model_object list"

definition attr_or :: "pyval option \<Rightarrow> pyval \<Rightarrow> pyval" where
  "attr_or a d = (case a of None \<Rightarrow> d | Some v \<Rightarrow> v)"

definition model_route :: "model_object \<Rightarrow> contract_error + (string \<times> string)" where
  "model_route m =
     (case (attr_or (mo_provider m) VNone,
            attr_or (mo_model_name m) (attr_or (mo_name m) (attr_or (mo_model m) VNone))) of
        (VStr p, VStr n) \<Rightarrow> Inr (p, n)
      | _ \<Rightarrow> Inl (RuleError ''MASR proposal provider/model route is incomplete''))"

definition binding_routes :: "authority_binding \<Rightarrow> (string \<times> string) list" where
  "binding_routes b = map (\<lambda>r. (rt_provider r, rt_model r)) (policy_routes (ab_provider_policy b))"

definition authority_decision :: "authority_binding \<Rightarrow> collaboration_mode \<Rightarrow> decision" where
  "authority_decision b mode =
     \<lparr>rd_id = ab_id b @ ''-decision'', rd_strategy = rp_strategy (ab_policy b),
      rd_domains = ab_domains b, rd_mode = mode, rd_supervisor_id = ab_supervisor_id b,
      rd_supervisor_type = ab_supervisor_type b, rd_workers = ab_workers b, rd_edges = ab_edges b,
      rd_policy = ab_provider_policy b, rd_budget = ab_budget b,
      rd_stop_conditions = ab_stop_conditions b,
      rd_evaluator_requirements = ab_evaluator_requirements b\<rparr>"

definition authority_plan :: "authority_binding \<Rightarrow> instant \<Rightarrow> instant \<Rightarrow> decision \<Rightarrow> plan" where
  "authority_plan b now deadline d =
     \<lparr>pl_id = ab_next_plan_id b, pl_version = 1, pl_run_id = run_id (ab_run b),
      pl_workflow_definition_id = wd_id (ab_workflow b),
      pl_workflow_definition_version = wd_version (ab_workflow b),
      pl_routing_policy_id = rp_id (ab_policy b), pl_routing_policy_version = rp_version (ab_policy b),
      pl_decision = d, pl_compiled_at = now, pl_deadline = deadline, pl_amendment = None\<rparr>"

text \<open>The checks that the proposal does not drift from the authority, for the mode parsed from it.\<close>

definition proposal_drift :: "proposal \<Rightarrow> authority_binding \<Rightarrow> collaboration_mode \<Rightarrow> contract_error option" where
  "proposal_drift p b mode =
     and_then (checks
       [(collaboration_mode_support mode \<noteq> Implemented, RuleError ''unsupported collaboration mode''),
        (pr_strategy p \<noteq> rp_strategy (ab_policy b) \<or>
           mode_value mode \<noteq> rp_collaboration_mode (ab_policy b),
           RuleError ''MASR proposal does not match routing policy''),
        (pr_worker_types p \<noteq> map wk_type (ab_workers b),
           RuleError ''MASR proposal worker types do not match authority''),
        (pr_supervisor_type p \<noteq> ab_supervisor_type b,
           RuleError ''MASR proposal supervisor does not match authority''),
        (pr_domains p \<noteq> ab_domains b, RuleError ''MASR proposal domains do not match authority'')])
     (case map_result model_route (pr_primary_model p # pr_fallback_models p) of
        Inl e \<Rightarrow> Some e
      | Inr routes \<Rightarrow> checks
          [(routes \<noteq> binding_routes b,
              RuleError ''MASR proposal provider/model routes do not match authority'')])"

definition compile_plan :: "proposal \<Rightarrow> authority_binding \<Rightarrow> contract_error + plan" where
  "compile_plan p b =
     (case mode_of_value (pr_mode p) of
        None \<Rightarrow> Inl (RuleError ''unsupported collaboration mode'')
      | Some mode \<Rightarrow>
          (case proposal_drift p b mode of
             Some e \<Rightarrow> Inl e
           | None \<Rightarrow>
               bind_result (new_decision (authority_decision b mode)) (\<lambda>d.
                 (case (ab_clock b, ab_deadline b) of
                    (Naive n, _) \<Rightarrow> Inl (FieldError ''compiled_at'')
                  | (Aware now, Naive n) \<Rightarrow> Inl (FieldError ''deadline'')
                  | (Aware now, Aware deadline) \<Rightarrow> new_plan (authority_plan b now deadline d)))))"

subsection \<open>What compilation guarantees\<close>

lemma new_decision_Inr: "new_decision d = Inr d' \<longleftrightarrow> decision_valid d \<and> d' = d"
  by (auto simp: new_decision_def decision_valid_def)

lemma compile_plan_Inr:
  "compile_plan p b = Inr pl \<longleftrightarrow>
     (\<exists>mode now deadline. pr_mode p = mode_value mode \<and> proposal_drift p b mode = None \<and>
        decision_valid (authority_decision b mode) \<and> ab_clock b = Aware now \<and>
        ab_deadline b = Aware deadline \<and>
        new_plan (authority_plan b now deadline (authority_decision b mode)) = Inr pl)"
proof (cases "mode_of_value (pr_mode p)")
  case None
  then have "\<forall>m. pr_mode p \<noteq> mode_value m" by (metis mode_of_value_Some option.distinct(1))
  with None show ?thesis by (simp add: compile_plan_def)
next
  case (Some mode)
  moreover from this have "pr_mode p = mode_value mode" by (simp add: mode_of_value_Some)
  moreover have "mode_value mode = mode_value m \<longleftrightarrow> mode = m" for m
    by (metis mode_of_value_Some option.inject)
  ultimately show ?thesis
    by (auto simp: compile_plan_def new_decision_Inr split: py_datetime.splits option.splits)
qed

lemma proposal_drift_None:
  "proposal_drift p b mode = None \<longleftrightarrow>
     collaboration_mode_support mode = Implemented \<and> pr_strategy p = rp_strategy (ab_policy b) \<and>
     mode_value mode = rp_collaboration_mode (ab_policy b) \<and>
     pr_worker_types p = map wk_type (ab_workers b) \<and> pr_supervisor_type p = ab_supervisor_type b \<and>
     pr_domains p = ab_domains b \<and>
     map_result model_route (pr_primary_model p # pr_fallback_models p) = Inr (binding_routes b)"
  by (auto simp: proposal_drift_def simp del: map_result.simps split: sum.splits)

lemma compile_plan_authority_facts:
  assumes "compile_plan p b = Inr pl"
  shows "decision_valid (pl_decision pl)"
    and "collaboration_mode_support (rd_mode (pl_decision pl)) = Implemented"
    and "pl_decision pl = authority_decision b (rd_mode (pl_decision pl))"
    and "mode_value (rd_mode (pl_decision pl)) = rp_collaboration_mode (ab_policy b)"
    and "Aware (pl_compiled_at pl) = ab_clock b \<and> Aware (pl_deadline pl) = ab_deadline b \<and>
         pl_compiled_at pl < pl_deadline pl \<and> pl_version pl = 1 \<and> pl_amendment pl = None"
    and "(pr_mode p, pr_strategy p, pr_worker_types p, pr_supervisor_type p, pr_domains p) =
         (rp_collaboration_mode (ab_policy b), rd_strategy (pl_decision pl),
          map wk_type (rd_workers (pl_decision pl)), rd_supervisor_type (pl_decision pl),
          rd_domains (pl_decision pl))"
    and "map_result model_route (pr_primary_model p # pr_fallback_models p) =
         Inr (map (\<lambda>r. (rt_provider r, rt_model r)) (policy_routes (rd_policy (pl_decision pl))))"
    and "compile_plan p' b = Inr pl' \<Longrightarrow> pl' = pl"
proof -
  from assms obtain mode now deadline where
    raw: "pr_mode p = mode_value mode" "proposal_drift p b mode = None"
      "decision_valid (authority_decision b mode)" "ab_clock b = Aware now" "ab_deadline b = Aware deadline"
    and plan: "new_plan (authority_plan b now deadline (authority_decision b mode)) = Inr pl"
    by (auto simp: compile_plan_Inr)
  note drift = raw(2)[unfolded proposal_drift_None]
  from plan have pl: "pl = authority_plan b now deadline (authority_decision b mode)"
    and ok: "validate_version_and_deadline pl = None"
    by (auto simp: new_plan_def)
  have dec: "pl_decision pl = authority_decision b mode" by (simp add: pl authority_plan_def)
  have mode: "rd_mode (pl_decision pl) = mode" by (simp add: dec authority_decision_def)
  show "decision_valid (pl_decision pl)" using raw dec by simp
  show "collaboration_mode_support (rd_mode (pl_decision pl)) = Implemented" using drift mode by simp
  show "pl_decision pl = authority_decision b (rd_mode (pl_decision pl))" using dec mode by simp
  show "mode_value (rd_mode (pl_decision pl)) = rp_collaboration_mode (ab_policy b)"
    using drift mode by simp
  show "Aware (pl_compiled_at pl) = ab_clock b \<and> Aware (pl_deadline pl) = ab_deadline b \<and>
         pl_compiled_at pl < pl_deadline pl \<and> pl_version pl = 1 \<and> pl_amendment pl = None"
    using ok by (auto simp: pl authority_plan_def raw validate_version_and_deadline_def split: if_splits)
  show "(pr_mode p, pr_strategy p, pr_worker_types p, pr_supervisor_type p, pr_domains p) =
         (rp_collaboration_mode (ab_policy b), rd_strategy (pl_decision pl),
          map wk_type (rd_workers (pl_decision pl)), rd_supervisor_type (pl_decision pl),
          rd_domains (pl_decision pl))"
    using drift raw(1) by (simp add: dec authority_decision_def)
  show "map_result model_route (pr_primary_model p # pr_fallback_models p) =
         Inr (map (\<lambda>r. (rt_provider r, rt_model r)) (policy_routes (rd_policy (pl_decision pl))))"
    using drift by (simp add: dec authority_decision_def binding_routes_def)
  assume "compile_plan p' b = Inr pl'"
  then obtain mode' where other: "proposal_drift p' b mode' = None"
      "new_plan (authority_plan b now deadline (authority_decision b mode')) = Inr pl'"
    using raw by (auto simp: compile_plan_Inr)
  have "mode_value mode' = mode_value mode" using other(1) drift by (simp add: proposal_drift_None)
  then have "mode' = mode" by (metis mode_of_value_Some option.inject)
  with other(2) plan show "pl' = pl" by simp
qed

text \<open>
  Compilation takes all authority from the binding, none from the proposal. Whenever a plan
  comes out it is the authority's plan stamped with the binding's clock: the routing decision is
  valid, its mode is implemented and the one the routing policy names, the deadline follows
  compilation, and the proposal agreed with the authority on strategy, mode, worker types,
  supervisor, domains and on every provider/model route in order. Two proposals that compile
  against the same binding give the same plan.
\<close>

theorem compile_plan_authority:
  assumes "compile_plan p b = Inr pl"
  shows "decision_valid (pl_decision pl) \<and>
     collaboration_mode_support (rd_mode (pl_decision pl)) = Implemented \<and>
     pl_decision pl = authority_decision b (rd_mode (pl_decision pl)) \<and>
     mode_value (rd_mode (pl_decision pl)) = rp_collaboration_mode (ab_policy b) \<and>
     (Aware (pl_compiled_at pl) = ab_clock b \<and> Aware (pl_deadline pl) = ab_deadline b \<and>
      pl_compiled_at pl < pl_deadline pl \<and> pl_version pl = 1 \<and> pl_amendment pl = None) \<and>
     (pr_mode p, pr_strategy p, pr_worker_types p, pr_supervisor_type p, pr_domains p) =
       (rp_collaboration_mode (ab_policy b), rd_strategy (pl_decision pl),
        map wk_type (rd_workers (pl_decision pl)), rd_supervisor_type (pl_decision pl),
        rd_domains (pl_decision pl)) \<and>
     map_result model_route (pr_primary_model p # pr_fallback_models p) =
       Inr (map (\<lambda>r. (rt_provider r, rt_model r)) (policy_routes (rd_policy (pl_decision pl)))) \<and>
     (compile_plan p' b = Inr pl' \<longrightarrow> pl' = pl)"
  using compile_plan_authority_facts[OF assms] by auto

definition example_worker :: "string \<Rightarrow> worker" where
  "example_worker i = \<lparr>wk_id = i, wk_type = ''research'', wk_objective = ''find'',
     wk_output_schema = VDict [], wk_permission_scopes = [''read''], wk_tool_allowlist = [''search'']\<rparr>"

definition example_budget :: budget where
  "example_budget = \<lparr>bu_max_cost_usd = Finite 1, bu_max_total_tokens = 1000, bu_max_tool_invocations = 5,
     bu_max_parallel_tasks = 2, bu_max_attempts_per_task = 1, bu_task_timeout_seconds = 60\<rparr>"

definition example_provider_policy :: provider_policy where
  "example_provider_policy = \<lparr>pp_primary = \<lparr>rt_provider = ''p'', rt_model = ''m''\<rparr>,
     pp_fallback_mode = FailClosed, pp_fallbacks = [], pp_provider_allowlist = [''p''],
     pp_model_allowlist = [''m'']\<rparr>"

definition example_edge :: "string \<Rightarrow> string \<Rightarrow> edge" where
  "example_edge a b = \<lparr>ed_source = a, ed_target = b, ed_relation = ''delegates''\<rparr>"

definition example_binding :: authority_binding where
  "example_binding = \<lparr>ab_id = ''auth'', ab_version = ''1'', ab_run = run_example,
     ab_workflow = \<lparr>wd_id = ''wf'', wd_version = ''1'', wd_name = ''n'', wd_description = ''d'',
       wd_control_mode = Predefined, wd_task_types = [''research''], wd_input_schema = VDict [],
       wd_output_schema = VDict [], wd_default_policy_id = ''pol'', wd_default_policy_version = ''1'',
       wd_created_at = 0\<rparr>,
     ab_policy = \<lparr>rp_id = ''pol'', rp_version = ''1'', rp_strategy = ''balanced'',
       rp_collaboration_mode = ''hierarchical'', rp_worker_types = [''research''],
       rp_max_parallel_tasks = 2, rp_max_attempts_per_task = 1, rp_task_timeout_seconds = 60,
       rp_provider_allowlist = [], rp_model_allowlist = [], rp_metadata = VDict []\<rparr>,
     ab_domains = [''science''], ab_supervisor_id = Some ''root'', ab_supervisor_type = Some ''sup'',
     ab_workers = [example_worker ''w1'', example_worker ''w2''],
     ab_edges = [example_edge ''root'' ''w1'', example_edge ''w1'' ''w2''],
     ab_provider_policy = example_provider_policy, ab_budget = example_budget,
     ab_stop_conditions = [''complete''], ab_evaluator_requirements = [],
     ab_deadline = Aware 100, ab_next_plan_id = ''plan'', ab_clock = Aware 50\<rparr>"

definition example_model :: model_object where
  "example_model = \<lparr>mo_provider = Some (VStr ''p''), mo_model_name = None, mo_name = Some (VStr ''m''),
     mo_model = None\<rparr>"

definition example_proposal :: proposal where
  "example_proposal = \<lparr>pr_mode = ''hierarchical'', pr_strategy = ''balanced'',
     pr_worker_types = [''research'', ''research''], pr_supervisor_type = Some ''sup'',
     pr_domains = [''science''], pr_primary_model = example_model, pr_fallback_models = []\<rparr>"

definition example_plan :: plan where
  "example_plan = authority_plan example_binding 50 100 (authority_decision example_binding Hierarchical)"

lemmas example_plan_defs = example_worker_def example_budget_def example_provider_policy_def
  example_edge_def example_binding_def example_model_def example_proposal_def run_example_def

lemma example_compiles: "compile_plan example_proposal example_binding = Inr example_plan"
  by code_simp

theorem compile_plan_authority_witness:
  "decision_valid (pl_decision example_plan) \<and>
   rp_collaboration_mode (ab_policy example_binding) = ''hierarchical'' \<and>
   (\<nexists>other. compile_plan example_proposal example_binding = Inr other \<and> other \<noteq> example_plan)"
  using compile_plan_authority[OF example_compiles]
    example_compiles
  by (simp add: example_binding_def)

text \<open>
  A valid routing decision is well formed as a topology: worker ids are distinct, the
  supervisor is none of them, every edge joins two declared nodes and no edge is repeated; the
  parallelism bound does not exceed the number of workers; the single-worker modes have exactly one worker
  and no supervisor or edge, and a hierarchical plan has a supervisor with a type. Any other
  decision is refused by the constructor with an error.
\<close>

theorem new_decision_well_formed:
  "(\<exists>e. new_decision d = Inl e) \<or>
   (new_decision d = Inr d \<and> distinct (topology_nodes d) \<and> worker_ids d \<noteq> [] \<and>
    ed_source ` set (rd_edges d) \<union> ed_target ` set (rd_edges d) \<subseteq> set (topology_nodes d) \<and>
    distinct (map edge_key (rd_edges d)) \<and>
    bu_max_parallel_tasks (rd_budget d) \<le> int (length (worker_ids d)) \<and>
    (case rd_mode d of
       FastPath \<Rightarrow> length (worker_ids d) = 1 \<and> rd_supervisor_id d = None \<and> rd_edges d = []
     | Direct \<Rightarrow> length (worker_ids d) = 1 \<and> rd_supervisor_id d = None \<and> rd_edges d = []
     | Parallel \<Rightarrow> 2 \<le> length (worker_ids d)
     | Hierarchical \<Rightarrow> rd_supervisor_id d \<noteq> None \<and> rd_supervisor_type d \<noteq> None
     | _ \<Rightarrow> True))"
proof (cases "new_decision d")
  case (Inr d')
  then have ok: "decision_field_violation d = None" "validate_authority d = None" "d' = d"
    by (auto simp: new_decision_def)
  have "distinct (topology_nodes d)" "distinct (map edge_key (rd_edges d))"
    using ok(2) by (auto simp: validate_authority_def topology_nodes_def split: option.splits)
  moreover have "worker_ids d \<noteq> []" using ok(1)
    by (auto simp: decision_field_violation_def worker_ids_def)
  moreover have "ed_source ` set (rd_edges d) \<union> ed_target ` set (rd_edges d) \<subseteq> set (topology_nodes d)"
    using ok(2) by (auto simp: validate_authority_def)
  moreover have "bu_max_parallel_tasks (rd_budget d) \<le> int (length (worker_ids d))"
    using ok(2) by (auto simp: validate_authority_def worker_ids_def)
  moreover have "case rd_mode d of
       FastPath \<Rightarrow> length (worker_ids d) = 1 \<and> rd_supervisor_id d = None \<and> rd_edges d = []
     | Direct \<Rightarrow> length (worker_ids d) = 1 \<and> rd_supervisor_id d = None \<and> rd_edges d = []
     | Parallel \<Rightarrow> 2 \<le> length (worker_ids d)
     | Hierarchical \<Rightarrow> rd_supervisor_id d \<noteq> None \<and> rd_supervisor_type d \<noteq> None
     | _ \<Rightarrow> True"
    using ok(2) by (auto simp: validate_authority_def worker_ids_def split: collaboration_mode.split)
  ultimately show ?thesis using Inr ok(3) by blast
qed simp

end
