(* ===== verification/Plan_Topology.thy ===== *)
theory Plan_Topology
  imports Execution_Plan "HOL-Library.List_Lexorder" "HOL-Library.Char_ord"
begin

text \<open>
  \<^verbatim>\<open>src/ai_brain/integration/execution_plan_topology.py\<close>: admission of a compiled plan and the
  scheduler that runs its workers. Python sets are lists without duplicates; the one place where
  their iteration order could matter, the children of a node in the depth-first search, is the
  argument \<open>order\<close>. Telemetry is not modelled. The worker executor and the capability checker are
  arguments.
\<close>

subsection \<open>Depth-first search\<close>

text \<open>
  \<open>visit\<close> of \<open>_validate_hierarchical\<close>: \<open>visited\<close> newest first, \<open>active\<close> the nodes on the stack. The
  result is \<open>None\<close> only when the fuel, a bound on the depth of the recursion, runs out.
\<close>

type_synonym dfs_state = "string list \<times> string list"

function visit :: "nat \<Rightarrow> (string \<Rightarrow> string list) \<Rightarrow> string \<Rightarrow> dfs_state \<Rightarrow> (bool \<times> dfs_state) option"
  and visit_all :: "nat \<Rightarrow> (string \<Rightarrow> string list) \<Rightarrow> string list \<Rightarrow> dfs_state \<Rightarrow> (bool \<times> dfs_state) option"
  where
  "visit 0 adj node st = None"
| "visit (Suc fuel) adj node st =
     (case st of (visited, active) \<Rightarrow>
        if node \<in> set active then Some (False, st)
        else if node \<in> set visited then Some (True, st)
        else
          (case visit_all fuel adj (adj node) (visited, node # active) of
             None \<Rightarrow> None
           | Some (False, st') \<Rightarrow> Some (False, st')
           | Some (True, (visited', active')) \<Rightarrow>
               Some (True, (node # visited', remove1 node active'))))"
| "visit_all fuel adj [] st = Some (True, st)"
| "visit_all fuel adj (c # cs) st =
     (case visit fuel adj c st of
        None \<Rightarrow> None
      | Some (False, st') \<Rightarrow> Some (False, st')
      | Some (True, st') \<Rightarrow> visit_all fuel adj cs st')"
  by pat_completeness auto
termination
  by (relation "measures [case_sum (\<lambda>(fuel, _). fuel) (\<lambda>(fuel, _). fuel),
        case_sum (\<lambda>_. 0) (\<lambda>(_, _, cs, _). Suc (length cs))]") auto

definition successors :: "(string \<Rightarrow> string list) \<Rightarrow> (string \<times> string) set" where
  "successors adj = {(a, b). b \<in> set (adj a)}"

text \<open>A list in which every node comes before all of its successors.\<close>

fun topo :: "(string \<Rightarrow> string list) \<Rightarrow> string list \<Rightarrow> bool" where
  "topo adj [] = True"
| "topo adj (v # vs) = (v \<notin> set vs \<and> set (adj v) \<subseteq> set vs \<and> topo adj vs)"

lemma topo_closed: "topo adj vs \<Longrightarrow> a \<in> set vs \<Longrightarrow> b \<in> set (adj a) \<Longrightarrow> b \<in> set vs"
  by (induction vs) auto

text \<open>What a successful search leaves: the stack as it was, the visited list still topological.\<close>

definition reach :: "(string \<Rightarrow> string list) \<Rightarrow> string set \<Rightarrow> string set" where
  "reach adj S = (successors adj)\<^sup>* `` S"

lemma reach_children: "reach adj (set (adj a)) \<subseteq> reach adj {a}"
  by (auto simp: reach_def successors_def intro: converse_rtrancl_into_rtrancl)

lemma reach_self: "a \<in> S \<Longrightarrow> a \<in> reach adj S"
  by (auto simp: reach_def)

lemma reach_Cons: "reach adj (set (c # cs)) = reach adj {c} \<union> reach adj (set cs)"
  by (auto simp: reach_def)

definition dfs_ok :: "(string \<Rightarrow> string list) \<Rightarrow> string set \<Rightarrow> dfs_state \<Rightarrow> dfs_state \<Rightarrow> bool" where
  "dfs_ok adj S st st' \<longleftrightarrow>
     snd st' = snd st \<and> topo adj (fst st') \<and> set (fst st) \<subseteq> set (fst st') \<and> S \<subseteq> set (fst st') \<and>
     set (fst st') \<subseteq> set (fst st) \<union> reach adj S \<and> set (fst st') \<inter> set (snd st) = {}"

lemma visit_True:
  shows "visit fuel adj node st = Some (True, st') \<Longrightarrow> topo adj (fst st) \<Longrightarrow>
     set (fst st) \<inter> set (snd st) = {} \<Longrightarrow> dfs_ok adj {node} st st'"
    and "visit_all fuel adj cs st = Some (True, st') \<Longrightarrow> topo adj (fst st) \<Longrightarrow>
     set (fst st) \<inter> set (snd st) = {} \<Longrightarrow> dfs_ok adj (set cs) st st'"
proof (induction fuel adj node st and fuel adj cs st
    arbitrary: st' and st' rule: visit_visit_all.induct)
  case (2 fuel adj node st)
  obtain vs act where st: "st = (vs, act)" by (cases st)
  show ?case
  proof (cases "node \<in> set act \<or> node \<in> set vs")
    case True
    with 2 st show ?thesis by (auto simp: dfs_ok_def split: if_splits)
  next
    case False
    then obtain ws bs where rec: "visit_all fuel adj (adj node) (vs, node # act) = Some (True, (ws, bs))"
      and res: "st' = (node # ws, remove1 node bs)"
      using 2(2) st by (auto split: option.splits bool.splits prod.splits)
    have "dfs_ok adj (set (adj node)) (vs, node # act) (ws, bs)"
      by (rule 2(1)[OF st[symmetric] _ _ rec]) (use False 2(3,4) st in auto)
    with False res st reach_children[of adj node] reach_self[of node "{node}" adj] show ?thesis
      unfolding dfs_ok_def by auto
  qed
next
  case (4 fuel adj c cs st)
  then obtain st1 where first: "visit fuel adj c st = Some (True, st1)"
    and rest: "visit_all fuel adj cs st1 = Some (True, st')"
    by (auto split: option.splits bool.splits prod.splits)
  have ok1: "dfs_ok adj {c} st st1" using 4(1)[OF first] 4(4,5) by simp
  have "dfs_ok adj (set cs) st1 st'"
    by (rule 4(2)[OF first _ _ rest]) (use ok1 in \<open>auto simp: dfs_ok_def\<close>)
  with ok1 reach_Cons[of adj c cs] show ?case unfolding dfs_ok_def by auto
qed (auto simp: dfs_ok_def)

text \<open>A failing search has found a cycle, provided everything on the stack leads to the node.\<close>

lemma visit_False:
  shows "visit fuel adj node st = Some (False, st') \<Longrightarrow> topo adj (fst st) \<Longrightarrow>
     set (fst st) \<inter> set (snd st) = {} \<Longrightarrow>
     \<forall>a \<in> set (snd st). (a, node) \<in> (successors adj)\<^sup>+ \<Longrightarrow> \<exists>x. (x, x) \<in> (successors adj)\<^sup>+"
    and "visit_all fuel adj cs st = Some (False, st') \<Longrightarrow> topo adj (fst st) \<Longrightarrow>
     set (fst st) \<inter> set (snd st) = {} \<Longrightarrow>
     \<forall>a \<in> set (snd st). \<forall>c \<in> set cs. (a, c) \<in> (successors adj)\<^sup>+ \<Longrightarrow>
     \<exists>x. (x, x) \<in> (successors adj)\<^sup>+"
proof (induction fuel adj node st and fuel adj cs st
    arbitrary: st' and st' rule: visit_visit_all.induct)
  case (2 fuel adj node st)
  obtain vs act where st: "st = (vs, act)" by (cases st)
  show ?case
  proof (cases "node \<in> set act")
    case True
    with 2(5) st show ?thesis by auto
  next
    case False
    then have new: "node \<notin> set vs" using 2(2) st by (auto split: if_splits)
    with False have rec: "visit_all fuel adj (adj node) (vs, node # act) = Some (False, st')"
      using 2(2) st by (auto split: option.splits bool.splits prod.splits)
    have edge: "c \<in> set (adj node) \<Longrightarrow> (node, c) \<in> successors adj" for c
      by (simp add: successors_def)
    have "\<forall>a \<in> set (node # act). \<forall>c \<in> set (adj node). (a, c) \<in> (successors adj)\<^sup>+"
      using 2(5) st edge by (auto intro: trancl.intros)
    then show ?thesis
      by (intro 2(1)[OF st[symmetric] False new rec]) (use False new 2(3,4) st in auto)
  qed
next
  case (4 fuel adj c cs st)
  show ?case
  proof (cases "\<exists>st1. visit fuel adj c st = Some (True, st1)")
    case True
    then obtain st1 where first: "visit fuel adj c st = Some (True, st1)" by blast
    with 4(3) have rest: "visit_all fuel adj cs st1 = Some (False, st')" by simp
    have "dfs_ok adj {c} st st1" by (rule visit_True(1)[OF first 4(4,5)])
    then show ?thesis
      by (intro 4(2)[OF first _ _ rest]) (use 4(6) in \<open>auto simp: dfs_ok_def\<close>)
  next
    case False
    then have "visit fuel adj c st = Some (False, st')"
      using 4(3) by (auto split: option.splits bool.splits)
    with 4 show ?thesis by auto
  qed
qed auto

text \<open>The search never needs to go deeper than the number of nodes not on the stack.\<close>

lemma visit_fuel:
  shows "finite N \<Longrightarrow> \<forall>a \<in> N. set (adj a) \<subseteq> N \<Longrightarrow> node \<in> N \<Longrightarrow> topo adj (fst st) \<Longrightarrow>
     set (fst st) \<inter> set (snd st) = {} \<Longrightarrow> card (N - set (snd st)) < fuel \<Longrightarrow> visit fuel adj node st \<noteq> None"
    and "finite N \<Longrightarrow> \<forall>a \<in> N. set (adj a) \<subseteq> N \<Longrightarrow> set cs \<subseteq> N \<Longrightarrow> topo adj (fst st) \<Longrightarrow>
     set (fst st) \<inter> set (snd st) = {} \<Longrightarrow> card (N - set (snd st)) < fuel \<Longrightarrow> visit_all fuel adj cs st \<noteq> None"
proof (induction fuel adj node st and fuel adj cs st rule: visit_visit_all.induct)
  case (2 fuel adj node st)
  obtain vs act where st: "st = (vs, act)" by (cases st)
  show ?case
  proof (cases "node \<in> set act \<or> node \<in> set vs")
    case True
    with st show ?thesis by auto
  next
    case False
    have "card (N - set (node # act)) < card (N - set act)"
      using False 2(2,4) by (intro psubset_card_mono) auto
    with 2(7) st have "card (N - set (node # act)) < fuel" by simp
    then have "visit_all fuel adj (adj node) (vs, node # act) \<noteq> None"
      by (intro 2(1)[OF st[symmetric]]) (use False 2(2-6) st in auto)
    with False st show ?thesis by (auto split: bool.splits)
  qed
next
  case (4 fuel adj c cs st)
  then have "visit fuel adj c st \<noteq> None" by auto
  moreover have "visit_all fuel adj cs st1 \<noteq> None" if first: "visit fuel adj c st = Some (True, st1)" for st1
  proof -
    have "dfs_ok adj {c} st st1" by (rule visit_True(1)[OF first 4(6,7)])
    then show ?thesis
      by (intro 4(2)[OF first]) (use 4(3-8) in \<open>auto simp: dfs_ok_def\<close>)
  qed
  ultimately show ?case by (auto split: bool.splits)
qed auto

lemma topo_rank: "topo adj (us @ a # ws) \<Longrightarrow> b \<in> set (adj a) \<Longrightarrow> b \<in> set ws"
  by (induction us) auto

lemma topo_trancl:
  "(a, b) \<in> (successors adj)\<^sup>+ \<Longrightarrow> topo adj (a # ws) \<Longrightarrow> b \<in> set ws"
proof (induction rule: trancl_induct)
  case (base b)
  then show ?case by (auto simp: successors_def)
next
  case (step b c)
  then show ?case using topo_closed[of adj ws b c] by (auto simp: successors_def)
qed

lemma topo_suffix: "topo adj (us @ ws) \<Longrightarrow> topo adj ws"
  by (induction us) auto

text \<open>No node of a topologically sorted list lies on a cycle.\<close>

lemma topo_acyclic: "topo adj vs \<Longrightarrow> a \<in> set vs \<Longrightarrow> (a, a) \<notin> (successors adj)\<^sup>+"
proof
  assume t: "topo adj vs" and "a \<in> set vs" and cyc: "(a, a) \<in> (successors adj)\<^sup>+"
  then obtain us ws where vs: "vs = us @ a # ws" by (meson split_list)
  with t have "topo adj (a # ws)" using topo_suffix by blast
  with topo_trancl[OF cyc this] show False by simp
qed

text \<open>
  The verdict of the search from the root: \<open>visit(root)\<close> returns true with every node visited
  exactly when every node is reachable from the root and there is no cycle.
\<close>

definition rooted_dag :: "(string \<Rightarrow> string list) \<Rightarrow> string \<Rightarrow> string set \<Rightarrow> bool" where
  "rooted_dag adj rootn N \<longleftrightarrow> reach adj {rootn} = N \<and> acyclic (successors adj)"

lemma successors_source: "\<forall>a. a \<notin> N \<longrightarrow> adj a = [] \<Longrightarrow> (a, b) \<in> (successors adj)\<^sup>+ \<Longrightarrow> a \<in> N"
  by (drule tranclD) (auto simp: successors_def)

lemma visit_verdict:
  assumes N: "finite N" "\<forall>a \<in> N. set (adj a) \<subseteq> N" "\<forall>a. a \<notin> N \<longrightarrow> adj a = []" "rootn \<in> N"
    and fuel: "card N < fuel"
  shows "(\<exists>vs act. visit fuel adj rootn ([], []) = Some (True, (vs, act)) \<and> set vs = N) \<longleftrightarrow>
     rooted_dag adj rootn N"
proof
  assume "\<exists>vs act. visit fuel adj rootn ([], []) = Some (True, (vs, act)) \<and> set vs = N"
  then obtain vs act where run: "visit fuel adj rootn ([], []) = Some (True, (vs, act))" and vs: "set vs = N"
    by blast
  have ok: "dfs_ok adj {rootn} ([], []) (vs, act)" by (rule visit_True(1)[OF run]) auto
  have "b \<in> N" if "(rootn, b) \<in> (successors adj)\<^sup>*" for b
    using that by induction (use N in \<open>auto simp: successors_def\<close>)
  then have "reach adj {rootn} = N" using ok vs by (auto simp: dfs_ok_def reach_def)
  moreover have "acyclic (successors adj)"
    using ok vs topo_acyclic[of adj vs] successors_source[OF N(3)]
    by (auto simp: acyclic_def dfs_ok_def)
  ultimately show "rooted_dag adj rootn N" by (simp add: rooted_dag_def)
next
  assume dag: "rooted_dag adj rootn N"
  have "visit fuel adj rootn ([], []) \<noteq> None"
    by (rule visit_fuel(1)[OF N(1,2,4)]) (use fuel in auto)
  then obtain b st' where run: "visit fuel adj rootn ([], []) = Some (b, st')" by auto
  have "b" using visit_False(1)[of fuel adj rootn "([], [])" st'] run dag
    by (cases b) (auto simp: rooted_dag_def acyclic_def)
  with run obtain vs act where run': "visit fuel adj rootn ([], []) = Some (True, (vs, act))"
    by (cases st') auto
  have ok: "dfs_ok adj {rootn} ([], []) (vs, act)" by (rule visit_True(1)[OF run']) auto
  have "b \<in> set vs" if "(rootn, b) \<in> (successors adj)\<^sup>*" for b
    using that by induction (use ok topo_closed[of adj vs] in \<open>auto simp: dfs_ok_def successors_def\<close>)
  with ok dag have "set vs = N" by (auto simp: dfs_ok_def rooted_dag_def reach_def)
  with run' show "\<exists>vs act. visit fuel adj rootn ([], []) = Some (True, (vs, act)) \<and> set vs = N" by blast
qed

subsection \<open>Admission\<close>

type_synonym scan = "(string \<Rightarrow> string list) \<times> (string \<Rightarrow> nat)"

text \<open>
  The loop over the edges: \<open>adjacency\<close> and \<open>incoming\<close> are dictionaries with the keys \<open>nodes\<close>; using
  another key raises.
\<close>

fun scan_edges :: "string list \<Rightarrow> edge list \<Rightarrow> scan \<Rightarrow> string + scan" where
  "scan_edges nodes [] st = Inr st"
| "scan_edges nodes (e # es) (adjacency, incoming) =
     (if ed_relation e \<notin> {''delegates'', ''depends_on''} then Inl ''edge relation is unsupported''
      else if ed_source e \<notin> set nodes \<or> ed_target e \<notin> set nodes then Inl ''KeyError''
      else scan_edges nodes es
        (adjacency(ed_source e := List.insert (ed_target e) (adjacency (ed_source e))),
         incoming(ed_target e := incoming (ed_target e) + 1)))"

definition validate_hierarchical :: "(string list \<Rightarrow> string list) \<Rightarrow> decision \<Rightarrow> string option" where
  "validate_hierarchical order d =
     (case rd_supervisor_id d of
        None \<Rightarrow> Some ''AssertionError''
      | Some supervisor \<Rightarrow>
         (let nodes = remdups (supervisor # worker_ids d) in
          case scan_edges nodes (rd_edges d) (\<lambda>_. [], \<lambda>_. 0) of
            Inl reason \<Rightarrow> Some reason
          | Inr (adjacency, incoming) \<Rightarrow>
              if incoming supervisor \<noteq> 0 \<or> list_ex (\<lambda>n. incoming n = 0) (worker_ids d)
              then Some ''hierarchical topology must have one supervisor root''
              else
               (case visit (Suc (length nodes)) (\<lambda>n. order (adjacency n)) supervisor ([], []) of
                  None \<Rightarrow> Some ''RecursionError''
                | Some (ok, (visited, active)) \<Rightarrow>
                    if \<not> ok \<or> set visited \<noteq> set nodes
                    then Some ''hierarchical topology must be a rooted worker DAG'' else None)))"

definition unsupported_reason :: "(string list \<Rightarrow> string list) \<Rightarrow> decision \<Rightarrow> string option" where
  "unsupported_reason order d =
     and_then (checks
       [(length (rd_domains d) \<noteq> 1, ''v1 topology requires exactly one domain''),
        (rd_evaluator_requirements d \<noteq> [], ''v1 topology does not support evaluator requirements''),
        (rd_stop_conditions d \<noteq> [''complete''], ''v1 topology requires the complete stop condition''),
        (bu_max_attempts_per_task (rd_budget d) > 1, ''v1 topology does not support retries''),
        (pp_fallback_mode (rd_policy d) \<noteq> FailClosed \<or> pp_fallbacks (rd_policy d) \<noteq> [],
           ''v1 topology does not support provider substitution or fallback'')])
     (if rd_mode d \<in> {Direct, FastPath} then
        (if rd_supervisor_id d \<noteq> None \<or> rd_edges d \<noteq> []
         then Some ''direct topology requires one worker with no supervisor or edges'' else None)
      else if rd_mode d = Parallel then
        (if rd_supervisor_id d \<noteq> None \<or> rd_edges d \<noteq> []
         then Some ''parallel topology requires no supervisor or edges'' else None)
      else if rd_mode d \<noteq> Hierarchical then Some ''collaboration mode is unsupported''
      else validate_hierarchical order d)"

fun first_incapable :: "(string \<Rightarrow> bool) \<Rightarrow> worker list \<Rightarrow> string option" where
  "first_incapable capable [] = None"
| "first_incapable capable (w # ws) =
     (if \<not> capable (wk_type w) then Some ''worker capability is unavailable''
      else first_incapable capable ws)"

definition admit :: "(string list \<Rightarrow> string list) \<Rightarrow> (string \<Rightarrow> bool) \<Rightarrow> plan \<Rightarrow> string option" where
  "admit order capable p =
     (case unsupported_reason order (pl_decision p) of
        Some reason \<Rightarrow> Some reason
      | None \<Rightarrow> first_incapable capable (rd_workers (pl_decision p)))"

subsection \<open>Execution\<close>

definition dependencies :: "decision \<Rightarrow> string \<Rightarrow> string list" where
  "dependencies d w = remdups (map ed_source (filter (\<lambda>e. ed_target e = w \<and>
     ed_source e \<in> set (worker_ids d) \<and> ed_target e \<in> set (worker_ids d)) (rd_edges d)))"

record agent_task =
  agt_id :: string
  agt_agent_type :: string
  agt_input :: "(string \<times> pyval) list"
  agt_context :: pyval
  agt_timeout :: int
  agt_priority :: int

text \<open>\<open>{**items, key: value}\<close>\<close>

definition dict_put :: "string \<Rightarrow> pyval \<Rightarrow> (string \<times> pyval) list \<Rightarrow> (string \<times> pyval) list" where
  "dict_put k v kvs =
     (if k \<in> set (map fst kvs) then map (\<lambda>(a, b). if a = k then (a, v) else (a, b)) kvs
      else kvs @ [(k, v)])"

lemma map_of_overwrite:
  "map_of (map (\<lambda>(a, b). if a = k then (a, v) else (a, b)) kvs) =
     (map_of kvs)(k := map_option (\<lambda>_. v) (map_of kvs k))"
  by (induction kvs) (auto simp: fun_eq_iff)

lemma map_of_dict_put: "map_of (dict_put k v kvs) = (map_of kvs)(k \<mapsto> v)"
proof (cases "k \<in> set (map fst kvs)")
  case True
  then obtain b where "map_of kvs k = Some b" by (metis list.set_map map_of_eq_None_iff not_None_eq)
  with True show ?thesis by (simp add: dict_put_def map_of_overwrite)
next
  case False
  then have "map_of kvs k = None" by (simp add: map_of_eq_None_iff)
  with False show ?thesis by (auto simp: dict_put_def fun_eq_iff map_add_def split: option.split)
qed

definition dict_of :: "pyval \<Rightarrow> pyval" where
  "dict_of v = (case v of VProxy kvs \<Rightarrow> VDict kvs | _ \<Rightarrow> v)"

definition worker_task :: "plan \<Rightarrow> agent_task \<Rightarrow> worker \<Rightarrow> agent_task" where
  "worker_task p t w =
     (let d = pl_decision p; primary = pp_primary (rd_policy d) in
      \<lparr>agt_id = agt_id t @ '':'' @ wk_id w, agt_agent_type = wk_type w,
       agt_input = fold (\<lambda>(k, v). dict_put k v)
         [(''execution_plan_id'', VStr (pl_id p)), (''worker_id'', VStr (wk_id w)),
          (''objective'', VStr (wk_objective w)), (''output_schema'', dict_of (wk_output_schema w)),
          (''permission_scopes'', VList (map VStr (wk_permission_scopes w))),
          (''tool_allowlist'', VList (map VStr (wk_tool_allowlist w))),
          (''provider_model_policy'', VDict [(''primary'', VDict
             [(''provider'', VStr (rt_provider primary)), (''model'', VStr (rt_model primary))])])]
         (agt_input t),
       agt_context = agt_context t, agt_timeout = bu_task_timeout_seconds (rd_budget d),
       agt_priority = agt_priority t\<rparr>)"

datatype 'e exec_error = TopologyUnsupported string | WorkerFailed 'e

text \<open>
  The loop of \<open>execute\<close>. \<open>runs w\<close> is what awaiting worker \<open>w\<close> gives; \<open>asyncio.gather\<close> gives
  the results in order or raises one of the failures, chosen by \<open>first\<close> (the earliest in time).
\<close>

function run_batches :: "(string \<Rightarrow> 'e + 'r) \<Rightarrow> ('e list \<Rightarrow> 'e) \<Rightarrow> (string \<Rightarrow> string list) \<Rightarrow> string list \<Rightarrow>
    (string \<times> 'r) list \<Rightarrow> 'e exec_error + (string \<times> 'r) list" where
  "run_batches runs first deps pending completed =
     (if pending = [] then Inr completed
      else
       (let ready = sort (filter (\<lambda>w. set (deps w) \<subseteq> fst ` set completed) pending) in
        if ready = [] then Inl (TopologyUnsupported ''topology has no runnable worker'')
        else
         (case map_result runs ready of
            Inl e \<Rightarrow> Inl (WorkerFailed (first (concat (map (\<lambda>w. case runs w of Inl e \<Rightarrow> [e] | Inr r \<Rightarrow> []) ready))))
          | Inr results \<Rightarrow>
              run_batches runs first deps (filter (\<lambda>w. w \<notin> set ready) pending)
                (completed @ zip ready results))))"
  by pat_completeness auto
termination
proof (relation "measure (\<lambda>(runs, first, deps, pending, completed). length pending)")
  fix runs :: "string \<Rightarrow> 'e + 'r" and first :: "'e list \<Rightarrow> 'e" and deps :: "string \<Rightarrow> string list" and pending ready results
    and completed :: "(string \<times> 'r) list"
  assume r: "ready = sort (filter (\<lambda>w. set (deps w) \<subseteq> fst ` set completed) pending)"
    and ne: "ready \<noteq> []"
  have "hd ready \<in> set ready" using ne by (rule hd_in_set)
  moreover have "set ready \<subseteq> set pending" by (auto simp: r)
  ultimately have "hd ready \<in> set ready" "hd ready \<in> set pending" by auto
  then have "length (filter (\<lambda>w. w \<notin> set ready) pending) < length pending"
    by (metis (mono_tags, lifting) length_filter_less)
  then show "((runs, first, deps, filter (\<lambda>w. w \<notin> set ready) pending, completed @ zip ready results),
      (runs, first, deps, pending, completed)) \<in>
      measure (\<lambda>(runs, first, deps, pending, completed). length pending)" by simp
qed simp

declare run_batches.simps [simp del]

lemma run_batches_Nil [simp]: "run_batches runs first deps [] completed = Inr completed"
  by (subst run_batches.simps) simp

definition worker_named :: "decision \<Rightarrow> string \<Rightarrow> worker option" where
  "worker_named d i = map_of (rev (map (\<lambda>w. (wk_id w, w)) (rd_workers d))) i"

definition execute_plan :: "(string list \<Rightarrow> string list) \<Rightarrow> (string \<Rightarrow> bool) \<Rightarrow> (worker \<Rightarrow> agent_task \<Rightarrow> 'e + 'r) \<Rightarrow>
    ('e list \<Rightarrow> 'e) \<Rightarrow> plan \<Rightarrow> agent_task \<Rightarrow> 'e exec_error + (string \<times> 'r) list" where
  "execute_plan order capable executor first p t =
     (case admit order capable p of
        Some reason \<Rightarrow> Inl (TopologyUnsupported reason)
      | None \<Rightarrow>
          run_batches (\<lambda>i. case worker_named (pl_decision p) i of
                             Some w \<Rightarrow> executor w (worker_task p t w))
            first (dependencies (pl_decision p)) (remdups (worker_ids (pl_decision p))) [])"

subsection \<open>Admission is the graph property\<close>

definition edge_rel :: "decision \<Rightarrow> (string \<times> string) set" where
  "edge_rel d = (\<lambda>e. (ed_source e, ed_target e)) ` set (rd_edges d)"

definition plan_rooted_dag :: "decision \<Rightarrow> string \<Rightarrow> bool" where
  "plan_rooted_dag d supervisor \<longleftrightarrow>
     ed_relation ` set (rd_edges d) \<subseteq> {''delegates'', ''depends_on''} \<and>
     supervisor \<notin> snd ` edge_rel d \<and> set (worker_ids d) \<subseteq> snd ` edge_rel d \<and>
     (edge_rel d)\<^sup>* `` {supervisor} = set (topology_nodes d) \<and> acyclic (edge_rel d)"

lemma scan_edges_Inr:
  "scan_edges nodes es (A, I) = Inr (A', I') \<Longrightarrow>
     ed_relation ` set es \<subseteq> {''delegates'', ''depends_on''} \<and>
     (\<forall>a. set (A' a) = set (A a) \<union> ed_target ` {e \<in> set es. ed_source e = a}) \<and>
     (\<forall>b. I' b = 0 \<longleftrightarrow> I b = 0 \<and> b \<notin> ed_target ` set es)"
proof (induction es arbitrary: A I)
  case (Cons e es)
  from Cons(2) have rec: "scan_edges nodes es (A(ed_source e := List.insert (ed_target e) (A (ed_source e))),
      I(ed_target e := I (ed_target e) + 1)) = Inr (A', I')"
    and rel: "ed_relation e \<in> {''delegates'', ''depends_on''}" by (auto split: if_splits)
  from Cons(1)[OF rec] rel show ?case by (auto split: if_splits)
qed auto

lemma scan_edges_ok:
  "ed_relation ` set es \<subseteq> {''delegates'', ''depends_on''} \<Longrightarrow>
   ed_source ` set es \<union> ed_target ` set es \<subseteq> set nodes \<Longrightarrow> \<exists>st'. scan_edges nodes es st = Inr st'"
  by (induction es arbitrary: st) (auto simp: split_paired_all)

lemma decision_validD:
  assumes "decision_valid d"
  shows "distinct (topology_nodes d)"
    and "ed_source ` set (rd_edges d) \<union> ed_target ` set (rd_edges d) \<subseteq> set (topology_nodes d)"
  using assms
  by (auto simp: decision_valid_def new_decision_def validate_authority_def topology_nodes_def
      split: option.splits)

lemma validate_hierarchical_None:
  assumes valid: "decision_valid d" and sup: "rd_supervisor_id d = Some supervisor"
    and order: "\<And>xs. set (order xs) = set xs"
  shows "validate_hierarchical order d = None \<longleftrightarrow> plan_rooted_dag d supervisor"
proof -
  define nodes where "nodes = remdups (supervisor # worker_ids d)"
  have nodes: "set nodes = set (topology_nodes d)" by (auto simp: topology_nodes_def sup nodes_def)
  note unfold = validate_hierarchical_def[of order d, unfolded sup option.case Let_def,
      folded nodes_def]
  have ends: "ed_source ` set (rd_edges d) \<union> ed_target ` set (rd_edges d) \<subseteq> set nodes"
    using decision_validD[OF valid] nodes by simp
  show ?thesis
  proof (cases "scan_edges nodes (rd_edges d) (\<lambda>_. [], \<lambda>_. 0)")
    case (Inl reason)
    then have "\<not> ed_relation ` set (rd_edges d) \<subseteq> {''delegates'', ''depends_on''}"
      using scan_edges_ok[OF _ ends] by (metis sum.distinct(1))
    with Inl sup show ?thesis
      by (simp add: unfold plan_rooted_dag_def)
  next
    case (Inr st)
    obtain A I where st: "st = (A, I)" by (cases st)
    let ?adj = "\<lambda>n. order (A n)"
    note scan = scan_edges_Inr[OF Inr[unfolded st]]
    have rel: "successors ?adj = edge_rel d"
      using scan by (auto simp: successors_def edge_rel_def order image_iff)
    have targets: "I b = 0 \<longleftrightarrow> b \<notin> snd ` edge_rel d" for b
      using scan by (simp add: edge_rel_def image_image)
    have closed: "\<forall>a \<in> set nodes. set (?adj a) \<subseteq> set nodes"
      using scan ends by (auto simp: order)
    have outside: "\<forall>a. a \<notin> set nodes \<longrightarrow> ?adj a = []"
    proof (intro allI impI)
      fix a assume "a \<notin> set nodes"
      with scan ends have "set (?adj a) = {}" by (auto simp: order)
      then show "?adj a = []" by simp
    qed
    have root_in: "supervisor \<in> set nodes" by (simp add: nodes_def)
    have len: "card (set nodes) < Suc (length nodes)" by (simp add: card_length le_imp_less_Suc)
    define V where "V = visit (Suc (length nodes)) ?adj supervisor ([], [])"
    have "validate_hierarchical order d = None \<longleftrightarrow>
        I supervisor = 0 \<and> \<not> list_ex (\<lambda>n. I n = 0) (worker_ids d) \<and>
        (\<exists>vs act. V = Some (True, (vs, act)) \<and> set vs = set nodes)"
      unfolding unfold Inr st sum.case prod.case V_def[symmetric]
      by (cases V) (auto split: if_splits)
    also have "(\<exists>vs act. V = Some (True, (vs, act)) \<and> set vs = set nodes) \<longleftrightarrow>
        rooted_dag ?adj supervisor (set nodes)"
      unfolding V_def by (rule visit_verdict[OF _ closed outside root_in len]) simp
    also have "I supervisor = 0 \<and> \<not> list_ex (\<lambda>n. I n = 0) (worker_ids d) \<and>
        rooted_dag ?adj supervisor (set nodes) \<longleftrightarrow> plan_rooted_dag d supervisor"
      using scan[THEN conjunct1]
      by (auto simp: plan_rooted_dag_def rooted_dag_def reach_def rel nodes targets list_ex_iff subset_iff
          simp del: image_iff)
    finally show ?thesis .
  qed
qed

lemma topo_add_batch:
  "topo adj vs \<Longrightarrow> distinct us \<Longrightarrow> set us \<inter> set vs = {} \<Longrightarrow> \<forall>u \<in> set us. set (adj u) \<subseteq> set vs \<Longrightarrow>
   topo adj (us @ vs)"
  by (induction us) auto

lemma run_batches_unfold:
  assumes "pending \<noteq> []" and "ready = sort (filter (\<lambda>w. set (deps w) \<subseteq> fst ` set completed) pending)"
    and "ready \<noteq> []"
  shows "map_result runs ready = Inr results \<Longrightarrow> run_batches runs first deps pending completed =
      run_batches runs first deps (filter (\<lambda>w. w \<notin> set ready) pending) (completed @ zip ready results)"
    and "map_result runs ready = Inl e \<Longrightarrow>
      \<exists>x. run_batches runs first deps pending completed = Inl (WorkerFailed x)"
  using assms(1,3) unfolding run_batches.simps[of runs first deps pending completed] assms(2)[symmetric] Let_def
  by simp_all

text \<open>
  The scheduler over an acyclic dependency relation: it is never stuck, and when no worker fails
  it completes all of them, each after its dependencies.
\<close>

lemma some_worker_ready:
  assumes acyc: "acyclic {(a, b). b \<in> W \<and> a \<in> set (deps b)}" and W: "finite W" "\<forall>w \<in> W. set (deps w) \<subseteq> W"
    and split: "set pending \<union> done = W" "pending \<noteq> []"
  shows "\<exists>w \<in> set pending. set (deps w) \<subseteq> done"
proof -
  let ?R = "{(a, b). b \<in> W \<and> a \<in> set (deps b)}"
  have "?R \<subseteq> W \<times> W" using W by auto
  then have wf: "wf ?R" using acyc W(1) by (meson finite_SigmaI finite_acyclic_wf finite_subset)
  have "hd pending \<in> set pending" using split(2) by simp
  from wfE_min[OF wf this] obtain w where "w \<in> set pending" "\<And>a. (a, w) \<in> ?R \<Longrightarrow> a \<notin> set pending" by blast
  then have "set (deps w) \<subseteq> done" using split(1) W(2) by auto
  with \<open>w \<in> set pending\<close> show ?thesis by blast
qed

lemma run_batches_complete:
  "acyclic {(a, b). b \<in> W \<and> a \<in> set (deps b)} \<Longrightarrow> finite W \<Longrightarrow> \<forall>w \<in> W. set (deps w) \<subseteq> W \<Longrightarrow>
     distinct pending \<Longrightarrow> set pending \<union> fst ` set completed = W \<Longrightarrow>
     set pending \<inter> fst ` set completed = {} \<Longrightarrow> topo deps (rev (map fst completed)) \<Longrightarrow>
     \<forall>(i, r) \<in> set completed. runs i = Inr r \<Longrightarrow>
     (\<exists>result. run_batches runs first deps pending completed = Inr result \<and>
        topo deps (rev (map fst result)) \<and> fst ` set result = W \<and> (\<forall>(i, r) \<in> set result. runs i = Inr r)) \<or>
     (\<exists>e w. run_batches runs first deps pending completed = Inl (WorkerFailed e) \<and> w \<in> W \<and> (\<exists>x. runs w = Inl x))"
proof (induction runs first deps pending completed rule: run_batches.induct)
  case (1 runs first deps pending completed)
  define ready where "ready = sort (filter (\<lambda>w. set (deps w) \<subseteq> fst ` set completed) pending)"
  show ?case
  proof (cases "pending = []")
    case True
    with 1(6-9) show ?thesis by auto
  next
    case False
    from some_worker_ready[OF 1(2-4,6) False] have "set ready \<noteq> {}" by (auto simp: ready_def)
    then have ne: "ready \<noteq> []" by auto
    note unfold = run_batches_unfold[OF False ready_def ne]
    show ?thesis
    proof (cases "map_result runs ready")
      case (Inl e)
      then obtain v where v: "v \<in> set ready" "runs v = Inl e" using map_result_Inl_ex[OF Inl] by blast
      then have "v \<in> W" using 1(6) by (auto simp: ready_def)
      with v unfold(2)[OF Inl] show ?thesis by blast
    next
      case (Inr results)
      have len: "length results = length ready" using map_result_length[OF Inr] by simp
      have res: "\<forall>(i, r) \<in> set (zip ready results). runs i = Inr r"
        using Inr by (auto simp: map_result_Inr list_all2_iff)
      have keys: "map fst (zip ready results) = ready" using len by simp
      then have keyset: "fst ` set (zip ready results) = set ready" by (metis list.set_map)
      have sub: "set ready \<subseteq> set pending" by (auto simp: ready_def)
      have "topo deps (rev ready @ rev (map fst completed))"
        using 1(5,7,8) by (intro topo_add_batch) (auto simp: ready_def)
      then have topo: "topo deps (rev (map fst (completed @ zip ready results)))" by (simp add: keys)
      show ?thesis unfolding unfold(1)[OF Inr]
      proof (rule 1(1)[OF False ready_def ne Inr 1(2-4) _ _ _ topo])
        show "distinct (filter (\<lambda>w. w \<notin> set ready) pending)" using 1(5) by simp
        show "set (filter (\<lambda>w. w \<notin> set ready) pending) \<union> fst ` set (completed @ zip ready results) = W"
          using 1(6) keyset sub by (auto simp: image_Un)
        show "set (filter (\<lambda>w. w \<notin> set ready) pending) \<inter> fst ` set (completed @ zip ready results) = {}"
          using 1(7) keyset by (auto simp: image_Un)
        show "\<forall>(i, r) \<in> set (completed @ zip ready results). runs i = Inr r" using 1(9) res by auto
      qed
    qed
  qed
qed

subsection \<open>Admission and execution of a plan\<close>

lemma first_incapable_None [simp]:
  "first_incapable capable ws = None \<longleftrightarrow> list_all (\<lambda>w. capable (wk_type w)) ws"
  by (induction ws) auto

definition topology_supported :: "decision \<Rightarrow> bool" where
  "topology_supported d \<longleftrightarrow>
     length (rd_domains d) = 1 \<and> rd_evaluator_requirements d = [] \<and> rd_stop_conditions d = [''complete''] \<and>
     bu_max_attempts_per_task (rd_budget d) \<le> 1 \<and> pp_fallback_mode (rd_policy d) = FailClosed \<and>
     pp_fallbacks (rd_policy d) = [] \<and>
     (case rd_mode d of
        Hierarchical \<Rightarrow> (\<exists>supervisor. rd_supervisor_id d = Some supervisor \<and> plan_rooted_dag d supervisor)
      | Debate \<Rightarrow> False | Ensemble \<Rightarrow> False
      | _ \<Rightarrow> rd_supervisor_id d = None \<and> rd_edges d = [])"

lemma admit_None:
  assumes "decision_valid (pl_decision p)" and "\<And>xs. set (order xs) = set xs"
  shows "admit order capable p = None \<longleftrightarrow>
     topology_supported (pl_decision p) \<and> list_all (\<lambda>w. capable (wk_type w)) (rd_workers (pl_decision p))"
proof -
  have hier: "validate_hierarchical order (pl_decision p) = None \<longleftrightarrow>
      (\<exists>supervisor. rd_supervisor_id (pl_decision p) = Some supervisor \<and> plan_rooted_dag (pl_decision p) supervisor)"
  proof (cases "rd_supervisor_id (pl_decision p)")
    case (Some s)
    then show ?thesis using validate_hierarchical_None[OF assms(1) Some assms(2)] by simp
  qed (simp add: validate_hierarchical_def)
  have "unsupported_reason order (pl_decision p) = None \<longleftrightarrow> topology_supported (pl_decision p)"
    by (cases "rd_mode (pl_decision p)")
      (auto simp: unsupported_reason_def topology_supported_def hier)
  then show ?thesis by (auto simp: admit_def split: option.splits)
qed

lemma dependency_edges:
  "a \<in> set (dependencies d b) \<longleftrightarrow> (a, b) \<in> edge_rel d \<and> a \<in> set (worker_ids d) \<and> b \<in> set (worker_ids d)"
  by (auto simp: dependencies_def edge_rel_def)

lemma supported_acyclic: "topology_supported d \<Longrightarrow> acyclic (edge_rel d)"
  by (cases "rd_mode d") (auto simp: topology_supported_def plan_rooted_dag_def edge_rel_def acyclic_def)

text \<open>
  C12: Admission is exact. On a valid decision, and whatever order Python's sets iterate in,
  \<open>admit\<close> accepts exactly the v1 shapes: one domain, no evaluators, the single stop condition
  \<open>complete\<close>, no retries, no fallback, every worker type available, and a topology that is either
  flat (no supervisor, no edge) in a flat mode, or in hierarchical mode a DAG rooted at the
  supervisor: only delegation and dependency edges, no edge into the root, one into every worker,
  everything reachable from the root and no cycle. The depth-first search decides exactly that.
\<close>

theorem admission_exact:
  assumes "decision_valid (pl_decision p)" and "\<And>xs. set (order xs) = set xs"
  shows "admit order capable p = None \<longleftrightarrow>
     topology_supported (pl_decision p) \<and> list_all (\<lambda>w. capable (wk_type w)) (rd_workers (pl_decision p))"
  using assms by (rule admit_None)

lemma example_plan_decision: "decision_valid (pl_decision example_plan)"
  by (simp add: example_plan_def authority_plan_def authority_decision_def) code_simp

theorem admission_exact_witness:
  "topology_supported (pl_decision example_plan) \<and> plan_rooted_dag (pl_decision example_plan) ''root''"
proof -
  have "admit (\<lambda>xs. xs) (\<lambda>t. t = ''research'') example_plan = None" by code_simp
  then have "topology_supported (pl_decision example_plan)"
    using admission_exact[OF example_plan_decision, of "\<lambda>xs. xs" "\<lambda>t. t = ''research''"] by simp
  moreover have "rd_mode (pl_decision example_plan) = Hierarchical"
    "rd_supervisor_id (pl_decision example_plan) = Some ''root''"
    by (simp_all add: example_plan_def authority_plan_def authority_decision_def example_plan_defs)
  ultimately show ?thesis by (simp add: topology_supported_def)
qed

text \<open>
  C4: Executing an admitted plan is never stuck. Either some worker's executor failed and its
  failure is what the caller gets, or every worker ran exactly once, each after all the workers it
  depends on (the completion order is a reverse topological order of the dependencies), on its own
  task, and the result maps each worker to what its executor returned.
\<close>

theorem execute_plan_complete:
  assumes valid: "decision_valid (pl_decision p)" and order: "\<And>xs. set (order xs) = set xs"
    and admitted: "admit order capable p = None"
  shows "(\<exists>result. execute_plan order capable executor first p t = Inr result \<and>
        topo (dependencies (pl_decision p)) (rev (map fst result)) \<and>
        fst ` set result = set (worker_ids (pl_decision p)) \<and>
        (\<forall>(i, r) \<in> set result. \<exists>w. worker_named (pl_decision p) i = Some w \<and> wk_id w = i \<and>
           executor w (worker_task p t w) = Inr r)) \<or>
     (\<exists>e w x. execute_plan order capable executor first p t = Inl (WorkerFailed e) \<and>
        w \<in> set (rd_workers (pl_decision p)) \<and> executor w (worker_task p t w) = Inl x)"
proof -
  let ?d = "pl_decision p" and ?W = "set (worker_ids (pl_decision p))"
  define runs where "runs = (\<lambda>i. case worker_named ?d i of Some w \<Rightarrow> executor w (worker_task p t w))"
  have named: "\<exists>w. worker_named ?d i = Some w \<and> w \<in> set (rd_workers ?d) \<and> wk_id w = i" if "i \<in> ?W" for i
  proof -
    have "i \<in> fst ` set (rev (map (\<lambda>w. (wk_id w, w)) (rd_workers ?d)))" using that
      by (auto simp: worker_ids_def image_image)
    then obtain w where "worker_named ?d i = Some w"
      unfolding worker_named_def by (metis map_of_eq_None_iff not_None_eq)
    then show ?thesis by (auto simp: worker_named_def dest: map_of_SomeD)
  qed
  have sub: "{(a, b). b \<in> ?W \<and> a \<in> set (dependencies ?d b)} \<subseteq> edge_rel ?d" by (auto simp: dependency_edges)
  have acyc: "acyclic {(a, b). b \<in> ?W \<and> a \<in> set (dependencies ?d b)}"
    using supported_acyclic[of ?d] admit_None[OF valid order] admitted acyclic_subset[OF _ sub] by simp
  have exec: "execute_plan order capable executor first p t =
      run_batches runs first (dependencies ?d) (remdups (worker_ids ?d)) []"
    by (simp add: execute_plan_def admitted runs_def)
  have runs: "\<exists>w. worker_named ?d i = Some w \<and> w \<in> set (rd_workers ?d) \<and> wk_id w = i \<and>
      runs i = executor w (worker_task p t w)" if "i \<in> ?W" for i
    using named[OF that] by (auto simp: runs_def)
  have inside: "\<forall>w \<in> ?W. set (dependencies ?d w) \<subseteq> ?W" by (auto simp: dependency_edges)
  from run_batches_complete[OF acyc finite_set inside, of "remdups (worker_ids ?d)" "[]" runs first] exec
  consider result where "execute_plan order capable executor first p t = Inr result"
      "topo (dependencies ?d) (rev (map fst result))" "fst ` set result = ?W"
      "\<forall>(i, r) \<in> set result. runs i = Inr r"
    | e i x where "execute_plan order capable executor first p t = Inl (WorkerFailed e)" "i \<in> ?W" "runs i = Inl x"
    by auto
  then show ?thesis
  proof cases
    case 1
    have "\<exists>w. worker_named ?d i = Some w \<and> wk_id w = i \<and> executor w (worker_task p t w) = Inr r"
      if "(i, r) \<in> set result" for i r
      using runs[of i] 1(3,4) that by force
    with 1 show ?thesis by blast
  next
    case 2
    with runs[OF 2(2)] show ?thesis by metis
  qed
qed

definition example_agent_task :: agent_task where
  "example_agent_task = \<lparr>agt_id = ''t'', agt_agent_type = ''a'', agt_input = [(''query'', VStr ''q'')],
     agt_context = VDict [], agt_timeout = 300, agt_priority = 0\<rparr>"

definition example_executor :: "worker \<Rightarrow> agent_task \<Rightarrow> string + string" where
  "example_executor w t = Inr (agt_id t)"

theorem execute_plan_complete_witness:
  "\<exists>result. execute_plan (\<lambda>xs. xs) (\<lambda>_. True) example_executor hd example_plan example_agent_task = Inr result \<and>
     topo (dependencies (pl_decision example_plan)) (rev (map fst result)) \<and>
     fst ` set result = {''w1'', ''w2''}"
proof -
  have "admit (\<lambda>xs. xs) (\<lambda>_. True) example_plan = None" by code_simp
  moreover have "set (worker_ids (pl_decision example_plan)) = {''w1'', ''w2''}"
    by (simp add: example_plan_def authority_plan_def authority_decision_def example_plan_defs worker_ids_def)
  ultimately show ?thesis
    using execute_plan_complete[OF example_plan_decision, of "\<lambda>xs. xs" "\<lambda>_. True" example_executor hd
        example_agent_task]
    by (auto simp: example_executor_def)
qed

end
