(* ===== verification/Trust.thy ===== *)
theory Trust
  imports Prelude
begin

text \<open>
  \<^verbatim>\<open>src/core/contracts/trust.py\<close>: the five trust labels, their total order and the propagation
  rule. \<open>a \<le> b\<close> reads "\<open>a\<close> is at least as trusted as \<open>b\<close>"; the order is the rank order of the
  code, so \<open>max\<close> is "the least trusted".
\<close>

datatype trust =
  TrustedControl | Application | UserSupplied | ExternalUntrusted | DerivedUntrusted

fun trust_value :: "trust \<Rightarrow> string" where
  "trust_value TrustedControl = ''trusted_control''"
| "trust_value Application = ''application''"
| "trust_value UserSupplied = ''user_supplied''"
| "trust_value ExternalUntrusted = ''external_untrusted''"
| "trust_value DerivedUntrusted = ''derived_untrusted''"

fun trust_rank :: "trust \<Rightarrow> nat" where
  "trust_rank TrustedControl = 0"
| "trust_rank Application = 1"
| "trust_rank UserSupplied = 2"
| "trust_rank ExternalUntrusted = 3"
| "trust_rank DerivedUntrusted = 4"

lemma trust_rank_inj: "trust_rank a = trust_rank b \<longleftrightarrow> a = b"
  by (cases a; cases b) auto

instantiation trust :: linorder
begin

definition less_eq_trust :: "trust \<Rightarrow> trust \<Rightarrow> bool" where
  "less_eq_trust a b = (trust_rank a \<le> trust_rank b)"

definition less_trust :: "trust \<Rightarrow> trust \<Rightarrow> bool" where
  "less_trust a b = (trust_rank a < trust_rank b)"

instance
  by standard (auto simp: less_eq_trust_def less_trust_def trust_rank_inj)

end

definition trusted_tier :: "trust set" where
  "trusted_tier = {TrustedControl, Application}"

definition is_trusted_tier :: "trust \<Rightarrow> bool" where
  "is_trusted_tier label = (label \<in> trusted_tier)"

definition at_least_as_trusted :: "trust \<Rightarrow> trust \<Rightarrow> bool" where
  "at_least_as_trusted label floor = (trust_rank label \<le> trust_rank floor)"

lemma at_least_as_trusted_le: "at_least_as_trusted a b \<longleftrightarrow> a \<le> b"
  by (simp add: at_least_as_trusted_def less_eq_trust_def)

lemma is_trusted_tier_le: "is_trusted_tier a \<longleftrightarrow> a \<le> Application"
  by (cases a) (auto simp: is_trusted_tier_def trusted_tier_def less_eq_trust_def)

text \<open>\<open>max(labels, key=rank)\<close>: the first label of greatest rank.\<close>

fun worst_label :: "trust \<Rightarrow> trust list \<Rightarrow> trust" where
  "worst_label w [] = w"
| "worst_label w (l # ls) = worst_label (if trust_rank w < trust_rank l then l else w) ls"

text \<open>\<open>None\<close> is the \<open>ValueError\<close> for an empty input.\<close>

definition propagate_trust :: "trust list \<Rightarrow> trust option" where
  "propagate_trust labels =
     (case labels of [] \<Rightarrow> None
      | l # ls \<Rightarrow>
          let worst = worst_label l ls
          in if worst \<in> trusted_tier then Some worst else Some DerivedUntrusted)"

lemma worst_label_Max: "worst_label w ls = Max (set (w # ls))"
proof (induction ls arbitrary: w)
  case (Cons l ls)
  have "(if trust_rank w < trust_rank l then l else w) = max w l"
    by (auto simp: max_def less_eq_trust_def trust_rank_inj dest: antisym)
  with Cons show ?case by (cases ls) (simp_all add: max.assoc)
qed simp

lemma propagate_trust_Max:
  "ls \<noteq> [] \<Longrightarrow> propagate_trust ls =
     Some (if Max (set ls) \<le> Application then Max (set ls) else DerivedUntrusted)"
  by (cases ls)
    (auto simp: propagate_trust_def Let_def worst_label_Max is_trusted_tier_le[symmetric]
      is_trusted_tier_def simp del: List.list.set)

text \<open>
  Propagation labels every non-empty transformation; it never increases trust (no laundering:
  every input is at least as trusted as the output), is idempotent, depends only on the set of
  input labels, and yields a trusted-tier label exactly when every input is trusted-tier. It fails
  exactly on the empty input.
\<close>

theorem propagate_trust_laws:
  "(ls = [] \<and> propagate_trust ls = None) \<or>
   (\<exists>w. propagate_trust ls = Some w \<and> set ls \<subseteq> {l. l \<le> w} \<and> propagate_trust [w] = Some w \<and>
      is_trusted_tier w = (set ls \<subseteq> {l. is_trusted_tier l}) \<and>
      {propagate_trust ks | ks. set ks = set ls} = {Some w})"
proof (cases "ls = []")
  case True
  then show ?thesis by (simp add: propagate_trust_def)
next
  case False
  let ?m = "Max (set ls)"
  let ?w = "if ?m \<le> Application then ?m else DerivedUntrusted"
  have top: "l \<le> DerivedUntrusted" for l by (cases l) (auto simp: less_eq_trust_def)
  have le: "l \<in> set ls \<Longrightarrow> l \<le> ?m" for l by simp
  have eq: "propagate_trust ks = Some ?w" if "set ks = set ls" for ks
    using that False propagate_trust_Max[of ks] by (metis list.set_intros(1) neq_Nil_conv empty_iff
        empty_set)
  have "propagate_trust [?w] = Some ?w"
    using top by (auto simp: propagate_trust_Max)
  moreover have "is_trusted_tier ?w = (set ls \<subseteq> {l. is_trusted_tier l})"
  proof -
    have "?m \<in> set ls" using False by simp
    then have "?m \<le> Application \<longleftrightarrow> (\<forall>l \<in> set ls. l \<le> Application)"
      using le by (meson order_trans)
    moreover have "\<not> DerivedUntrusted \<le> Application" by (simp add: less_eq_trust_def)
    ultimately show ?thesis by (auto simp: is_trusted_tier_le)
  qed
  moreover have "set ls \<subseteq> {l. l \<le> ?w}" using le top by auto
  moreover have "{propagate_trust ks | ks. set ks = set ls} = {Some ?w}"
  proof (intro set_eqI iffI)
    fix x assume "x \<in> {propagate_trust ks | ks. set ks = set ls}"
    then show "x \<in> {Some ?w}" using eq by fastforce
  next
    fix x assume "x \<in> {Some ?w}"
    then have "x = propagate_trust ls" using eq[of ls] by simp
    then show "x \<in> {propagate_trust ks | ks. set ks = set ls}" by blast
  qed
  moreover have "propagate_trust ls = Some ?w" by (rule eq) simp
  ultimately show ?thesis by (intro disjI2 exI[of _ ?w] conjI)
qed

end
