(* ===== verification/Capabilities.thy ===== *)
theory Capabilities
  imports Contract_Base Trust "HOL-Library.Multiset"
begin

text \<open>
  \<^verbatim>\<open>src/core/contracts/capabilities.py\<close>: capability requests, grants, approvals and the decision.
  SHA-256 of the UTF-8 encoding is the argument \<open>H\<close>. A grant or an approval is well formed when its
  constructor accepts it (\<open>grant_violation\<close>, \<open>approval_violation\<close>).
\<close>

subsection \<open>Data\<close>

datatype sensitivity = ReadOnly | InternalWrite | ExternalWrite | Exfiltration

fun sensitivity_value :: "sensitivity \<Rightarrow> string" where
  "sensitivity_value ReadOnly = ''read_only''"
| "sensitivity_value InternalWrite = ''internal_write''"
| "sensitivity_value ExternalWrite = ''external_write''"
| "sensitivity_value Exfiltration = ''exfiltration''"

definition approval_required_sensitivities :: "sensitivity set" where
  "approval_required_sensitivities = {ExternalWrite, Exfiltration}"

datatype effect = Allow | Deny

datatype denial_reason =
  NoMatchingGrant
| ToolVersionNotGranted
| GrantNotYetValid
| GrantExpired
| SensitivityMismatch
| InputTrustExceedsGrant
| ApprovalMissing
| ApprovalExpired
| ApprovalFingerprintMismatch

record cap_request =
  cr_run_id :: string
  cr_task_id :: string
  cr_attempt_id :: string
  cr_tool_name :: string
  cr_tool_version :: string
  cr_scope :: string
  cr_sensitivity :: sensitivity
  cr_input_trust :: trust
  cr_input_sha256 :: digest
  cr_requested_at :: instant

definition request_violation :: "cap_request \<Rightarrow> contract_error option" where
  "request_violation r = checks
     [(\<not> contract_id_ok (cr_run_id r), FieldError ''run_id''),
      (\<not> contract_id_ok (cr_task_id r), FieldError ''task_id''),
      (\<not> contract_id_ok (cr_attempt_id r), FieldError ''attempt_id''),
      (\<not> contract_id_ok (cr_tool_name r), FieldError ''tool_name''),
      (\<not> version_ok (cr_tool_version r), FieldError ''tool_version''),
      (\<not> contract_id_ok (cr_scope r), FieldError ''capability_scope''),
      (\<not> content_sha256_ok (cr_input_sha256 r), FieldError ''input_sha256'')]"

definition unit_separator :: string where
  "unit_separator = [CHR 0x1F]"

definition fingerprint_parts :: "cap_request \<Rightarrow> string list" where
  "fingerprint_parts r =
     [cr_run_id r, cr_task_id r, cr_attempt_id r, cr_tool_name r, cr_tool_version r, cr_scope r,
      sensitivity_value (cr_sensitivity r), trust_value (cr_input_trust r), cr_input_sha256 r]"

definition fingerprint :: "(string \<Rightarrow> digest) \<Rightarrow> cap_request \<Rightarrow> digest" where
  "fingerprint H r = H (py_join unit_separator (fingerprint_parts r))"

record grant =
  cg_id :: string
  cg_run_id :: string
  cg_task_id :: string
  cg_scope :: string
  cg_tool_name :: string
  cg_tool_versions :: "string list"
  cg_sensitivity :: sensitivity
  cg_max_input_trust :: trust
  cg_requires_approval :: bool
  cg_issued_at :: instant
  cg_expires_at :: instant

definition grant_violation :: "grant \<Rightarrow> contract_error option" where
  "grant_violation g = checks
     [(\<not> contract_id_ok (cg_id g), FieldError ''grant_id''),
      (\<not> contract_id_ok (cg_run_id g), FieldError ''run_id''),
      (\<not> contract_id_ok (cg_task_id g), FieldError ''task_id''),
      (\<not> contract_id_ok (cg_scope g), FieldError ''capability_scope''),
      (\<not> contract_id_ok (cg_tool_name g), FieldError ''tool_name''),
      (\<not> list_all version_ok (cg_tool_versions g) \<or> cg_tool_versions g = [], FieldError ''tool_versions''),
      (\<not> require_unique (cg_tool_versions g), RuleError ''tool_versions entries must be unique''),
      (cg_expires_at g \<le> cg_issued_at g, RuleError ''expires_at must be after issued_at''),
      (cg_sensitivity g \<in> approval_required_sensitivities \<and> \<not> cg_requires_approval g,
         RuleError ''sink always requires approval; a grant cannot waive it'')]"

record approval =
  ap_id :: string
  ap_grant_id :: string
  ap_fingerprint :: digest
  ap_approved_by :: string
  ap_approved_at :: instant
  ap_expires_at :: instant

definition approval_violation :: "approval \<Rightarrow> contract_error option" where
  "approval_violation a = checks
     [(\<not> contract_id_ok (ap_id a), FieldError ''approval_id''),
      (\<not> contract_id_ok (ap_grant_id a), FieldError ''grant_id''),
      (\<not> content_sha256_ok (ap_fingerprint a), FieldError ''request_fingerprint''),
      (\<not> contract_id_ok (ap_approved_by a), FieldError ''approved_by''),
      (ap_expires_at a \<le> ap_approved_at a, RuleError ''expires_at must be after approved_at'')]"

record cap_decision =
  cd_effect :: effect
  cd_fingerprint :: digest
  cd_grant_id :: "string option"
  cd_approval_id :: "string option"
  cd_denial_reason :: "denial_reason option"
  cd_decided_at :: instant

definition cap_decision_violation :: "cap_decision \<Rightarrow> contract_error option" where
  "cap_decision_violation d = and_then (checks
     [(\<not> content_sha256_ok (cd_fingerprint d), FieldError ''request_fingerprint''),
      (\<not> optional_id_ok (cd_grant_id d), FieldError ''grant_id''),
      (\<not> optional_id_ok (cd_approval_id d), FieldError ''approval_id'')])
     (if cd_effect d = Allow then checks
        [(cd_grant_id d = None, RuleError ''an allow decision names the grant that permitted it''),
         (cd_denial_reason d \<noteq> None, RuleError ''an allow decision cannot carry a denial reason'')]
      else checks
        [(cd_denial_reason d = None, RuleError ''a deny decision must carry a denial reason''),
         (cd_approval_id d \<noteq> None, RuleError ''a deny decision cannot cite an approval'')])"

subsection \<open>The decision\<close>

definition denial_stages :: "denial_reason list" where
  "denial_stages =
     [ToolVersionNotGranted, SensitivityMismatch, GrantNotYetValid, GrantExpired,
      InputTrustExceedsGrant, ApprovalMissing, ApprovalExpired, ApprovalFingerprintMismatch]"

text \<open>\<open>tuple.index\<close>, and \<open>_stage_of\<close> with \<open>-1\<close> for a reason that is no stage.\<close>

fun index_of :: "'a \<Rightarrow> 'a list \<Rightarrow> int" where
  "index_of x [] = 0"
| "index_of x (y # ys) = (if x = y then 0 else 1 + index_of x ys)"

definition stage_of :: "denial_reason \<Rightarrow> int" where
  "stage_of reason = (if reason \<notin> set denial_stages then -1 else index_of reason denial_stages)"

definition identity_matches :: "grant \<Rightarrow> cap_request \<Rightarrow> bool" where
  "identity_matches g r \<longleftrightarrow>
     cg_run_id g = cr_run_id r \<and> cg_task_id g = cr_task_id r \<and> cg_scope g = cr_scope r \<and>
     cg_tool_name g = cr_tool_name r"

text \<open>\<open>min(xs, key=approval_id)\<close>: the first of the smallest.\<close>

fun min_approval :: "approval \<Rightarrow> approval list \<Rightarrow> approval" where
  "min_approval m [] = m"
| "min_approval m (a # as) = min_approval (if ap_id a < ap_id m then a else m) as"

definition evaluate :: "grant \<Rightarrow> cap_request \<Rightarrow> approval list \<Rightarrow> instant \<Rightarrow> digest \<Rightarrow>
    denial_reason + approval option" where
  "evaluate g r approvals now fp =
     (if cr_tool_version r \<notin> set (cg_tool_versions g) then Inl ToolVersionNotGranted
      else if cg_sensitivity g \<noteq> cr_sensitivity r then Inl SensitivityMismatch
      else if now < cg_issued_at g then Inl GrantNotYetValid
      else if cg_expires_at g \<le> now then Inl GrantExpired
      else if \<not> at_least_as_trusted (cr_input_trust r) (cg_max_input_trust g)
      then Inl InputTrustExceedsGrant
      else if \<not> (cg_requires_approval g \<or> cg_sensitivity g \<in> approval_required_sensitivities)
      then Inr None
      else
       (let candidates = filter (\<lambda>a. ap_grant_id a = cg_id g) approvals;
            matched = filter (\<lambda>a. ap_fingerprint a = fp) candidates;
            live = filter (\<lambda>a. ap_approved_at a \<le> now \<and> now < ap_expires_at a) matched
        in if candidates = [] then Inl ApprovalMissing
           else if matched = [] then Inl ApprovalFingerprintMismatch
           else (case live of [] \<Rightarrow> Inl ApprovalExpired
                 | a # as \<Rightarrow> Inr (Some (min_approval a as)))))"

definition deny :: "digest \<Rightarrow> string option \<Rightarrow> denial_reason \<Rightarrow> instant \<Rightarrow> cap_decision" where
  "deny fp gid reason now =
     \<lparr>cd_effect = Deny, cd_fingerprint = fp, cd_grant_id = gid, cd_approval_id = None,
      cd_denial_reason = Some reason, cd_decided_at = now\<rparr>"

fun decide_loop :: "cap_request \<Rightarrow> approval list \<Rightarrow> instant \<Rightarrow> digest \<Rightarrow> grant list \<Rightarrow>
    denial_reason \<times> string option \<Rightarrow> cap_decision" where
  "decide_loop r approvals now fp [] (furthest, gid) = deny fp gid furthest now"
| "decide_loop r approvals now fp (g # gs) (furthest, gid) =
     (case evaluate g r approvals now fp of
        Inr approval \<Rightarrow>
          \<lparr>cd_effect = Allow, cd_fingerprint = fp, cd_grant_id = Some (cg_id g),
           cd_approval_id = map_option ap_id approval, cd_denial_reason = None, cd_decided_at = now\<rparr>
      | Inl reason \<Rightarrow>
          decide_loop r approvals now fp gs
            (if stage_of furthest \<le> stage_of reason then (reason, Some (cg_id g)) else (furthest, gid)))"

definition decide_capability :: "(string \<Rightarrow> digest) \<Rightarrow> cap_request \<Rightarrow> grant list \<Rightarrow> instant \<Rightarrow>
    approval list \<Rightarrow> cap_decision" where
  "decide_capability H r grants now approvals =
     (let fp = fingerprint H r;
          candidates = sort_key cg_id (filter (\<lambda>g. identity_matches g r) grants)
      in if candidates = [] then deny fp None NoMatchingGrant now
         else decide_loop r approvals now fp candidates (NoMatchingGrant, None))"

subsection \<open>What satisfies a grant\<close>

definition live_approval :: "grant \<Rightarrow> instant \<Rightarrow> digest \<Rightarrow> approval \<Rightarrow> bool" where
  "live_approval g now fp a \<longleftrightarrow>
     ap_grant_id a = cg_id g \<and> ap_fingerprint a = fp \<and> ap_approved_at a \<le> now \<and> now < ap_expires_at a"

definition needs_approval :: "grant \<Rightarrow> bool" where
  "needs_approval g \<longleftrightarrow> cg_requires_approval g \<or> cg_sensitivity g \<in> approval_required_sensitivities"

definition constraints_hold :: "grant \<Rightarrow> cap_request \<Rightarrow> instant \<Rightarrow> bool" where
  "constraints_hold g r now \<longleftrightarrow>
     cr_tool_version r \<in> set (cg_tool_versions g) \<and> cg_sensitivity g = cr_sensitivity r \<and>
     cg_issued_at g \<le> now \<and> now < cg_expires_at g \<and> cr_input_trust r \<le> cg_max_input_trust g"

definition satisfied :: "grant \<Rightarrow> cap_request \<Rightarrow> approval list \<Rightarrow> instant \<Rightarrow> digest \<Rightarrow> bool" where
  "satisfied g r approvals now fp \<longleftrightarrow>
     constraints_hold g r now \<and> (\<not> needs_approval g \<or> Bex (set approvals) (live_approval g now fp))"

lemma min_approval_mem: "min_approval m as \<in> set (m # as)"
proof (induction as arbitrary: m)
  case (Cons a as)
  from Cons[of "if ap_id a < ap_id m then a else m"] show ?case by (auto split: if_splits)
qed simp

lemma min_approval_Min: "ap_id (min_approval m as) = Min (ap_id ` set (m # as))"
proof (induction as arbitrary: m)
  case (Cons a as)
  define n where "n = (if ap_id a < ap_id m then a else m)"
  have n: "ap_id n = min (ap_id m) (ap_id a)" by (auto simp: min_def n_def)
  have "ap_id (min_approval m (a # as)) = ap_id (min_approval n as)" by (simp add: n_def)
  also have "\<dots> = Min (insert (min (ap_id m) (ap_id a)) (ap_id ` set as))"
    using Cons[of n] by (simp add: n)
  also have "\<dots> = Min (ap_id ` set (m # a # as))"
    by (cases "as = []") (simp_all add: min.assoc)
  finally show ?case .
qed simp

text \<open>The outcome of one grant as a function of the set of live approvals.\<close>

lemma evaluate_Inr:
  "evaluate g r approvals now fp = Inr x \<longleftrightarrow>
     constraints_hold g r now \<and>
     (if needs_approval g
      then \<exists>as. filter (live_approval g now fp) approvals = as \<and> as \<noteq> [] \<and> x = Some (min_approval (hd as) (tl as))
      else x = None)"
proof -
  define cand where "cand = filter (\<lambda>a. ap_grant_id a = cg_id g) approvals"
  define matched where "matched = filter (\<lambda>a. ap_fingerprint a = fp) cand"
  define live where "live = filter (\<lambda>a. ap_approved_at a \<le> now \<and> now < ap_expires_at a) matched"
  have eq: "filter (live_approval g now fp) approvals = live"
    by (auto simp: live_approval_def live_def matched_def cand_def intro!: filter_cong)
  have "cand \<noteq> [] \<and> matched \<noteq> []" if "live \<noteq> []"
    using that by (metis live_def matched_def filter.simps(1))
  then show ?thesis
    unfolding eq
    by (auto simp: evaluate_def constraints_hold_def needs_approval_def at_least_as_trusted_le Let_def
        cand_def[symmetric] matched_def[symmetric] live_def[symmetric] simp del: filter_filter
        split: list.splits)
qed

lemma evaluate_satisfied:
  "(\<exists>x. evaluate g r approvals now fp = Inr x) \<longleftrightarrow> satisfied g r approvals now fp"
  by (auto simp: evaluate_Inr satisfied_def filter_empty_conv)

lemma evaluate_approval:
  assumes "evaluate g r approvals now fp = Inr (Some a)"
  shows "a \<in> set approvals" and "live_approval g now fp a"
proof -
  from assms obtain as where as: "filter (live_approval g now fp) approvals = as" "as \<noteq> []"
      "a = min_approval (hd as) (tl as)"
    by (auto simp: evaluate_Inr split: if_splits)
  have "a \<in> set as" using min_approval_mem[of "hd as" "tl as"] as by (cases as) auto
  with as(1) show "a \<in> set approvals" "live_approval g now fp a" by auto
qed

subsection \<open>Deny by default\<close>

lemma decide_loop_fields [simp]:
  "cd_fingerprint (decide_loop r approvals now fp gs st) = fp"
  "cd_decided_at (decide_loop r approvals now fp gs st) = now"
  by (induction r approvals now fp gs st rule: decide_loop.induct) (auto simp: deny_def split: sum.splits)

text \<open>The loop allows with the first satisfied grant, or denies with some grant's reason.\<close>

definition allowed_by :: "grant \<Rightarrow> cap_request \<Rightarrow> approval list \<Rightarrow> instant \<Rightarrow> digest \<Rightarrow> cap_decision \<Rightarrow> bool" where
  "allowed_by g r approvals now fp d \<longleftrightarrow>
     satisfied g r approvals now fp \<and> cd_effect d = Allow \<and> cd_grant_id d = Some (cg_id g) \<and>
     cd_denial_reason d = None \<and>
     (if needs_approval g then \<exists>a \<in> set approvals. live_approval g now fp a \<and> cd_approval_id d = Some (ap_id a)
      else cd_approval_id d = None)"

lemma allow_first:
  assumes "evaluate g r approvals now fp = Inr x"
  shows "allowed_by g r approvals now fp (decide_loop r approvals now fp (g # gs) st)"
proof -
  have d: "decide_loop r approvals now fp (g # gs) st =
      \<lparr>cd_effect = Allow, cd_fingerprint = fp, cd_grant_id = Some (cg_id g),
       cd_approval_id = map_option ap_id x, cd_denial_reason = None, cd_decided_at = now\<rparr>"
    by (cases st) (simp add: assms)
  have sat: "satisfied g r approvals now fp" using assms evaluate_satisfied by blast
  show ?thesis
  proof (cases x)
    case None
    with iffD1[OF evaluate_Inr assms] have "\<not> needs_approval g" by (auto split: if_splits)
    with d sat None show ?thesis by (simp add: allowed_by_def)
  next
    case (Some a)
    with iffD1[OF evaluate_Inr assms] have "needs_approval g" by (auto split: if_splits)
    with d sat Some evaluate_approval[OF assms[unfolded Some]] show ?thesis by (auto simp: allowed_by_def)
  qed
qed

lemma decide_loop_cases:
  assumes "st = (NoMatchingGrant, None) \<or> (\<exists>i. snd st = Some i)"
  shows "(\<exists>us g vs. gs = us @ g # vs \<and> (\<forall>u \<in> set us. \<not> satisfied u r approvals now fp) \<and>
       allowed_by g r approvals now fp (decide_loop r approvals now fp gs st)) \<or>
     ((\<forall>g \<in> set gs. \<not> satisfied g r approvals now fp) \<and>
      cd_effect (decide_loop r approvals now fp gs st) = Deny \<and>
      cd_approval_id (decide_loop r approvals now fp gs st) = None \<and>
      (\<exists>reason. cd_denial_reason (decide_loop r approvals now fp gs st) = Some reason) \<and>
      cd_grant_id (decide_loop r approvals now fp gs st) \<in> {snd st} \<union> (Some \<circ> cg_id) ` set gs)"
  using assms
proof (induction gs arbitrary: st)
  case Nil
  then show ?case by (cases st) (simp add: deny_def)
next
  case (Cons g gs)
  show ?case
  proof (cases "evaluate g r approvals now fp")
    case (Inr x)
    from allow_first[OF this, of gs st] show ?thesis by (intro disjI1 exI[of _ "[]"]) auto
  next
    case (Inl reason)
    then have un: "\<not> satisfied g r approvals now fp"
      using evaluate_satisfied[of g r approvals now fp] by auto
    define st' where "st' = (if stage_of (fst st) \<le> stage_of reason then (reason, Some (cg_id g)) else st)"
    have step: "decide_loop r approvals now fp (g # gs) st = decide_loop r approvals now fp gs st'"
      using Inl by (cases st) (simp add: st'_def)
    have st': "st' = (NoMatchingGrant, None) \<or> (\<exists>i. snd st' = Some i)" "snd st' \<in> {snd st, Some (cg_id g)}"
      using Cons(2) by (auto simp: st'_def)
    show ?thesis using Cons(1)[OF st'(1)]
    proof (elim disjE exE conjE)
      fix us h vs
      assume "gs = us @ h # vs" "\<forall>u \<in> set us. \<not> satisfied u r approvals now fp"
        "allowed_by h r approvals now fp (decide_loop r approvals now fp gs st')"
      with un show ?thesis
        unfolding step by (intro disjI1 exI[of _ "g # us"] exI[of _ h] exI[of _ vs]) auto
    qed (use un st'(2) in \<open>auto simp: step\<close>)
  qed
qed

lemma decide_capability_cases:
  fixes H r grants now approvals
  defines "d \<equiv> decide_capability H r grants now approvals" and "fp \<equiv> fingerprint H r"
  shows "(\<exists>g \<in> set grants. identity_matches g r \<and> allowed_by g r approvals now fp d \<and>
       (\<forall>h \<in> set grants. identity_matches h r \<longrightarrow> satisfied h r approvals now fp \<longrightarrow> cg_id g \<le> cg_id h)) \<or>
     ((\<forall>g \<in> set grants. identity_matches g r \<longrightarrow> \<not> satisfied g r approvals now fp) \<and>
      cd_effect d = Deny \<and> cd_approval_id d = None \<and> (\<exists>reason. cd_denial_reason d = Some reason) \<and>
      cd_grant_id d \<in> {None} \<union> (Some \<circ> cg_id) ` set grants)"
proof -
  let ?gs = "sort_key cg_id (filter (\<lambda>g. identity_matches g r) grants)"
  have mem: "set ?gs = {g \<in> set grants. identity_matches g r}" by auto
  show ?thesis
  proof (cases "?gs = []")
    case True
    then have "\<forall>g \<in> set grants. \<not> identity_matches g r" using mem by auto
    with True show ?thesis by (simp add: d_def decide_capability_def deny_def Let_def)
  next
    case False
    then have d: "d = decide_loop r approvals now fp ?gs (NoMatchingGrant, None)"
      unfolding d_def fp_def decide_capability_def Let_def by simp
    have "sorted (map cg_id ?gs)" by simp
    have start: "(NoMatchingGrant, None) = (NoMatchingGrant, None) \<or>
        (\<exists>i. snd (NoMatchingGrant, None :: string option) = Some i)" by simp
    show ?thesis using decide_loop_cases[OF start, of ?gs r approvals now fp, folded d]
    proof (elim disjE exE conjE)
      fix us g vs
      assume split: "?gs = us @ g # vs" "\<forall>u \<in> set us. \<not> satisfied u r approvals now fp"
        "allowed_by g r approvals now fp d"
      have "cg_id g \<le> cg_id h" if "h \<in> set ?gs" "satisfied h r approvals now fp" for h
      proof -
        from that split have "h \<in> set (g # vs)" by auto
        with \<open>sorted (map cg_id ?gs)\<close> show ?thesis unfolding split(1) by (auto simp: sorted_append)
      qed
      moreover have "g \<in> set ?gs" unfolding split(1) by simp
      ultimately show ?thesis using split(3) mem by (intro disjI1 bexI[of _ g]) auto
    qed (use mem in auto)
  qed
qed

lemma decide_capability_Allow:
  "cd_effect (decide_capability H r grants now approvals) = Allow \<longleftrightarrow>
     (\<exists>g \<in> set grants. identity_matches g r \<and> satisfied g r approvals now (fingerprint H r))"
  using decide_capability_cases[of grants r approvals now H] by (auto simp: allowed_by_def)

text \<open>
  C1: Deny by default. A request is allowed exactly when some grant names its run, task, scope and
  tool and every constraint of that grant holds: the tool version is granted, the sensitivity is
  the grant's, the decision falls in the grant's validity window, the input is trusted enough, and
  where approval is needed one is live for this exact fingerprint. Every other request is denied
  with a reason and cites no approval.
\<close>

theorem decide_capability_exact:
  "(cd_effect (decide_capability H r grants now approvals) = Allow \<and>
    cd_denial_reason (decide_capability H r grants now approvals) = None \<and>
    (\<exists>g. g \<in> set grants \<and> identity_matches g r \<and> satisfied g r approvals now (fingerprint H r) \<and>
       cd_grant_id (decide_capability H r grants now approvals) = Some (cg_id g))) \<or>
   (cd_effect (decide_capability H r grants now approvals) = Deny \<and>
    cd_denial_reason (decide_capability H r grants now approvals) \<noteq> None \<and>
    cd_approval_id (decide_capability H r grants now approvals) = None \<and>
    (\<nexists>g. g \<in> set grants \<and> identity_matches g r \<and> satisfied g r approvals now (fingerprint H r)))"
  using decide_capability_cases[of grants r approvals now H] by (auto simp: allowed_by_def)

text \<open>
  C22: An allowed external write or exfiltration always cites an approval that is live, was given
  for the grant that permits the request and carries the request's own fingerprint; no grant, not
  even one that its constructor would refuse, can waive this.
\<close>

theorem sensitive_sink_needs_approval:
  assumes "cd_effect (decide_capability H r grants now approvals) = Allow"
    and "cr_sensitivity r \<in> approval_required_sensitivities"
  shows "\<exists>a g. a \<in> set approvals \<and> g \<in> set grants \<and> identity_matches g r \<and>
     cd_approval_id (decide_capability H r grants now approvals) = Some (ap_id a) \<and>
     cd_grant_id (decide_capability H r grants now approvals) = Some (cg_id g) \<and>
     ap_grant_id a = cg_id g \<and> ap_fingerprint a = fingerprint H r \<and>
     ap_approved_at a \<le> now \<and> now < ap_expires_at a"
proof -
  from assms(1) decide_capability_cases[of grants r approvals now H]
  obtain g where g: "g \<in> set grants" "identity_matches g r"
      "allowed_by g r approvals now (fingerprint H r) (decide_capability H r grants now approvals)"
    by auto
  then have "needs_approval g"
    using assms(2) by (simp add: allowed_by_def satisfied_def constraints_hold_def needs_approval_def)
  with g show ?thesis by (auto simp: allowed_by_def live_approval_def)
qed

definition example_request :: cap_request where
  "example_request = \<lparr>cr_run_id = ''run'', cr_task_id = ''task'', cr_attempt_id = ''a'',
     cr_tool_name = ''t'', cr_tool_version = ''v'', cr_scope = ''s'', cr_sensitivity = ExternalWrite,
     cr_input_trust = UserSupplied, cr_input_sha256 = replicate 64 CHR ''0'', cr_requested_at = 1\<rparr>"

definition example_grant :: grant where
  "example_grant = \<lparr>cg_id = ''g'', cg_run_id = ''run'', cg_task_id = ''task'', cg_scope = ''s'',
     cg_tool_name = ''t'', cg_tool_versions = [''v'', ''t'' @ unit_separator @ ''v''],
     cg_sensitivity = ExternalWrite, cg_max_input_trust = UserSupplied, cg_requires_approval = True,
     cg_issued_at = 0, cg_expires_at = 100\<rparr>"

definition example_approval :: "digest \<Rightarrow> approval" where
  "example_approval fp = \<lparr>ap_id = ''ok'', ap_grant_id = ''g'', ap_fingerprint = fp,
     ap_approved_by = ''human'', ap_approved_at = 5, ap_expires_at = 50\<rparr>"

lemma example_allow:
  "cd_effect (decide_capability H example_request [example_grant] 10
     [example_approval (fingerprint H example_request)]) = Allow"
  by (simp add: decide_capability_Allow identity_matches_def satisfied_def constraints_hold_def
      live_approval_def example_request_def example_grant_def example_approval_def)

theorem sensitive_sink_needs_approval_witness:
  "cd_approval_id (decide_capability id example_request [example_grant] 10
     [example_approval (fingerprint id example_request)]) = Some ''ok''"
  using sensitive_sink_needs_approval[OF example_allow[of id]]
  by (auto simp: approval_required_sensitivities_def example_request_def example_approval_def)

text \<open>
  C23: Every decision the function returns is one its contract accepts: for well-formed grants and
  approvals, and a digest function with values of the right shape, the constructor of the decision
  never raises, so no denial is ever lost to a validation error.
\<close>

theorem decide_capability_well_formed:
  assumes "\<And>m. content_sha256_ok (H m)"
    and grants: "\<And>g. g \<in> set grants \<Longrightarrow> grant_violation g = None"
    and approvals: "\<And>a. a \<in> set approvals \<Longrightarrow> approval_violation a = None"
  shows "cap_decision_violation (decide_capability H r grants now approvals) = None"
proof -
  let ?d = "decide_capability H r grants now approvals"
  have fp: "content_sha256_ok (cd_fingerprint ?d)"
    using assms(1) by (simp add: decide_capability_def fingerprint_def deny_def Let_def)
  have gid: "contract_id_ok (cg_id g)" if "g \<in> set grants" for g
    using grants[OF that] by (simp add: grant_violation_def)
  have aid: "contract_id_ok (ap_id a)" if "a \<in> set approvals" for a
    using approvals[OF that] by (simp add: approval_violation_def)
  from decide_capability_cases[of grants r approvals now H] show ?thesis
    using fp gid aid
    by (auto simp: cap_decision_violation_def allowed_by_def split: if_splits)
qed

theorem decide_capability_well_formed_witness:
  "cap_decision_violation (decide_capability (\<lambda>m. replicate 64 CHR ''0'') example_request [example_grant] 10
     [example_approval (replicate 64 CHR ''0'')]) = None"
  by (rule decide_capability_well_formed)
    (auto simp: content_sha256_ok_def is_hex_lower_def is_digit_def code_def grant_violation_def
      approval_violation_def example_grant_def example_approval_def contract_id_ok_def version_ok_def
      unit_separator_def numeral_eq_Suc)

subsection \<open>The decision does not depend on order\<close>

definition outcome_ids :: "denial_reason + approval option \<Rightarrow> denial_reason + string option" where
  "outcome_ids = map_sum id (map_option ap_id)"

lemma evaluate_set_cong:
  assumes "set approvals = set approvals'"
  shows "outcome_ids (evaluate g r approvals now fp) = outcome_ids (evaluate g r approvals' now fp)"
proof -
  have empty: "filter P approvals = [] \<longleftrightarrow> filter P approvals' = []" for P :: "approval \<Rightarrow> bool"
    using assms by (simp add: filter_empty_conv)
  have least: "ap_id (min_approval (hd as) (tl as)) = Min (ap_id ` set as)" if "as \<noteq> []" for as
    using min_approval_Min[of "hd as" "tl as"] that by simp
  have shape: "(case as of [] \<Rightarrow> Inl e | a # xs \<Rightarrow> Inr (Some (min_approval a xs))) =
      (if as = [] then Inl e else Inr (Some (min_approval (hd as) (tl as))))" for as :: "approval list" and e :: denial_reason
    by (cases as) auto
  show ?thesis
    by (simp add: outcome_ids_def evaluate_def Let_def shape least empty assms)
qed

lemma decide_loop_set_cong:
  assumes "set approvals = set approvals'"
  shows "decide_loop r approvals now fp gs st = decide_loop r approvals' now fp gs st"
proof (induction gs arbitrary: st)
  case (Cons g gs)
  from evaluate_set_cong[OF assms, of g r now fp] Cons show ?case
    by (cases st; cases "evaluate g r approvals now fp"; cases "evaluate g r approvals' now fp")
      (auto simp: outcome_ids_def)
next
  case Nil
  show ?case by (cases st) simp
qed

lemma sort_key_set_cong:
  assumes "set xs = set ys" "distinct (map f xs)" "distinct (map f ys)"
  shows "sort_key f (filter P xs) = sort_key f (filter P ys)"
proof -
  have "mset xs = mset ys"
    using assms by (simp add: distinct_map set_eq_iff_mset_eq_distinct[symmetric])
  then have "mset (filter P xs) = mset (filter P ys)" by simp
  moreover have "inj_on f (set (filter P xs))"
    using assms(2) by (auto simp: distinct_map intro: inj_on_subset)
  ultimately show ?thesis by (intro sort_key_inj_key_eq) auto
qed

text \<open>
  The decision is a function of the set of grants and the set of approvals: with distinct
  grant identifiers, reordering or repeating approvals and reordering grants changes nothing in
  it, neither the effect nor the grant or approval cited nor the reason of a denial.
\<close>

theorem decide_capability_order_independent:
  assumes "set grants = set grants'" "distinct (map cg_id grants)" "distinct (map cg_id grants')"
    and "set approvals = set approvals'"
  shows "decide_capability H r grants now approvals = decide_capability H r grants' now approvals'"
  using sort_key_set_cong[OF assms(1-3), of "\<lambda>g. identity_matches g r"]
    decide_loop_set_cong[OF assms(4)]
  by (simp add: decide_capability_def Let_def)

definition example_grant2 :: grant where
  "example_grant2 = example_grant\<lparr>cg_id := ''f'', cg_expires_at := 5\<rparr>"

theorem decide_capability_order_independent_witness:
  "decide_capability id example_request [example_grant, example_grant2] 10
     [example_approval (fingerprint id example_request), example_approval ''x''] =
   decide_capability id example_request [example_grant2, example_grant] 10
     [example_approval ''x'', example_approval (fingerprint id example_request)]"
  by (rule decide_capability_order_independent) (auto simp: example_grant_def example_grant2_def)

subsection \<open>What an approval is bound to\<close>

lemma trust_value_inj: "trust_value a = trust_value b \<longleftrightarrow> a = b"
  by (cases a; cases b) auto

lemma sensitivity_value_inj: "sensitivity_value a = sensitivity_value b \<longleftrightarrow> a = b"
  by (cases a; cases b) auto

lemma fingerprint_parts_eq:
  "fingerprint_parts r = fingerprint_parts r' \<longleftrightarrow> r' = r\<lparr>cr_requested_at := cr_requested_at r'\<rparr>"
  by (cases r; cases r') (auto simp: fingerprint_parts_def trust_value_inj sensitivity_value_inj)

text \<open>
  Approvals cannot be replayed, for requests whose fields are free of the separator: when an
  approval given for the fingerprint of one request lets another through and the digest function
  does not collide on the two, the requests agree on every field but the time.
\<close>

theorem approval_binds_request:
  assumes "\<forall>f \<in> set (fingerprint_parts r). CHR 0x1F \<notin> set f"
    and "\<forall>f \<in> set (fingerprint_parts approved). CHR 0x1F \<notin> set f"
    and "\<And>m m'. H m = H m' \<Longrightarrow> m = m'"
    and "cr_sensitivity r \<in> approval_required_sensitivities"
    and "\<And>a. a \<in> set approvals \<Longrightarrow> ap_fingerprint a = fingerprint H approved"
    and "cd_effect (decide_capability H r grants now approvals) = Allow"
  shows "r = approved\<lparr>cr_requested_at := cr_requested_at r\<rparr>"
proof -
  from assms(6) decide_capability_cases[of grants r approvals now H]
  obtain g where "allowed_by g r approvals now (fingerprint H r) (decide_capability H r grants now approvals)"
    by auto
  then have "needs_approval g" "satisfied g r approvals now (fingerprint H r)"
    using assms(4) by (auto simp: allowed_by_def satisfied_def constraints_hold_def needs_approval_def)
  then obtain a where "a \<in> set approvals" "ap_fingerprint a = fingerprint H r"
    by (auto simp: satisfied_def live_approval_def)
  then have "fingerprint H approved = fingerprint H r" using assms(5) by simp
  then have "py_join [CHR 0x1F] (fingerprint_parts approved) = py_join [CHR 0x1F] (fingerprint_parts r)"
    using assms(3) by (simp add: fingerprint_def unit_separator_def)
  then have "fingerprint_parts approved = fingerprint_parts r"
    by (metis split_on_join assms(1,2) fingerprint_parts_def list.distinct(1))
  then show ?thesis by (simp add: fingerprint_parts_eq)
qed

theorem approval_binds_request_witness:
  "example_request = example_request\<lparr>cr_requested_at := cr_requested_at example_request\<rparr> \<and>
   cd_approval_id (decide_capability id example_request [example_grant] 10
     [example_approval (fingerprint id example_request)]) \<noteq> None"
proof -
  have "\<forall>f \<in> set (fingerprint_parts example_request). CHR 0x1F \<notin> set f" by code_simp
  moreover have "cr_sensitivity example_request \<in> approval_required_sensitivities" by code_simp
  ultimately have "example_request = example_request\<lparr>cr_requested_at := cr_requested_at example_request\<rparr>"
    using approval_binds_request[of example_request example_request id
        "[example_approval (fingerprint id example_request)]" "[example_grant]" 10]
    by (simp add: example_allow example_approval_def)
  moreover have "cd_approval_id (decide_capability id example_request [example_grant] 10
     [example_approval (fingerprint id example_request)]) \<noteq> None" by code_simp
  ultimately show ?thesis by blast
qed

definition shifted_request :: cap_request where
  "shifted_request = example_request\<lparr>cr_attempt_id := ''a'' @ unit_separator @ ''t''\<rparr>"

definition approved_request :: cap_request where
  "approved_request = example_request\<lparr>cr_tool_version := ''t'' @ unit_separator @ ''v''\<rparr>"

text \<open>
  Without that restriction the fingerprint is ambiguous. Identifiers and versions may contain
  the separator, so an attempt \<open>a\<close> at version \<open>t\<close>/separator/\<open>v\<close> of tool \<open>t\<close> has, under every digest
  function, the fingerprint of an attempt \<open>a\<close>/separator/\<open>t\<close> at version \<open>v\<close>: both requests are well
  formed, they differ in attempt and version, and the approval of the first allows the second.
\<close>

theorem approval_separator_ambiguity:
  "request_violation approved_request = None \<and> request_violation shifted_request = None \<and>
   grant_violation example_grant = None \<and> cr_tool_version approved_request \<noteq> cr_tool_version shifted_request \<and>
   fingerprint H approved_request = fingerprint H shifted_request \<and>
   cd_effect (decide_capability H shifted_request [example_grant] 10
     [example_approval (fingerprint H approved_request)]) = Allow"
proof -
  have "request_violation approved_request = None" "request_violation shifted_request = None"
    "grant_violation example_grant = None" by code_simp+
  moreover have differ: "cr_tool_version approved_request \<noteq> cr_tool_version shifted_request" by code_simp
  moreover have fp: "fingerprint H approved_request = fingerprint H shifted_request"
    by (simp add: fingerprint_def fingerprint_parts_def approved_request_def shifted_request_def
        example_request_def)
  moreover have "cd_effect (decide_capability H shifted_request [example_grant] 10
     [example_approval (fingerprint H approved_request)]) = Allow"
    by (simp add: fp decide_capability_Allow identity_matches_def satisfied_def constraints_hold_def
        live_approval_def example_approval_def)
      (simp add: shifted_request_def example_request_def example_grant_def)
  ultimately show ?thesis by blast
qed

definition expired_grant :: grant where
  "expired_grant = example_grant\<lparr>cg_id := ''h''\<rparr>"

text \<open>
  When no grant is satisfied the reported reason is that of a grant latest in the table of
  stages, and this table is not the order of the checks: a matching approval that has expired got
  further than an approval for some other request, yet the decision reports the latter's grant.
\<close>

theorem denial_reason_stage_order:
  "evaluate expired_grant example_request
     [(example_approval ''other''), (example_approval (fingerprint id example_request))\<lparr>ap_grant_id := ''h''\<rparr>] 60
     (fingerprint id example_request) = Inl ApprovalExpired \<and>
   evaluate example_grant example_request
     [(example_approval ''other''), (example_approval (fingerprint id example_request))\<lparr>ap_grant_id := ''h''\<rparr>] 60
     (fingerprint id example_request) = Inl ApprovalFingerprintMismatch \<and>
   cd_denial_reason (decide_capability id example_request [example_grant, expired_grant] 60
     [(example_approval ''other''), (example_approval (fingerprint id example_request))\<lparr>ap_grant_id := ''h''\<rparr>]) =
     Some ApprovalFingerprintMismatch"
  by (intro conjI) code_simp+

end
