(* ===== verification/Issuer.thy ===== *)
theory Issuer
  imports Capabilities Execution_Plan
begin

text \<open>
  \<^verbatim>\<open>src/core/capabilities/issuer.py\<close>: grants minted from admitted authority. \<open>fresh\<close> is the
  supply of identifiers (\<open>uuid4().hex\<close>): \<open>fresh n\<close> is the one drawn after \<open>n\<close> others. Instants are
  microseconds, so a second is \<open>1000000\<close>.
\<close>

definition capability_scope_prefix :: string where
  "capability_scope_prefix = ''plan-issued:''"

definition default_tool_version :: string where
  "default_tool_version = ''1.0.0''"

datatype admitted = AdmittedPlan plan | AdmittedBinding authority_binding

text \<open>\<open>_authority_fields\<close>: a plan's deadline is aware, a binding's is whatever datetime it holds.\<close>

fun authority_fields :: "admitted \<Rightarrow> worker list \<times> budget \<times> py_datetime" where
  "authority_fields (AdmittedPlan p) =
     (rd_workers (pl_decision p), rd_budget (pl_decision p), Aware (pl_deadline p))"
| "authority_fields (AdmittedBinding b) = (ab_workers b, ab_budget b, ab_deadline b)"

definition grant_ttl :: "budget \<Rightarrow> int" where
  "grant_ttl b = bu_max_attempts_per_task b * bu_task_timeout_seconds b * 1000000"

definition plan_grant :: "string \<Rightarrow> string \<Rightarrow> string \<Rightarrow> instant \<Rightarrow> instant \<Rightarrow> string \<Rightarrow> grant" where
  "plan_grant gid run task issued expires tool =
     \<lparr>cg_id = gid, cg_run_id = run, cg_task_id = task, cg_scope = capability_scope_prefix @ tool,
      cg_tool_name = tool, cg_tool_versions = [default_tool_version], cg_sensitivity = ReadOnly,
      cg_max_input_trust = ExternalUntrusted, cg_requires_approval = False, cg_issued_at = issued,
      cg_expires_at = expires\<rparr>"

text \<open>The inner loop, over the tools of one worker; \<open>grants\<close> so far, newest last.\<close>

fun issue_tools :: "(nat \<Rightarrow> string) \<Rightarrow> string \<Rightarrow> string \<Rightarrow> instant \<Rightarrow> instant \<Rightarrow> string list \<Rightarrow> grant list \<Rightarrow>
    contract_error + grant list" where
  "issue_tools fresh run task issued expires [] grants = Inr grants"
| "issue_tools fresh run task issued expires (tool # tools) grants =
     (let gid = fresh (length grants) in
      if gid \<in> set (map cg_id grants) then Inl (RuleError ''duplicate capability grant id'')
      else
       (case grant_violation (plan_grant gid run task issued expires tool) of
          Some e \<Rightarrow> Inl e
        | None \<Rightarrow> issue_tools fresh run task issued expires tools
                   (grants @ [plan_grant gid run task issued expires tool])))"

fun issue_workers :: "(nat \<Rightarrow> string) \<Rightarrow> string \<Rightarrow> string \<Rightarrow> instant \<Rightarrow> budget \<Rightarrow> py_datetime \<Rightarrow> worker list \<Rightarrow>
    grant list \<Rightarrow> contract_error + grant list" where
  "issue_workers fresh run task issued b deadline [] grants = Inr grants"
| "issue_workers fresh run task issued b deadline (w # ws) grants =
     (if wk_tool_allowlist w = [] then issue_workers fresh run task issued b deadline ws grants
      else if wk_permission_scopes w = []
      then Inl (RuleError ''worker declares tools without a permission scope'')
      else
       (let expires = issued + grant_ttl b in
        case deadline of
          Naive n \<Rightarrow> Inl (RuleError ''TypeError'')
        | Aware dl \<Rightarrow>
            if expires > dl
            then Inl (RuleError ''budget-derived capability grant deadline exceeds the admitted plan deadline'')
            else bind_result (issue_tools fresh run task issued expires (wk_tool_allowlist w) grants)
                   (issue_workers fresh run task issued b deadline ws)))"

definition issue :: "(nat \<Rightarrow> string) \<Rightarrow> admitted \<Rightarrow> string \<Rightarrow> string \<Rightarrow> py_datetime \<Rightarrow>
    contract_error + grant list" where
  "issue fresh auth run task issued_at =
     (case authority_fields auth of (workers, b, deadline) \<Rightarrow>
        if (case auth of AdmittedPlan p \<Rightarrow> run \<noteq> pl_run_id p | AdmittedBinding _ \<Rightarrow> False)
        then Inl (RuleError ''run_id must match the admitted execution plan'')
        else
         (case issued_at of
            Naive n \<Rightarrow> Inl (RuleError ''issued_at must be timezone-aware'')
          | Aware issued \<Rightarrow> issue_workers fresh run task issued b deadline workers []))"

subsection \<open>What the issued grants are\<close>

definition issued_ok :: "string \<Rightarrow> string \<Rightarrow> instant \<Rightarrow> instant \<Rightarrow> string set \<Rightarrow> grant list \<Rightarrow> bool" where
  "issued_ok run task issued expires tools gs \<longleftrightarrow>
     distinct (map cg_id gs) \<and>
     (\<forall>g \<in> set gs. grant_violation g = None \<and>
        (\<exists>tool \<in> tools. g = plan_grant (cg_id g) run task issued expires tool))"

lemma plan_grant_sel [simp]:
  "cg_id (plan_grant gid run task issued expires tool) = gid"
  "cg_tool_name (plan_grant gid run task issued expires tool) = tool"
  by (simp_all add: plan_grant_def)

lemma issue_tools_ok:
  "issue_tools fresh run task issued expires tools gs = Inr gs' \<Longrightarrow>
   issued_ok run task issued expires T gs \<Longrightarrow> set tools \<subseteq> T \<Longrightarrow>
   issued_ok run task issued expires T gs' \<and> map cg_tool_name gs' = map cg_tool_name gs @ tools"
proof (induction tools arbitrary: gs)
  case (Cons tool tools)
  let ?g = "plan_grant (fresh (length gs)) run task issued expires tool"
  from Cons(2) have new: "cg_id ?g \<notin> set (map cg_id gs)" "grant_violation ?g = None"
    and rec: "issue_tools fresh run task issued expires tools (gs @ [?g]) = Inr gs'"
    by (auto simp: Let_def split: if_splits)
  have "issued_ok run task issued expires T (gs @ [?g])"
    using Cons(3,4) new by (auto simp: issued_ok_def)
  from Cons(1)[OF rec this] Cons(4) show ?case by simp
qed simp

lemma issue_workers_ok:
  "issue_workers fresh run task issued b deadline ws gs = Inr gs' \<Longrightarrow>
   issued_ok run task issued (issued + grant_ttl b) T gs \<Longrightarrow>
   (\<Union>w \<in> set ws. set (wk_tool_allowlist w)) \<subseteq> T \<Longrightarrow>
   issued_ok run task issued (issued + grant_ttl b) T gs' \<and>
   map cg_tool_name gs' = map cg_tool_name gs @ concat (map wk_tool_allowlist ws) \<and>
   (gs' = gs \<or> (\<exists>dl. deadline = Aware dl \<and> issued + grant_ttl b \<le> dl))"
proof (induction ws arbitrary: gs)
  case (Cons w ws)
  show ?case
  proof (cases "wk_tool_allowlist w = []")
    case True
    with Cons show ?thesis by auto
  next
    case False
    with Cons(2) obtain gs1 dl where tools:
        "issue_tools fresh run task issued (issued + grant_ttl b) (wk_tool_allowlist w) gs = Inr gs1"
      and rec: "issue_workers fresh run task issued b deadline ws gs1 = Inr gs'"
      and dl: "deadline = Aware dl" "issued + grant_ttl b \<le> dl"
      by (auto simp: Let_def split: if_splits py_datetime.splits)
    from issue_tools_ok[OF tools Cons(3)] Cons(4)
    have ok: "issued_ok run task issued (issued + grant_ttl b) T gs1"
      "map cg_tool_name gs1 = map cg_tool_name gs @ wk_tool_allowlist w" by auto
    from Cons(1)[OF rec ok(1)] Cons(4) ok(2) dl show ?thesis by auto
  qed
qed simp

lemma issue_Inr:
  assumes "issue fresh auth run task issued_at = Inr gs" "authority_fields auth = (workers, b, deadline)"
  shows "\<exists>issued. issued_at = Aware issued \<and>
     issued_ok run task issued (issued + grant_ttl b) (\<Union>w \<in> set workers. set (wk_tool_allowlist w)) gs \<and>
     map cg_tool_name gs = concat (map wk_tool_allowlist workers) \<and>
     (gs = [] \<or> (\<exists>dl. deadline = Aware dl \<and> issued + grant_ttl b \<le> dl))"
proof -
  from assms obtain issued where at: "issued_at = Aware issued"
    and run: "issue_workers fresh run task issued b deadline workers [] = Inr gs"
    by (auto simp: issue_def split: if_splits py_datetime.splits)
  from issue_workers_ok[OF run, of "\<Union>w \<in> set workers. set (wk_tool_allowlist w)"] at
  show ?thesis by (auto simp: issued_ok_def)
qed

text \<open>
  C14: Authority does not grow from plan to decision. Whatever request the grants issued for a
  plan allow (at any time, with any approvals) is for that plan's run and task, for a tool some
  worker of the plan declares at the default version and in its plan-issued scope, read-only,
  on input no less trusted than external content, and before the plan's deadline.
\<close>

theorem issued_grants_confine:
  assumes "issue fresh (AdmittedPlan p) run task (Aware issued) = Inr gs"
    and "cd_effect (decide_capability H r gs now approvals) = Allow"
  shows "cr_run_id r = pl_run_id p \<and> cr_task_id r = task \<and>
     cr_tool_name r \<in> (\<Union>w \<in> set (rd_workers (pl_decision p)). set (wk_tool_allowlist w)) \<and>
     cr_tool_version r = default_tool_version \<and> cr_scope r = capability_scope_prefix @ cr_tool_name r \<and>
     cr_sensitivity r = ReadOnly \<and> cr_input_trust r \<le> ExternalUntrusted \<and>
     issued \<le> now \<and> now < pl_deadline p"
proof -
  from assms(1) have run: "run = pl_run_id p" by (auto simp: issue_def split: if_splits)
  from issue_Inr[OF assms(1)] have ok: "issued_ok run task issued (issued + grant_ttl (rd_budget (pl_decision p)))
        (\<Union>w \<in> set (rd_workers (pl_decision p)). set (wk_tool_allowlist w)) gs"
    and dl: "gs = [] \<or> issued + grant_ttl (rd_budget (pl_decision p)) \<le> pl_deadline p"
    by auto
  from assms(2) obtain g where g: "g \<in> set gs" "identity_matches g r" "satisfied g r approvals now (fingerprint H r)"
    by (auto simp: decide_capability_Allow)
  with dl have before: "issued + grant_ttl (rd_budget (pl_decision p)) \<le> pl_deadline p" by auto
  from ok g(1) obtain tool where
    "tool \<in> (\<Union>w \<in> set (rd_workers (pl_decision p)). set (wk_tool_allowlist w))"
    "g = plan_grant (cg_id g) run task issued (issued + grant_ttl (rd_budget (pl_decision p))) tool"
    unfolding issued_ok_def by blast
  moreover define e where "e = issued + grant_ttl (rd_budget (pl_decision p))"
  ultimately have "g = plan_grant (cg_id g) run task issued e tool"
    "tool \<in> (\<Union>w \<in> set (rd_workers (pl_decision p)). set (wk_tool_allowlist w))" "e \<le> pl_deadline p"
    using before by simp_all
  then obtain gid where "g = plan_grant gid run task issued e tool"
    "tool \<in> (\<Union>w \<in> set (rd_workers (pl_decision p)). set (wk_tool_allowlist w))" "e \<le> pl_deadline p" by blast
  with g(2,3) run show ?thesis
    by (auto simp: identity_matches_def satisfied_def constraints_hold_def plan_grant_def)
qed

definition example_fresh :: "nat \<Rightarrow> string" where
  "example_fresh n = ''g'' @ nat_str n"

definition example_issued_plan :: plan where
  "example_issued_plan = example_plan\<lparr>pl_deadline := 1000000000\<rparr>"

definition example_read :: cap_request where
  "example_read = example_request\<lparr>cr_run_id := ''run-1'', cr_tool_name := ''search'',
     cr_tool_version := ''1.0.0'', cr_scope := ''plan-issued:search'', cr_sensitivity := ReadOnly\<rparr>"

theorem issued_grants_confine_witness:
  "cr_tool_name example_read \<in>
     (\<Union>w \<in> set (rd_workers (pl_decision example_issued_plan)). set (wk_tool_allowlist w))"
proof -
  obtain gs where gs: "issue example_fresh (AdmittedPlan example_issued_plan) ''run-1'' ''task'' (Aware 0) = Inr gs"
    and allow: "cd_effect (decide_capability id example_read gs 10 []) = Allow"
  proof
    show "issue example_fresh (AdmittedPlan example_issued_plan) ''run-1'' ''task'' (Aware 0) =
        Inr [plan_grant ''g0'' ''run-1'' ''task'' 0 60000000 ''search'',
             plan_grant ''g1'' ''run-1'' ''task'' 0 60000000 ''search'']" by code_simp
    show "cd_effect (decide_capability id example_read
        [plan_grant ''g0'' ''run-1'' ''task'' 0 60000000 ''search'',
         plan_grant ''g1'' ''run-1'' ''task'' 0 60000000 ''search''] 10 []) = Allow" by code_simp
  qed
  from issued_grants_confine[OF gs allow] show ?thesis by blast
qed

definition long_tool :: string where
  "long_tool = replicate 250 CHR ''t''"

definition long_tool_worker :: worker where
  "long_tool_worker = (example_worker ''w1'')\<lparr>wk_tool_allowlist := [long_tool]\<rparr>"

text \<open>
  The issued scope prefixes the tool name, so a worker that declares a tool whose name is a
  valid identifier of 250 characters, which its own contract accepts, makes issuing fail for the
  whole plan with a constraint error on the scope.
\<close>

theorem issue_scope_overflow:
  "worker_violation long_tool_worker = None \<and>
   issue example_fresh (AdmittedBinding (example_binding\<lparr>ab_workers := [long_tool_worker], ab_deadline := Aware 1000000000\<rparr>))
     ''run-1'' ''task'' (Aware 0) = Inl (FieldError ''capability_scope'')"
proof
  have len: "length long_tool = 250" by (simp add: long_tool_def)
  show "worker_violation long_tool_worker = None"
    by (simp add: worker_violation_def long_tool_worker_def example_worker_def contract_id_ok_def len
        validate_json_object_def freeze_json_object_def)
  show "issue example_fresh (AdmittedBinding (example_binding\<lparr>ab_workers := [long_tool_worker], ab_deadline := Aware 1000000000\<rparr>))
     ''run-1'' ''task'' (Aware 0) = Inl (FieldError ''capability_scope'')"
    by (simp add: issue_def long_tool_worker_def example_worker_def example_binding_def grant_ttl_def
        example_budget_def grant_violation_def checks.simps plan_grant_def contract_id_ok_def
        capability_scope_prefix_def len example_fresh_def)
qed

end
