(* ===== verification/Records.thy ===== *)
theory Records
  imports Contract_Base
begin

text \<open>
  The smaller contracts: version pins (\<^verbatim>\<open>src/core/contracts/pinning.py\<close>), stream cursors and
  delivery keys (\<^verbatim>\<open>src/core/contracts/streaming.py\<close>), evaluation results and run events
  (\<^verbatim>\<open>src/core/contracts/outcomes.py\<close>) and citation metadata (\<^verbatim>\<open>src/core/contracts/citation.py\<close>).
\<close>

subsection \<open>Version pins\<close>

datatype pinned_kind = PinPrompt | PinEvaluator | PinArtifactSchema | PinPolicy | PinTool

record pinned_component =
  pc_kind :: pinned_kind
  pc_id :: string
  pc_version :: string
  pc_content_sha256 :: "digest option"

record pinned_versions =
  pv_workflow_id :: string
  pv_workflow_version :: string
  pv_policy_id :: string
  pv_policy_version :: string
  pv_envelope_version :: string
  pv_components :: "pinned_component list"

definition pinned_component_violation :: "pinned_component \<Rightarrow> contract_error option" where
  "pinned_component_violation c = checks
     [(\<not> contract_id_ok (pc_id c), FieldError ''component_id''),
      (\<not> version_ok (pc_version c), FieldError ''version''),
      (some_and (\<lambda>d. \<not> content_sha256_ok d) (pc_content_sha256 c), FieldError ''content_sha256'')]"

definition pin_identity :: "pinned_component \<Rightarrow> pinned_kind \<times> string" where
  "pin_identity c = (pc_kind c, pc_id c)"

definition pinned_versions_violation :: "pinned_versions \<Rightarrow> contract_error option" where
  "pinned_versions_violation v = checks
     [(\<not> contract_id_ok (pv_workflow_id v), FieldError ''workflow_definition_id''),
      (\<not> version_ok (pv_workflow_version v), FieldError ''workflow_definition_version''),
      (\<not> contract_id_ok (pv_policy_id v), FieldError ''routing_policy_id''),
      (\<not> version_ok (pv_policy_version v), FieldError ''routing_policy_version''),
      (\<not> version_ok (pv_envelope_version v), FieldError ''event_envelope_version''),
      (\<not> require_unique (map pin_identity (pv_components v)),
         RuleError ''A component may be pinned to only one version'')]"

definition find_pin :: "pinned_kind \<Rightarrow> string \<Rightarrow> pinned_component list \<Rightarrow> pinned_component option" where
  "find_pin kind i cs = List.find (\<lambda>c. pc_kind c = kind \<and> pc_id c = i) cs"

definition version_of :: "pinned_versions \<Rightarrow> pinned_kind \<Rightarrow> string \<Rightarrow> string option" where
  "version_of v kind i = map_option pc_version (find_pin kind i (pv_components v))"

definition content_hash_of :: "pinned_versions \<Rightarrow> pinned_kind \<Rightarrow> string \<Rightarrow> digest option" where
  "content_hash_of v kind i = Option.bind (find_pin kind i (pv_components v)) pc_content_sha256"

text \<open>A dict comprehension: a later entry with the same key replaces an earlier one.\<close>

definition versions_for :: "pinned_versions \<Rightarrow> pinned_kind \<Rightarrow> string \<Rightarrow> string option" where
  "versions_for v kind = map_of (rev (map (\<lambda>c. (pc_id c, pc_version c))
     (filter (\<lambda>c. pc_kind c = kind) (pv_components v))))"

subsection \<open>Stream cursors and delivery keys\<close>

record cursor =
  cu_run_id :: string
  cu_last_sequence :: int

definition cursor_violation :: "cursor \<Rightarrow> contract_error option" where
  "cursor_violation c = checks
     [(\<not> contract_id_ok (cu_run_id c), FieldError ''run_id''),
      (\<not> 0 \<le> cu_last_sequence c, FieldError ''last_sequence'')]"

definition advanced_to :: "cursor \<Rightarrow> int \<Rightarrow> contract_error + cursor" where
  "advanced_to c sequence =
     (if sequence \<le> cu_last_sequence c then Inl (RuleError ''Cursor cannot move'')
      else (let c' = c\<lparr>cu_last_sequence := sequence\<rparr> in raise_or (cursor_violation c') c'))"

definition delivery_idempotency_key :: "string \<Rightarrow> string \<Rightarrow> contract_error + string" where
  "delivery_idempotency_key deduplication_key destination =
     (let k = py_strip deduplication_key; d = py_strip destination in
      if k = [] then Inl (RuleError ''deduplication_key must not be empty'')
      else if d = [] then Inl (RuleError ''destination must not be empty'')
      else Inr (d @ '':'' @ k))"

subsection \<open>Evaluation results and run events\<close>

datatype evaluation_status = EvalPassed | EvalFailed | EvalError | EvalAbstained

record evaluation_result =
  er_id :: string
  er_run_id :: string
  er_task_id :: "string option"
  er_artifact_id :: "string option"
  er_evaluator_id :: string
  er_evaluator_version :: string
  er_dimension :: string
  er_status :: evaluation_status
  er_deterministic :: bool
  er_score :: "pyfloat option"
  er_error_code :: "string option"
  er_details :: pyval
  er_completed_at :: instant

definition unit_score_ok :: "pyfloat \<Rightarrow> bool" where
  "unit_score_ok x = (case x of Finite q \<Rightarrow> 0 \<le> q \<and> q \<le> 1 | _ \<Rightarrow> False)"

definition evaluation_result_violation :: "evaluation_result \<Rightarrow> contract_error option" where
  "evaluation_result_violation r = checks
     [(\<not> contract_id_ok (er_id r), FieldError ''evaluation_result_id''),
      (\<not> contract_id_ok (er_run_id r), FieldError ''run_id''),
      (\<not> optional_id_ok (er_task_id r), FieldError ''task_id''),
      (\<not> optional_id_ok (er_artifact_id r), FieldError ''artifact_id''),
      (\<not> contract_id_ok (er_evaluator_id r), FieldError ''evaluator_id''),
      (\<not> version_ok (er_evaluator_version r), FieldError ''evaluator_version''),
      (\<not> contract_id_ok (er_dimension r), FieldError ''dimension''),
      (some_and (\<lambda>x. \<not> unit_score_ok x) (er_score r), FieldError ''score''),
      (\<not> optional_id_ok (er_error_code r), FieldError ''error_code''),
      (validate_json_object (er_details r) = None, FieldError ''details''),
      (er_status r = EvalError \<and> er_error_code r = None, RuleError ''Evaluator errors require error_code'')]"

record run_event =
  re_id :: string
  re_run_id :: string
  re_aggregate_type :: string
  re_aggregate_id :: string
  re_sequence :: int
  re_event_type :: string
  re_event_type_version :: string
  re_occurred_at :: instant
  re_producer :: string
  re_deduplication_key :: string
  re_correlation_id :: "string option"
  re_causation_event_id :: "string option"
  re_payload :: pyval

definition run_event_violation :: "run_event \<Rightarrow> contract_error option" where
  "run_event_violation e = checks
     [(\<not> contract_id_ok (re_id e), FieldError ''event_id''),
      (\<not> contract_id_ok (re_run_id e), FieldError ''run_id''),
      (\<not> contract_id_ok (re_aggregate_type e), FieldError ''aggregate_type''),
      (\<not> contract_id_ok (re_aggregate_id e), FieldError ''aggregate_id''),
      (\<not> 1 \<le> re_sequence e, FieldError ''sequence''),
      (\<not> contract_id_ok (re_event_type e), FieldError ''event_type''),
      (\<not> version_ok (re_event_type_version e), FieldError ''event_type_version''),
      (\<not> contract_id_ok (re_producer e), FieldError ''producer''),
      (\<not> idempotency_key_ok (re_deduplication_key e), FieldError ''deduplication_key''),
      (\<not> optional_id_ok (re_correlation_id e), FieldError ''correlation_id''),
      (\<not> optional_id_ok (re_causation_event_id e), FieldError ''causation_event_id''),
      (validate_json_object (re_payload e) = None, FieldError ''payload'')]"

subsection \<open>Citation metadata\<close>

datatype metadata_provenance = FromRegistry | FromDocument | FromUser | ModelInferred

record sourced_value =
  sv_value :: string
  sv_provenance :: metadata_provenance
  sv_evidence_id :: "string option"

text \<open>The pattern \<open>\S\<close> is searched: some character is not white space.\<close>

definition non_blank_ok :: "string \<Rightarrow> bool" where
  "non_blank_ok s = (1 \<le> length s \<and> length s \<le> 2000 \<and> list_ex (\<lambda>c. \<not> py_space c) s)"

definition sourced_value_violation :: "sourced_value \<Rightarrow> contract_error option" where
  "sourced_value_violation v = checks
     [(\<not> non_blank_ok (sv_value v), FieldError ''value''),
      (\<not> optional_id_ok (sv_evidence_id v), FieldError ''evidence_id''),
      (sv_provenance v = ModelInferred, RuleError ''model_inferred metadata is never renderable''),
      (sv_provenance v \<in> {FromRegistry, FromDocument} \<and> sv_evidence_id v = None,
         RuleError ''metadata requires an evidence_id'')]"

record citation_metadata =
  cm_authors :: "sourced_value list"
  cm_year :: "sourced_value option"
  cm_doi :: "sourced_value option"

subsection \<open>Laws\<close>

text \<open>A well-formed pin table is a partial function: both lookups agree with every entry.\<close>

lemma find_pin_unique:
  assumes "distinct (map pin_identity cs)" "c \<in> set cs"
  shows "find_pin (pc_kind c) (pc_id c) cs = Some c"
  using assms
  by (induction cs) (auto simp: find_pin_def pin_identity_def rev_image_eqI)

lemma versions_for_version_of:
  assumes "distinct (map pin_identity (pv_components v))"
  shows "versions_for v kind i = version_of v kind i"
proof -
  let ?cs = "filter (\<lambda>c. pc_kind c = kind) (pv_components v)"
  have d: "distinct (map (\<lambda>c. pc_id c) ?cs)"
    using assms by (induction "pv_components v" arbitrary: v) (auto simp: pin_identity_def distinct_map inj_on_def)
  have "map_of (rev (map (\<lambda>c. (pc_id c, pc_version c)) ?cs)) = map_of (map (\<lambda>c. (pc_id c, pc_version c)) ?cs)"
    using d by (intro map_of_inject_set[THEN iffD2]) (simp_all add: comp_def rev_map[symmetric])
  moreover have "map_of (map (\<lambda>c. (pc_id c, pc_version c)) (filter (\<lambda>c. pc_kind c = kind) cs)) i =
      map_option pc_version (find_pin kind i cs)" for cs
    by (induction cs) (auto simp: find_pin_def)
  ultimately show ?thesis by (simp add: versions_for_def version_of_def)
qed

text \<open>
  A cursor only moves forward. Advancing a valid cursor succeeds exactly for a later sequence,
  keeps the run and gives a valid cursor at that sequence, so no history of advances ever replays
  or returns to an earlier position.
\<close>

theorem cursor_advances:
  assumes "cursor_violation c = None"
  shows "advanced_to c sequence =
     (if cu_last_sequence c < sequence then Inr (c\<lparr>cu_last_sequence := sequence\<rparr>)
      else Inl (RuleError ''Cursor cannot move''))"
    and "advanced_to c sequence = Inr c' \<Longrightarrow> cursor_violation c' = None \<and> cu_run_id c' = cu_run_id c \<and>
         cu_last_sequence c < cu_last_sequence c'"
proof -
  have ok: "contract_id_ok (cu_run_id c)" "0 \<le> cu_last_sequence c" using assms by (auto simp: cursor_violation_def)
  have valid: "cursor_violation (c\<lparr>cu_last_sequence := sequence\<rparr>) = None" if "cu_last_sequence c < sequence"
    using ok that by (simp add: cursor_violation_def)
  then show eq: "advanced_to c sequence =
     (if cu_last_sequence c < sequence then Inr (c\<lparr>cu_last_sequence := sequence\<rparr>)
      else Inl (RuleError ''Cursor cannot move''))"
    by (simp add: advanced_to_def Let_def raise_or_def)
  show "advanced_to c sequence = Inr c' \<Longrightarrow> cursor_violation c' = None \<and> cu_run_id c' = cu_run_id c \<and>
         cu_last_sequence c < cu_last_sequence c'"
    using valid by (auto simp: eq split: if_splits)
qed

theorem cursor_advances_witness:
  "advanced_to \<lparr>cu_run_id = ''r'', cu_last_sequence = 3\<rparr> 7 = Inr \<lparr>cu_run_id = ''r'', cu_last_sequence = 7\<rparr>"
  using cursor_advances(1)[of "\<lparr>cu_run_id = ''r'', cu_last_sequence = 3\<rparr>" 7]
  by (simp add: cursor_violation_def contract_id_ok_def)

text \<open>
  The delivery key identifies a delivery among destinations without a colon: two deliveries
  with the same key then have the same destination and the same deduplication key, up to
  surrounding white space. With a colon in the destination this fails: two different consumers
  share a key.
\<close>

theorem delivery_key_identifies:
  assumes "delivery_idempotency_key k d = Inr key" "delivery_idempotency_key k' d' = Inr key"
    and "CHR '':'' \<notin> set (py_strip d)" "CHR '':'' \<notin> set (py_strip d')"
  shows "py_strip d = py_strip d' \<and> py_strip k = py_strip k' \<and>
     delivery_idempotency_key ''c'' ''a:b'' = delivery_idempotency_key ''b:c'' ''a''"
proof -
  have eq: "py_strip d @ CHR '':'' # py_strip k = py_strip d' @ CHR '':'' # py_strip k'"
    using assms(1,2) by (auto simp: delivery_idempotency_key_def Let_def split: if_splits)
  then have "split_on CHR '':'' (py_strip d @ CHR '':'' # py_strip k) =
      split_on CHR '':'' (py_strip d' @ CHR '':'' # py_strip k')" by simp
  then have "py_strip d = py_strip d'" using assms(3,4) by (simp add: split_on_append)
  with eq show ?thesis by (simp, code_simp)
qed

theorem delivery_key_identifies_witness:
  "py_strip '' web '' = py_strip ''web''"
proof -
  have 1: "delivery_idempotency_key ''e1'' '' web '' = Inr ''web:e1''" by code_simp
  have 2: "delivery_idempotency_key ''e1 '' ''web'' = Inr ''web:e1''" by code_simp
  have 3: "CHR '':'' \<notin> set (py_strip '' web '')" "CHR '':'' \<notin> set (py_strip ''web'')" by code_simp+
  show ?thesis using delivery_key_identifies[OF 1 2 3] by blast
qed

end
