(* ===== verification/Event_Stream.thy ===== *)
theory Event_Stream
  imports Records
begin

text \<open>
  \<^verbatim>\<open>src/repositories/run_event_repository.py\<close> over the tables of \<^verbatim>\<open>src/models/db/run_event.py\<close>: the
  append-only event stream of a run, its outbox, and replay from a cursor. Tables are lists in
  insertion order; a flush that breaks a unique constraint is \<open>IntegrityViolation\<close>. A transaction
  that raises leaves no trace: an operation returns the new tables or an error.
\<close>

record outbox_row =
  ob_event_id :: string
  ob_run_id :: string
  ob_org :: string
  ob_destination :: string
  ob_key :: string
  ob_payload :: run_event

text \<open>
  \<open>st_runs\<close> gives the organization of a run, which may be \<open>NULL\<close>, and its \<open>last_event_sequence\<close>.
\<close>

record stream =
  st_runs :: "string \<rightharpoonup> string option \<times> int"
  st_events :: "(string \<times> run_event) list"
  st_outbox :: "outbox_row list"

datatype stream_error =
  RunUnknown | TenantMismatch | EventInvalid contract_error | DeliveryKeyInvalid contract_error | IntegrityViolation

definition allocate_sequence :: "stream \<Rightarrow> string \<Rightarrow> stream_error + int \<times> stream" where
  "allocate_sequence s run =
     (case st_runs s run of
        None \<Rightarrow> Inl RunUnknown
      | Some (org, latest) \<Rightarrow> Inr (latest + 1, s\<lparr>st_runs := (st_runs s)(run \<mapsto> (org, latest + 1))\<rparr>))"

fun outbox_rows :: "run_event \<Rightarrow> string \<Rightarrow> string list \<Rightarrow> stream_error + outbox_row list" where
  "outbox_rows e org [] = Inr []"
| "outbox_rows e org (d # ds) =
     (case delivery_idempotency_key (re_deduplication_key e) d of
        Inl err \<Rightarrow> Inl (DeliveryKeyInvalid err)
      | Inr key \<Rightarrow>
          bind_result (outbox_rows e org ds) (\<lambda>rows. Inr
            (\<lparr>ob_event_id = re_id e, ob_run_id = re_run_id e, ob_org = org, ob_destination = d, ob_key = key,
              ob_payload = e\<rparr> # rows)))"

text \<open>The unique constraints of the two tables.\<close>

definition event_clashes :: "stream \<Rightarrow> run_event \<Rightarrow> bool" where
  "event_clashes s e \<longleftrightarrow>
     list_ex (\<lambda>(org, f). re_id f = re_id e \<or>
       (re_run_id f = re_run_id e \<and>
         (re_sequence f = re_sequence e \<or> re_deduplication_key f = re_deduplication_key e))) (st_events s)"

definition outbox_clashes :: "stream \<Rightarrow> outbox_row list \<Rightarrow> bool" where
  "outbox_clashes s rows \<longleftrightarrow>
     \<not> distinct (map (\<lambda>r. (ob_event_id r, ob_destination r)) rows) \<or>
     list_ex (\<lambda>r. list_ex (\<lambda>q. ob_event_id q = ob_event_id r \<and> ob_destination q = ob_destination r) (st_outbox s)) rows"

text \<open>The event is given with any sequence; the stream allocates it.\<close>

definition append_event :: "stream \<Rightarrow> string \<Rightarrow> run_event \<Rightarrow> string list \<Rightarrow> stream_error + stream" where
  "append_event s org e0 destinations =
     (case st_runs s (re_run_id e0) of
        None \<Rightarrow> Inl RunUnknown
      | Some (run_org, _) \<Rightarrow>
          if run_org = None then Inl RunUnknown
          else if run_org \<noteq> Some org then Inl TenantMismatch
          else bind_result (allocate_sequence s (re_run_id e0)) (\<lambda>(sequence, s1).
            let e = e0\<lparr>re_sequence := sequence\<rparr> in
            case run_event_violation e of
              Some err \<Rightarrow> Inl (EventInvalid err)
            | None \<Rightarrow>
                bind_result (outbox_rows e org destinations) (\<lambda>rows.
                  if event_clashes s1 e \<or> outbox_clashes s1 rows then Inl IntegrityViolation
                  else Inr (s1\<lparr>st_events := st_events s1 @ [(org, e)], st_outbox := st_outbox s1 @ rows\<rparr>))))"

definition read_events_after :: "stream \<Rightarrow> string \<Rightarrow> int \<Rightarrow> nat \<Rightarrow> string option \<Rightarrow> run_event list" where
  "read_events_after s run after limit org =
     take limit (sort_key re_sequence (map snd (filter (\<lambda>(o', e).
       re_run_id e = run \<and> after < re_sequence e \<and> (org = None \<or> org = Some o')) (st_events s))))"

definition read_from_cursor :: "stream \<Rightarrow> cursor \<Rightarrow> nat \<Rightarrow> string option \<Rightarrow> run_event list" where
  "read_from_cursor s c limit org = read_events_after s (cu_run_id c) (cu_last_sequence c) limit org"

subsection \<open>The invariant of the tables\<close>

definition events_of :: "stream \<Rightarrow> string \<Rightarrow> run_event list" where
  "events_of s run = filter (\<lambda>e. re_run_id e = run) (map snd (st_events s))"

definition last_sequence :: "stream \<Rightarrow> string \<Rightarrow> int" where
  "last_sequence s run = (case st_runs s run of None \<Rightarrow> 0 | Some (org, n) \<Rightarrow> n)"

text \<open>
  Every run's events are numbered from one without a gap up to the counter of the run; event
  identifiers and, within a run, deduplication keys do not repeat; a run's events carry its
  organization; every outbox row is the delivery of an event.
\<close>

definition stream_ok :: "stream \<Rightarrow> bool" where
  "stream_ok s \<longleftrightarrow>
     (\<forall>run. map re_sequence (events_of s run) = map int [1..<Suc (nat (last_sequence s run))]) \<and>
     (\<forall>run. 0 \<le> last_sequence s run) \<and>
     distinct (map (re_id \<circ> snd) (st_events s)) \<and>
     (\<forall>run. distinct (map re_deduplication_key (events_of s run))) \<and>
     (\<forall>(org, e) \<in> set (st_events s). run_event_violation e = None \<and>
        (\<exists>n. st_runs s (re_run_id e) = Some (Some org, n))) \<and>
     (\<forall>r \<in> set (st_outbox s). (ob_org r, ob_payload r) \<in> set (st_events s) \<and> ob_event_id r = re_id (ob_payload r))"

lemma outbox_rows_Inr:
  "outbox_rows e org ds = Inr rows \<Longrightarrow>
   map ob_destination rows = ds \<and> (\<forall>r \<in> set rows. ob_org r = org \<and> ob_payload r = e \<and> ob_event_id r = re_id e)"
  by (induction ds arbitrary: rows) (auto split: sum.splits)

lemma append_event_Inr:
  "append_event s org e0 ds = Inr s' \<longleftrightarrow>
     (\<exists>latest rows. st_runs s (re_run_id e0) = Some (Some org, latest) \<and>
        run_event_violation (e0\<lparr>re_sequence := latest + 1\<rparr>) = None \<and>
        outbox_rows (e0\<lparr>re_sequence := latest + 1\<rparr>) org ds = Inr rows \<and>
        \<not> event_clashes s (e0\<lparr>re_sequence := latest + 1\<rparr>) \<and> \<not> outbox_clashes s rows \<and>
        s' = s\<lparr>st_runs := (st_runs s)(re_run_id e0 \<mapsto> (Some org, latest + 1)),
               st_events := st_events s @ [(org, e0\<lparr>re_sequence := latest + 1\<rparr>)], st_outbox := st_outbox s @ rows\<rparr>)"
  by (auto simp: append_event_def allocate_sequence_def Let_def event_clashes_def outbox_clashes_def
      split: option.splits if_splits)

lemma append_event_ok:
  assumes ok: "stream_ok s" and app: "append_event s org e0 ds = Inr s'"
  shows "stream_ok s'"
proof -
  from app obtain latest rows where run: "st_runs s (re_run_id e0) = Some (Some org, latest)"
    and valid: "run_event_violation (e0\<lparr>re_sequence := latest + 1\<rparr>) = None"
    and rows: "outbox_rows (e0\<lparr>re_sequence := latest + 1\<rparr>) org ds = Inr rows"
    and fresh: "\<not> event_clashes s (e0\<lparr>re_sequence := latest + 1\<rparr>)"
    and s': "s' = s\<lparr>st_runs := (st_runs s)(re_run_id e0 \<mapsto> (Some org, latest + 1)),
        st_events := st_events s @ [(org, e0\<lparr>re_sequence := latest + 1\<rparr>)], st_outbox := st_outbox s @ rows\<rparr>"
    by (auto simp: append_event_Inr)
  let ?e = "e0\<lparr>re_sequence := latest + 1\<rparr>"
  have old: "events_of s' run = events_of s run @ (if run = re_run_id e0 then [?e] else [])" for run
    by (simp add: events_of_def s')
  have lastseq: "last_sequence s' run = (if run = re_run_id e0 then latest + 1 else last_sequence s run)" for run
    by (simp add: last_sequence_def s')
  have latest: "last_sequence s (re_run_id e0) = latest" by (simp add: last_sequence_def run)
  have ok_seqs: "map re_sequence (events_of s run) = map int [1..<Suc (nat (last_sequence s run))]" for run
    using ok unfolding stream_ok_def by blast
  have ok_nonneg: "0 \<le> last_sequence s run" for run using ok unfolding stream_ok_def by blast
  have ok_ids: "distinct (map (re_id \<circ> snd) (st_events s))" using ok unfolding stream_ok_def by blast
  have ok_keys: "distinct (map re_deduplication_key (events_of s run))" for run
    using ok unfolding stream_ok_def by blast
  have ok_rows: "run_event_violation e = None \<and> (\<exists>n. st_runs s (re_run_id e) = Some (Some o', n))"
    if "(o', e) \<in> set (st_events s)" for o' e using ok that unfolding stream_ok_def by blast
  have ok_box: "(ob_org r, ob_payload r) \<in> set (st_events s) \<and> ob_event_id r = re_id (ob_payload r)"
    if "r \<in> set (st_outbox s)" for r using ok that unfolding stream_ok_def by blast
  have nonneg: "0 \<le> latest" using ok_nonneg latest by metis
  have seqs: "map re_sequence (events_of s' run) = map int [1..<Suc (nat (last_sequence s' run))]" for run
  proof -
    have "nat (latest + 1) = Suc (nat latest)" using nonneg by simp
    then show ?thesis using nonneg latest ok_seqs[of run] by (simp add: old lastseq)
  qed
  have fresh_id: "re_id ?e \<notin> set (map (re_id \<circ> snd) (st_events s))"
    and fresh_key: "re_deduplication_key ?e \<notin> set (map re_deduplication_key (events_of s (re_run_id e0)))"
    using fresh by (auto simp: event_clashes_def list_ex_iff events_of_def)
  have keys: "distinct (map re_deduplication_key (events_of s' run))" for run
    using ok_keys[of run] fresh_key by (simp add: old)
  have rows': "run_event_violation e = None \<and> (\<exists>n. st_runs s' (re_run_id e) = Some (Some o', n))"
    if mem: "(o', e) \<in> set (st_events s')" for o' e
  proof (cases "(o', e) \<in> set (st_events s)")
    case True
    with ok_rows[OF True] run show ?thesis by (auto simp: s')
  qed (use mem valid in \<open>auto simp: s'\<close>)
  have boxes: "(ob_org r, ob_payload r) \<in> set (st_events s') \<and> ob_event_id r = re_id (ob_payload r)"
    if mem: "r \<in> set (st_outbox s')" for r
  proof (cases "r \<in> set (st_outbox s)")
    case True
    with ok_box[OF True] show ?thesis by (simp add: s')
  qed (use mem outbox_rows_Inr[OF rows] in \<open>auto simp: s'\<close>)
  have ids: "distinct (map (re_id \<circ> snd) (st_events s'))" using ok_ids fresh_id by (simp add: s')
  have "0 \<le> last_sequence s' run" for run using ok_nonneg nonneg by (simp add: lastseq)
  with seqs keys boxes ids rows' show ?thesis unfolding stream_ok_def by blast
qed

subsection \<open>Replay\<close>

lemma sorted_events: "stream_ok s \<Longrightarrow> sorted (map re_sequence (events_of s run))"
  by (simp only: stream_ok_def) (simp add: sorted_wrt_map del: upt_Suc)

lemma filter_after_drop:
  assumes "map f xs = map int [1..<Suc n]" "0 \<le> k"
  shows "filter (\<lambda>x. k < f x) xs = drop (nat k) xs"
proof -
  have len: "length xs = n" using arg_cong[OF assms(1), of length] by simp
  have nth: "f (xs ! i) = int (Suc i)" if "i < n" for i
  proof -
    have "f (xs ! i) = map f xs ! i" using that len by simp
    also have "\<dots> = int (Suc i)" unfolding assms(1) using that by (simp add: nth_upt del: upt_Suc)
    finally show ?thesis .
  qed
  have "filter (\<lambda>x. k < f x) (take (nat k) xs) = []"
    using nth len by (auto simp: filter_empty_conv in_set_conv_nth)
  moreover have "filter (\<lambda>x. k < f x) (drop (nat k) xs) = drop (nat k) xs"
    using nth len assms(2) by (auto simp: filter_id_conv in_set_conv_nth)
  ultimately show ?thesis by (metis append_take_drop_id filter_append append_Nil)
qed

text \<open>
  A read is a window of the run's events: skip as many as the cursor has seen, return at most the
  limit.
\<close>

lemma read_events_after_window:
  assumes "stream_ok s" "0 \<le> after"
  shows "read_events_after s run after limit None = take limit (drop (nat after) (events_of s run))"
proof -
  have seqs: "map re_sequence (events_of s run) = map int [1..<Suc (nat (last_sequence s run))]"
    using assms(1) unfolding stream_ok_def by blast
  have "map snd (filter (\<lambda>(o', e). re_run_id e = run \<and> after < re_sequence e) es) =
      filter (\<lambda>e. after < re_sequence e) (filter (\<lambda>e. re_run_id e = run) (map snd es))" for es :: "(string \<times> run_event) list"
    by (induction es) auto
  then have eq: "map snd (filter (\<lambda>(o', e). re_run_id e = run \<and> after < re_sequence e) (st_events s)) =
      drop (nat after) (events_of s run)"
    using filter_after_drop[OF seqs assms(2)] by (simp add: events_of_def)
  have "sorted (map re_sequence (drop (nat after) (events_of s run)))"
    using sorted_events[OF assms(1)] by (simp add: drop_map[symmetric] sorted_wrt_drop)
  then show ?thesis by (simp add: read_events_after_def eq sort_key_id_if_sorted )
qed

text \<open>Appends in sequence; one that raises is rolled back.\<close>

fun append_all :: "stream \<Rightarrow> (string \<times> run_event \<times> string list) list \<Rightarrow> stream" where
  "append_all s [] = s"
| "append_all s ((org, e, ds) # ops) =
     (case append_event s org e ds of Inl err \<Rightarrow> append_all s ops | Inr s' \<Rightarrow> append_all s' ops)"

lemma append_all_ok: "stream_ok s \<Longrightarrow> stream_ok (append_all s ops)"
  by (induction s ops rule: append_all.induct) (auto intro: append_event_ok split: sum.split)

definition empty_stream :: "(string \<rightharpoonup> string option) \<Rightarrow> stream" where
  "empty_stream runs = \<lparr>st_runs = (\<lambda>r. map_option (\<lambda>org. (org, 0)) (runs r)), st_events = [], st_outbox = []\<rparr>"

lemma empty_stream_ok: "stream_ok (empty_stream runs)"
  by (auto simp: stream_ok_def empty_stream_def events_of_def last_sequence_def split: option.split)

lemma append_event_events:
  "append_event s org e ds = Inr s' \<Longrightarrow>
   events_of s' run = events_of s run @ (if run = re_run_id e then [e\<lparr>re_sequence := last_sequence s run + 1\<rparr>] else [])"
  by (auto simp: append_event_Inr events_of_def last_sequence_def)

text \<open>
  C20: The event stream of a run is gap-free and replay is exact. After any history of appends, failed
  ones included, the events of every run are numbered 1, 2, 3, ... without gap or repetition, in the
  order they were appended, with distinct deduplication keys; a read after a cursor returns exactly
  the next events, at most \<open>limit\<close> of them; and a reader that continues from the last event it got
  sees what one larger read would have shown, so resuming neither skips nor repeats an event.
\<close>

theorem stream_replay_exact:
  assumes "s = append_all (empty_stream runs) ops" and "0 \<le> after"
  shows "map re_sequence (events_of s run) = map int [1..<Suc (length (events_of s run))] \<and>
    distinct (map re_deduplication_key (events_of s run)) \<and>
    read_events_after s run after n None = take n (drop (nat after) (events_of s run)) \<and>
    read_events_after s run after n None @ read_events_after s run (after + int n) m None =
      read_events_after s run after (n + m) None"
proof -
  have ok: "stream_ok s" using assms(1) append_all_ok empty_stream_ok by blast
  have seqs: "map re_sequence (events_of s run) = map int [1..<Suc (nat (last_sequence s run))]"
    using ok unfolding stream_ok_def by blast
  have "length (events_of s run) = nat (last_sequence s run)" using arg_cong[OF seqs, of length] by simp
  moreover have "distinct (map re_deduplication_key (events_of s run))" using ok unfolding stream_ok_def by blast
  moreover have "nat (after + int n) = n + nat after" using assms(2) by simp
  ultimately show ?thesis
    using seqs assms(2) read_events_after_window[OF ok]
    by (simp add: take_add del: upt_Suc)
qed

definition example_event :: "string \<Rightarrow> string \<Rightarrow> run_event" where
  "example_event i k = \<lparr>re_id = i, re_run_id = ''r'', re_aggregate_type = ''run'', re_aggregate_id = ''r'',
     re_sequence = 1, re_event_type = ''started'', re_event_type_version = ''1.0'', re_occurred_at = 0,
     re_producer = ''p'', re_deduplication_key = k, re_correlation_id = None, re_causation_event_id = None,
     re_payload = VDict []\<rparr>"

definition example_stream :: stream where
  "example_stream = append_all (empty_stream [''r'' \<mapsto> Some ''o''])
     [(''o'', example_event ''e1'' ''k1'', [''sse'']), (''o'', example_event ''e2'' ''k1'', []),
      (''x'', example_event ''e3'' ''k3'', []), (''o'', example_event ''e4'' ''k4'', [''sse''])]"

theorem stream_replay_exact_witness:
  "map re_sequence (events_of example_stream ''r'') = [1, 2] \<and>
   map re_id (read_events_after example_stream ''r'' 1 5 None) = [''e4'']"
proof -
  have ids: "map re_id (events_of example_stream ''r'') = [''e1'', ''e4'']" by code_simp
  then have len: "length (events_of example_stream ''r'') = 2" by (metis length_map length_Cons list.size(3) numeral_2_eq_2)
  have "0 \<le> (1::int)" by simp
  note exact = stream_replay_exact[OF example_stream_def this, of "''r''" 5]
  from exact have "map re_id (read_events_after example_stream ''r'' 1 5 None) = take 5 (drop 1 (map re_id (events_of example_stream ''r'')))"
    by (simp add: take_map drop_map)
  with exact show ?thesis by (simp add: ids len upt_rec)
qed

end
