(* ===== verification/Locators.thy ===== *)
theory Locators
  imports Contract_Base
begin

text \<open>
  \<^verbatim>\<open>src/core/contracts/locators.py\<close>: the grammar of evidence locators. The four regular
  expressions are the predicates \<open>canonical_decimal\<close>, \<open>span_argument\<close>, \<open>segment_match\<close> and
  \<open>annotation_argument_ok\<close>; all are applied with \<open>fullmatch\<close>. Offsets are natural numbers: the
  grammar has no sign.
\<close>

subsection \<open>Data\<close>

definition canonical_schemes :: "string set" where
  "canonical_schemes = {''bytes'', ''char'', ''line''}"

definition annotation_schemes :: "string set" where
  "annotation_schemes = {''xpath'', ''css'', ''jsonptr'', ''page'', ''sheet'', ''heading''}"

definition one_based_schemes :: "string set" where
  "one_based_schemes = {''line''}"

definition max_locator_length :: nat where
  "max_locator_length = 1024"

record segment =
  sg_scheme :: string
  sg_argument :: string

record span =
  sp_scheme :: string
  sp_start :: nat
  sp_end :: nat

record locator =
  lo_canonical :: span
  lo_annotations :: "segment list"

text \<open>\<open>InvalidLocatorError\<close>, by the rule that is broken.\<close>

datatype locator_error =
  EmptyLocator | TooLong | EmptySegment | SurroundingWhitespace | NotSchemeArgument
| NotCanonicalFirst | UnknownScheme | NegativeOffset | NotStartEnd | NotCanonicalDecimal
| NotOneBased | NotIncreasing | SecondCanonical | BadAnnotation

subsection \<open>Printing\<close>

definition canonical_span :: "string \<Rightarrow> nat \<Rightarrow> nat \<Rightarrow> string" where
  "canonical_span scheme start stop = scheme @ '':'' @ nat_str start @ ''-'' @ nat_str stop"

definition print_segment :: "segment \<Rightarrow> string" where
  "print_segment s = sg_scheme s @ '':'' @ sg_argument s"

definition print_span :: "span \<Rightarrow> string" where
  "print_span s = canonical_span (sp_scheme s) (sp_start s) (sp_end s)"

definition print_locator :: "locator \<Rightarrow> string" where
  "print_locator l = py_join ''|'' (print_span (lo_canonical l) # map print_segment (lo_annotations l))"

subsection \<open>Parsing\<close>

definition canonical_decimal :: "string \<Rightarrow> bool" where
  "canonical_decimal s \<longleftrightarrow>
     s = ''0'' \<or> (s \<noteq> [] \<and> is_digit (hd s) \<and> hd s \<noteq> CHR ''0'' \<and> list_all is_digit (tl s))"

definition span_argument :: "string \<Rightarrow> (string \<times> string) option" where
  "span_argument s = (case split_on CHR ''-'' s of [a, b] \<Rightarrow> Some (a, b) | _ \<Rightarrow> None)"

definition annotation_argument_ok :: "string \<Rightarrow> bool" where
  "annotation_argument_ok s \<longleftrightarrow>
     s \<noteq> [] \<and> list_all (\<lambda>c. 33 \<le> code c \<and> code c \<le> 126 \<and> code c \<noteq> 124) s"

definition word_char :: "char \<Rightarrow> bool" where
  "word_char c \<longleftrightarrow> is_upper c \<or> is_lower c \<or> is_digit c \<or> c = CHR ''_''"

text \<open>The scheme has no colon, so it ends at the first one.\<close>

definition segment_match :: "string \<Rightarrow> (string \<times> string) option" where
  "segment_match s =
     (let scheme = takeWhile (\<lambda>c. c \<noteq> CHR '':'') s; rest = dropWhile (\<lambda>c. c \<noteq> CHR '':'') s in
      if scheme \<noteq> [] \<and> list_all word_char scheme \<and> rest \<noteq> [] \<and> tl rest \<noteq> [] \<and>
         CHR 0x0A \<notin> set (tl rest)
      then Some (scheme, tl rest) else None)"

definition parse_offset :: "string \<Rightarrow> locator_error + nat" where
  "parse_offset raw =
     (if starts_with ''-'' raw then Inl NegativeOffset
      else if \<not> canonical_decimal raw then Inl NotCanonicalDecimal
      else Inr (str_nat raw))"

definition parse_canonical :: "segment \<Rightarrow> locator_error + span" where
  "parse_canonical s =
     (if sg_scheme s \<notin> canonical_schemes
      then (if sg_scheme s \<in> annotation_schemes then Inl NotCanonicalFirst else Inl UnknownScheme)
      else
       (case span_argument (sg_argument s) of
          None \<Rightarrow> (if starts_with ''-'' (sg_argument s) then Inl NegativeOffset else Inl NotStartEnd)
        | Some (a, b) \<Rightarrow>
            bind_result (parse_offset a) (\<lambda>start.
            bind_result (parse_offset b) (\<lambda>stop.
              if sg_scheme s \<in> one_based_schemes \<and> start < 1 then Inl NotOneBased
              else if stop \<le> start then Inl NotIncreasing
              else Inr \<lparr>sp_scheme = sg_scheme s, sp_start = start, sp_end = stop\<rparr>))))"

definition split_segment :: "string \<Rightarrow> locator_error + segment" where
  "split_segment raw =
     (if raw \<noteq> py_strip raw then Inl SurroundingWhitespace
      else (case segment_match raw of
              None \<Rightarrow> Inl NotSchemeArgument
            | Some (scheme, arg) \<Rightarrow> Inr \<lparr>sg_scheme = scheme, sg_argument = arg\<rparr>))"

definition parse_annotation :: "segment \<Rightarrow> locator_error + segment" where
  "parse_annotation s =
     (if sg_scheme s \<in> canonical_schemes then Inl SecondCanonical
      else if sg_scheme s \<notin> annotation_schemes then Inl UnknownScheme
      else if \<not> annotation_argument_ok (sg_argument s) then Inl BadAnnotation
      else Inr s)"

definition parse_locator :: "string \<Rightarrow> locator_error + locator" where
  "parse_locator value =
     (if value = [] then Inl EmptyLocator
      else if length value > max_locator_length then Inl TooLong
      else
       (let raw_segments = split_on CHR ''|'' value in
        if list_ex (\<lambda>s. s = []) raw_segments then Inl EmptySegment
        else bind_result (map_result split_segment raw_segments) (\<lambda>segments.
             bind_result (parse_canonical (hd segments)) (\<lambda>canonical.
             bind_result (map_result parse_annotation (tl segments)) (\<lambda>annotations.
               Inr \<lparr>lo_canonical = canonical, lo_annotations = annotations\<rparr>)))))"

subsection \<open>Well-formed locators\<close>

definition span_ok :: "span \<Rightarrow> bool" where
  "span_ok s \<longleftrightarrow> sp_scheme s \<in> canonical_schemes \<and> sp_start s < sp_end s \<and>
     (sp_scheme s \<in> one_based_schemes \<longrightarrow> 1 \<le> sp_start s)"

definition annotation_ok :: "segment \<Rightarrow> bool" where
  "annotation_ok s \<longleftrightarrow> sg_scheme s \<in> annotation_schemes \<and> annotation_argument_ok (sg_argument s)"

definition locator_ok :: "locator \<Rightarrow> bool" where
  "locator_ok l \<longleftrightarrow> span_ok (lo_canonical l) \<and> list_all annotation_ok (lo_annotations l) \<and>
     length (print_locator l) \<le> max_locator_length"

lemma digit_char_val: "is_digit c \<Longrightarrow> digit_char (digit_val c) = c"
  by (simp add: is_digit_def digit_char_def digit_val_def code_def)

lemma digit_val_less: "is_digit c \<Longrightarrow> digit_val c < 10"
  unfolding is_digit_def digit_val_def by linarith

lemma digit_char_0: "digit_char 0 = CHR ''0''"
  by code_simp

lemma str_nat_Nil [simp]: "str_nat [] = 0"
  by (simp add: str_nat_def)

lemma str_nat_snoc: "str_nat (s @ [c]) = 10 * str_nat s + digit_val c"
  by (simp add: str_nat_def)

lemma digit_val_0: "is_digit c \<Longrightarrow> digit_val c = 0 \<longleftrightarrow> c = CHR ''0''"
  by (metis digit_char_0 digit_char_val digit_val_digit_char zero_less_numeral)

lemma str_nat_pos:
  "list_all is_digit s \<Longrightarrow> s \<noteq> [] \<Longrightarrow> hd s \<noteq> CHR ''0'' \<Longrightarrow> 0 < str_nat s"
proof (induction s rule: rev_induct)
  case (snoc c s)
  then show ?case
    using str_nat_snoc[of "[]" c] digit_val_0[of c]
    by (cases "s = []") (auto simp: str_nat_snoc)
qed simp

text \<open>Canonical decimals are exactly the renderings of natural numbers.\<close>

lemma nat_str_str_nat: "canonical_decimal s \<Longrightarrow> nat_str (str_nat s) = s"
proof -
  have "list_all is_digit s \<Longrightarrow> s \<noteq> [] \<Longrightarrow> hd s \<noteq> CHR ''0'' \<Longrightarrow> nat_str (str_nat s) = s" for s
  proof (induction s rule: rev_induct)
    case (snoc c s)
    show ?case
    proof (cases "s = []")
      case True
      with snoc show ?thesis
        by (simp add: str_nat_def nat_str.simps[of "digit_val c"] digit_val_less digit_char_val)
    next
      case False
      with snoc have pos: "0 < str_nat s" and IH: "nat_str (str_nat s) = s" and dig: "is_digit c"
        using str_nat_pos[of s] by auto
      from digit_val_less[OF dig] have "(10 * str_nat s + digit_val c) div 10 = str_nat s"
        "(10 * str_nat s + digit_val c) mod 10 = digit_val c" by simp_all
      with pos IH dig show ?thesis
        by (simp add: str_nat_snoc nat_str.simps[of "10 * str_nat s + digit_val c"] digit_char_val)
    qed
  qed simp
  moreover have "nat_str (str_nat ''0'') = ''0''" by code_simp
  ultimately show "canonical_decimal s \<Longrightarrow> nat_str (str_nat s) = s"
    by (auto simp: canonical_decimal_def list_all_iff) (metis (no_types) list.collapse list.set_sel insertE list.simps(15))
qed

lemma canonical_decimal_nat_str: "canonical_decimal (nat_str n)"
proof (cases "n = 0")
  case False
  have "hd (nat_str n) \<in> set (nat_str n)" by simp
  then have "is_digit (hd (nat_str n))" by (rule nat_str_digits)
  moreover note digit_char_0
  moreover have "list_all is_digit (tl (nat_str n))"
    using nat_str_digits[of _ n] by (auto simp: list_all_iff dest: list.set_sel(2)[rotated])
  ultimately show ?thesis using nat_str_hd[OF False] by (simp add: canonical_decimal_def)
qed (simp add: canonical_decimal_def digit_char_0)

subsection \<open>One spelling per locator\<close>

lemma dropWhile_hd: "xs = [] \<or> \<not> P (hd xs) \<Longrightarrow> dropWhile P xs = xs"
  by (cases xs) auto

lemma py_strip_id: "s \<noteq> [] \<Longrightarrow> \<not> py_space (hd s) \<Longrightarrow> \<not> py_space (last s) \<Longrightarrow> py_strip s = s"
  by (simp add: py_strip_def py_lstrip_def py_rstrip_def dropWhile_hd hd_rev)

lemma split_on_no_sep: "w \<in> set (split_on c t) \<Longrightarrow> c \<notin> set w"
  by (induction t arbitrary: w) (auto split: list.splits if_splits)

lemma segment_match_Some:
  "segment_match s = Some (scheme, arg) \<longleftrightarrow>
     s = scheme @ '':'' @ arg \<and> scheme \<noteq> [] \<and> list_all word_char scheme \<and> arg \<noteq> [] \<and> CHR 0x0A \<notin> set arg"
proof
  assume m: "segment_match s = Some (scheme, arg)"
  let ?rest = "dropWhile (\<lambda>c. c \<noteq> CHR '':'') s"
  from m have sc: "scheme = takeWhile (\<lambda>c. c \<noteq> CHR '':'') s" "arg = tl ?rest" "?rest \<noteq> []"
    by (auto simp: segment_match_def Let_def split: if_splits)
  then have "hd ?rest = CHR '':''" using hd_dropWhile[of "\<lambda>c. c \<noteq> CHR '':''" s] by simp
  with sc have "?rest = CHR '':'' # arg" by (cases ?rest) auto
  with sc have "s = scheme @ '':'' @ arg" using takeWhile_dropWhile_id[of "\<lambda>c. c \<noteq> CHR '':''" s] by simp
  with m show "s = scheme @ '':'' @ arg \<and> scheme \<noteq> [] \<and> list_all word_char scheme \<and> arg \<noteq> [] \<and> CHR 0x0A \<notin> set arg"
    by (auto simp: segment_match_def Let_def split: if_splits)
next
  assume r: "s = scheme @ '':'' @ arg \<and> scheme \<noteq> [] \<and> list_all word_char scheme \<and> arg \<noteq> [] \<and> CHR 0x0A \<notin> set arg"
  have "\<not> word_char CHR '':''" by code_simp
  with r have "CHR '':'' \<notin> set scheme" by (auto simp: list_all_iff)
  then have "takeWhile (\<lambda>c. c \<noteq> CHR '':'') s = scheme" "dropWhile (\<lambda>c. c \<noteq> CHR '':'') s = CHR '':'' # arg"
    using r by (auto simp: takeWhile_append dropWhile_append)
  with r show "segment_match s = Some (scheme, arg)" by (simp add: segment_match_def)
qed

lemma span_argument_Some:
  "span_argument s = Some (a, b) \<longleftrightarrow> s = a @ ''-'' @ b \<and> CHR ''-'' \<notin> set a \<and> CHR ''-'' \<notin> set b"
proof
  assume "span_argument s = Some (a, b)"
  then have sp: "split_on CHR ''-'' s = [a, b]" by (auto simp: span_argument_def split: list.splits)
  then have "s = a @ ''-'' @ b" using join_split_on[of "CHR ''-''" s] by simp
  moreover have "CHR ''-'' \<notin> set w" if "w \<in> {a, b}" for w
    using split_on_no_sep[of w "CHR ''-''" s] sp that by auto
  ultimately show "s = a @ ''-'' @ b \<and> CHR ''-'' \<notin> set a \<and> CHR ''-'' \<notin> set b" by auto
next
  assume "s = a @ ''-'' @ b \<and> CHR ''-'' \<notin> set a \<and> CHR ''-'' \<notin> set b"
  then show "span_argument s = Some (a, b)"
    by (simp add: span_argument_def split_on_append split_on_plain)
qed

lemma parse_offset_Inr [simp]:
  "parse_offset raw = Inr n \<longleftrightarrow> canonical_decimal raw \<and> n = str_nat raw"
proof -
  have "\<not> starts_with ''-'' raw" if "canonical_decimal raw"
    using that by (cases raw) (auto simp: canonical_decimal_def is_digit_def code_def)
  then show ?thesis by (auto simp: parse_offset_def)
qed

lemma decimal_no_dash: "canonical_decimal s \<Longrightarrow> CHR ''-'' \<notin> set s"
  by (cases s) (auto simp: canonical_decimal_def list_all_iff is_digit_def code_def)

lemma parse_canonical_Inr:
  "parse_canonical s = Inr p \<longleftrightarrow> span_ok p \<and> print_segment s = print_span p \<and> sg_scheme s = sp_scheme p"
proof
  assume "parse_canonical s = Inr p"
  then show "span_ok p \<and> print_segment s = print_span p \<and> sg_scheme s = sp_scheme p"
    by (auto simp: parse_canonical_def span_ok_def print_segment_def print_span_def canonical_span_def
        span_argument_Some nat_str_str_nat split: if_splits option.splits)
next
  assume r: "span_ok p \<and> print_segment s = print_span p \<and> sg_scheme s = sp_scheme p"
  then have "sg_argument s = nat_str (sp_start p) @ ''-'' @ nat_str (sp_end p)"
    by (cases s; cases p) (simp add: print_segment_def print_span_def canonical_span_def)
  then have "span_argument (sg_argument s) = Some (nat_str (sp_start p), nat_str (sp_end p))"
    by (simp add: span_argument_Some decimal_no_dash canonical_decimal_nat_str)
  with r show "parse_canonical s = Inr p"
    by (auto simp: parse_canonical_def span_ok_def canonical_decimal_nat_str)
qed

lemma split_segment_Inr:
  "split_segment raw = Inr s \<longleftrightarrow>
     raw = py_strip raw \<and> raw = print_segment s \<and> sg_scheme s \<noteq> [] \<and> list_all word_char (sg_scheme s) \<and>
     sg_argument s \<noteq> [] \<and> CHR 0x0A \<notin> set (sg_argument s)"
proof -
  have "(case segment_match raw of None \<Rightarrow> Inl NotSchemeArgument
         | Some (scheme, arg) \<Rightarrow> Inr \<lparr>sg_scheme = scheme, sg_argument = arg\<rparr>) = Inr s \<longleftrightarrow>
      segment_match raw = Some (sg_scheme s, sg_argument s)"
    by (cases s) (auto split: option.splits)
  then show ?thesis by (auto simp: split_segment_def segment_match_Some print_segment_def)
qed

lemma parse_annotation_Inr [simp]: "parse_annotation s = Inr t \<longleftrightarrow> s = t \<and> annotation_ok s"
  by (auto simp: parse_annotation_def annotation_ok_def canonical_schemes_def annotation_schemes_def)

lemma scheme_word: "scheme \<in> canonical_schemes \<union> annotation_schemes \<Longrightarrow>
    scheme \<noteq> [] \<and> list_all word_char scheme \<and> CHR ''|'' \<notin> set scheme \<and> \<not> py_space (hd scheme)"
  by (auto simp: canonical_schemes_def annotation_schemes_def) code_simp+

text \<open>A printed segment is read back as it was, and contains no separator.\<close>

lemma visible_not_space: "33 \<le> code c \<Longrightarrow> code c \<le> 126 \<Longrightarrow> \<not> py_space c"
  by (simp add: py_space_def Let_def)

lemma split_segment_print:
  assumes "sg_scheme s \<in> canonical_schemes \<union> annotation_schemes" "sg_argument s \<noteq> []"
    and "\<forall>c \<in> set (sg_argument s). 33 \<le> code c \<and> code c \<le> 126 \<and> code c \<noteq> 124"
  shows "split_segment (print_segment s) = Inr s" "CHR ''|'' \<notin> set (print_segment s)"
proof -
  note w = scheme_word[OF assms(1)]
  have "last (sg_argument s) \<in> set (sg_argument s)" using assms(2) by simp
  then have "\<not> py_space (last (print_segment s))"
    using assms visible_not_space by (simp add: print_segment_def)
  then have "py_strip (print_segment s) = print_segment s"
    using w by (intro py_strip_id) (auto simp: print_segment_def)
  moreover have "CHR 0x0A \<notin> set (sg_argument s)" using assms(3) by (auto simp: code_def)
  ultimately show "split_segment (print_segment s) = Inr s"
    using w assms(2) by (simp add: split_segment_Inr)
  have "CHR ''|'' \<notin> set (sg_argument s)" using assms(3) by (auto simp: code_def)
  then show "CHR ''|'' \<notin> set (print_segment s)" using w by (simp add: print_segment_def)
qed

definition span_segment :: "span \<Rightarrow> segment" where
  "span_segment p = \<lparr>sg_scheme = sp_scheme p, sg_argument = nat_str (sp_start p) @ ''-'' @ nat_str (sp_end p)\<rparr>"

lemma print_span_segment: "print_segment (span_segment p) = print_span p"
  by (simp add: span_segment_def print_segment_def print_span_def canonical_span_def)

lemma split_segment_span:
  assumes "span_ok p"
  shows "split_segment (print_span p) = Inr (span_segment p)" "CHR ''|'' \<notin> set (print_span p)"
proof -
  have "\<forall>c \<in> set (nat_str n). 33 \<le> code c \<and> code c \<le> 126 \<and> code c \<noteq> 124" for n
    using nat_str_digits[of _ n] by (fastforce simp: is_digit_def)
  then have "\<forall>c \<in> set (sg_argument (span_segment p)). 33 \<le> code c \<and> code c \<le> 126 \<and> code c \<noteq> 124"
    by (auto simp: span_segment_def code_def)
  from split_segment_print[of "span_segment p", OF _ _ this] assms
  show "split_segment (print_span p) = Inr (span_segment p)" "CHR ''|'' \<notin> set (print_span p)"
    by (simp_all add: print_span_segment) (simp_all add: span_segment_def span_ok_def)
qed

lemma split_segment_annotation:
  assumes "annotation_ok s"
  shows "split_segment (print_segment s) = Inr s" "CHR ''|'' \<notin> set (print_segment s)"
  using assms split_segment_print[of s]
  by (auto simp: annotation_ok_def annotation_argument_ok_def list_all_iff)

lemma map_result_cong_Inr: "(\<And>x. x \<in> set xs \<Longrightarrow> f (h x) = Inr (g x)) \<Longrightarrow> map_result f (map h xs) = Inr (map g xs)"
  by (induction xs) auto

lemma map_result_same: "map_result parse_annotation xs = Inr ys \<longleftrightarrow> xs = ys \<and> list_all annotation_ok xs"
  by (auto simp: map_result_Inr list_all2_conv_all_nth list_all_length intro: nth_equalityI)

lemma map_result_split:
  "map_result split_segment raws = Inr segs \<Longrightarrow> raws = map print_segment segs"
  by (simp add: map_result_Inr list_all2_conv_all_nth split_segment_Inr) (auto intro: nth_equalityI)

lemma parse_locator_Inr:
  "parse_locator v = Inr l \<longleftrightarrow> locator_ok l \<and> v = print_locator l"
proof
  assume "parse_locator v = Inr l"
  then obtain segs p where segs: "map_result split_segment (split_on CHR ''|'' v) = Inr segs"
    and p: "parse_canonical (hd segs) = Inr p" and len: "length v \<le> max_locator_length"
    and l: "l = \<lparr>lo_canonical = p, lo_annotations = tl segs\<rparr>" and ann: "list_all annotation_ok (tl segs)"
    by (auto simp: parse_locator_def Let_def map_result_same split: if_splits)
  have raws: "split_on CHR ''|'' v = map print_segment segs" using segs by (rule map_result_split)
  then have "segs \<noteq> []" by (metis split_on_not_Nil list.map_disc_iff)
  then have "map print_segment segs = print_span p # map print_segment (tl segs)"
    using p by (cases segs) (auto simp: parse_canonical_Inr)
  then have v: "v = print_locator l"
    using join_split_on[of "CHR ''|''" v] raws by (simp add: l print_locator_def)
  with len p ann l show "locator_ok l \<and> v = print_locator l"
    by (simp add: locator_ok_def parse_canonical_Inr)
next
  assume r: "locator_ok l \<and> v = print_locator l"
  let ?segs = "span_segment (lo_canonical l) # lo_annotations l"
  have ok: "span_ok (lo_canonical l)" "\<forall>s \<in> set (lo_annotations l). annotation_ok s"
    "length v \<le> max_locator_length" using r by (auto simp: locator_ok_def list_all_iff)
  have seg: "split_segment (print_segment s) = Inr s \<and> CHR ''|'' \<notin> set (print_segment s) \<and> print_segment s \<noteq> []"
    if "s \<in> set ?segs" for s
  proof (cases "s = span_segment (lo_canonical l)")
    case True
    with split_segment_span[OF ok(1)] print_span_segment[of "lo_canonical l"] show ?thesis
      by (simp add: print_span_def canonical_span_def)
  next
    case False
    with that ok(2) have "annotation_ok s" by auto
    from split_segment_annotation[OF this] show ?thesis by (simp add: print_segment_def)
  qed
  have v: "v = py_join ''|'' (map print_segment ?segs)"
    using r by (simp add: print_locator_def print_span_segment)
  have raws: "split_on CHR ''|'' v = map print_segment ?segs"
    unfolding v by (rule split_on_join) (use seg in auto)
  have ne: "\<not> list_ex (\<lambda>s. s = []) (map print_segment ?segs)" by (auto simp: list_ex_iff print_segment_def)
  have "v \<noteq> []"
  proof
    assume "v = []"
    with raws have "print_segment (span_segment (lo_canonical l)) = []" by simp
    with seg[of "span_segment (lo_canonical l)"] show False by simp
  qed
  have mapped: "map_result split_segment (map print_segment ?segs) = Inr (map id ?segs)"
    by (rule map_result_cong_Inr) (use seg in auto)
  have canon: "parse_canonical (span_segment (lo_canonical l)) = Inr (lo_canonical l)"
    using ok(1) by (simp add: parse_canonical_Inr print_span_segment) (simp add: span_segment_def)
  have ann: "map_result parse_annotation (lo_annotations l) = Inr (lo_annotations l)"
    using ok(2) by (simp add: map_result_same list_all_iff)
  show "parse_locator v = Inr l"
    unfolding parse_locator_def raws Let_def using \<open>v \<noteq> []\<close> ok(3) ne mapped canon ann
    by (simp del: map_result.simps list.map)
qed

text \<open>
  C24: One span has exactly one spelling. The parser accepts a string exactly when it is the
  printed form of a well-formed locator (a canonical span that is strictly increasing and 1-based
  for lines, annotations of the known schemes with visible arguments, at most 1024 characters),
  and then returns that locator; so printing and parsing are inverse to each other.
\<close>

theorem locator_grammar_exact:
  "parse_locator v = Inr l \<longleftrightarrow> locator_ok l \<and> v = print_locator l"
  by (rule parse_locator_Inr)

end
