(* ===== verification/Provenance.thy ===== *)
theory Provenance
  imports Locators Trust
begin

text \<open>
  \<^verbatim>\<open>src/core/contracts/provenance.py\<close>: prompt bindings, tool invocations, artifacts, evidence and claim
  support, each with the error its constructor raises. \<open>H\<close> is SHA-256 of the UTF-8 encoding.
\<close>

subsection \<open>Statuses and prompt identity\<close>

datatype invocation_status =
  InvRequested | InvRunning | InvSucceeded | InvFailed | InvCancelled | InvTimedOut | InvDenied

datatype artifact_status = ArtDraft | ArtFinal | ArtInvalidated
datatype producer_kind = ModelTurn | SystemProducer
datatype support_status = Supported | PartiallySupported | Disputed | Unsupported

definition evidence_bearing_statuses :: "support_status set" where
  "evidence_bearing_statuses = {Supported, PartiallySupported, Disputed}"

datatype absent_reason =
  NotAttempted | NoSourceFound | RetrievalFailed | SourceInaccessible | CapabilityDenied

record prompt_binding =
  pb_id :: string
  pb_version :: string
  pb_template :: digest
  pb_rendered :: digest

definition prompt_binding_violation :: "prompt_binding \<Rightarrow> contract_error option" where
  "prompt_binding_violation b = checks
     [(\<not> contract_id_ok (pb_id b), FieldError ''prompt_id''),
      (\<not> version_ok (pb_version b), FieldError ''prompt_version''),
      (\<not> content_sha256_ok (pb_template b), FieldError ''template_sha256''),
      (\<not> content_sha256_ok (pb_rendered b), FieldError ''rendered_sha256'')]"

definition for_rendered :: "(string \<Rightarrow> digest) \<Rightarrow> string \<Rightarrow> string \<Rightarrow> string \<Rightarrow> string \<Rightarrow>
    contract_error + prompt_binding" where
  "for_rendered H pid version template rendered =
     (let b = \<lparr>pb_id = pid, pb_version = version, pb_template = H template, pb_rendered = H rendered\<rparr>
      in raise_or (prompt_binding_violation b) b)"

definition matches_template :: "(string \<Rightarrow> digest) \<Rightarrow> prompt_binding \<Rightarrow> string \<Rightarrow> bool" where
  "matches_template H b template = (pb_template b = H template)"

definition matches_rendered :: "(string \<Rightarrow> digest) \<Rightarrow> prompt_binding \<Rightarrow> string \<Rightarrow> bool" where
  "matches_rendered H b rendered = (pb_rendered b = H rendered)"

definition producer_binding_violation :: "producer_kind \<Rightarrow> prompt_binding option \<Rightarrow> contract_error option" where
  "producer_binding_violation kind binding = checks
     [(kind = ModelTurn \<and> binding = None,
         RuleError ''a model_turn record must name the prompt that produced it''),
      (kind = SystemProducer \<and> binding \<noteq> None,
         RuleError ''only a model_turn record may carry a prompt_binding'')]"

lemma producer_binding_None [simp]:
  "producer_binding_violation kind binding = None \<longleftrightarrow> (kind = ModelTurn \<longleftrightarrow> binding \<noteq> None)"
  by (cases kind) (auto simp: producer_binding_violation_def)

definition optional_ok :: "('a \<Rightarrow> bool) \<Rightarrow> 'a option \<Rightarrow> bool" where
  "optional_ok P m = (case m of None \<Rightarrow> True | Some x \<Rightarrow> P x)"

subsection \<open>Tool invocations\<close>

record invocation =
  ti_id :: string
  ti_run_id :: string
  ti_task_id :: string
  ti_attempt_id :: string
  ti_tool_name :: string
  ti_tool_version :: string
  ti_status :: invocation_status
  ti_scope :: string
  ti_idempotency_key :: string
  ti_input :: pyval
  ti_input_trust :: trust
  ti_output :: "pyval option"
  ti_output_trust :: "trust option"
  ti_producer_kind :: producer_kind
  ti_prompt_binding :: "prompt_binding option"
  ti_error_code :: "string option"
  ti_status_reason :: "string option"
  ti_requested_at :: instant
  ti_completed_at :: "instant option"
  ti_lease_owner :: "string option"
  ti_lease_expires :: "instant option"

definition invocation_field_violation :: "invocation \<Rightarrow> contract_error option" where
  "invocation_field_violation t = checks
     [(\<not> contract_id_ok (ti_id t), FieldError ''tool_invocation_id''),
      (\<not> contract_id_ok (ti_run_id t), FieldError ''run_id''),
      (\<not> contract_id_ok (ti_task_id t), FieldError ''task_id''),
      (\<not> contract_id_ok (ti_attempt_id t), FieldError ''attempt_id''),
      (\<not> contract_id_ok (ti_tool_name t), FieldError ''tool_name''),
      (\<not> version_ok (ti_tool_version t), FieldError ''tool_version''),
      (\<not> contract_id_ok (ti_scope t), FieldError ''capability_scope''),
      (\<not> idempotency_key_ok (ti_idempotency_key t), FieldError ''idempotency_key''),
      (validate_json_object (ti_input t) = None, FieldError ''input''),
      (some_and (\<lambda>v. validate_json_object v = None) (ti_output t), FieldError ''output''),
      (\<not> optional_id_ok (ti_error_code t), FieldError ''error_code''),
      (\<not> optional_text_ok (ti_status_reason t), FieldError ''status_reason''),
      (\<not> optional_id_ok (ti_lease_owner t), FieldError ''lease_owner_id'')]"

definition terminal_invocation_statuses :: "invocation_status set" where
  "terminal_invocation_statuses = {InvSucceeded, InvFailed, InvCancelled, InvTimedOut, InvDenied}"

definition output_trust_violation :: "invocation \<Rightarrow> contract_error option" where
  "output_trust_violation t =
     (case ti_output_trust t of
        None \<Rightarrow> None
      | Some out \<Rightarrow> checks
          [(is_trusted_tier out \<and> \<not> is_trusted_tier (ti_input_trust t),
              RuleError ''untrusted input cannot produce trusted-tier output'')])"

definition invocation_status_violation :: "invocation \<Rightarrow> contract_error option" where
  "invocation_status_violation t =
     (let terminal = ti_status t \<in> terminal_invocation_statuses;
          pending = ti_status t \<in> {InvRequested, InvRunning}
      in and_then (checks
        [(terminal \<noteq> (ti_completed_at t \<noteq> None),
            RuleError ''Only terminal tool invocations require completed_at''),
         (some_and (\<lambda>c. c < ti_requested_at t) (ti_completed_at t),
            RuleError ''completed_at cannot precede requested_at''),
         (pending \<and> (ti_lease_owner t \<noteq> None) \<noteq> (ti_lease_expires t \<noteq> None),
            RuleError ''pending tool invocations must provide both or neither lease field''),
         (ti_status t = InvSucceeded \<and> (ti_output t = None \<or> ti_output_trust t = None),
            RuleError ''Successful tool invocations require output provenance''),
         (ti_status t \<in> {InvFailed, InvTimedOut, InvDenied} \<and> ti_error_code t = None,
            RuleError ''Failed tool invocations require error_code'')])
       (and_then (producer_binding_violation (ti_producer_kind t) (ti_prompt_binding t))
         (output_trust_violation t)))"

definition invocation_violation :: "invocation \<Rightarrow> contract_error option" where
  "invocation_violation t = and_then (invocation_field_violation t) (invocation_status_violation t)"

subsection \<open>Artifacts and evidence\<close>

record artifact =
  ar_id :: string
  ar_run_id :: string
  ar_task_id :: "string option"
  ar_attempt_id :: "string option"
  ar_kind :: string
  ar_media_type :: string
  ar_storage_uri :: string
  ar_content_sha256 :: digest
  ar_status :: artifact_status
  ar_trust :: trust
  ar_producer :: string
  ar_producer_kind :: producer_kind
  ar_prompt_binding :: "prompt_binding option"
  ar_created_at :: instant
  ar_metadata :: pyval

definition artifact_violation :: "artifact \<Rightarrow> contract_error option" where
  "artifact_violation a = and_then (checks
     [(\<not> contract_id_ok (ar_id a), FieldError ''artifact_id''),
      (\<not> contract_id_ok (ar_run_id a), FieldError ''run_id''),
      (\<not> optional_id_ok (ar_task_id a), FieldError ''task_id''),
      (\<not> optional_id_ok (ar_attempt_id a), FieldError ''attempt_id''),
      (\<not> contract_id_ok (ar_kind a), FieldError ''kind''),
      (\<not> contract_id_ok (ar_media_type a), FieldError ''media_type''),
      (ar_storage_uri a = [], FieldError ''storage_uri''),
      (\<not> content_sha256_ok (ar_content_sha256 a), FieldError ''content_sha256''),
      (\<not> contract_id_ok (ar_producer a), FieldError ''producer''),
      (validate_json_object (ar_metadata a) = None, FieldError ''metadata'')])
     (producer_binding_violation (ar_producer_kind a) (ar_prompt_binding a))"

record evidence =
  ev_id :: string
  ev_run_id :: string
  ev_task_id :: string
  ev_source_type :: string
  ev_source_uri :: string
  ev_snapshot_artifact_id :: string
  ev_content_sha256 :: digest
  ev_locator :: string
  ev_trust :: trust
  ev_producer_kind :: producer_kind
  ev_prompt_binding :: "prompt_binding option"
  ev_producer_invocation_id :: "string option"
  ev_parent_ids :: "string list"
  ev_acquired_at :: instant

definition evidence_violation :: "evidence \<Rightarrow> contract_error option" where
  "evidence_violation e = and_then (checks
     [(\<not> contract_id_ok (ev_id e), FieldError ''evidence_id''),
      (\<not> contract_id_ok (ev_run_id e), FieldError ''run_id''),
      (\<not> contract_id_ok (ev_task_id e), FieldError ''task_id''),
      (\<not> contract_id_ok (ev_source_type e), FieldError ''source_type''),
      (ev_source_uri e = [], FieldError ''source_uri''),
      (\<not> contract_id_ok (ev_snapshot_artifact_id e), FieldError ''snapshot_artifact_id''),
      (\<not> content_sha256_ok (ev_content_sha256 e), FieldError ''content_sha256''),
      (ev_locator e = [], FieldError ''locator''),
      (\<not> optional_id_ok (ev_producer_invocation_id e), FieldError ''producer_tool_invocation_id''),
      (\<not> list_all contract_id_ok (ev_parent_ids e), FieldError ''parent_evidence_ids''),
      (ev_id e \<in> set (ev_parent_ids e), RuleError ''Evidence cannot derive from itself''),
      (\<not> require_unique (ev_parent_ids e), RuleError ''parent_evidence_ids entries must be unique''),
      ((case parse_locator (ev_locator e) of Inl x \<Rightarrow> True | Inr l \<Rightarrow> False), RuleError ''InvalidLocatorError'')])
     (producer_binding_violation (ev_producer_kind e) (ev_prompt_binding e))"

subsection \<open>Claim support\<close>

record claim_support =
  cs_id :: string
  cs_run_id :: string
  cs_artifact_id :: string
  cs_claim_id :: string
  cs_claim_text :: string
  cs_status :: support_status
  cs_evidence_ids :: "string list"
  cs_absent_reason :: "absent_reason option"
  cs_evaluator_id :: string
  cs_evaluator_version :: string
  cs_producer_kind :: producer_kind
  cs_prompt_binding :: "prompt_binding option"
  cs_explanation :: string
  cs_evaluated_at :: instant

definition evidence_links_violation :: "claim_support \<Rightarrow> contract_error option" where
  "evidence_links_violation c =
     and_then (checks [(\<not> require_unique (cs_evidence_ids c), RuleError ''evidence_ids entries must be unique'')])
     (and_then (producer_binding_violation (cs_producer_kind c) (cs_prompt_binding c))
     (checks
       [(cs_status c \<in> evidence_bearing_statuses \<and> cs_evidence_ids c = [], RuleError ''claims require evidence''),
        (cs_evidence_ids c \<noteq> [] \<and> cs_absent_reason c \<noteq> None,
           RuleError ''absent_evidence_reason is set only when no evidence is cited''),
        (cs_status c = Unsupported \<and> cs_evidence_ids c = [] \<and> cs_absent_reason c = None,
           RuleError ''an unsupported claim with no evidence requires an explicit absent_evidence_reason''),
        (cs_status c \<noteq> Unsupported \<and> cs_absent_reason c \<noteq> None,
           RuleError ''absent_evidence_reason is set only when no evidence is cited'')]))"

definition claim_support_violation :: "claim_support \<Rightarrow> contract_error option" where
  "claim_support_violation c = and_then (checks
     [(\<not> contract_id_ok (cs_id c), FieldError ''claim_support_id''),
      (\<not> contract_id_ok (cs_run_id c), FieldError ''run_id''),
      (\<not> contract_id_ok (cs_artifact_id c), FieldError ''artifact_id''),
      (\<not> contract_id_ok (cs_claim_id c), FieldError ''claim_id''),
      (cs_claim_text c = [], FieldError ''claim_text''),
      (\<not> list_all contract_id_ok (cs_evidence_ids c), FieldError ''evidence_ids''),
      (\<not> contract_id_ok (cs_evaluator_id c), FieldError ''evaluator_id''),
      (\<not> version_ok (cs_evaluator_version c), FieldError ''evaluator_version''),
      (cs_explanation c = [], FieldError ''explanation'')])
     (evidence_links_violation c)"

subsection \<open>What the records guarantee\<close>

lemma invocation_status_None:
  "invocation_status_violation t = None \<longleftrightarrow>
     (ti_status t \<in> terminal_invocation_statuses \<longleftrightarrow> ti_completed_at t \<noteq> None) \<and>
     \<not> some_and (\<lambda>c. c < ti_requested_at t) (ti_completed_at t) \<and>
     (ti_status t \<in> {InvRequested, InvRunning} \<longrightarrow> (ti_lease_owner t \<noteq> None \<longleftrightarrow> ti_lease_expires t \<noteq> None)) \<and>
     (ti_status t = InvSucceeded \<longrightarrow> ti_output t \<noteq> None \<and> ti_output_trust t \<noteq> None) \<and>
     (ti_status t \<in> {InvFailed, InvTimedOut, InvDenied} \<longrightarrow> ti_error_code t \<noteq> None) \<and>
     (ti_producer_kind t = ModelTurn \<longleftrightarrow> ti_prompt_binding t \<noteq> None) \<and>
     \<not> (some_and is_trusted_tier (ti_output_trust t) \<and> \<not> is_trusted_tier (ti_input_trust t))"
proof -
  have "output_trust_violation t = None \<longleftrightarrow>
      \<not> (some_and is_trusted_tier (ti_output_trust t) \<and> \<not> is_trusted_tier (ti_input_trust t))"
    by (cases "ti_output_trust t") (simp_all add: output_trust_violation_def)
  then show ?thesis
    by (cases "ti_status t")
      (simp_all add: invocation_status_violation_def terminal_invocation_statuses_def Let_def)
qed

lemma invocation_record_coherent_facts:
  assumes "invocation_violation t = None"
  shows "ti_status t \<in> {InvRequested, InvRunning} \<longleftrightarrow> ti_completed_at t = None"
    and "ti_completed_at t = Some c \<Longrightarrow> ti_requested_at t \<le> c"
    and "ti_status t = InvSucceeded \<Longrightarrow> ti_output t \<noteq> None \<and> ti_output_trust t \<noteq> None"
    and "ti_status t \<in> {InvFailed, InvTimedOut, InvDenied} \<Longrightarrow> ti_error_code t \<noteq> None"
    and "ti_output_trust t = Some out \<Longrightarrow> is_trusted_tier out \<Longrightarrow> is_trusted_tier (ti_input_trust t)"
    and "ti_producer_kind t = ModelTurn \<longleftrightarrow> ti_prompt_binding t \<noteq> None"
proof -
  have ok: "invocation_status_violation t = None" using assms by (simp add: invocation_violation_def)
  note iff = ok[unfolded invocation_status_None]
  show "ti_completed_at t = Some c \<Longrightarrow> ti_requested_at t \<le> c" using iff by auto
  show "ti_status t = InvSucceeded \<Longrightarrow> ti_output t \<noteq> None \<and> ti_output_trust t \<noteq> None" using iff by blast
  show "ti_status t \<in> {InvFailed, InvTimedOut, InvDenied} \<Longrightarrow> ti_error_code t \<noteq> None" using iff by blast
  show "ti_output_trust t = Some out \<Longrightarrow> is_trusted_tier out \<Longrightarrow> is_trusted_tier (ti_input_trust t)"
    using iff by simp
  show "ti_producer_kind t = ModelTurn \<longleftrightarrow> ti_prompt_binding t \<noteq> None" using iff by blast
  show "ti_status t \<in> {InvRequested, InvRunning} \<longleftrightarrow> ti_completed_at t = None"
    using iff by (cases "ti_status t") (simp_all add: terminal_invocation_statuses_def)
qed

text \<open>
  A stored tool invocation tells one coherent story: it is complete exactly when its status is
  terminal, no earlier than it was requested; success carries output with its trust, failure a
  code; untrusted input never yields trusted-tier output; and it names a prompt exactly when a
  model turn produced it.
\<close>

theorem invocation_record_coherent:
  assumes "invocation_violation t = None"
  shows "(ti_status t \<in> {InvRequested, InvRunning} \<longleftrightarrow> ti_completed_at t = None) \<and>
    (ti_completed_at t = Some c \<longrightarrow> ti_requested_at t \<le> c) \<and>
    (ti_status t = InvSucceeded \<longrightarrow> ti_output t \<noteq> None \<and> ti_output_trust t \<noteq> None) \<and>
    (ti_status t \<in> {InvFailed, InvTimedOut, InvDenied} \<longrightarrow> ti_error_code t \<noteq> None) \<and>
    (ti_output_trust t = Some out \<longrightarrow> is_trusted_tier out \<longrightarrow> is_trusted_tier (ti_input_trust t)) \<and>
    (ti_producer_kind t = ModelTurn \<longleftrightarrow> ti_prompt_binding t \<noteq> None)"
  using invocation_record_coherent_facts[OF assms] by blast

definition example_invocation :: invocation where
  "example_invocation = \<lparr>ti_id = ''i'', ti_run_id = ''r'', ti_task_id = ''t'', ti_attempt_id = ''a'',
     ti_tool_name = ''search'', ti_tool_version = ''1'', ti_status = InvSucceeded, ti_scope = ''s'',
     ti_idempotency_key = ''k'', ti_input = VDict [], ti_input_trust = UserSupplied,
     ti_output = Some (VDict []), ti_output_trust = Some ExternalUntrusted,
     ti_producer_kind = SystemProducer, ti_prompt_binding = None, ti_error_code = None,
     ti_status_reason = None, ti_requested_at = 1, ti_completed_at = Some 2, ti_lease_owner = None,
     ti_lease_expires = None\<rparr>"

lemma example_invocation_ok: "invocation_violation example_invocation = None"
  by (simp add: invocation_violation_def invocation_status_None invocation_field_violation_def example_invocation_def
      contract_id_ok_def version_ok_def idempotency_key_ok_def validate_json_object_def freeze_json_object_def
      terminal_invocation_statuses_def is_trusted_tier_def trusted_tier_def)

theorem invocation_record_coherent_witness:
  "ti_completed_at example_invocation \<noteq> None \<and> ti_output_trust example_invocation \<noteq> None"
  using invocation_record_coherent[OF example_invocation_ok]
  by (simp add: example_invocation_def)

lemma evidence_links_None:
  "evidence_links_violation c = None \<longleftrightarrow>
     distinct (cs_evidence_ids c) \<and> (cs_producer_kind c = ModelTurn \<longleftrightarrow> cs_prompt_binding c \<noteq> None) \<and>
     (cs_evidence_ids c = [] \<longleftrightarrow> cs_absent_reason c \<noteq> None) \<and>
     (cs_status c \<noteq> Unsupported \<longrightarrow> cs_evidence_ids c \<noteq> [])"
  by (cases "cs_status c"; cases "cs_evidence_ids c"; cases "cs_absent_reason c")
    (simp_all add: evidence_links_violation_def evidence_bearing_statuses_def)

text \<open>
  Every claim verdict points at evidence or says why there is none. The contract of a
  claim-support record accepts exactly the records with well-formed identifiers and texts whose
  evidence identifiers are distinct, with a typed reason for their absence exactly when there are
  none, with evidence for every verdict but \<open>unsupported\<close>, and with a prompt named exactly for a
  model-produced verdict.
\<close>

theorem claim_support_evidence_or_reason:
  "claim_support_violation c = None \<longleftrightarrow>
     list_all contract_id_ok
       ([cs_id c, cs_run_id c, cs_artifact_id c, cs_claim_id c, cs_evaluator_id c] @ cs_evidence_ids c) \<and>
     version_ok (cs_evaluator_version c) \<and> cs_claim_text c \<noteq> [] \<and> cs_explanation c \<noteq> [] \<and>
     distinct (cs_evidence_ids c) \<and> (cs_evidence_ids c = []) = (cs_absent_reason c \<noteq> None) \<and>
     (cs_status c = Unsupported \<or> 0 < length (cs_evidence_ids c)) \<and>
     (cs_producer_kind c = ModelTurn) = (cs_prompt_binding c \<noteq> None)"
  using evidence_links_None[of c] by (auto simp: claim_support_violation_def)

end
