(* ===== verification/Outcome.thy ===== *)
theory Outcome
  imports Provenance Capabilities
begin

text \<open>
  \<^verbatim>\<open>src/core/tools/outcome.py\<close>, with \<open>_outcome_status_of\<close> of \<^verbatim>\<open>src/core/tools/boundary.py\<close>: the outcome
  states of a mediated call, how they are written to the durable record, the retry table and the
  checks of the \<open>ToolOutcome\<close> constructor. The mint token is not modelled: the functions of theory
  \<open>Boundary\<close> are the only ones that build an outcome.
\<close>

datatype outcome_status =
  Succeeded | InProgress | Denied | InvalidInput | InvalidOutput | TimedOut | Cancelled | CircuitOpen | Failed

datatype retry = Retriable | Terminal

fun outcome_value :: "outcome_status \<Rightarrow> string" where
  "outcome_value Succeeded = ''succeeded''"
| "outcome_value InProgress = ''in_progress''"
| "outcome_value Denied = ''denied''"
| "outcome_value InvalidInput = ''invalid_input''"
| "outcome_value InvalidOutput = ''invalid_output''"
| "outcome_value TimedOut = ''timed_out''"
| "outcome_value Cancelled = ''cancelled''"
| "outcome_value CircuitOpen = ''circuit_open''"
| "outcome_value Failed = ''failed''"

fun invocation_status_for :: "outcome_status \<Rightarrow> invocation_status" where
  "invocation_status_for Succeeded = InvSucceeded"
| "invocation_status_for InProgress = InvRequested"
| "invocation_status_for Denied = InvDenied"
| "invocation_status_for InvalidInput = InvFailed"
| "invocation_status_for InvalidOutput = InvFailed"
| "invocation_status_for TimedOut = InvTimedOut"
| "invocation_status_for Cancelled = InvCancelled"
| "invocation_status_for CircuitOpen = InvFailed"
| "invocation_status_for Failed = InvFailed"

text \<open>\<open>ERROR_CODES\<close>: the two states that are no failure have none.\<close>

fun error_codes :: "outcome_status \<Rightarrow> string option" where
  "error_codes Denied = Some ''capability_denied''"
| "error_codes InvalidInput = Some ''invalid_input''"
| "error_codes InvalidOutput = Some ''invalid_output''"
| "error_codes TimedOut = Some ''timed_out''"
| "error_codes Cancelled = Some ''cancelled''"
| "error_codes CircuitOpen = Some ''circuit_open''"
| "error_codes Failed = Some ''tool_error''"
| "error_codes Succeeded = None"
| "error_codes InProgress = None"

fun retry_dispositions :: "outcome_status \<Rightarrow> retry" where
  "retry_dispositions Succeeded = Terminal"
| "retry_dispositions InProgress = Retriable"
| "retry_dispositions Denied = Terminal"
| "retry_dispositions InvalidInput = Terminal"
| "retry_dispositions InvalidOutput = Terminal"
| "retry_dispositions TimedOut = Retriable"
| "retry_dispositions Cancelled = Terminal"
| "retry_dispositions CircuitOpen = Retriable"
| "retry_dispositions Failed = Terminal"

definition failed_status_by_error_code :: "string \<Rightarrow> outcome_status option" where
  "failed_status_by_error_code =
     map_of [(''invalid_input'', InvalidInput), (''invalid_output'', InvalidOutput),
             (''circuit_open'', CircuitOpen), (''tool_error'', Failed)]"

definition outcome_status_of :: "invocation \<Rightarrow> outcome_status" where
  "outcome_status_of t =
     (case ti_status t of
        InvSucceeded \<Rightarrow> Succeeded
      | InvDenied \<Rightarrow> Denied
      | InvTimedOut \<Rightarrow> TimedOut
      | InvCancelled \<Rightarrow> Cancelled
      | _ \<Rightarrow> (case failed_status_by_error_code (case ti_error_code t of None \<Rightarrow> [] | Some c \<Rightarrow> c) of
                Some s \<Rightarrow> s | None \<Rightarrow> Failed))"

record outcome =
  oc_status :: outcome_status
  oc_invocation :: invocation
  oc_retry :: retry
  oc_decision :: "cap_decision option"
  oc_detail :: "string option"

datatype outcome_error =
  WrongRecordStatus | MissingOutput | UnexpectedErrorCode | UnexpectedOutput | MissingErrorCode

definition outcome_violation :: "outcome_status \<Rightarrow> invocation \<Rightarrow> outcome_error option" where
  "outcome_violation s t =
     and_then (checks
       [(if s = InProgress then ti_status t \<notin> {InvRequested, InvRunning}
         else ti_status t \<noteq> invocation_status_for s, WrongRecordStatus)])
     (if s = Succeeded then checks
        [(ti_output t = None, MissingOutput), (ti_error_code t \<noteq> None, UnexpectedErrorCode)]
      else if s = InProgress then checks
        [(ti_output t \<noteq> None, UnexpectedOutput), (ti_error_code t \<noteq> None, UnexpectedErrorCode)]
      else checks
        [(ti_output t \<noteq> None, UnexpectedOutput), (ti_error_code t = None, MissingErrorCode)])"

definition new_outcome :: "outcome_status \<Rightarrow> invocation \<Rightarrow> retry \<Rightarrow> cap_decision option \<Rightarrow> string option \<Rightarrow>
    outcome_error + outcome" where
  "new_outcome s t r d detail =
     raise_or (outcome_violation s t)
       \<lparr>oc_status = s, oc_invocation = t, oc_retry = r, oc_decision = d, oc_detail = detail\<rparr>"

definition outcome_succeeded :: "outcome \<Rightarrow> bool" where
  "outcome_succeeded oc = (oc_status oc = Succeeded)"

text \<open>\<open>unwrap\<close>: \<open>None\<close> is \<open>ToolOutcomeNotSuccessfulError\<close>.\<close>

definition unwrap :: "outcome \<Rightarrow> pyval option option" where
  "unwrap oc = (if oc_status oc \<noteq> Succeeded then None else Some (ti_output (oc_invocation oc)))"

lemma outcome_round_trip_facts:
  assumes "new_outcome s t r d detail = Inr oc" and "ti_error_code t = error_codes s"
  shows "s \<noteq> InProgress \<Longrightarrow> outcome_status_of t = s"
    and "(s = Succeeded) = (ti_output t \<noteq> None)"
    and "unwrap oc = (if s = Succeeded then Some (ti_output t) else None)"
    and "retry_dispositions s = Retriable \<longleftrightarrow> s \<in> {TimedOut, CircuitOpen, InProgress}"
proof -
  have ok: "outcome_violation s t = None" and oc: "oc_status oc = s" "oc_invocation oc = t"
    using assms(1) by (auto simp: new_outcome_def)
  show "s \<noteq> InProgress \<Longrightarrow> outcome_status_of t = s"
    using ok assms(2) by (cases s) (simp_all add: outcome_violation_def outcome_status_of_def failed_status_by_error_code_def)
  show "(s = Succeeded) = (ti_output t \<noteq> None)"
    using ok by (cases s) (simp_all add: outcome_violation_def)
  show "unwrap oc = (if s = Succeeded then Some (ti_output t) else None)"
    by (simp add: unwrap_def oc)
  show "retry_dispositions s = Retriable \<longleftrightarrow> s \<in> {TimedOut, CircuitOpen, InProgress}"
    by (cases s) simp_all
qed

text \<open>
  The durable record loses no outcome. For every terminal outcome the record its construction
  accepts determines the outcome state again (status and error code together, although four
  states share the status \<open>failed\<close>); a success has a body and every other outcome has none and
  names its error; and only timeouts, open circuits and work in progress may be retried.
\<close>

theorem outcome_round_trip:
  assumes "new_outcome s t r d detail = Inr oc" and "ti_error_code t = error_codes s"
  shows "(s \<noteq> InProgress \<longrightarrow> outcome_status_of t = s) \<and>
    (s = Succeeded) = (ti_output t \<noteq> None) \<and>
    unwrap oc = (if s = Succeeded then Some (ti_output t) else None) \<and>
    (retry_dispositions s = Retriable \<longleftrightarrow> s \<in> {TimedOut, CircuitOpen, InProgress})"
  using outcome_round_trip_facts[OF assms] by blast

definition example_circuit_open :: invocation where
  "example_circuit_open = example_invocation\<lparr>ti_status := InvFailed, ti_output := None,
     ti_output_trust := None, ti_error_code := Some ''circuit_open''\<rparr>"

theorem outcome_round_trip_witness: "outcome_status_of example_circuit_open = CircuitOpen"
proof -
  have "outcome_violation CircuitOpen example_circuit_open = None"
    by (simp add: outcome_violation_def example_circuit_open_def)
  then have "new_outcome CircuitOpen example_circuit_open Retriable None None =
      Inr \<lparr>oc_status = CircuitOpen, oc_invocation = example_circuit_open, oc_retry = Retriable, oc_decision = None,
           oc_detail = None\<rparr>" by (simp add: new_outcome_def raise_or_def)
  from outcome_round_trip[OF this] show ?thesis by (simp add: example_circuit_open_def)
qed

end
