(* ===== verification/Regex.thy ===== *)
theory Regex
  imports Prelude
begin

text \<open>
  The fragment of Python's \<open>re\<close> the program uses: a pattern is a sequence of items, matched by
  backtracking in the engine's order (a greedy star tries one more character first, a lazy one
  tries to stop first). \<open>x{n,}\<close> is \<open>n\<close> single characters and a star. The previous character is
  carried for the word boundary.
\<close>

datatype item =
  One "char \<Rightarrow> bool"
| Star "char \<Rightarrow> bool"
| Lazy "char \<Rightarrow> bool"
| Boundary

type_synonym pattern = "item list"

text \<open>\<open>str.isalnum\<close> or underscore, on code points below 256.\<close>

definition py_word :: "char \<Rightarrow> bool" where
  "py_word c = (py_alpha c \<or> is_digit c \<or> c = CHR ''_'' \<or> code c \<in> {178, 179, 185, 188, 189, 190})"

definition at_boundary :: "char option \<Rightarrow> string \<Rightarrow> bool" where
  "at_boundary prev s = (some_and py_word prev \<noteq> (case s of [] \<Rightarrow> False | c # cs \<Rightarrow> py_word c))"

text \<open>The rest of the string after the first successful match at its front.\<close>

function match :: "pattern \<Rightarrow> char option \<Rightarrow> string \<Rightarrow> string option" where
  "match [] prev s = Some s"
| "match (One P # its) prev s =
     (case s of [] \<Rightarrow> None | c # cs \<Rightarrow> if P c then match its (Some c) cs else None)"
| "match (Star P # its) prev s =
     (case (case s of [] \<Rightarrow> None | c # cs \<Rightarrow> if P c then match (Star P # its) (Some c) cs else None) of
        Some r \<Rightarrow> Some r
      | None \<Rightarrow> match its prev s)"
| "match (Lazy P # its) prev s =
     (case match its prev s of
        Some r \<Rightarrow> Some r
      | None \<Rightarrow> (case s of [] \<Rightarrow> None | c # cs \<Rightarrow> if P c then match (Lazy P # its) (Some c) cs else None))"
| "match (Boundary # its) prev s = (if at_boundary prev s then match its prev s else None)"
  by pat_completeness auto
termination
  by (relation "measure (\<lambda>(its, prev, s). length its + length s)") auto

text \<open>What is left is a suffix.\<close>

lemma match_suffix: "match its prev s = Some r \<Longrightarrow> \<exists>m. s = m @ r"
proof (induction its prev s arbitrary: r rule: match.induct)
  case (2 P its prev s)
  then obtain c cs where "s = c # cs" "P c" "match its (Some c) cs = Some r"
    by (auto split: list.splits if_splits)
  with 2(1)[of c cs r] show ?case by (metis append_Cons)
next
  case (3 P its prev s)
  define more where "more = (case s of [] \<Rightarrow> None | c # cs \<Rightarrow>
        if P c then match (Star P # its) (Some c) cs else None)"
  have eq: "match (Star P # its) prev s = (case more of Some r \<Rightarrow> Some r | None \<Rightarrow> match its prev s)"
    unfolding more_def by (rule match.simps)
  show ?case
  proof (cases more)
    case None
    with 3(3) eq have "match its prev s = Some r" by simp
    with None show ?thesis using 3(2) unfolding more_def by blast
  next
    case (Some r')
    with 3(3) eq have "more = Some r" by simp
    then obtain c cs where "s = c # cs" "P c" "match (Star P # its) (Some c) cs = Some r"
      unfolding more_def by (cases s) (auto split: if_splits)
    with 3(1)[of c cs r] show ?thesis by (metis append_Cons)
  qed
next
  case (4 P its prev s)
  show ?case
  proof (cases "match its prev s")
    case None
    then obtain c cs where "s = c # cs" "P c" "match (Lazy P # its) (Some c) cs = Some r"
      using 4(3) by (auto split: list.splits if_splits)
    with 4(2)[OF None, of c cs r] show ?thesis by (metis append_Cons)
  next
    case (Some r')
    with 4 show ?thesis by simp
  qed
qed (auto split: if_splits)

text \<open>
  \<open>pattern.sub(new, s)\<close> for patterns that match at least one character: leftmost matches,
  continuing after each. An empty match its skipped (the patterns here have none).
\<close>

function sub :: "pattern \<Rightarrow> string \<Rightarrow> char option \<Rightarrow> string \<Rightarrow> string" where
  "sub p new prev [] = []"
| "sub p new prev (c # cs) =
     (case match p prev (c # cs) of
        Some r \<Rightarrow>
          if length r < length (c # cs)
          then new @ sub p new (Some ((c # cs) ! (length (c # cs) - length r - 1))) r
          else c # sub p new (Some c) cs
      | None \<Rightarrow> c # sub p new (Some c) cs)"
  by pat_completeness auto
termination
  by (relation "measure (\<lambda>(p, new, prev, s). length s)") auto

text \<open>Substituting leaves a string alone when the pattern matches nowhere.\<close>

fun matches_somewhere :: "pattern \<Rightarrow> char option \<Rightarrow> string \<Rightarrow> bool" where
  "matches_somewhere p prev [] = False"
| "matches_somewhere p prev (c # cs) =
     (match p prev (c # cs) \<noteq> None \<or> matches_somewhere p (Some c) cs)"

lemma sub_absent: "\<not> matches_somewhere p prev s \<Longrightarrow> sub p new prev s = s"
  by (induction p prev s rule: matches_somewhere.induct) auto

end
