(* ===== verification/Redaction.thy ===== *)
theory Redaction
  imports Contract_Base Regex
begin

text \<open>
  \<^verbatim>\<open>src/core/contracts/redaction.py\<close>. A frozen set of known secret values is the list of its
  elements in iteration order. SHA-256 is \<open>H\<close> and \<open>json.dumps\<close> of the canonical JSON is \<open>J\<close>.
\<close>

subsection \<open>Names and patterns\<close>

definition marker :: string where
  "marker = ''[REDACTED]''"

definition credential_key_names :: "string list" where
  "credential_key_names =
     [''accesstoken'', ''apikey'', ''auth'', ''authorization'', ''bearer'', ''clientsecret'', ''cookie'',
      ''credential'', ''credentials'', ''idtoken'', ''password'', ''passwd'', ''privatekey'', ''pwd'',
      ''refreshtoken'', ''secret'', ''secretkey'', ''sessionid'', ''setcookie'', ''signature'', ''token'']"

definition normalize_key :: "string \<Rightarrow> string" where
  "normalize_key key = filter (\<lambda>c. is_lower c \<or> is_digit c) (py_lower key)"

definition is_credential_key :: "string \<Rightarrow> bool" where
  "is_credential_key key =
     (let n = normalize_key key in
      n \<in> set credential_key_names \<or> (starts_with ''x'' n \<and> tl n \<in> set credential_key_names))"

definition lit :: "string \<Rightarrow> pattern" where
  "lit s = map (\<lambda>c. One (\<lambda>x. x = c)) s"

definition at_least :: "nat \<Rightarrow> (char \<Rightarrow> bool) \<Rightarrow> pattern" where
  "at_least n P = replicate n (One P) @ [Star P]"

definition ascii_alnum :: "char \<Rightarrow> bool" where
  "ascii_alnum c = (is_upper c \<or> is_lower c \<or> is_digit c)"

definition credential_value_patterns :: "pattern list" where
  "credential_value_patterns =
     [lit ''sk-'' @ at_least 8 (\<lambda>c. ascii_alnum c \<or> c \<in> set ''_-''),
      lit ''gh'' @ [One (\<lambda>c. c \<in> set ''pousr'')] @ lit ''_'' @ at_least 16 ascii_alnum,
      lit ''github_pat_'' @ at_least 20 (\<lambda>c. ascii_alnum c \<or> c = CHR ''_''),
      lit ''xox'' @ [One (\<lambda>c. c \<in> set ''abposr'')] @ lit ''-'' @ at_least 10 (\<lambda>c. ascii_alnum c \<or> c = CHR ''-''),
      lit ''AKIA'' @ replicate 16 (One (\<lambda>c. is_digit c \<or> is_upper c)),
      lit ''AIza'' @ replicate 35 (One (\<lambda>c. ascii_alnum c \<or> c \<in> set ''_-'')),
      [Boundary] @ map (\<lambda>c. One (\<lambda>x. py_lower_char x = c)) ''bearer'' @ at_least 1 py_space @
        at_least 16 (\<lambda>c. ascii_alnum c \<or> c \<in> set ''._~+/-'') @ [Star (\<lambda>c. c = CHR ''='')],
      lit ''-----BEGIN '' @ [Star (\<lambda>c. is_upper c \<or> c = CHR '' '')] @ lit ''PRIVATE KEY-----'' @
        [Lazy (\<lambda>_. True)] @ lit ''-----END '' @ [Star (\<lambda>c. is_upper c \<or> c = CHR '' '')] @ lit ''KEY-----'',
      [Boundary, One (\<lambda>c. is_lower c \<or> is_upper c), Star (\<lambda>c. ascii_alnum c \<or> c \<in> set ''+.-'')] @
        lit ''://'' @ at_least 1 (\<lambda>c. \<not> py_space c \<and> c \<notin> set ''/:@'') @ lit '':'' @
        at_least 1 (\<lambda>c. \<not> py_space c \<and> c \<notin> set ''/@'') @ lit ''@'']"

definition min_redactable_secret_length :: nat where
  "min_redactable_secret_length = 8"

subsection \<open>Redaction\<close>

definition redact_text :: "string list \<Rightarrow> string \<Rightarrow> string" where
  "redact_text secrets value =
     (if value = marker then value
      else fold (\<lambda>p s. sub p marker None s) credential_value_patterns
             (fold (\<lambda>secret s. replace secret marker s) secrets value))"

definition is_str :: "pyval option \<Rightarrow> bool" where
  "is_str v = (case v of Some (VStr s) \<Rightarrow> True | _ \<Rightarrow> False)"

definition is_secret_ref :: "(string \<times> pyval) list \<Rightarrow> bool" where
  "is_secret_ref kvs =
     (let keys = set (map fst kvs) in
      if keys = {''$secret''} then is_str (map_of kvs ''$secret'')
      else if ''secret_id'' \<in> keys \<and> keys \<subseteq> {''schema_version'', ''secret_id''}
      then is_str (map_of kvs ''secret_id'')
      else False)"

fun redact_value :: "string list \<Rightarrow> pyval \<Rightarrow> pyval"
  and redact_members :: "string list \<Rightarrow> (string \<times> pyval) list \<Rightarrow> (string \<times> pyval) list"
  and redact_member :: "string list \<Rightarrow> string \<Rightarrow> pyval \<Rightarrow> pyval"
  and redact_list :: "string list \<Rightarrow> pyval list \<Rightarrow> pyval list" where
  "redact_value secrets (VDict kvs) = (if is_secret_ref kvs then VDict kvs else VDict (redact_members secrets kvs))"
| "redact_value secrets (VProxy kvs) = (if is_secret_ref kvs then VDict kvs else VDict (redact_members secrets kvs))"
| "redact_value secrets (VStr s) = VStr (redact_text secrets s)"
| "redact_value secrets (VList vs) = VList (redact_list secrets vs)"
| "redact_value secrets (VTuple vs) = VList (redact_list secrets vs)"
| "redact_value secrets VNone = VNone"
| "redact_value secrets (VBool b) = VBool b"
| "redact_value secrets (VInt i) = VInt i"
| "redact_value secrets (VFloat x) = VFloat x"
| "redact_value secrets (VBytes s) = VBytes s"
| "redact_members secrets [] = []"
| "redact_members secrets ((k, v) # kvs) = (k, redact_member secrets k v) # redact_members secrets kvs"
| "redact_member secrets k (VDict kvs) =
     (if is_secret_ref kvs then VDict kvs
      else if is_credential_key k then VStr marker else redact_value secrets (VDict kvs))"
| "redact_member secrets k (VProxy kvs) =
     (if is_secret_ref kvs then VDict kvs
      else if is_credential_key k then VStr marker else redact_value secrets (VProxy kvs))"
| "redact_member secrets k v = (if is_credential_key k then VStr marker else redact_value secrets v)"
| "redact_list secrets [] = []"
| "redact_list secrets (v # vs) = redact_value secrets v # redact_list secrets vs"

datatype redact_error = SecretTooShort nat

definition redact :: "string list \<Rightarrow> pyval \<Rightarrow> redact_error + pyval" where
  "redact secrets payload =
     (let short = filter (\<lambda>s. length s < min_redactable_secret_length) secrets in
      if short \<noteq> [] then Inl (SecretTooShort (length short)) else Inr (redact_value secrets payload))"

subsection \<open>Digests and secret handles\<close>

text \<open>\<open>None\<close> is the \<open>TypeError\<close>.\<close>

definition boundary_digest :: "(pyval \<Rightarrow> string) \<Rightarrow> (string \<Rightarrow> digest) \<Rightarrow> pyval \<Rightarrow> digest option" where
  "boundary_digest J H payload =
     (case payload of VDict kvs \<Rightarrow> Some (H (J payload)) | VProxy kvs \<Rightarrow> Some (H (J payload)) | _ \<Rightarrow> None)"

definition snapshot_digest :: "(string \<Rightarrow> digest) \<Rightarrow> pyval \<Rightarrow> digest option" where
  "snapshot_digest H v = (case v of VBytes bs \<Rightarrow> Some (H bs) | _ \<Rightarrow> None)"

definition secret_ref_as_json :: "string \<Rightarrow> pyval" where
  "secret_ref_as_json secret_id = VDict [(''$secret'', VStr secret_id)]"

subsection \<open>Scrubbing\<close>

text \<open>\<open>t'\<close> is \<open>t\<close> with some substrings replaced by the marker.\<close>

inductive scrubbed :: "string \<Rightarrow> string \<Rightarrow> bool" where
  scrubbed_Nil: "scrubbed [] []"
| scrubbed_keep: "scrubbed t t' \<Longrightarrow> scrubbed (c # t) (c # t')"
| scrubbed_mark: "scrubbed t t' \<Longrightarrow> scrubbed (m @ t) (marker @ t')"

lemma scrubbed_replace: "scrubbed s (replace old marker s)"
proof (induction old marker s rule: replace.induct)
  case (2 old c cs)
  show ?case
  proof (cases "old \<noteq> [] \<and> starts_with old (c # cs)")
    case True
    then have "c # cs = old @ drop (length old) (c # cs)" by (auto simp: starts_with_iff)
    then show ?thesis using True scrubbed_mark[OF 2(1)[OF True], of old] by simp
  next
    case False
    with 2(2) show ?thesis by (auto intro: scrubbed_keep)
  qed
qed (simp add: scrubbed_Nil)

lemma scrubbed_sub: "scrubbed s (sub p marker prev s)"
proof (induction p marker prev s rule: sub.induct)
  case (2 p prev c cs)
  show ?case
  proof (cases "\<exists>r. match p prev (c # cs) = Some r \<and> length r < length (c # cs)")
    case True
    then obtain r where r: "match p prev (c # cs) = Some r" "length r < length (c # cs)" by blast
    then obtain m where m: "c # cs = m @ r" using match_suffix by blast
    have "sub p marker prev (c # cs) =
        marker @ sub p marker (Some ((c # cs) ! (length (c # cs) - length r - 1))) r" using r by simp
    then show ?thesis using scrubbed_mark[OF 2(2)[OF r], of m] unfolding m by simp
  next
    case False
    then show ?thesis using 2(1,3) by (auto split: option.splits intro: scrubbed_keep)
  qed
qed (simp add: scrubbed_Nil)

text \<open>
  A value that can be told from the marker: long enough to be redacted by value, without brackets
  and not the word inside the marker. No such value overlaps a marker.
\<close>

definition separable :: "string \<Rightarrow> bool" where
  "separable s \<longleftrightarrow> min_redactable_secret_length \<le> length s \<and> CHR ''['' \<notin> set s \<and> CHR '']'' \<notin> set s \<and>
     s \<noteq> ''REDACTED''"

lemma starts_with_before: "starts_with s (x @ y # v) \<Longrightarrow> y \<notin> set s \<Longrightarrow> starts_with s x"
  by (induction s x rule: starts_with.induct) (auto split: if_splits)

lemma contains_split:
  "contains s (x @ y # v) \<Longrightarrow> y \<notin> set s \<Longrightarrow> s \<noteq> [] \<Longrightarrow> contains s x \<or> contains s v"
proof (induction x)
  case Nil
  then show ?case by (cases s) auto
next
  case (Cons a x)
  then show ?case using starts_with_before[of s "a # x" y v] by auto
qed

lemma contains_length: "contains s t \<Longrightarrow> length s \<le> length t"
  by (auto simp: contains_iff)

lemma contains_marker:
  assumes "contains s (marker @ v)" "separable s"
  shows "contains s v"
proof -
  have ne: "s \<noteq> []" "8 \<le> length s" using assms(2)
    by (auto simp: separable_def min_redactable_secret_length_def)
  have "contains s ([] @ CHR ''['' # (''REDACTED'' @ CHR '']'' # v))" using assms(1) by (simp add: marker_def)
  then have "contains s (''REDACTED'' @ CHR '']'' # v)"
    using contains_split[of s "[]"] assms(2) ne by (fastforce simp: separable_def)
  then have "contains s ''REDACTED'' \<or> contains s v"
    using contains_split[of s "''REDACTED''"] assms(2) ne by (simp add: separable_def)
  moreover have "\<not> contains s ''REDACTED''"
  proof
    assume "contains s ''REDACTED''"
    then obtain a b where ab: "''REDACTED'' = a @ s @ b" by (auto simp: contains_iff)
    from arg_cong[OF ab, of length] have "length a + length s + length b = 8" by simp
    with ne have "length a = 0" "length b = 0" by linarith+
    then have "a = []" "b = []" by simp_all
    with ab assms(2) show False by (simp add: separable_def)
  qed
  ultimately show ?thesis by blast
qed

lemma scrubbed_starts: "scrubbed t t' \<Longrightarrow> starts_with p t' \<Longrightarrow> CHR ''['' \<notin> set p \<Longrightarrow> starts_with p t"
proof (induction arbitrary: p rule: scrubbed.induct)
  case (scrubbed_keep t t' c)
  then show ?case by (cases p) auto
next
  case (scrubbed_mark t t' m)
  then show ?case by (cases p) (auto simp: marker_def)
qed

lemma contains_append2: "contains s t \<Longrightarrow> contains s (m @ t)"
  by (metis append.assoc contains_iff)

text \<open>Scrubbing never creates an occurrence of a separable value.\<close>

lemma scrubbed_contains: "scrubbed t t' \<Longrightarrow> separable s \<Longrightarrow> contains s t' \<Longrightarrow> contains s t"
proof (induction rule: scrubbed.induct)
  case (scrubbed_keep t t' c)
  then show ?case
    using scrubbed_starts[OF scrubbed.scrubbed_keep[OF scrubbed_keep(1)], of s c]
    by (auto simp: separable_def)
next
  case (scrubbed_mark t t' m)
  then show ?case using contains_marker contains_append2 by blast
qed

text \<open>Replacing a separable value removes it.\<close>

lemma replace_removes: "separable s \<Longrightarrow> \<not> contains s (replace s marker t)"
proof (induction s marker t rule: replace.induct)
  case (2 old c cs)
  show ?case
  proof (cases "old \<noteq> [] \<and> starts_with old (c # cs)")
    case True
    with 2(1)[OF True] 2(3) contains_marker show ?thesis by auto
  next
    case False
    have "old \<noteq> []" using 2(3) by (auto simp: separable_def min_redactable_secret_length_def)
    with False have no: "\<not> starts_with old (c # cs)" by simp
    have "scrubbed (c # cs) (c # replace old marker cs)" by (intro scrubbed_keep scrubbed_replace)
    with no have "\<not> starts_with old (c # replace old marker cs)"
      using scrubbed_starts 2(3) by (auto simp: separable_def)
    with 2(2)[OF False 2(3)] no show ?thesis by simp
  qed
qed (auto simp: separable_def min_redactable_secret_length_def)

lemma fold_scrub_absent:
  assumes "\<And>p t. p \<in> set ps \<Longrightarrow> scrubbed t (f p t)" "separable s" "\<not> contains s t"
  shows "\<not> contains s (fold f ps t)"
  using assms by (induction ps arbitrary: t) (auto dest: scrubbed_contains)

lemma fold_replace_removes:
  assumes "separable s" "s \<in> set secrets"
  shows "\<not> contains s (fold (\<lambda>secret t. replace secret marker t) secrets t)"
proof -
  from assms(2) obtain xs ys where "secrets = xs @ s # ys" by (meson split_list)
  then show ?thesis
    using fold_scrub_absent[of ys "\<lambda>secret t. replace secret marker t" s, OF scrubbed_replace assms(1)
        replace_removes[OF assms(1)]] by simp
qed

lemma redact_text_removes:
  assumes "separable s" "s \<in> set secrets"
  shows "\<not> contains s (redact_text secrets t)"
proof (cases "t = marker")
  case True
  have "\<not> contains s []" using assms(1) by (auto simp: separable_def min_redactable_secret_length_def)
  then have "\<not> contains s (marker @ [])" using contains_marker[OF _ assms(1)] by blast
  with True show ?thesis by (simp add: redact_text_def)
next
  case False
  then show ?thesis
    using fold_scrub_absent[of credential_value_patterns "\<lambda>p t. sub p marker None t" s, OF scrubbed_sub assms(1)
        fold_replace_removes[OF assms]] by (simp add: redact_text_def)
qed

subsection \<open>Payloads\<close>

text \<open>A value occurs in some string of the payload, handles of secrets and keys of mappings aside.\<close>

fun exposed :: "string \<Rightarrow> pyval \<Rightarrow> bool"
  and exposed_members :: "string \<Rightarrow> (string \<times> pyval) list \<Rightarrow> bool"
  and exposed_list :: "string \<Rightarrow> pyval list \<Rightarrow> bool" where
  "exposed s (VStr t) = contains s t"
| "exposed s (VDict kvs) = (\<not> is_secret_ref kvs \<and> exposed_members s kvs)"
| "exposed s (VProxy kvs) = (\<not> is_secret_ref kvs \<and> exposed_members s kvs)"
| "exposed s (VList vs) = exposed_list s vs"
| "exposed s (VTuple vs) = exposed_list s vs"
| "exposed s VNone = False"
| "exposed s (VBool b) = False"
| "exposed s (VInt i) = False"
| "exposed s (VFloat x) = False"
| "exposed s (VBytes b) = False"
| "exposed_members s [] = False"
| "exposed_members s ((k, v) # kvs) = (exposed s v \<or> exposed_members s kvs)"
| "exposed_list s [] = False"
| "exposed_list s (v # vs) = (exposed s v \<or> exposed_list s vs)"

lemma marker_hides: "separable s \<Longrightarrow> \<not> contains s marker"
  using contains_marker[of s "[]"] by (auto simp: separable_def min_redactable_secret_length_def)

lemma redact_hides:
  assumes "separable s" "s \<in> set secrets"
  shows "\<not> exposed s (redact_value secrets v)"
    and "\<not> exposed_members s (redact_members secrets kvs)"
    and "\<not> exposed s (redact_member secrets k v)"
    and "\<not> exposed_list s (redact_list secrets vs)"
  using assms
  by (induction secrets v and secrets kvs and secrets k v and secrets vs
      rule: redact_value_redact_members_redact_member_redact_list.induct)
    (auto simp: redact_text_removes marker_hides)

text \<open>
  C13: The exact layer is complete. Every secret value the system holds, unless it is made of the
  marker's own text, is absent from every string of the redacted payload, in whatever order the
  secrets are removed and whatever the pattern layer does afterwards; a handle of a secret is the
  only place that is left as it was.
\<close>

theorem redact_removes_known_secrets:
  assumes "redact secrets payload = Inr out" "s \<in> set secrets"
    and "CHR ''['' \<notin> set s" "CHR '']'' \<notin> set s" "s \<noteq> ''REDACTED''"
  shows "\<not> exposed s out"
proof -
  from assms(1) have out: "out = redact_value secrets payload"
    and long: "filter (\<lambda>s. length s < min_redactable_secret_length) secrets = []"
    by (auto simp: redact_def Let_def split: if_splits)
  from long assms(2) have "min_redactable_secret_length \<le> length s" by (auto simp: filter_empty_conv)
  with assms have "separable s" by (simp add: separable_def)
  with redact_hides(1)[OF this assms(2)] out show ?thesis by simp
qed

theorem redact_removes_known_secrets_witness:
  "\<not> exposed ''hunter22'' (VDict [(''note'', VStr ''a[REDACTED]b''), (''password'', VStr marker)])"
proof -
  have run: "redact [''hunter22''] (VDict [(''note'', VStr ''ahunter22b''), (''password'', VStr ''x'')]) =
      Inr (VDict [(''note'', VStr ''a[REDACTED]b''), (''password'', VStr marker)])" by code_simp
  show ?thesis by (rule redact_removes_known_secrets[OF run]) auto
qed

text \<open>A payload with nothing in it to redact.\<close>

definition clean_text :: "string list \<Rightarrow> string \<Rightarrow> bool" where
  "clean_text secrets t \<longleftrightarrow>
     (\<forall>s \<in> set secrets. \<not> contains s t) \<and>
     (\<forall>p \<in> set credential_value_patterns. \<not> matches_somewhere p None t)"

fun clean :: "string list \<Rightarrow> pyval \<Rightarrow> bool"
  and clean_members :: "string list \<Rightarrow> (string \<times> pyval) list \<Rightarrow> bool"
  and clean_list :: "string list \<Rightarrow> pyval list \<Rightarrow> bool" where
  "clean secrets (VStr t) = clean_text secrets t"
| "clean secrets (VDict kvs) = (is_secret_ref kvs \<or> clean_members secrets kvs)"
| "clean secrets (VProxy kvs) = False"
| "clean secrets (VList vs) = clean_list secrets vs"
| "clean secrets (VTuple vs) = False"
| "clean secrets VNone = True"
| "clean secrets (VBool b) = True"
| "clean secrets (VInt i) = True"
| "clean secrets (VFloat x) = True"
| "clean secrets (VBytes b) = True"
| "clean_members secrets [] = True"
| "clean_members secrets ((k, v) # kvs) =
     ((case v of VDict ms \<Rightarrow> is_secret_ref ms \<or> \<not> is_credential_key k | _ \<Rightarrow> \<not> is_credential_key k) \<and>
      clean secrets v \<and> clean_members secrets kvs)"
| "clean_list secrets [] = True"
| "clean_list secrets (v # vs) = (clean secrets v \<and> clean_list secrets vs)"

lemma fold_fixed: "\<forall>x \<in> set xs. f x s = s \<Longrightarrow> fold f xs s = s"
  by (induction xs) auto

lemma clean_text_redact: "clean_text secrets t \<Longrightarrow> redact_text secrets t = t"
  by (auto simp: clean_text_def redact_text_def replace_absent sub_absent fold_fixed)

lemma redact_member_plain:
  "\<not> is_credential_key k \<Longrightarrow> redact_member secrets k v = redact_value secrets v"
  by (cases v) auto

lemma redact_clean:
  shows "clean secrets v \<Longrightarrow> redact_value secrets v = v"
    and "clean_members secrets kvs \<Longrightarrow> redact_members secrets kvs = kvs"
    and "clean_list secrets vs \<Longrightarrow> redact_list secrets vs = vs"
proof (induction secrets v and secrets kvs and secrets vs rule: clean_clean_members_clean_list.induct)
  case (12 secrets k v kvs)
  then show ?case
    by (cases v) (auto simp: redact_member_plain)
qed (auto simp: clean_text_redact)

text \<open>
  Redaction touches nothing else: a plain payload (no frozen containers) whose strings contain
  no known secret and match no credential pattern, and whose members with credential names are
  handles, comes back unchanged. In particular a handle survives under a credential-named key.
\<close>

theorem redact_preserves_clean:
  assumes "clean secrets payload" "\<And>s. s \<in> set secrets \<Longrightarrow> 8 \<le> length s"
  shows "redact secrets payload = Inr payload"
  using assms redact_clean(1)[of secrets payload]
  by (auto simp: redact_def Let_def filter_empty_conv min_redactable_secret_length_def not_less)

theorem redact_preserves_clean_witness:
  "redact [''hunter22''] (VDict [(''x-api-key'', secret_ref_as_json ''prod-key''), (''q'', VStr ''sk-12'')]) =
     Inr (VDict [(''x-api-key'', secret_ref_as_json ''prod-key''), (''q'', VStr ''sk-12'')])"
proof (rule redact_preserves_clean)
  show "clean [''hunter22''] (VDict [(''x-api-key'', secret_ref_as_json ''prod-key''), (''q'', VStr ''sk-12'')])"
    by code_simp
qed simp

text \<open>
  Where redaction falls short of its documentation. A held secret survives when it arrives as
  the identifier of a secret handle or as a key of a mapping; and redaction is not idempotent: a
  held secret that is part of the marker makes the text grow each time.
\<close>

theorem redact_limits:
  "redact [''hunter22''] (VDict [(''$secret'', VStr ''hunter22'')]) = Inr (VDict [(''$secret'', VStr ''hunter22'')]) \<and>
   redact [''hunter22''] (VDict [(''hunter22'', VNone)]) = Inr (VDict [(''hunter22'', VNone)]) \<and>
   redact [''REDACTED''] (VStr ''id REDACTED'') = Inr (VStr ''id [REDACTED]'') \<and>
   redact [''REDACTED''] (VStr ''id [REDACTED]'') = Inr (VStr ''id [[REDACTED]]'')"
  by (intro conjI) code_simp+

end
