(* ===== verification/Tool_Spec.thy ===== *)
theory Tool_Spec
  imports Outcome Redaction
begin

text \<open>
  \<^verbatim>\<open>src/core/tools/spec.py\<close>: what a tool must declare. A pydantic model class is its field table and
  its \<open>extra\<close> setting; \<open>classes\<close> maps class names to them, and a class may refer to itself. The two
  recursive audits share their traversal, \<open>walk\<close>; its first argument bounds the depth.
\<close>

subsection \<open>Annotations and fields\<close>

text \<open>\<open>AApp\<close> is any annotation with type arguments (\<open>list[...]\<close>, a union); \<open>AScalar\<close> any other type.\<close>

datatype annot = ASecretRef | ANoneType | AEllipsis | AScalar string | AClass string | AApp "annot list"

fun get_args :: "annot \<Rightarrow> annot list" where
  "get_args (AApp as) = as"
| "get_args _ = []"

text \<open>\<open>SecretRef\<close> is itself a model class.\<close>

fun model_types :: "annot \<Rightarrow> string list" where
  "model_types ASecretRef = [''SecretRef'']"
| "model_types (AClass n) = [n]"
| "model_types (AApp as) = concat (map model_types as)"
| "model_types _ = []"

fun is_secret_ref_only :: "annot \<Rightarrow> bool" where
  "is_secret_ref_only ASecretRef = True"
| "is_secret_ref_only ANoneType = True"
| "is_secret_ref_only (AApp as) =
     (filter (\<lambda>a. a \<noteq> AEllipsis) as \<noteq> [] \<and> list_all (\<lambda>a. a = AEllipsis \<or> is_secret_ref_only a) as)"
| "is_secret_ref_only _ = False"

text \<open>An alias; in choices and paths only the string members count (\<open>None\<close> is any other member).\<close>

datatype field_alias = AliasStr string | AliasChoices "string option list" | AliasPath "string option list"

record field_info =
  fi_annotation :: annot
  fi_aliases :: "field_alias option list"

fun alias_names :: "field_alias option \<Rightarrow> string list" where
  "alias_names None = []"
| "alias_names (Some (AliasStr s)) = [s]"
| "alias_names (Some (AliasChoices cs)) = List.map_filter id cs"
| "alias_names (Some (AliasPath ps)) = List.map_filter id ps"

definition field_names :: "string \<times> field_info \<Rightarrow> string list" where
  "field_names f = fst f # concat (map alias_names (fi_aliases (snd f)))"

record model_class =
  mc_fields :: "(string \<times> field_info) list"
  mc_extra_allow :: bool

subsection \<open>The audits\<close>

datatype spec_error =
  NoName | NoVersion | NoDeadline | AdmitsUndeclaredFields string | CredentialNotSecretRef string string

definition credential_field_ok :: "string \<times> field_info \<Rightarrow> bool" where
  "credential_field_ok f \<longleftrightarrow>
     \<not> (list_ex is_credential_key (field_names f) \<and> \<not> is_secret_ref_only (fi_annotation (snd f)))"

definition children :: "model_class \<Rightarrow> string list" where
  "children m = concat (map (\<lambda>f. model_types (fi_annotation (snd f))) (mc_fields m))"

text \<open>
  \<open>walk\<close> visits a class once: the class check, then field by field the field check and the classes
  the field reaches. The result is \<open>None\<close> if the depth bound is hit, else the error raised or the
  classes seen.
\<close>

type_synonym walk_result = "(spec_error + string list) option"

function walk :: "(string \<Rightarrow> model_class) \<Rightarrow> (string \<Rightarrow> spec_error option) \<Rightarrow>
    (string \<Rightarrow> string \<times> field_info \<Rightarrow> spec_error option) \<Rightarrow> nat \<Rightarrow> string \<Rightarrow> string list \<Rightarrow> walk_result"
  and walk_fields :: "(string \<Rightarrow> model_class) \<Rightarrow> (string \<Rightarrow> spec_error option) \<Rightarrow>
    (string \<Rightarrow> string \<times> field_info \<Rightarrow> spec_error option) \<Rightarrow> nat \<Rightarrow> string \<Rightarrow> (string \<times> field_info) list \<Rightarrow>
    string list \<Rightarrow> walk_result"
  and walk_nested :: "(string \<Rightarrow> model_class) \<Rightarrow> (string \<Rightarrow> spec_error option) \<Rightarrow>
    (string \<Rightarrow> string \<times> field_info \<Rightarrow> spec_error option) \<Rightarrow> nat \<Rightarrow> string list \<Rightarrow> string list \<Rightarrow> walk_result"
  where
  "walk cls cc fc 0 n seen = None"
| "walk cls cc fc (Suc d) n seen =
     (if n \<in> set seen then Some (Inr seen)
      else (case cc n of Some e \<Rightarrow> Some (Inl e)
            | None \<Rightarrow> walk_fields cls cc fc d n (mc_fields (cls n)) (n # seen)))"
| "walk_fields cls cc fc d n [] seen = Some (Inr seen)"
| "walk_fields cls cc fc d n (f # fs) seen =
     (case fc n f of Some e \<Rightarrow> Some (Inl e)
      | None \<Rightarrow>
         (case walk_nested cls cc fc d (model_types (fi_annotation (snd f))) seen of
            Some (Inr seen') \<Rightarrow> walk_fields cls cc fc d n fs seen'
          | r \<Rightarrow> r))"
| "walk_nested cls cc fc d [] seen = Some (Inr seen)"
| "walk_nested cls cc fc d (m # ms) seen =
     (case walk cls cc fc d m seen of
        Some (Inr seen') \<Rightarrow> walk_nested cls cc fc d ms seen'
      | r \<Rightarrow> r)"
  by pat_completeness auto
termination
  by (relation "measures [case_sum (\<lambda>(_, _, _, d, _). d) (case_sum (\<lambda>(_, _, _, d, _). d) (\<lambda>(_, _, _, d, _). d)),
        case_sum (\<lambda>_. 0) (case_sum (\<lambda>_. 2) (\<lambda>_. 1)),
        case_sum (\<lambda>_. 0) (case_sum (\<lambda>(_, _, _, _, _, fs, _). length fs) (\<lambda>(_, _, _, _, ms, _). length ms))]") auto

definition extra_check :: "(string \<Rightarrow> model_class) \<Rightarrow> string \<Rightarrow> spec_error option" where
  "extra_check cls n = (if mc_extra_allow (cls n) then Some (AdmitsUndeclaredFields n) else None)"

definition credential_check :: "string \<Rightarrow> string \<times> field_info \<Rightarrow> spec_error option" where
  "credential_check n f = (if credential_field_ok f then None else Some (CredentialNotSecretRef n (fst f)))"

definition reject_undeclared_field_admission :: "(string \<Rightarrow> model_class) \<Rightarrow> nat \<Rightarrow> string \<Rightarrow> walk_result" where
  "reject_undeclared_field_admission cls d n = walk cls (extra_check cls) (\<lambda>_ _. None) d n []"

definition audit_credential_fields :: "(string \<Rightarrow> model_class) \<Rightarrow> nat \<Rightarrow> string \<Rightarrow> walk_result" where
  "audit_credential_fields cls d n = walk cls (\<lambda>_. None) credential_check d n []"

subsection \<open>The specification\<close>

text \<open>
  The handler is not part of the record: a call's environment gives what it returns. Parsing against
  the input and output models is pydantic's and is \<open>sp_parse\<close>, \<open>sp_parse_output\<close>: the error text, or
  the validated value as the boundary serialises it. \<open>sp_classify\<close> sees the error as its text.
\<close>

record tool_spec =
  sp_name :: string
  sp_version :: string
  sp_sensitivity :: sensitivity
  sp_input_model :: string
  sp_timeout_seconds :: rat
  sp_classify :: "(string \<Rightarrow> retry) option"
  sp_parse :: "pyval \<Rightarrow> string + pyval"
  sp_parse_output :: "pyval \<Rightarrow> string + pyval"

text \<open>\<open>__post_init__\<close>; \<open>None\<close> when the depth bound is hit.\<close>

definition spec_violation :: "(string \<Rightarrow> model_class) \<Rightarrow> nat \<Rightarrow> tool_spec \<Rightarrow> spec_error option option" where
  "spec_violation cls d sp =
     (if sp_name sp = [] then Some (Some NoName)
      else if sp_version sp = [] then Some (Some NoVersion)
      else if sp_timeout_seconds sp \<le> 0 then Some (Some NoDeadline)
      else
       (case reject_undeclared_field_admission cls d (sp_input_model sp) of
          None \<Rightarrow> None
        | Some (Inl e) \<Rightarrow> Some (Some e)
        | Some (Inr _) \<Rightarrow>
           (case audit_credential_fields cls d (sp_input_model sp) of
              None \<Rightarrow> None
            | Some (Inl e) \<Rightarrow> Some (Some e)
            | Some (Inr _) \<Rightarrow> Some None)))"

definition disposition_for :: "tool_spec \<Rightarrow> string \<Rightarrow> retry" where
  "disposition_for sp error = (case sp_classify sp of None \<Rightarrow> Terminal | Some f \<Rightarrow> f error)"

subsection \<open>What an accepted specification guarantees\<close>

definition class_ok :: "(string \<Rightarrow> model_class) \<Rightarrow> (string \<Rightarrow> spec_error option) \<Rightarrow>
    (string \<Rightarrow> string \<times> field_info \<Rightarrow> spec_error option) \<Rightarrow> string \<Rightarrow> bool" where
  "class_ok cls cc fc n \<longleftrightarrow> cc n = None \<and> (\<forall>f \<in> set (mc_fields (cls n)). fc n f = None)"

definition closed_over :: "(string \<Rightarrow> model_class) \<Rightarrow> (string \<Rightarrow> spec_error option) \<Rightarrow>
    (string \<Rightarrow> string \<times> field_info \<Rightarrow> spec_error option) \<Rightarrow> string list \<Rightarrow> string list \<Rightarrow> string set \<Rightarrow> bool" where
  "closed_over cls cc fc seen seen' done \<longleftrightarrow>
     set seen \<subseteq> set seen' \<and>
     (\<forall>m \<in> set seen' - done. class_ok cls cc fc m \<and> set (children (cls m)) \<subseteq> set seen')"

lemma walk_sound:
  shows "walk cls cc fc d n seen = Some (Inr seen') \<Longrightarrow>
     closed_over cls cc fc seen seen' (set seen) \<and> n \<in> set seen'"
    and "walk_fields cls cc fc d n fs seen = Some (Inr seen') \<Longrightarrow>
     closed_over cls cc fc seen seen' (set seen) \<and> (\<forall>f \<in> set fs. fc n f = None) \<and>
     (\<forall>f \<in> set fs. set (model_types (fi_annotation (snd f))) \<subseteq> set seen')"
    and "walk_nested cls cc fc d ms seen = Some (Inr seen') \<Longrightarrow>
     closed_over cls cc fc seen seen' (set seen) \<and> set ms \<subseteq> set seen'"
proof (induction cls cc fc d n seen and cls cc fc d n fs seen and cls cc fc d ms seen
    arbitrary: seen' and seen' and seen' rule: walk_walk_fields_walk_nested.induct)
  case (2 cls cc fc d n seen)
  show ?case
  proof (cases "n \<in> set seen")
    case True
    with 2(2) show ?thesis by (simp add: closed_over_def)
  next
    case False
    with 2(2) have cc: "cc n = None"
      and rec: "walk_fields cls cc fc d n (mc_fields (cls n)) (n # seen) = Some (Inr seen')"
      by (auto split: option.splits)
    from 2(1)[OF False cc rec] have IH: "closed_over cls cc fc (n # seen) seen' (set (n # seen))"
      "\<forall>f \<in> set (mc_fields (cls n)). fc n f = None"
      "\<forall>f \<in> set (mc_fields (cls n)). set (model_types (fi_annotation (snd f))) \<subseteq> set seen'" by auto
    have "class_ok cls cc fc n" using cc IH(2) by (simp add: class_ok_def)
    moreover have "set (children (cls n)) \<subseteq> set seen'" using IH(3) by (auto simp: children_def)
    ultimately show ?thesis using IH(1) by (auto simp: closed_over_def)
  qed
next
  case (4 cls cc fc d n f fs seen)
  then obtain seen1 where fc: "fc n f = None"
    and nest: "walk_nested cls cc fc d (model_types (fi_annotation (snd f))) seen = Some (Inr seen1)"
    and rest: "walk_fields cls cc fc d n fs seen1 = Some (Inr seen')"
    by (auto split: option.splits sum.splits)
  from 4(1)[OF fc nest] 4(2)[OF fc nest refl rest] fc show ?case
    unfolding closed_over_def by (auto dest: subsetD) blast+
next
  case (6 cls cc fc d m ms seen)
  then obtain seen1 where first: "walk cls cc fc d m seen = Some (Inr seen1)"
    and rest: "walk_nested cls cc fc d ms seen1 = Some (Inr seen')"
    by (auto split: option.splits sum.splits)
  from 6(1)[OF first] 6(2)[OF first refl rest] show ?case
    unfolding closed_over_def by (auto dest: subsetD) blast+
qed (auto simp: closed_over_def)

text \<open>The classes that can be reached from the input model through its fields.\<close>

definition class_rel :: "(string \<Rightarrow> model_class) \<Rightarrow> (string \<times> string) set" where
  "class_rel cls = {(m, n). n \<in> set (children (cls m))}"

lemma walk_reachable:
  assumes "walk cls cc fc d n [] = Some (Inr seen')" "(n, m) \<in> (class_rel cls)\<^sup>*"
  shows "class_ok cls cc fc m"
proof -
  from walk_sound(1)[OF assms(1)] have ok: "\<forall>m \<in> set seen'. class_ok cls cc fc m \<and> set (children (cls m)) \<subseteq> set seen'"
    "n \<in> set seen'" by (auto simp: closed_over_def)
  from assms(2) have "m \<in> set seen'" by induction (use ok in \<open>auto simp: class_rel_def\<close>)
  with ok show ?thesis by blast
qed

text \<open>A raised error names a reachable class that fails the audit.\<close>

lemma walk_complete:
  shows "walk cls cc fc d n seen = Some (Inl e) \<Longrightarrow>
     \<exists>m. (n, m) \<in> (class_rel cls)\<^sup>* \<and> \<not> class_ok cls cc fc m"
    and "walk_fields cls cc fc d n fs seen = Some (Inl e) \<Longrightarrow> set fs \<subseteq> set (mc_fields (cls n)) \<Longrightarrow>
     \<exists>m. (n, m) \<in> (class_rel cls)\<^sup>* \<and> \<not> class_ok cls cc fc m"
    and "walk_nested cls cc fc d ms seen = Some (Inl e) \<Longrightarrow>
     \<exists>k \<in> set ms. \<exists>m. (k, m) \<in> (class_rel cls)\<^sup>* \<and> \<not> class_ok cls cc fc m"
proof (induction cls cc fc d n seen and cls cc fc d n fs seen and cls cc fc d ms seen
    rule: walk_walk_fields_walk_nested.induct)
  case (2 cls cc fc d n seen)
  from 2(2) have new: "n \<notin> set seen" by (auto split: if_splits)
  show ?case
  proof (cases "cc n")
    case (Some e')
    then have "\<not> class_ok cls cc fc n" by (simp add: class_ok_def)
    then show ?thesis by blast
  next
    case None
    with 2(2) new have "walk_fields cls cc fc d n (mc_fields (cls n)) (n # seen) = Some (Inl e)" by simp
    from 2(1)[OF new None this] show ?thesis by simp
  qed
next
  case (4 cls cc fc d n f fs seen)
  have mem: "f \<in> set (mc_fields (cls n))" using 4(4) by simp
  show ?case
  proof (cases "fc n f")
    case (Some e')
    with mem have "\<not> class_ok cls cc fc n" by (auto simp: class_ok_def)
    then show ?thesis by blast
  next
    case fcN: None
    show ?thesis
    proof (cases "walk_nested cls cc fc d (model_types (fi_annotation (snd f))) seen")
      case None
      with 4(3) fcN show ?thesis by simp
    next
      case (Some r)
      show ?thesis
      proof (cases r)
        case (Inl e')
        with 4(1)[OF fcN] Some 4(3) fcN obtain k m where "k \<in> set (model_types (fi_annotation (snd f)))"
          "(k, m) \<in> (class_rel cls)\<^sup>*" "\<not> class_ok cls cc fc m" by auto
        moreover then have "(n, k) \<in> class_rel cls" using mem by (auto simp: class_rel_def children_def)
        ultimately show ?thesis by (meson converse_rtrancl_into_rtrancl)
      next
        case (Inr seen1)
        with 4(3) fcN Some have "walk_fields cls cc fc d n fs seen1 = Some (Inl e)" by simp
        from 4(2)[OF fcN Some Inr this] 4(4) show ?thesis by simp
      qed
    qed
  qed
next
  case (6 cls cc fc d m ms seen)
  show ?case
  proof (cases "walk cls cc fc d m seen")
    case None
    with 6(3) show ?thesis by simp
  next
    case (Some r)
    with 6(1,3) 6(2)[OF Some] show ?thesis by (cases r) auto
  qed
qed auto

text \<open>The depth bound is never hit when it exceeds the number of classes that can be met.\<close>

lemma walk_enough_fuel:
  assumes "finite U" and closed: "\<And>m. m \<in> U \<Longrightarrow> set (children (cls m)) \<subseteq> U"
  shows "n \<in> U \<Longrightarrow> card (U - set seen) < d \<Longrightarrow> walk cls cc fc d n seen \<noteq> None"
    and "(\<forall>f \<in> set fs. set (model_types (fi_annotation (snd f))) \<subseteq> U) \<Longrightarrow> card (U - set seen) < d \<Longrightarrow>
      walk_fields cls cc fc d n fs seen \<noteq> None"
    and "set ms \<subseteq> U \<Longrightarrow> card (U - set seen) < d \<Longrightarrow> walk_nested cls cc fc d ms seen \<noteq> None"
  using closed
proof (induction cls cc fc d n seen and cls cc fc d n fs seen and cls cc fc d ms seen
    rule: walk_walk_fields_walk_nested.induct)
  case (2 cls cc fc d n seen)
  show ?case
  proof (cases "n \<in> set seen \<or> cc n \<noteq> None")
    case False
    have "U - set (n # seen) \<subset> U - set seen" using 2(2) False by auto
    from psubset_card_mono[OF _ this] assms(1) 2(3) have less: "card (U - set (n # seen)) < d" by auto
    have types: "\<forall>f \<in> set (mc_fields (cls n)). set (model_types (fi_annotation (snd f))) \<subseteq> U"
      using 2(4)[OF 2(2)] by (auto simp: children_def)
    from 2(1)[OF _ _ types less 2(4)] False show ?thesis by simp
  qed auto
next
  case (4 cls cc fc d n f fs seen)
  show ?case
  proof (cases "fc n f")
    case None
    from 4(1)[OF None _ 4(4) 4(5)] 4(3) obtain r where r:
      "walk_nested cls cc fc d (model_types (fi_annotation (snd f))) seen = Some r" by auto
    show ?thesis
    proof (cases r)
      case (Inr seen1)
      have "set seen \<subseteq> set seen1" using walk_sound(3) r Inr by (auto simp: closed_over_def)
      then have "card (U - set seen1) \<le> card (U - set seen)" using assms(1) by (intro card_mono) auto
      with 4(4) have "card (U - set seen1) < d" by simp
      from 4(2)[OF None r Inr _ this 4(5)] 4(3) None r Inr show ?thesis by simp
    qed (simp add: None r)
  qed simp
next
  case (6 cls cc fc d m ms seen)
  from 6(1)[OF _ 6(4) 6(5)] 6(3) obtain r where r: "walk cls cc fc d m seen = Some r" by auto
  show ?case
  proof (cases r)
    case (Inr seen1)
    have "set seen \<subseteq> set seen1" using walk_sound(1) r Inr by (auto simp: closed_over_def)
    then have "card (U - set seen1) \<le> card (U - set seen)" using assms(1) by (intro card_mono) auto
    with 6(4) have "card (U - set seen1) < d" by simp
    from 6(2)[OF r Inr _ this 6(5)] 6(3) r Inr show ?thesis by simp
  qed (simp add: r)
qed auto

lemma class_rel_closed:
  "(n, m) \<in> (class_rel cls)\<^sup>* \<Longrightarrow> n \<in> U \<Longrightarrow> (\<And>k. k \<in> U \<Longrightarrow> set (children (cls k)) \<subseteq> U) \<Longrightarrow> m \<in> U"
  by (induction rule: rtrancl_induct) (auto simp: class_rel_def)

text \<open>One audit: with enough depth it accepts exactly when every reachable class passes.\<close>

lemma walk_exact:
  assumes "finite U" "n \<in> U" "\<And>m. m \<in> U \<Longrightarrow> set (children (cls m)) \<subseteq> U" "card U < d"
  shows "(\<exists>seen. walk cls cc fc d n [] = Some (Inr seen)) \<longleftrightarrow>
     (\<forall>m. (n, m) \<in> (class_rel cls)\<^sup>* \<longrightarrow> class_ok cls cc fc m)"
    and "walk cls cc fc d n [] \<noteq> None"
proof -
  show some: "walk cls cc fc d n [] \<noteq> None"
    using walk_enough_fuel(1)[OF assms(1) assms(3) assms(2), where seen = "[]" and d = d] assms(4) by simp
  show "(\<exists>seen. walk cls cc fc d n [] = Some (Inr seen)) \<longleftrightarrow>
     (\<forall>m. (n, m) \<in> (class_rel cls)\<^sup>* \<longrightarrow> class_ok cls cc fc m)"
  proof
    assume "\<forall>m. (n, m) \<in> (class_rel cls)\<^sup>* \<longrightarrow> class_ok cls cc fc m"
    with some walk_complete(1) show "\<exists>seen. walk cls cc fc d n [] = Some (Inr seen)"
      by (cases "walk cls cc fc d n []") (metis option.simps(3), metis sum.exhaust_sel)
  qed (use walk_reachable in blast)
qed

lemma spec_accepted_exact_facts:
  assumes "finite U" "sp_input_model sp \<in> U" "\<And>m. m \<in> U \<Longrightarrow> set (children (cls m)) \<subseteq> U" "card U < d"
  shows "spec_violation cls d sp \<noteq> None"
    and "spec_violation cls d sp = Some None \<longleftrightarrow>
      sp_name sp \<noteq> [] \<and> sp_version sp \<noteq> [] \<and> 0 < sp_timeout_seconds sp \<and>
      (\<forall>m. (sp_input_model sp, m) \<in> (class_rel cls)\<^sup>* \<longrightarrow>
         \<not> mc_extra_allow (cls m) \<and>
         (\<forall>f \<in> set (mc_fields (cls m)). list_ex is_credential_key (field_names f) \<longrightarrow>
            is_secret_ref_only (fi_annotation (snd f))))"
proof -
  note exact = walk_exact[OF assms(1,2), of cls d, OF assms(3,4)]
  have extra: "(\<exists>seen. reject_undeclared_field_admission cls d (sp_input_model sp) = Some (Inr seen)) \<longleftrightarrow>
      (\<forall>m. (sp_input_model sp, m) \<in> (class_rel cls)\<^sup>* \<longrightarrow> \<not> mc_extra_allow (cls m))"
    by (simp add: reject_undeclared_field_admission_def exact(1) class_ok_def extra_check_def) blast
  have cred: "(\<exists>seen. audit_credential_fields cls d (sp_input_model sp) = Some (Inr seen)) \<longleftrightarrow>
      (\<forall>m. (sp_input_model sp, m) \<in> (class_rel cls)\<^sup>* \<longrightarrow>
        (\<forall>f \<in> set (mc_fields (cls m)). list_ex is_credential_key (field_names f) \<longrightarrow>
          is_secret_ref_only (fi_annotation (snd f))))"
    by (simp add: audit_credential_fields_def exact(1) class_ok_def credential_check_def
        credential_field_ok_def split del: split_of_bool)
  have total: "reject_undeclared_field_admission cls d (sp_input_model sp) \<noteq> None"
    "audit_credential_fields cls d (sp_input_model sp) \<noteq> None"
    using exact(2) by (simp_all add: reject_undeclared_field_admission_def audit_credential_fields_def)
  show "spec_violation cls d sp \<noteq> None"
    using total by (auto simp: spec_violation_def split: option.splits sum.splits)
  have "spec_violation cls d sp = Some None \<longleftrightarrow>
      sp_name sp \<noteq> [] \<and> sp_version sp \<noteq> [] \<and> 0 < sp_timeout_seconds sp \<and>
      (\<exists>seen. reject_undeclared_field_admission cls d (sp_input_model sp) = Some (Inr seen)) \<and>
      (\<exists>seen. audit_credential_fields cls d (sp_input_model sp) = Some (Inr seen))"
    by (auto simp: spec_violation_def split: option.splits sum.splits)
  with extra cred show "spec_violation cls d sp = Some None \<longleftrightarrow>
      sp_name sp \<noteq> [] \<and> sp_version sp \<noteq> [] \<and> 0 < sp_timeout_seconds sp \<and>
      (\<forall>m. (sp_input_model sp, m) \<in> (class_rel cls)\<^sup>* \<longrightarrow>
         \<not> mc_extra_allow (cls m) \<and>
         (\<forall>f \<in> set (mc_fields (cls m)). list_ex is_credential_key (field_names f) \<longrightarrow>
            is_secret_ref_only (fi_annotation (snd f))))" by blast
qed

text \<open>
  C26: Registration rejects exactly the unsound specifications. For a model graph with finitely many
  classes and a depth bound above their number, the checks of a specification always end, and they
  accept it exactly when it has a name, a version and a positive deadline, no model class reachable
  from the input model (through nesting, containers, unions, and cycles) admits undeclared fields,
  and every reachable field with a credential name, or an alias that is one, can only hold a secret
  handle.
\<close>

theorem spec_accepted_exact:
  assumes "finite U" "sp_input_model sp \<in> U" "\<And>m. m \<in> U \<Longrightarrow> set (children (cls m)) \<subseteq> U" "card U < d"
  shows "spec_violation cls d sp \<noteq> None \<and>
    (spec_violation cls d sp = Some None \<longleftrightarrow>
      sp_name sp \<noteq> [] \<and> sp_version sp \<noteq> [] \<and> 0 < sp_timeout_seconds sp \<and>
      (\<forall>m. (sp_input_model sp, m) \<in> (class_rel cls)\<^sup>* \<longrightarrow>
         \<not> mc_extra_allow (cls m) \<and>
         (\<forall>f \<in> set (mc_fields (cls m)). list_ex is_credential_key (field_names f) \<longrightarrow>
            is_secret_ref_only (fi_annotation (snd f)))))"
  using spec_accepted_exact_facts[where cls = cls, OF assms] by blast

text \<open>A recursive input model with a credential held as a handle.\<close>

definition example_class :: model_class where
  "example_class =
     \<lparr>mc_fields = [(''query'', \<lparr>fi_annotation = AScalar ''str'', fi_aliases = []\<rparr>),
                   (''api_key'', \<lparr>fi_annotation = AApp [ASecretRef, ANoneType], fi_aliases = []\<rparr>),
                   (''next'', \<lparr>fi_annotation = AApp [AClass ''Query'', ANoneType], fi_aliases = []\<rparr>)],
      mc_extra_allow = False\<rparr>"

definition example_secret_class :: model_class where
  "example_secret_class =
     \<lparr>mc_fields = [(''secret_id'', \<lparr>fi_annotation = AScalar ''str'', fi_aliases = []\<rparr>)], mc_extra_allow = False\<rparr>"

definition example_classes :: "string \<Rightarrow> model_class" where
  "example_classes n = (if n = ''Query'' then example_class else example_secret_class)"

definition example_spec :: tool_spec where
  "example_spec = \<lparr>sp_name = ''search'', sp_version = ''1.0'', sp_sensitivity = ReadOnly,
     sp_input_model = ''Query'', sp_timeout_seconds = 30, sp_classify = None,
     sp_parse = Inr, sp_parse_output = Inr\<rparr>"

theorem spec_accepted_exact_witness:
  "spec_violation example_classes 3 example_spec = Some None \<and>
   \<not> mc_extra_allow (example_classes ''SecretRef'')"
proof -
  let ?U = "{''Query'', ''SecretRef''}"
  have closed: "\<And>m. m \<in> ?U \<Longrightarrow> set (children (example_classes m)) \<subseteq> ?U"
    by (auto simp: children_def example_classes_def example_class_def example_secret_class_def)
  have U: "finite ?U" "sp_input_model example_spec \<in> ?U" "card ?U < 3" by (simp_all add: example_spec_def)
  have acc: "spec_violation example_classes 3 example_spec = Some None" by code_simp
  have step: "(''Query'', ''SecretRef'') \<in> (class_rel example_classes)\<^sup>*"
    by (rule r_into_rtrancl) (simp add: class_rel_def children_def example_classes_def example_class_def)
  from spec_accepted_exact[OF U(1,2) closed U(3)] acc step show ?thesis
    by (auto simp: example_spec_def)
qed

end
