(* ===== verification/Prompts.thy ===== *)
theory Prompts
  imports Provenance Redaction Records
begin

text \<open>
  \<^verbatim>\<open>src/core/tools/prompts.py\<close> and \<^verbatim>\<open>src/core/tools/secrets.py\<close>: templates, their registry, rendered
  prompts that verify themselves, the renderer and the identity verifier; and the secret providers.
  \<open>H\<close> is SHA-256 of the UTF-8 encoding.
\<close>

subsection \<open>Secret providers\<close>

text \<open>\<open>MappingSecretProvider\<close>: handle to value, in insertion order.\<close>

type_synonym secret_store = "(string \<times> string) list"

definition new_secret_store :: "secret_store \<Rightarrow> string list + secret_store" where
  "new_secret_store secrets =
     (let too_short = sort (map fst (filter (\<lambda>(i, v). length v < min_redactable_secret_length) secrets))
      in if too_short \<noteq> [] then Inl too_short else Inr secrets)"

definition secret_values :: "secret_store \<Rightarrow> string list" where
  "secret_values store = remdups (map snd store)"

text \<open>\<open>None\<close> is \<open>UnknownSecretError\<close>.\<close>

definition resolve_secret :: "secret_store \<Rightarrow> string \<Rightarrow> string option" where
  "resolve_secret store secret_id = map_of store secret_id"

text \<open>\<open>None\<close> is success, otherwise the number of short values.\<close>

definition validate_secret_provider :: "string list \<Rightarrow> nat option" where
  "validate_secret_provider held =
     (let too_short = filter (\<lambda>v. length v < min_redactable_secret_length) held
      in if too_short \<noteq> [] then Some (length too_short) else None)"

subsection \<open>Templates\<close>

record template =
  pt_id :: string
  pt_version :: string
  pt_source :: string

datatype prompt_error =
  NeedsId | NeedsVersion | NeedsBody | DifferentBody | NotRegisteredPrompt | AmbiguousVersion
| MissingVariable string | InvalidPlaceholder | SecretTooShortToRedact | BindingError contract_error
| TemplateDigestMismatch | RenderedDigestMismatch | BareBindingRefused | NotARenderedPrompt
| ChangedAfterAdmission | IdentityUncheckable | NotTheRegisteredTemplate

definition new_template :: "template \<Rightarrow> prompt_error + template" where
  "new_template t = raise_or (checks
     [(pt_id t = [], NeedsId), (pt_version t = [], NeedsVersion), (pt_source t = [], NeedsBody)]) t"

text \<open>\<open>string.Template.substitute\<close>: names are ASCII identifiers, \<open>$$\<close> is a dollar sign.\<close>

definition id_start :: "char \<Rightarrow> bool" where
  "id_start c = (is_lower c \<or> is_upper c \<or> c = CHR ''_'')"

definition id_char :: "char \<Rightarrow> bool" where
  "id_char c = (id_start c \<or> is_digit c)"

function substitute :: "(string \<rightharpoonup> string) \<Rightarrow> string \<Rightarrow> prompt_error + string" where
  "substitute vars [] = Inr []"
| "substitute vars (c # cs) =
     (if c \<noteq> CHR ''$'' then bind_result (substitute vars cs) (\<lambda>s. Inr (c # s))
      else
       (case cs of
          [] \<Rightarrow> Inl InvalidPlaceholder
        | d # ds \<Rightarrow>
           if d = CHR ''$'' then bind_result (substitute vars ds) (\<lambda>s. Inr (CHR ''$'' # s))
           else if id_start d then
            (case vars (takeWhile id_char cs) of
               None \<Rightarrow> Inl (MissingVariable (takeWhile id_char cs))
             | Some v \<Rightarrow> bind_result (substitute vars (dropWhile id_char cs)) (\<lambda>s. Inr (v @ s)))
           else if d = CHR ''{'' then
            (let name = takeWhile id_char ds; rest = dropWhile id_char ds in
             if name \<noteq> [] \<and> id_start (hd name) \<and> rest \<noteq> [] \<and> hd rest = CHR ''}'' then
              (case vars name of
                 None \<Rightarrow> Inl (MissingVariable name)
               | Some v \<Rightarrow> bind_result (substitute vars (tl rest)) (\<lambda>s. Inr (v @ s)))
             else Inl InvalidPlaceholder)
           else Inl InvalidPlaceholder))"
  by pat_completeness auto
termination
proof (relation "measure (\<lambda>(vars, s). length s)", goal_cases)
  case (4 vars c cs d ds v)
  then show ?case using length_dropWhile_le[of id_char cs] by (simp add: le_imp_less_Suc)
next
  case (5 vars c cs d ds name rest v)
  have "length (dropWhile id_char ds) \<le> length ds" by (rule length_dropWhile_le)
  with 5 show ?case by simp
qed auto

subsection \<open>The registry\<close>

type_synonym prompt_registry = "((string \<times> string) \<times> template) list"

definition registry_put :: "template \<Rightarrow> prompt_registry \<Rightarrow> prompt_registry" where
  "registry_put t reg =
     (let k = (pt_id t, pt_version t) in
      if k \<in> set (map fst reg) then map (\<lambda>(a, u). if a = k then (a, t) else (a, u)) reg else reg @ [(k, t)])"

definition register_template :: "template \<Rightarrow> prompt_registry \<Rightarrow> prompt_error + prompt_registry" where
  "register_template t reg =
     (if some_and (\<lambda>old. pt_source old \<noteq> pt_source t) (map_of reg (pt_id t, pt_version t))
      then Inl DifferentBody else Inr (registry_put t reg))"

definition get_template :: "string \<Rightarrow> string option \<Rightarrow> prompt_registry \<Rightarrow> prompt_error + template" where
  "get_template pid version reg =
     (case version of
        Some v \<Rightarrow> (case map_of reg (pid, v) of None \<Rightarrow> Inl NotRegisteredPrompt | Some t \<Rightarrow> Inr t)
      | None \<Rightarrow>
         (case map snd (filter (\<lambda>(k, t). fst k = pid) reg) of
            [] \<Rightarrow> Inl NotRegisteredPrompt
          | [t] \<Rightarrow> Inr t
          | _ \<Rightarrow> Inl AmbiguousVersion))"

definition digest_of :: "(string \<Rightarrow> digest) \<Rightarrow> string \<Rightarrow> string \<Rightarrow> prompt_registry \<Rightarrow> digest option" where
  "digest_of H pid version reg = map_option (\<lambda>t. H (pt_source t)) (map_of reg (pid, version))"

subsection \<open>Rendered prompts\<close>

record rendered =
  rp_template_source :: string
  rp_text :: string
  rp_binding :: prompt_binding

text \<open>The constructor's check and \<open>verify\<close> are the same two comparisons.\<close>

definition rendered_violation :: "(string \<Rightarrow> digest) \<Rightarrow> rendered \<Rightarrow> prompt_error option" where
  "rendered_violation H p = checks
     [(\<not> matches_template H (rp_binding p) (rp_template_source p), TemplateDigestMismatch),
      (\<not> matches_rendered H (rp_binding p) (rp_text p), RenderedDigestMismatch)]"

definition render :: "(string \<Rightarrow> digest) \<Rightarrow> prompt_registry \<Rightarrow> string list \<Rightarrow> string \<Rightarrow> string option \<Rightarrow>
    (string \<rightharpoonup> string) \<Rightarrow> prompt_error + rendered" where
  "render H reg held pid version vars =
     bind_result (get_template pid version reg) (\<lambda>t.
     bind_result (substitute vars (pt_source t)) (\<lambda>filled.
       (case redact held (VStr filled) of
          Inr (VStr text) \<Rightarrow>
            (case for_rendered H (pt_id t) (pt_version t) (pt_source t) text of
               Inl e \<Rightarrow> Inl (BindingError e)
             | Inr b \<Rightarrow>
                 (let p = \<lparr>rp_template_source = pt_source t, rp_text = text, rp_binding = b\<rparr>
                  in raise_or (rendered_violation H p) p))
        | _ \<Rightarrow> Inl SecretTooShortToRedact)))"

text \<open>What a caller may hand over where a rendered prompt is expected.\<close>

datatype prompt_argument = RenderedArg rendered | BareBinding prompt_binding | OtherArg

fun require_rendered_prompt :: "(string \<Rightarrow> digest) \<Rightarrow> prompt_argument \<Rightarrow> prompt_error + rendered" where
  "require_rendered_prompt H (BareBinding b) = Inl BareBindingRefused"
| "require_rendered_prompt H OtherArg = Inl NotARenderedPrompt"
| "require_rendered_prompt H (RenderedArg p) = raise_or (rendered_violation H p) p"

definition verify_identity :: "(string \<Rightarrow> digest) \<Rightarrow> prompt_registry \<Rightarrow> prompt_argument \<Rightarrow>
    pinned_versions option \<Rightarrow> prompt_error + rendered" where
  "verify_identity H reg arg pinned =
     bind_result (require_rendered_prompt H arg) (\<lambda>p.
       (let b = rp_binding p in
        case Option.bind pinned (\<lambda>v. content_hash_of v PinPrompt (pb_id b)) of
          Some d \<Rightarrow> if pb_template b \<noteq> d then Inl ChangedAfterAdmission else Inr p
        | None \<Rightarrow>
           (case digest_of H (pb_id b) (pb_version b) reg of
              None \<Rightarrow> Inl IdentityUncheckable
            | Some d \<Rightarrow> if pb_template b \<noteq> d then Inl NotTheRegisteredTemplate else Inr p)))"

subsection \<open>What the registry and the verifier guarantee\<close>

lemma map_of_registry_put:
  "map_of (registry_put t reg) = (map_of reg)((pt_id t, pt_version t) \<mapsto> t)"
proof -
  have over: "map_of (map (\<lambda>(a, u). if a = k then (a, t) else (a, u)) reg) =
      (map_of reg)(k := map_option (\<lambda>_. t) (map_of reg k))" for k
    by (induction reg) (auto simp: fun_eq_iff)
  show ?thesis
  proof (cases "map_of reg (pt_id t, pt_version t)")
    case None
    then have "(pt_id t, pt_version t) \<notin> set (map fst reg)" by (simp add: map_of_eq_None_iff)
    with None show ?thesis
      by (auto simp: registry_put_def Let_def fun_eq_iff map_add_def split: option.split)
  next
    case (Some u)
    then have "(pt_id t, pt_version t) \<in> set (map fst reg)"
      by (metis (no_types) list.set_map map_of_eq_None_iff option.distinct(1))
    with Some over show ?thesis by (auto simp: registry_put_def Let_def fun_eq_iff)
  qed
qed

text \<open>Every entry is stored under its own identity.\<close>

definition registry_ok :: "prompt_registry \<Rightarrow> bool" where
  "registry_ok reg \<longleftrightarrow> (\<forall>(k, t) \<in> set reg. k = (pt_id t, pt_version t)) \<and> distinct (map fst reg)"

lemma registry_put_ok: "registry_ok reg \<Longrightarrow> registry_ok (registry_put t reg)"
proof -
  assume ok: "registry_ok reg"
  have fst: "map fst (map (\<lambda>(a, u). if a = k then (a, t) else (a, u)) reg) = map fst reg" for k
    by (induction reg) auto
  show ?thesis
  proof (cases "(pt_id t, pt_version t) \<in> set (map fst reg)")
    case True
    then have put: "registry_put t reg =
        map (\<lambda>(a, u). if a = (pt_id t, pt_version t) then (a, t) else (a, u)) reg"
      by (simp add: registry_put_def)
    show ?thesis unfolding put registry_ok_def fst using ok by (fastforce simp: registry_ok_def split: if_splits)
  next
    case False
    with ok show ?thesis by (auto simp: registry_put_def registry_ok_def)
  qed
qed

fun register_all :: "template list \<Rightarrow> prompt_registry \<Rightarrow> prompt_registry" where
  "register_all [] reg = reg"
| "register_all (t # ts) reg =
     register_all ts (case register_template t reg of Inl e \<Rightarrow> reg | Inr reg' \<Rightarrow> reg')"

lemma register_keeps:
  "map_of reg k = Some u \<Longrightarrow>
   \<exists>u'. map_of (case register_template t reg of Inl e \<Rightarrow> reg | Inr reg' \<Rightarrow> reg') k = Some u' \<and> pt_source u' = pt_source u"
  by (auto simp: register_template_def map_of_registry_put)

lemma register_all_keeps:
  "map_of reg k = Some u \<Longrightarrow> \<exists>u'. map_of (register_all ts reg) k = Some u' \<and> pt_source u' = pt_source u"
proof (induction ts arbitrary: reg u)
  case (Cons t ts)
  from register_keeps[OF Cons(2), of t] obtain u' where
    "map_of (case register_template t reg of Inl e \<Rightarrow> reg | Inr reg' \<Rightarrow> reg') k = Some u'" "pt_source u' = pt_source u"
    by blast
  with Cons(1)[OF this(1)] show ?case by auto
qed simp

lemma get_template_mem:
  "get_template pid version reg = Inr t \<Longrightarrow> registry_ok reg \<Longrightarrow>
   map_of reg (pt_id t, pt_version t) = Some t \<and> pt_id t = pid"
proof -
  assume g: "get_template pid version reg = Inr t" and ok: "registry_ok reg"
  have "\<exists>k. (k, t) \<in> set reg \<and> fst k = pid"
  proof (cases version)
    case (Some v)
    with g show ?thesis by (auto simp: get_template_def split: option.splits dest: map_of_SomeD)
  next
    case None
    with g have "map snd (filter (\<lambda>(k, t). fst k = pid) reg) = [t]"
      by (auto simp: get_template_def split: list.splits)
    then have "t \<in> snd ` set (filter (\<lambda>(k, t). fst k = pid) reg)" by (metis list.set_intros(1) list.set_map)
    then show ?thesis by auto
  qed
  then obtain k where k: "(k, t) \<in> set reg" "fst k = pid" by blast
  with ok have "k = (pt_id t, pt_version t)" "distinct (map fst reg)" by (auto simp: registry_ok_def)
  with k show ?thesis by (simp add: map_of_is_SomeI)
qed

lemma verify_identity_Inr:
  "verify_identity H reg arg pinned = Inr p \<longleftrightarrow>
     arg = RenderedArg p \<and> rendered_violation H p = None \<and>
     Some (pb_template (rp_binding p)) =
       (case Option.bind pinned (\<lambda>v. content_hash_of v PinPrompt (pb_id (rp_binding p))) of
          Some d \<Rightarrow> Some d
        | None \<Rightarrow> digest_of H (pb_id (rp_binding p)) (pb_version (rp_binding p)) reg)"
  by (cases arg) (auto simp: verify_identity_def Let_def split: option.splits if_splits)

text \<open>
  A prompt that passes the verifier is the one its identity names. Its text and template hash
  to its binding, and the template digest is the one the run was pinned to, or without a pin the
  one of the template registered under that identifier and version, which no later registration
  can change.
\<close>

theorem verified_prompt_is_named:
  assumes "verify_identity H reg arg pinned = Inr p"
  shows "pb_rendered (rp_binding p) = H (rp_text p) \<and>
    (case Option.bind pinned (\<lambda>v. content_hash_of v PinPrompt (pb_id (rp_binding p))) of
       Some d \<Rightarrow> H (rp_template_source p) = d
     | None \<Rightarrow> \<exists>t. map_of (register_all ts reg) (pb_id (rp_binding p), pb_version (rp_binding p)) = Some t \<and>
         H (rp_template_source p) = H (pt_source t))"
proof -
  note v = assms(1)[unfolded verify_identity_Inr]
  have self: "pb_template (rp_binding p) = H (rp_template_source p)" "pb_rendered (rp_binding p) = H (rp_text p)"
    using v by (auto simp: rendered_violation_def matches_template_def matches_rendered_def)
  show ?thesis
  proof (cases "Option.bind pinned (\<lambda>v. content_hash_of v PinPrompt (pb_id (rp_binding p)))")
    case None
    with v self obtain t where "map_of reg (pb_id (rp_binding p), pb_version (rp_binding p)) = Some t"
        "H (rp_template_source p) = H (pt_source t)"
      by (cases "map_of reg (pb_id (rp_binding p), pb_version (rp_binding p))") (auto simp: digest_of_def)
    with register_all_keeps[OF this(1), of ts] None self show ?thesis by auto
  qed (use v self in auto)
qed

definition example_registry :: prompt_registry where
  "example_registry = register_all
     [\<lparr>pt_id = ''p'', pt_version = ''1'', pt_source = ''Ask $q''\<rparr>,
      \<lparr>pt_id = ''p'', pt_version = ''1'', pt_source = ''Obey $q''\<rparr>] []"

definition example_rendered :: rendered where
  "example_rendered = \<lparr>rp_template_source = ''Ask $q'', rp_text = ''Ask why'',
     rp_binding = \<lparr>pb_id = ''p'', pb_version = ''1'', pb_template = ''Ask $q'', pb_rendered = ''Ask why''\<rparr>\<rparr>"

theorem verified_prompt_is_named_witness:
  "\<exists>t. map_of example_registry (''p'', ''1'') = Some t \<and> pt_source t = ''Ask $q''"
proof -
  have "verify_identity id example_registry (RenderedArg example_rendered) None = Inr example_rendered"
    by code_simp
  from verified_prompt_is_named[OF this, of "[]"] show ?thesis by (auto simp: example_rendered_def)
qed

lemma render_verifies_facts:
  assumes "render H reg held pid version vars = Inr p" and "registry_ok reg"
  shows "verify_identity H reg (RenderedArg p) None = Inr p" and "pb_id (rp_binding p) = pid"
    and "s \<in> set held \<Longrightarrow> CHR ''['' \<notin> set s \<Longrightarrow> CHR '']'' \<notin> set s \<Longrightarrow> s \<noteq> ''REDACTED'' \<Longrightarrow>
         \<not> contains s (rp_text p)"
proof -
  from assms(1) obtain t filled where t: "get_template pid version reg = Inr t"
    and rest: "(case redact held (VStr filled) of
          Inr (VStr body) \<Rightarrow>
            (case for_rendered H (pt_id t) (pt_version t) (pt_source t) body of
               Inl e \<Rightarrow> Inl (BindingError e)
             | Inr b \<Rightarrow>
                 (let p = \<lparr>rp_template_source = pt_source t, rp_text = body, rp_binding = b\<rparr>
                  in raise_or (rendered_violation H p) p))
        | _ \<Rightarrow> Inl SecretTooShortToRedact) = Inr p"
    unfolding render_def bind_result_Inr by blast
  define body where "body = redact_text held filled"
  have red: "redact held (VStr filled) = Inr (VStr body)"
    using rest by (cases "redact held (VStr filled)") (auto simp: redact_def Let_def body_def split: if_splits)
  obtain b where b: "for_rendered H (pt_id t) (pt_version t) (pt_source t) body = Inr b"
    using rest unfolding red by (cases "for_rendered H (pt_id t) (pt_version t) (pt_source t) body") auto
  have p: "p = \<lparr>rp_template_source = pt_source t, rp_text = body, rp_binding = b\<rparr>"
      "rendered_violation H p = None"
    using rest by (auto simp: red b Let_def)
  from get_template_mem[OF t assms(2)] have reg: "map_of reg (pt_id t, pt_version t) = Some t" "pt_id t = pid"
    by auto
  have bind: "b = \<lparr>pb_id = pt_id t, pb_version = pt_version t, pb_template = H (pt_source t), pb_rendered = H body\<rparr>"
    using b by (auto simp: for_rendered_def Let_def)
  show "verify_identity H reg (RenderedArg p) None = Inr p"
    using p(2) reg by (simp add: verify_identity_Inr p(1) bind digest_of_def)
  show "pb_id (rp_binding p) = pid" using reg by (simp add: p(1) bind)
  show "\<not> contains s (rp_text p)"
    if "s \<in> set held" "CHR ''['' \<notin> set s" "CHR '']'' \<notin> set s" "s \<noteq> ''REDACTED''"
  proof -
    from red have body: "body = redact_text held filled"
      and long: "filter (\<lambda>s. length s < min_redactable_secret_length) held = []"
      by (auto simp: redact_def Let_def split: if_splits)
    from long that have "separable s" by (auto simp: separable_def filter_empty_conv)
    from redact_text_removes[OF this that(1)] show ?thesis by (simp add: p(1) body)
  qed
qed

text \<open>
  Whatever the renderer renders verifies against its own registry, and the text it pinned, the
  only text that may be sent, contains no held secret that is separable from the marker, whichever
  variable it came in through.
\<close>

theorem render_verifies:
  assumes "render H reg held pid version vars = Inr p" and "registry_ok reg"
  shows "verify_identity H reg (RenderedArg p) None = Inr p \<and> pb_id (rp_binding p) = pid \<and>
    (s \<in> set held \<longrightarrow> CHR ''['' \<notin> set s \<longrightarrow> CHR '']'' \<notin> set s \<longrightarrow> s \<noteq> ''REDACTED'' \<longrightarrow>
       \<not> contains s (rp_text p))"
  using render_verifies_facts[OF assms] by blast

theorem render_verifies_witness:
  "\<not> contains ''hunter22'' ''Ask a[REDACTED]b''"
proof -
  have run: "render (\<lambda>m. replicate 64 CHR ''0'') example_registry [''hunter22''] ''p'' None [''q'' \<mapsto> ''ahunter22b''] =
      Inr \<lparr>rp_template_source = ''Ask $q'', rp_text = ''Ask a[REDACTED]b'',
        rp_binding = \<lparr>pb_id = ''p'', pb_version = ''1'', pb_template = replicate 64 CHR ''0'',
          pb_rendered = replicate 64 CHR ''0''\<rparr>\<rparr>" by code_simp
  have ok: "registry_ok example_registry" by code_simp
  from render_verifies[OF run ok] show ?thesis by simp
qed

end
