(* ===== verification/Circuit.thy ===== *)
theory Circuit
  imports Complex_Main Prelude
begin

text \<open>
  \<^verbatim>\<open>src/core/tools/circuit.py\<close>: the three-state circuit breaker and the registry of breakers per
  tool. Instants and durations are microseconds.
\<close>

datatype breaker_state = Closed | Open | HalfOpen

record breaker =
  br_threshold :: int
  br_cooldown :: int
  br_state :: breaker_state
  br_failures :: int
  br_opened_at :: "instant option"
  br_in_flight :: bool

definition default_failure_threshold :: int where "default_failure_threshold = 5"
definition default_cooldown_seconds :: rat where "default_cooldown_seconds = 30"

text \<open>\<open>timedelta(seconds=s)\<close>: microseconds, rounded half to even.\<close>

definition seconds_to_micros :: "rat \<Rightarrow> int" where
  "seconds_to_micros s =
     (let x = s * 1000000; f = \<lfloor>x\<rfloor>; r = x - of_int f in
      if r < 1/2 then f else if r > 1/2 then f + 1 else if even f then f else f + 1)"

datatype breaker_error = BadThreshold | BadCooldown

definition new_breaker :: "int \<Rightarrow> rat \<Rightarrow> breaker_error + breaker" where
  "new_breaker threshold cooldown =
     (if threshold < 1 then Inl BadThreshold
      else if cooldown \<le> 0 then Inl BadCooldown
      else Inr \<lparr>br_threshold = threshold, br_cooldown = seconds_to_micros cooldown, br_state = Closed,
                br_failures = 0, br_opened_at = None, br_in_flight = False\<rparr>)"

definition allows :: "instant \<Rightarrow> breaker \<Rightarrow> bool \<times> breaker" where
  "allows now b =
     (case br_state b of
        Closed \<Rightarrow> (True, b)
      | HalfOpen \<Rightarrow> if br_in_flight b then (False, b) else (True, b\<lparr>br_in_flight := True\<rparr>)
      | Open \<Rightarrow>
          if some_and (\<lambda>opened. br_cooldown b \<le> now - opened) (br_opened_at b)
          then (True, b\<lparr>br_state := HalfOpen, br_in_flight := True\<rparr>)
          else (False, b))"

definition record_success :: "breaker \<Rightarrow> breaker" where
  "record_success b =
     b\<lparr>br_state := Closed, br_failures := 0, br_opened_at := None, br_in_flight := False\<rparr>"

definition record_abandoned :: "breaker \<Rightarrow> breaker" where
  "record_abandoned b = b\<lparr>br_in_flight := False\<rparr>"

definition open_breaker :: "instant \<Rightarrow> breaker \<Rightarrow> breaker" where
  "open_breaker now b =
     b\<lparr>br_state := Open, br_opened_at := Some now, br_failures := br_threshold b\<rparr>"

definition record_failure :: "instant \<Rightarrow> breaker \<Rightarrow> breaker" where
  "record_failure now b =
     (let b1 = b\<lparr>br_in_flight := False\<rparr> in
      if br_state b1 = HalfOpen then open_breaker now b1
      else (let b2 = b1\<lparr>br_failures := br_failures b1 + 1\<rparr> in
            if br_threshold b2 \<le> br_failures b2 then open_breaker now b2 else b2))"

text \<open>The registry: one breaker per tool name, created by the factory on first use.\<close>

type_synonym breakers = "string \<rightharpoonup> breaker"

definition for_tool :: "breaker \<Rightarrow> string \<Rightarrow> breakers \<Rightarrow> breaker \<times> breakers" where
  "for_tool fresh tool bs =
     (case bs tool of Some b \<Rightarrow> (b, bs) | None \<Rightarrow> (fresh, bs(tool \<mapsto> fresh)))"

subsection \<open>Histories\<close>

datatype breaker_event = Query instant | Success | Abandoned | Failure instant

text \<open>One event: the answer of a query, and the next state.\<close>

definition breaker_step :: "breaker_event \<Rightarrow> breaker \<Rightarrow> bool option \<times> breaker" where
  "breaker_step e b =
     (case e of
        Query now \<Rightarrow> (case allows now b of (granted, b') \<Rightarrow> (Some granted, b'))
      | Success \<Rightarrow> (None, record_success b)
      | Abandoned \<Rightarrow> (None, record_abandoned b)
      | Failure now \<Rightarrow> (None, record_failure now b))"

fun breaker_run :: "breaker_event list \<Rightarrow> breaker \<Rightarrow> bool option list \<times> breaker" where
  "breaker_run [] b = ([], b)"
| "breaker_run (e # es) b =
     (case breaker_step e b of (a, b1) \<Rightarrow> (case breaker_run es b1 of (as, b2) \<Rightarrow> (a # as, b2)))"

definition breaker_inv :: "breaker \<Rightarrow> bool" where
  "breaker_inv b \<longleftrightarrow>
     1 \<le> br_threshold b \<and> 0 \<le> br_failures b \<and>
     (case br_state b of
        Closed \<Rightarrow> br_failures b < br_threshold b \<and> br_opened_at b = None \<and> \<not> br_in_flight b
      | Open \<Rightarrow> br_failures b = br_threshold b \<and> br_opened_at b \<noteq> None \<and> \<not> br_in_flight b
      | HalfOpen \<Rightarrow> br_failures b = br_threshold b \<and> br_opened_at b \<noteq> None)"

lemma new_breaker_inv: "new_breaker t c = Inr b \<Longrightarrow> breaker_inv b"
  by (auto simp: new_breaker_def breaker_inv_def split: if_splits)

lemma breaker_step_inv: "breaker_inv b \<Longrightarrow> breaker_inv (snd (breaker_step e b))"
  by (cases e; cases "br_state b")
    (auto simp: breaker_step_def allows_def record_success_def record_abandoned_def record_failure_def
      open_breaker_def breaker_inv_def Let_def)

lemma breaker_step_config:
  "br_threshold (snd (breaker_step e b)) = br_threshold b"
  "br_cooldown (snd (breaker_step e b)) = br_cooldown b"
  by (cases e; cases "br_state b";
      simp add: breaker_step_def allows_def record_success_def record_abandoned_def record_failure_def
      open_breaker_def Let_def)+

lemma breaker_run_inv: "breaker_inv b \<Longrightarrow> breaker_inv (snd (breaker_run es b))"
proof (induction es arbitrary: b)
  case (Cons e es)
  from Cons(1)[OF breaker_step_inv[OF Cons(2), of e]] show ?case by (simp add: split_beta)
qed simp

lemma breaker_run_config:
  "br_threshold (snd (breaker_run es b)) = br_threshold b \<and> br_cooldown (snd (breaker_run es b)) = br_cooldown b"
  by (induction es arbitrary: b) (simp_all add: split_beta breaker_step_config)

definition is_query :: "breaker_event \<Rightarrow> bool" where
  "is_query e = (case e of Query now \<Rightarrow> True | _ \<Rightarrow> False)"

definition is_failure :: "breaker_event \<Rightarrow> bool" where
  "is_failure e = (case e of Failure now \<Rightarrow> True | _ \<Rightarrow> False)"

text \<open>Failures alone, from a closed breaker.\<close>

lemma failures_open:
  "breaker_inv b \<Longrightarrow> br_state b \<noteq> HalfOpen \<Longrightarrow> list_all is_failure es \<Longrightarrow>
   br_state (snd (breaker_run es b)) =
     (if br_state b = Open \<or> br_threshold b \<le> br_failures b + int (length es) then Open else Closed)"
proof (induction es arbitrary: b)
  case Nil
  then show ?case by (cases "br_state b") (auto simp: breaker_inv_def)
next
  case (Cons e es)
  from Cons(4) obtain now where e: "e = Failure now" by (cases e) (auto simp: is_failure_def)
  have inv: "breaker_inv (snd (breaker_step e b))" by (rule breaker_step_inv[OF Cons(2)])
  have step: "br_state (snd (breaker_step e b)) =
        (if br_state b = Open \<or> br_threshold b \<le> br_failures b + 1 then Open else Closed) \<and>
      (br_state b = Closed \<and> br_failures b + 1 < br_threshold b \<longrightarrow>
         br_failures (snd (breaker_step e b)) = br_failures b + 1)"
    using Cons(2,3)
    by (cases "br_state b") (auto simp: e breaker_step_def record_failure_def open_breaker_def breaker_inv_def Let_def)
  then have "br_state (snd (breaker_step e b)) \<noteq> HalfOpen" by auto
  from Cons(1)[OF inv this] Cons(4) step breaker_step_config(1)[of e b] show ?case
    using Cons(3) by (cases "br_state b") (auto simp: split_beta)
qed

text \<open>Queries alone, from a breaker that is not closed.\<close>

lemma queries_one_probe:
  "breaker_inv b \<Longrightarrow> br_state b \<noteq> Closed \<Longrightarrow> list_all is_query es \<Longrightarrow>
   length (filter (\<lambda>a. a = Some True) (fst (breaker_run es b))) \<le> (if br_in_flight b then 0 else 1)"
proof (induction es arbitrary: b)
  case (Cons e es)
  from Cons(4) obtain now where e: "e = Query now" by (cases e) (auto simp: is_query_def)
  have inv: "breaker_inv (snd (breaker_step e b))" by (rule breaker_step_inv[OF Cons(2)])
  have nc: "br_state (snd (breaker_step e b)) \<noteq> Closed"
    using Cons(3) by (cases "br_state b") (auto simp: e breaker_step_def allows_def)
  have slot: "fst (breaker_step e b) = Some True \<Longrightarrow> \<not> br_in_flight b \<and> br_in_flight (snd (breaker_step e b))"
    "fst (breaker_step e b) \<noteq> Some True \<Longrightarrow> br_in_flight (snd (breaker_step e b)) = br_in_flight b"
    using Cons(2,3) by (cases "br_state b"; auto simp: e breaker_step_def allows_def breaker_inv_def split: if_splits)+
  from Cons(1)[OF inv nc] Cons(4) have IH: "length (filter (\<lambda>a. a = Some True) (fst (breaker_run es (snd (breaker_step e b)))))
      \<le> (if br_in_flight (snd (breaker_step e b)) then 0 else 1)" by simp
  show ?case
  proof (cases "fst (breaker_step e b) = Some True")
    case True
    with IH slot(1)[OF True] show ?thesis by (simp add: split_beta)
  next
    case False
    with IH slot(2)[OF False] show ?thesis by (simp add: split_beta)
  qed
qed simp

lemma breaker_discipline_facts:
  assumes "new_breaker threshold cooldown = Inr b0" and "b = snd (breaker_run history b0)"
  shows "br_state b = Closed \<Longrightarrow> br_failures b = 0 \<Longrightarrow> list_all is_failure es \<Longrightarrow>
      br_state (snd (breaker_run es b)) = (if threshold \<le> int (length es) then Open else Closed)"
    and "br_state b = Open \<Longrightarrow> \<exists>opened. br_opened_at b = Some opened \<and>
      (fst (allows now b) \<longleftrightarrow> opened + seconds_to_micros cooldown \<le> now)"
    and "br_state b \<noteq> Closed \<Longrightarrow> list_all is_query es \<Longrightarrow>
      length (filter (\<lambda>a. a = Some True) (fst (breaker_run es b))) \<le> 1"
proof -
  have inv: "breaker_inv b" using assms new_breaker_inv breaker_run_inv by blast
  have config: "br_threshold b = threshold" "br_cooldown b = seconds_to_micros cooldown"
    using assms breaker_run_config[of history b0] by (auto simp: new_breaker_def split: if_splits)
  show "br_state b = Closed \<Longrightarrow> br_failures b = 0 \<Longrightarrow> list_all is_failure es \<Longrightarrow>
      br_state (snd (breaker_run es b)) = (if threshold \<le> int (length es) then Open else Closed)"
    using failures_open[OF inv] config by simp
  show "br_state b = Open \<Longrightarrow> \<exists>opened. br_opened_at b = Some opened \<and>
      (fst (allows now b) \<longleftrightarrow> opened + seconds_to_micros cooldown \<le> now)"
    using inv config by (auto simp: breaker_inv_def allows_def)
  show "br_state b \<noteq> Closed \<Longrightarrow> list_all is_query es \<Longrightarrow>
      length (filter (\<lambda>a. a = Some True) (fst (breaker_run es b))) \<le> 1"
    using queries_one_probe[OF inv, of es] by (cases "br_in_flight b") auto
qed



text \<open>
  The single probe is not protected from results of calls admitted earlier. A call that
  started before the breaker opened and is withdrawn during the half-open trial gives back the
  probe's slot: a second probe is admitted while the first is still in flight.
\<close>

theorem stale_abandon_admits_second_probe:
  "fst (breaker_run [Query 0, Query 0, Failure 1, Query 31000000, Query 31000001, Abandoned, Query 31000002]
     \<lparr>br_threshold = 1, br_cooldown = 30000000, br_state = Closed, br_failures = 0, br_opened_at = None,
      br_in_flight = False\<rparr>) =
   [Some True, Some True, None, Some True, Some False, None, Some True]"
  by code_simp

end
