(* ===== verification/Boundary_Base.thy ===== *)
theory Boundary_Base
  imports Lifecycle Tool_Spec Prompts Circuit
begin

text \<open>
  The setting of \<^verbatim>\<open>src/core/tools/boundary.py\<close> and \<^verbatim>\<open>src/core/tools/audit.py\<close>: what a call does to the
  outside, how its steps are composed, and what the outside answers.

  The boundary is one coroutine. Its effects are a trace: rows committed with their event, events
  handed to the publisher, and the start of the handler. An \<open>action\<close> is a step of the coroutine:
  it reads and changes the circuit breakers, appends to the trace, and returns or raises. What the
  stores, the publisher, the clock, the handler and the event loop answer during one call is the
  record \<open>answers\<close>; theorems quantify over it.
\<close>

subsection \<open>Effects\<close>

record audit_event =
  ae_event_id :: string
  ae_run_id :: string
  ae_task_id :: string
  ae_attempt_id :: string
  ae_aggregate_id :: string
  ae_event_type :: string
  ae_occurred_at :: instant
  ae_producer :: string
  ae_dedup_key :: string
  ae_payload :: pyval
  ae_destinations :: "string list"
  ae_correlation_id :: "string option"

definition event_requested :: string where "event_requested = ''tool.invocation.requested''"
definition event_completed :: string where "event_completed = ''tool.invocation.completed''"
definition producer_name :: string where "producer_name = ''tool_boundary''"

text \<open>\<open>Persisted\<close> is a committed transaction: the row, its event, the tenant, and the decision.\<close>

datatype happening =
  Persisted invocation audit_event "string option" cap_decision
| Published audit_event
| HandlerStarted pyval

datatype raised =
  NaiveClock | NotRegistered string | ShadowedVersion | PromptRefused prompt_error | NoPromptVerifier
| RedactionFailed | NotAMapping | NoTrustLabels | RequestInvalid contract_error | DecisionUnusable
| IdempotencyConflict "string list" | InvocationConflict invocation
| RecordInvalid contract_error | OutcomeInvalid outcome_error
| RequestedPublication string | CancelledError | External string

subsection \<open>Actions\<close>

type_synonym 'a action = "breakers \<Rightarrow> happening list \<times> breakers \<times> (raised + 'a)"

definition returns :: "'a \<Rightarrow> 'a action" where
  "returns a bs = ([], bs, Inr a)"

definition raises :: "raised \<Rightarrow> 'a action" where
  "raises e bs = ([], bs, Inl e)"

definition emit :: "happening \<Rightarrow> unit action" where
  "emit h bs = ([h], bs, Inr ())"

definition bind_action :: "'a action \<Rightarrow> ('a \<Rightarrow> 'b action) \<Rightarrow> 'b action" where
  "bind_action m f bs =
     (case m bs of (es, bs1, r) \<Rightarrow>
        (case r of Inl e \<Rightarrow> (es, bs1, Inl e)
         | Inr a \<Rightarrow> (case f a bs1 of (es2, bs2, r2) \<Rightarrow> (es @ es2, bs2, r2))))"

text \<open>The result as a value, as \<open>try\<close> sees it.\<close>

definition try_action :: "'a action \<Rightarrow> (raised + 'a) action" where
  "try_action m bs = (case m bs of (es, bs1, r) \<Rightarrow> (es, bs1, Inr r))"

definition lift_result :: "raised + 'a \<Rightarrow> 'a action" where
  "lift_result r bs = ([], bs, r)"

text \<open>A method of the breaker of a tool, which the registry creates on first use.\<close>

definition on_breaker :: "breaker \<Rightarrow> string \<Rightarrow> (breaker \<Rightarrow> 'a \<times> breaker) \<Rightarrow> 'a action" where
  "on_breaker fresh tool f bs =
     (case for_tool fresh tool bs of (b, bs1) \<Rightarrow>
        (case f b of (a, b1) \<Rightarrow> ([], bs1(tool \<mapsto> b1), Inr a)))"

subsection \<open>What the outside answers\<close>

datatype store_answer = Stored | StoreConflict invocation | StoreError string | StoreCancelled
datatype publish_answer = Delivered | PublishError string | PublishCancelled

text \<open>A cancellation while a record is written: none, before the write ended, or just after.\<close>

datatype cancel_point = NotCancelled | CancelledDuring | CancelledAfter

datatype handler_answer = HandlerReturned pyval | HandlerRaised string | HandlerCancelled

text \<open>One renewal by the lease heartbeat; a clock that turned naive raises, too.\<close>

datatype renewal = Renewed | RenewalRejected | RenewalRaised string | RenewalCancelled

record answers =
  an_now :: py_datetime
  an_later :: py_datetime
  an_ids :: "nat \<Rightarrow> string"
  an_lookup :: "string + invocation option"
  an_pending :: "string + invocation option"
  an_reserve :: "string + invocation option"
  an_persist_requested :: store_answer
  an_publish_requested :: publish_answer
  an_cancel_admission :: bool
  an_persist_terminal :: store_answer
  an_publish_terminal :: publish_answer
  an_cancel_terminal :: cancel_point
  an_token_set :: bool
  an_token_signalled :: bool
  an_external_cancel :: bool
  an_handler :: "handler_answer option"
  an_renewals :: "renewal list"
  an_ticks_dispatch :: nat
  an_ticks_wait :: nat
  an_ticks_done :: nat

text \<open>
  What a boundary is built from. \<open>dp_hash\<close> and \<open>dp_json\<close> are SHA-256 and \<open>json.dumps\<close>;
  \<open>dp_float_str\<close> is \<open>str\<close> of a float and \<open>dp_repr\<close> is \<open>repr\<close> of a string; \<open>dp_too_deep\<close> says that a recursive walk of a payload exceeds the
  interpreter's stack, and \<open>dp_repr_error\<close> is the text of the error of an unrepresentable payload.
\<close>

record deployment =
  dp_specs :: "string \<rightharpoonup> tool_spec"
  dp_secrets :: "string list"
  dp_destinations :: "string list"
  dp_verifier :: "prompt_registry option"
  dp_fresh_breaker :: breaker
  dp_lease_aware :: bool
  dp_pending_aware :: bool
  dp_admission :: bool
  dp_decide :: "cap_request \<Rightarrow> grant list \<Rightarrow> instant \<Rightarrow> approval list \<Rightarrow> cap_decision"
  dp_hash :: "string \<Rightarrow> digest"
  dp_json :: "pyval \<Rightarrow> string"
  dp_float_str :: "rat \<Rightarrow> string"
  dp_repr :: "string \<Rightarrow> string"
  dp_too_deep :: "pyval \<Rightarrow> bool"
  dp_repr_error :: "pyval \<Rightarrow> string"

text \<open>The arguments of \<open>invoke\<close>.\<close>

record call_args =
  ca_tool :: string
  ca_run_id :: string
  ca_task_id :: string
  ca_attempt_id :: string
  ca_org :: "string option"
  ca_scope :: string
  ca_arguments :: "(string \<times> pyval) list"
  ca_trust :: trust
  ca_grants :: "grant list"
  ca_approvals :: "approval list"
  ca_output_trust :: "trust option"
  ca_key :: "string option"
  ca_prompt :: "prompt_argument option"
  ca_pinned :: "pinned_versions option"
  ca_token :: bool

subsection \<open>Reasoning about actions\<close>

text \<open>
  \<open>ensures Q m\<close>: whatever the breakers are, the trace and the result of \<open>m\<close> satisfy \<open>Q\<close>.
\<close>

definition ensures :: "(happening list \<Rightarrow> raised + 'a \<Rightarrow> bool) \<Rightarrow> 'a action \<Rightarrow> bool" where
  "ensures Q m \<longleftrightarrow> (\<forall>bs. case m bs of (es, bs1, r) \<Rightarrow> Q es r)"

lemma ensuresD: "ensures Q m \<Longrightarrow> m bs = (es, bs1, r) \<Longrightarrow> Q es r"
  by (auto simp: ensures_def dest: spec[of _ bs])

lemma ensures_weaken: "ensures P m \<Longrightarrow> (\<And>es r. P es r \<Longrightarrow> Q es r) \<Longrightarrow> ensures Q m"
  by (simp add: ensures_def split_beta)

lemma ensures_returns [simp]: "ensures Q (returns a) = Q [] (Inr a)"
  by (simp add: ensures_def returns_def)

lemma ensures_raises [simp]: "ensures Q (raises e) = Q [] (Inl e)"
  by (simp add: ensures_def raises_def)

lemma ensures_lift [simp]: "ensures Q (lift_result r) = Q [] r"
  by (simp add: ensures_def lift_result_def)

lemma ensures_emit [simp]: "ensures Q (emit h) = Q [h] (Inr ())"
  by (simp add: ensures_def emit_def)

lemma ensures_try [simp]: "ensures Q (try_action m) = ensures (\<lambda>es r. Q es (Inr r)) m"
  by (simp add: ensures_def try_action_def split_beta)

lemma ensures_bind:
  assumes "ensures P m"
    and "\<And>es e. P es (Inl e) \<Longrightarrow> Q es (Inl e)"
    and "\<And>es a. P es (Inr a) \<Longrightarrow> ensures (\<lambda>es2 r. Q (es @ es2) r) (f a)"
  shows "ensures Q (bind_action m f)"
  unfolding ensures_def
proof
  fix bs
  obtain es bs1 r where m: "m bs = (es, bs1, r)" by (cases "m bs") auto
  with assms(1) have P: "P es r" by (rule ensuresD)
  show "case bind_action m f bs of (es, bs1, r) \<Rightarrow> Q es r"
  proof (cases r)
    case (Inl e)
    with P assms(2) show ?thesis by (simp add: bind_action_def m)
  next
    case (Inr a)
    obtain es2 bs2 r2 where f: "f a bs1 = (es2, bs2, r2)" by (cases "f a bs1") auto
    from assms(3)[OF P[unfolded Inr]] f have "Q (es @ es2) r2" by (rule ensuresD)
    then show ?thesis by (simp add: bind_action_def m Inr f)
  qed
qed

lemma ensures_bind_lift [simp]:
  "ensures Q (bind_action (lift_result r) f) = (case r of Inl e \<Rightarrow> Q [] (Inl e) | Inr a \<Rightarrow> ensures Q (f a))"
  by (auto simp: ensures_def bind_action_def lift_result_def split: sum.split)

lemma ensures_bind_emit [simp]:
  "ensures Q (bind_action (emit h) f) = ensures (\<lambda>es r. Q (h # es) r) (f ())"
  by (simp add: ensures_def bind_action_def emit_def split_beta)

lemma ensures_bind_breaker:
  "(\<And>a. ensures Q (f a)) \<Longrightarrow> ensures Q (bind_action (on_breaker fresh tool g) f)"
  by (rule ensures_bind[where P = "\<lambda>es r. es = [] \<and> (\<exists>a. r = Inr a)"])
    (auto simp: ensures_def on_breaker_def split: prod.split)

end
