(* ===== verification/Boundary.thy ===== *)
theory Boundary
  imports Boundary_Base
begin

text \<open>
  \<^verbatim>\<open>src/core/tools/boundary.py\<close>: one mediated tool call, step by step in the order of the code.
  \<open>invoke\<close> is \<open>ToolBoundary.invoke\<close>; its parts are named after the methods they model. The instant
  \<open>now\<close> is read once; the second reading of the clock happens at most once per call and is
  \<open>an_later\<close>.
\<close>

subsection \<open>Registration, clock, prompt\<close>

definition register :: "tool_spec \<Rightarrow> (string \<rightharpoonup> tool_spec) \<Rightarrow> raised + (string \<rightharpoonup> tool_spec)" where
  "register sp specs =
     (if some_and (\<lambda>old. sp_version old \<noteq> sp_version sp) (specs (sp_name sp)) then Inl ShadowedVersion
      else Inr (specs(sp_name sp \<mapsto> sp)))"

definition specification_of :: "(string \<rightharpoonup> tool_spec) \<Rightarrow> string \<Rightarrow> raised + tool_spec" where
  "specification_of specs tool = (case specs tool of Some sp \<Rightarrow> Inr sp | None \<Rightarrow> Inl (NotRegistered tool))"

definition now_of :: "py_datetime \<Rightarrow> raised + instant" where
  "now_of t = (case t of Aware now \<Rightarrow> Inr now | Naive n \<Rightarrow> Inl NaiveClock)"

definition verify_prompt :: "deployment \<Rightarrow> prompt_argument option \<Rightarrow> pinned_versions option \<Rightarrow>
    raised + rendered option" where
  "verify_prompt dp prompt pinned =
     (case prompt of
        None \<Rightarrow> Inr None
      | Some arg \<Rightarrow>
         (case dp_verifier dp of
            None \<Rightarrow> Inl NoPromptVerifier
          | Some reg \<Rightarrow>
             (case verify_identity (dp_hash dp) reg arg pinned of
                Inl e \<Rightarrow> Inl (PromptRefused e) | Inr p \<Rightarrow> Inr (Some p))))"

definition lease_grace_min_seconds :: rat where "lease_grace_min_seconds = 1"
definition lease_grace_ratio :: rat where "lease_grace_ratio = 1/4"

definition lease_duration :: "rat \<Rightarrow> int" where
  "lease_duration timeout =
     seconds_to_micros (timeout + max lease_grace_min_seconds (timeout * lease_grace_ratio))"

subsection \<open>Input preparation\<close>

datatype prepared = Accepted pyval pyval digest | Rejected pyval digest string

fun prepared_input :: "prepared \<Rightarrow> pyval" where
  "prepared_input (Accepted v w d) = w"
| "prepared_input (Rejected w d reason) = w"

fun prepared_digest :: "prepared \<Rightarrow> digest" where
  "prepared_digest (Accepted v w d) = d"
| "prepared_digest (Rejected w d reason) = d"

definition digest_object :: "deployment \<Rightarrow> pyval \<Rightarrow> raised + digest" where
  "digest_object dp v =
     (case boundary_digest (dp_json dp) (dp_hash dp) v of None \<Rightarrow> Inl NotAMapping | Some d \<Rightarrow> Inr d)"

text \<open>\<open>_json_ready\<close> turns frozen containers into plain ones; handles are in handle form already.\<close>

definition redact_object :: "deployment \<Rightarrow> pyval \<Rightarrow> raised + pyval" where
  "redact_object dp v =
     (case redact (dp_secrets dp) (thaw_value v) of Inl e \<Rightarrow> Inl RedactionFailed | Inr w \<Rightarrow> Inr w)"

definition redact_detail :: "deployment \<Rightarrow> string option \<Rightarrow> raised + string option" where
  "redact_detail dp detail =
     (case detail of
        None \<Rightarrow> Inr None
      | Some s \<Rightarrow>
         (case redact (dp_secrets dp) (VStr s) of
            Inr (VStr t) \<Rightarrow> Inr (Some t) | _ \<Rightarrow> Inl RedactionFailed))"

definition unprocessable_input :: pyval where
  "unprocessable_input = VDict [(''unprocessable_input'', VBool True)]"

definition reject_input :: "deployment \<Rightarrow> (string \<times> pyval) list \<Rightarrow> string \<Rightarrow> raised + prepared" where
  "reject_input dp arguments error =
     bind_result
       (if dp_too_deep dp (VDict arguments) then Inr unprocessable_input
        else bind_result (redact_object dp (VDict arguments)) (\<lambda>w.
          Inr (if validate_json_object w = None then unprocessable_input else w)))
       (\<lambda>w. bind_result (digest_object dp w) (\<lambda>d.
          bind_result (redact_detail dp (Some error)) (\<lambda>reason.
            Inr (Rejected w d (case reason of None \<Rightarrow> [] | Some r \<Rightarrow> r)))))"

definition prepare_input :: "deployment \<Rightarrow> tool_spec \<Rightarrow> (string \<times> pyval) list \<Rightarrow> raised + prepared" where
  "prepare_input dp sp arguments =
     (case sp_parse sp (VDict arguments) of
        Inl error \<Rightarrow> reject_input dp arguments error
      | Inr parsed \<Rightarrow>
          if dp_too_deep dp parsed then reject_input dp arguments (dp_repr_error dp parsed)
          else bind_result (redact_object dp parsed) (\<lambda>w.
            if validate_json_object w = None then reject_input dp arguments (dp_repr_error dp parsed)
            else bind_result (digest_object dp w) (\<lambda>d. Inr (Accepted parsed w d))))"

definition derive_idempotency_key :: "deployment \<Rightarrow> tool_spec \<Rightarrow> call_args \<Rightarrow> digest \<Rightarrow> raised + string" where
  "derive_idempotency_key dp sp ca d = digest_object dp (VDict
     [(''tool_name'', VStr (sp_name sp)), (''tool_version'', VStr (sp_version sp)),
      (''run_id'', VStr (ca_run_id ca)), (''task_id'', VStr (ca_task_id ca)),
      (''attempt_id'', VStr (ca_attempt_id ca)), (''capability_scope'', VStr (ca_scope ca)),
      (''input_sha256'', VStr d)])"

text \<open>\<open>idempotency_key or derived\<close>: an empty key counts as absent.\<close>

definition effective_key :: "deployment \<Rightarrow> tool_spec \<Rightarrow> call_args \<Rightarrow> digest \<Rightarrow> raised + string" where
  "effective_key dp sp ca d =
     (case ca_key ca of
        None \<Rightarrow> derive_idempotency_key dp sp ca d
      | Some k \<Rightarrow> if k = [] then derive_idempotency_key dp sp ca d else Inr k)"

subsection \<open>The call and its record\<close>

record call =
  cl_spec :: tool_spec
  cl_id :: string
  cl_run_id :: string
  cl_task_id :: string
  cl_attempt_id :: string
  cl_org :: "string option"
  cl_scope :: string
  cl_key :: string
  cl_input :: pyval
  cl_trust :: trust
  cl_kind :: producer_kind
  cl_prompt :: "rendered option"
  cl_requested_at :: instant
  cl_lease_expires_at :: instant

fun invocation_status_value :: "invocation_status \<Rightarrow> string" where
  "invocation_status_value InvRequested = ''requested''"
| "invocation_status_value InvRunning = ''running''"
| "invocation_status_value InvSucceeded = ''succeeded''"
| "invocation_status_value InvFailed = ''failed''"
| "invocation_status_value InvCancelled = ''cancelled''"
| "invocation_status_value InvTimedOut = ''timed_out''"
| "invocation_status_value InvDenied = ''denied''"

fun denial_value :: "denial_reason \<Rightarrow> string" where
  "denial_value NoMatchingGrant = ''no_matching_grant''"
| "denial_value ToolVersionNotGranted = ''tool_version_not_granted''"
| "denial_value GrantNotYetValid = ''grant_not_yet_valid''"
| "denial_value GrantExpired = ''grant_expired''"
| "denial_value SensitivityMismatch = ''sensitivity_mismatch''"
| "denial_value InputTrustExceedsGrant = ''input_trust_exceeds_grant''"
| "denial_value ApprovalMissing = ''approval_missing''"
| "denial_value ApprovalExpired = ''approval_expired''"
| "denial_value ApprovalFingerprintMismatch = ''approval_fingerprint_mismatch''"

definition requested_invocation :: "call \<Rightarrow> invocation" where
  "requested_invocation cl =
     \<lparr>ti_id = cl_id cl, ti_run_id = cl_run_id cl, ti_task_id = cl_task_id cl, ti_attempt_id = cl_attempt_id cl,
      ti_tool_name = sp_name (cl_spec cl), ti_tool_version = sp_version (cl_spec cl),
      ti_status = InvRequested, ti_scope = cl_scope cl, ti_idempotency_key = cl_key cl,
      ti_input = cl_input cl, ti_input_trust = cl_trust cl, ti_output = None, ti_output_trust = None,
      ti_producer_kind = cl_kind cl, ti_prompt_binding = map_option rp_binding (cl_prompt cl),
      ti_error_code = None, ti_status_reason = None, ti_requested_at = cl_requested_at cl,
      ti_completed_at = None, ti_lease_owner = Some (cl_id cl),
      ti_lease_expires = Some (cl_lease_expires_at cl)\<rparr>"

definition terminal_invocation :: "call \<Rightarrow> outcome_status \<Rightarrow> instant \<Rightarrow> string option \<Rightarrow> pyval option \<Rightarrow>
    trust option \<Rightarrow> invocation" where
  "terminal_invocation cl status completed_at reason output output_trust =
     \<lparr>ti_id = cl_id cl, ti_run_id = cl_run_id cl, ti_task_id = cl_task_id cl, ti_attempt_id = cl_attempt_id cl,
      ti_tool_name = sp_name (cl_spec cl), ti_tool_version = sp_version (cl_spec cl),
      ti_status = invocation_status_for status, ti_scope = cl_scope cl, ti_idempotency_key = cl_key cl,
      ti_input = cl_input cl, ti_input_trust = cl_trust cl, ti_output = output, ti_output_trust = output_trust,
      ti_producer_kind = cl_kind cl, ti_prompt_binding = map_option rp_binding (cl_prompt cl),
      ti_error_code = (if status = Succeeded then None else error_codes status),
      ti_status_reason = (if reason = Some [] then None else reason), ti_requested_at = cl_requested_at cl,
      ti_completed_at = Some completed_at, ti_lease_owner = None, ti_lease_expires = None\<rparr>"

definition audit_event_of :: "deployment \<Rightarrow> invocation \<Rightarrow> string \<Rightarrow> pyval \<Rightarrow> string \<Rightarrow> audit_event" where
  "audit_event_of dp row event_type payload event_id =
     \<lparr>ae_event_id = event_id, ae_run_id = ti_run_id row, ae_task_id = ti_task_id row,
      ae_attempt_id = ti_attempt_id row, ae_aggregate_id = ti_id row, ae_event_type = event_type,
      ae_occurred_at = (case ti_completed_at row of Some t \<Rightarrow> t | None \<Rightarrow> ti_requested_at row),
      ae_producer = producer_name,
      ae_dedup_key = ti_id row @ '':'' @ event_type @ '':'' @ invocation_status_value (ti_status row),
      ae_payload = payload, ae_destinations = dp_destinations dp, ae_correlation_id = Some (ti_run_id row)\<rparr>"

text \<open>\<open>_record\<close>: persist, then publish; \<open>wrap\<close> is \<open>wrap_publication_failure\<close>.\<close>

definition record_call :: "deployment \<Rightarrow> call \<Rightarrow> invocation \<Rightarrow> string \<Rightarrow> pyval \<Rightarrow> string \<Rightarrow> cap_decision \<Rightarrow>
    bool \<Rightarrow> store_answer \<Rightarrow> publish_answer \<Rightarrow> unit action" where
  "record_call dp cl row event_type payload event_id decision wrap stored published =
     (let event = audit_event_of dp row event_type payload event_id in
      case stored of
        StoreConflict other \<Rightarrow> raises (InvocationConflict other)
      | StoreError e \<Rightarrow> raises (External e)
      | StoreCancelled \<Rightarrow> raises CancelledError
      | Stored \<Rightarrow>
          bind_action (emit (Persisted row event (cl_org cl) decision)) (\<lambda>_.
          bind_action (emit (Published event)) (\<lambda>_.
            case published of
              Delivered \<Rightarrow> returns ()
            | PublishError e \<Rightarrow> raises (if wrap then RequestedPublication e else External e)
            | PublishCancelled \<Rightarrow> raises CancelledError)))"

subsection \<open>Answering from a record\<close>

definition replayable_record_statuses :: "invocation_status set" where
  "replayable_record_statuses = {InvSucceeded, InvFailed, InvCancelled, InvTimedOut}"

definition require_same_request :: "deployment \<Rightarrow> invocation \<Rightarrow> tool_spec \<Rightarrow> string \<Rightarrow> digest \<Rightarrow> raised option" where
  "require_same_request dp recorded sp scope d =
     (case digest_object dp (ti_input recorded) of
        Inl e \<Rightarrow> Some e
      | Inr recorded_digest \<Rightarrow>
          (let mismatches =
             (if ti_tool_name recorded \<noteq> sp_name sp then [''tool_name''] else []) @
             (if ti_tool_version recorded \<noteq> sp_version sp then [''tool_version''] else []) @
             (if ti_scope recorded \<noteq> scope then [''capability_scope''] else []) @
             (if recorded_digest \<noteq> d then [''input''] else [])
           in if mismatches \<noteq> [] then Some (IdempotencyConflict mismatches) else None))"

definition make_outcome :: "outcome_status \<Rightarrow> invocation \<Rightarrow> retry \<Rightarrow> cap_decision \<Rightarrow> string option \<Rightarrow>
    raised + outcome" where
  "make_outcome status row retry decision detail =
     (case new_outcome status row retry (Some decision) detail of
        Inl e \<Rightarrow> Inl (OutcomeInvalid e) | Inr oc \<Rightarrow> Inr oc)"

definition replay :: "invocation \<Rightarrow> cap_decision \<Rightarrow> raised + outcome" where
  "replay recorded decision =
     (let status = outcome_status_of recorded in
      make_outcome status recorded (retry_dispositions status) decision (ti_status_reason recorded))"

definition in_progress :: "invocation \<Rightarrow> cap_decision \<Rightarrow> raised + outcome" where
  "in_progress row decision =
     make_outcome InProgress row Retriable decision (Some ''invocation is already in progress; retry later'')"

text \<open>
  A row already holds the key: the same request is answered from it (\<open>Some\<close>), a denied row answers
  nothing (\<open>None\<close>), another request is a conflict.
\<close>

definition answer_from :: "deployment \<Rightarrow> invocation \<Rightarrow> tool_spec \<Rightarrow> string \<Rightarrow> digest \<Rightarrow> cap_decision \<Rightarrow>
    raised + outcome option" where
  "answer_from dp recorded sp scope d decision =
     (case require_same_request dp recorded sp scope d of
        Some e \<Rightarrow> Inl e
      | None \<Rightarrow>
          if ti_status recorded \<in> replayable_record_statuses
          then bind_result (replay recorded decision) (\<lambda>oc. Inr (Some oc))
          else if ti_status recorded \<in> {InvRequested, InvRunning}
          then bind_result (in_progress recorded decision) (\<lambda>oc. Inr (Some oc))
          else Inr None)"

text \<open>Where the code raises the conflict again when the row answers nothing.\<close>

definition settle_conflict :: "deployment \<Rightarrow> invocation \<Rightarrow> tool_spec \<Rightarrow> string \<Rightarrow> digest \<Rightarrow> cap_decision \<Rightarrow>
    raised + outcome" where
  "settle_conflict dp recorded sp scope d decision =
     bind_result (answer_from dp recorded sp scope d decision) (\<lambda>a.
       case a of Some oc \<Rightarrow> Inr oc | None \<Rightarrow> Inl (InvocationConflict recorded))"

subsection \<open>The terminal record\<close>

definition terminate :: "deployment \<Rightarrow> answers \<Rightarrow> call \<Rightarrow> nat \<Rightarrow> outcome_status \<Rightarrow> instant \<Rightarrow> cap_decision \<Rightarrow>
    string option \<Rightarrow> (pyval \<times> trust) option \<Rightarrow> retry option \<Rightarrow> outcome action" where
  "terminate dp an cl k status completed_at decision detail output retry =
     bind_action (lift_result (redact_detail dp detail)) (\<lambda>reason.
       let row = terminal_invocation cl status completed_at reason (map_option fst output) (map_option snd output) in
       case invocation_violation row of
         Some e \<Rightarrow> raises (RecordInvalid e)
       | None \<Rightarrow>
           bind_action (try_action (record_call dp cl row event_completed
             (VDict [(''tool_name'', VStr (sp_name (cl_spec cl))), (''tool_version'', VStr (sp_version (cl_spec cl))),
                     (''outcome'', VStr (outcome_value status)),
                     (''error_code'', (case ti_error_code row of None \<Rightarrow> VNone | Some c \<Rightarrow> VStr c)),
                     (''capability_scope'', VStr (cl_scope cl))])
             (an_ids an k) decision False (an_persist_terminal an) (an_publish_terminal an))) (\<lambda>r.
           case (an_cancel_terminal an, r) of
             (CancelledDuring, Inl e) \<Rightarrow> raises e
           | (CancelledDuring, Inr _) \<Rightarrow> raises CancelledError
           | (CancelledAfter, _) \<Rightarrow> raises CancelledError
           | (NotCancelled, Inl (InvocationConflict other)) \<Rightarrow>
               bind_action (lift_result (digest_object dp (cl_input cl))) (\<lambda>d.
                 lift_result (settle_conflict dp other (cl_spec cl) (cl_scope cl) d decision))
           | (NotCancelled, Inl e) \<Rightarrow> raises e
           | (NotCancelled, Inr _) \<Rightarrow>
               lift_result (make_outcome status row (case retry of Some x \<Rightarrow> x | None \<Rightarrow> retry_dispositions status)
                 decision (ti_status_reason row))))"

end
