(* ===== verification/Durable_Store.thy ===== *)
theory Durable_Store
  imports Event_Stream Boundary
begin

text \<open>
  \<^verbatim>\<open>src/agents/tools/durable_audit.py\<close> with \<^verbatim>\<open>src/repositories/tool_invocation_repository.py\<close> and the
  table of \<^verbatim>\<open>src/models/db/tool_invocation.py\<close>: the store of mediated calls that survives a restart.
  A method is one transaction: it returns its result and the tables, unchanged when it raises and
  rolls back. Row locks serialise the transactions, so a history is a sequence of them.
  \<open>U\<close> is \<open>uuid.UUID\<close> on the text of an organization, \<open>None\<close> where it raises; \<open>D\<close> is
  \<open>boundary_digest\<close> of a mapping.
\<close>

subsection \<open>Tables\<close>

record stored_row =
  sr_inv :: invocation
  sr_org :: string
  sr_input_sha :: digest
  sr_output_sha :: "digest option"
  sr_effect :: "effect option"
  sr_grant :: "string option"
  sr_approval :: "string option"
  sr_denial :: "denial_reason option"
  sr_fingerprint :: "digest option"

text \<open>
  Task rows give run and organization, attempt rows task, run and organization. The identifiers of the
  grants and approvals that were made durable are what a row may refer to.
\<close>

record store =
  so_rows :: "stored_row list"
  so_stream :: stream
  so_tasks :: "string \<rightharpoonup> string \<times> string"
  so_attempts :: "string \<rightharpoonup> string \<times> string \<times> string"
  so_grants :: "string set"
  so_approvals :: "string set"

datatype store_error =
  OrgMissing | OrgInvalid | ContextMissing string | NotDurable string | EventMismatch string
| ImmutableChanged string | Integrity | ConflictWith invocation | NaiveInstant | DecisionMissing
| RowInvalid contract_error | StreamError stream_error

text \<open>
  The check constraints of the table. A check rejects a row when it is false; a comparison with
  \<open>NULL\<close> is not false.
\<close>

definition row_rejected :: "stored_row \<Rightarrow> bool" where
  "row_rejected r \<longleftrightarrow>
     (sr_effect r = Some Deny \<and> ti_status (sr_inv r) \<noteq> InvDenied) \<or>
     (ti_status (sr_inv r) = InvSucceeded \<and> sr_effect r \<noteq> Some Allow) \<or>
     (sr_effect r = Some Allow \<and> sr_grant r = None) \<or>
     (sr_effect r = Some Deny \<and> sr_denial r = None) \<or>
     (sr_effect r = Some Allow \<and> sr_denial r \<noteq> None) \<or>
     (sr_effect r = Some Deny \<and> sr_approval r \<noteq> None) \<or>
     some_and (\<lambda>c. c < ti_requested_at (sr_inv r)) (ti_completed_at (sr_inv r)) \<or>
     length (sr_input_sha r) \<noteq> 64 \<or> some_and (\<lambda>d. length d \<noteq> 64) (sr_output_sha r) \<or>
     some_and (\<lambda>d. length d \<noteq> 64) (sr_fingerprint r) \<or>
     \<not> ((sr_effect r \<noteq> None \<and> sr_fingerprint r \<noteq> None) \<or>
        (sr_effect r = None \<and> sr_fingerprint r = None \<and> ti_error_code (sr_inv r) = Some ''invalid_input''))"

text \<open>The unique constraints: the invocation identifier, and the key of an attempt among rows that are not denied.\<close>

definition rows_clash :: "stored_row \<Rightarrow> stored_row \<Rightarrow> bool" where
  "rows_clash r q \<longleftrightarrow>
     ti_id (sr_inv q) = ti_id (sr_inv r) \<or>
     (ti_status (sr_inv q) \<noteq> InvDenied \<and> ti_status (sr_inv r) \<noteq> InvDenied \<and>
      ti_attempt_id (sr_inv q) = ti_attempt_id (sr_inv r) \<and>
      ti_idempotency_key (sr_inv q) = ti_idempotency_key (sr_inv r))"

text \<open>The foreign keys to grants and approvals; \<open>NULL\<close> refers to nothing.\<close>

definition dangling :: "store \<Rightarrow> stored_row \<Rightarrow> bool" where
  "dangling s r \<longleftrightarrow> some_and (\<lambda>g. g \<notin> so_grants s) (sr_grant r) \<or> some_and (\<lambda>a. a \<notin> so_approvals s) (sr_approval r)"

definition insert_row :: "stored_row \<Rightarrow> store \<Rightarrow> store_error + store" where
  "insert_row r s =
     (if row_rejected r \<or> dangling s r \<or> list_ex (rows_clash r) (so_rows s) then Inl Integrity
      else Inr (s\<lparr>so_rows := so_rows s @ [r]\<rparr>))"

text \<open>An update of the row with the identifier of \<open>r\<close>.\<close>

definition update_row :: "stored_row \<Rightarrow> store \<Rightarrow> store_error + store" where
  "update_row r s =
     (if row_rejected r \<or>
         list_ex (\<lambda>q. ti_id (sr_inv q) \<noteq> ti_id (sr_inv r) \<and> rows_clash r q) (so_rows s) then Inl Integrity
      else Inr (s\<lparr>so_rows := map (\<lambda>q. if ti_id (sr_inv q) = ti_id (sr_inv r) then r else q) (so_rows s)\<rparr>))"

subsection \<open>The repository\<close>

text \<open>\<open>model_dump()\<close> of a JSON field: frozen by the contract, serialised to plain containers.\<close>

definition dumped :: "pyval \<Rightarrow> pyval" where
  "dumped v = (case validate_json_object v of Some w \<Rightarrow> serialize_json_object w | None \<Rightarrow> v)"

definition dumped_invocation :: "invocation \<Rightarrow> invocation" where
  "dumped_invocation t = t\<lparr>ti_input := dumped (ti_input t), ti_output := map_option dumped (ti_output t)\<rparr>"

definition row_for :: "(pyval \<Rightarrow> digest) \<Rightarrow> invocation \<Rightarrow> string \<Rightarrow> cap_decision option \<Rightarrow> stored_row" where
  "row_for D t org decision =
     \<lparr>sr_inv = dumped_invocation t, sr_org = org, sr_input_sha = D (dumped (ti_input t)),
      sr_output_sha = map_option (\<lambda>v. D (dumped v)) (ti_output t),
      sr_effect = map_option cd_effect decision, sr_grant = Option.bind decision cd_grant_id,
      sr_approval = Option.bind decision cd_approval_id, sr_denial = Option.bind decision cd_denial_reason,
      sr_fingerprint = map_option cd_fingerprint decision\<rparr>"

definition create_tool_invocation :: "(pyval \<Rightarrow> digest) \<Rightarrow> invocation \<Rightarrow> string \<Rightarrow> cap_decision option \<Rightarrow> store \<Rightarrow>
    store_error + store" where
  "create_tool_invocation D t org decision s =
     (if decision = None \<and> ti_error_code t \<noteq> Some ''invalid_input'' then Inl DecisionMissing
      else insert_row (row_for D t org decision) s)"

definition transition_row :: "(pyval \<Rightarrow> digest) \<Rightarrow> invocation \<Rightarrow> stored_row \<Rightarrow> stored_row" where
  "transition_row D t r =
     r\<lparr>sr_inv := (sr_inv r)\<lparr>ti_status := ti_status t, ti_output := map_option dumped (ti_output t),
         ti_output_trust := ti_output_trust t, ti_error_code := ti_error_code t,
         ti_status_reason := ti_status_reason t, ti_completed_at := ti_completed_at t,
         ti_lease_owner := ti_lease_owner t, ti_lease_expires := ti_lease_expires t\<rparr>,
       sr_output_sha := map_option (\<lambda>v. D (dumped v)) (ti_output t)\<rparr>"

text \<open>\<open>record_transition\<close>, for the row the caller has found in this organization.\<close>

definition record_transition :: "(pyval \<Rightarrow> digest) \<Rightarrow> invocation \<Rightarrow> stored_row \<Rightarrow> store \<Rightarrow> store_error + store" where
  "record_transition D t r s = update_row (transition_row D t r) s"

subsection \<open>Context\<close>

definition normalize_context :: "(string \<Rightarrow> string option) \<Rightarrow> string \<Rightarrow> string option \<Rightarrow> string \<Rightarrow> string option \<Rightarrow>
    store_error + string" where
  "normalize_context U run task attempt org =
     (if run = [] then Inl (ContextMissing ''run_id'')
      else if task = Some [] then Inl (ContextMissing ''task_id'')
      else if attempt = [] then Inl (ContextMissing ''attempt_id'')
      else
       (case org of
          None \<Rightarrow> Inl OrgMissing
        | Some text \<Rightarrow>
            if blank text then Inl OrgMissing
            else (case U text of None \<Rightarrow> Inl OrgInvalid | Some u \<Rightarrow> Inr u)))"

definition require_parents :: "store \<Rightarrow> string \<Rightarrow> string \<Rightarrow> string \<Rightarrow> string \<Rightarrow> store_error option" where
  "require_parents s run task attempt org = checks
     [(\<not> some_and (\<lambda>(o', n). o' = Some org) (st_runs (so_stream s) run), NotDurable ''run_id''),
      (so_tasks s task \<noteq> Some (run, org), NotDurable ''task_id''),
      (so_attempts s attempt \<noteq> Some (task, run, org), NotDurable ''attempt_id'')]"

definition event_association :: "audit_event \<Rightarrow> invocation \<Rightarrow> store_error option" where
  "event_association e t = checks
     [(ae_run_id e \<noteq> ti_run_id t, EventMismatch ''run_id''),
      (ae_task_id e \<noteq> ti_task_id t, EventMismatch ''task_id''),
      (ae_attempt_id e \<noteq> ti_attempt_id t, EventMismatch ''attempt_id''),
      (ae_aggregate_id e \<noteq> ti_id t, EventMismatch ''aggregate_id'')]"

definition transition_identity :: "invocation \<Rightarrow> invocation \<Rightarrow> store_error option" where
  "transition_identity old t = checks
     [(ti_run_id old \<noteq> ti_run_id t, ImmutableChanged ''run_id''),
      (ti_task_id old \<noteq> ti_task_id t, ImmutableChanged ''task_id''),
      (ti_attempt_id old \<noteq> ti_attempt_id t, ImmutableChanged ''attempt_id''),
      (ti_tool_name old \<noteq> ti_tool_name t, ImmutableChanged ''tool_name''),
      (ti_tool_version old \<noteq> ti_tool_version t, ImmutableChanged ''tool_version''),
      (ti_scope old \<noteq> ti_scope t, ImmutableChanged ''capability_scope''),
      (ti_idempotency_key old \<noteq> ti_idempotency_key t, ImmutableChanged ''idempotency_key''),
      (ti_input_trust old \<noteq> ti_input_trust t, ImmutableChanged ''input_trust''),
      (ti_producer_kind old \<noteq> ti_producer_kind t, ImmutableChanged ''producer_kind''),
      (ti_requested_at old \<noteq> ti_requested_at t, ImmutableChanged ''requested_at''),
      (ti_input old \<noteq> dumped (ti_input t), ImmutableChanged ''input''),
      (ti_prompt_binding old \<noteq> ti_prompt_binding t, ImmutableChanged ''prompt_binding'')]"

definition to_contract :: "stored_row \<Rightarrow> store_error + invocation" where
  "to_contract r = (case invocation_violation (sr_inv r) of Some e \<Rightarrow> Inl (RowInvalid e) | None \<Rightarrow> Inr (sr_inv r))"

definition lease_is_live :: "instant \<Rightarrow> instant \<Rightarrow> bool" where
  "lease_is_live expires_at now = (now < expires_at)"

definition lease_holds :: "invocation \<Rightarrow> instant \<Rightarrow> bool" where
  "lease_holds t now = (ti_lease_owner t \<noteq> None \<and> some_and (\<lambda>x. lease_is_live x now) (ti_lease_expires t))"

definition pending_statuses :: "invocation_status set" where
  "pending_statuses = {InvRequested, InvRunning}"

subsection \<open>Events\<close>

text \<open>\<open>payload[k] = v\<close>: in place when the key is there, else at the end.\<close>

fun dict_set :: "string \<Rightarrow> pyval \<Rightarrow> (string \<times> pyval) list \<Rightarrow> (string \<times> pyval) list" where
  "dict_set k v [] = [(k, v)]"
| "dict_set k v ((k', w) # kvs) = (if k' = k then (k, v) # kvs else (k', w) # dict_set k v kvs)"

definition with_context :: "audit_event \<Rightarrow> pyval" where
  "with_context e =
     (case ae_payload e of
        VDict kvs \<Rightarrow>
          VDict (dict_set ''attempt_id'' (VStr (ae_attempt_id e)) (dict_set ''task_id'' (VStr (ae_task_id e)) kvs))
      | v \<Rightarrow> v)"

definition append_audit_event :: "audit_event \<Rightarrow> string \<Rightarrow> store \<Rightarrow> store_error + store" where
  "append_audit_event e org s =
     (case append_event (so_stream s) org
        \<lparr>re_id = ae_event_id e, re_run_id = ae_run_id e, re_aggregate_type = ''tool_invocation'',
         re_aggregate_id = ae_aggregate_id e, re_sequence = 1, re_event_type = ae_event_type e,
         re_event_type_version = ''1.0'', re_occurred_at = ae_occurred_at e, re_producer = ae_producer e,
         re_deduplication_key = ae_dedup_key e, re_correlation_id = ae_correlation_id e,
         re_causation_event_id = None, re_payload = with_context e\<rparr> (ae_destinations e) of
        Inl err \<Rightarrow> Inl (StreamError err) | Inr st \<Rightarrow> Inr (s\<lparr>so_stream := st\<rparr>))"

fun append_audit_events :: "audit_event list \<Rightarrow> string \<Rightarrow> store \<Rightarrow> store_error + store" where
  "append_audit_events [] org s = Inr s"
| "append_audit_events (e # es) org s = bind_result (append_audit_event e org s) (append_audit_events es org)"

subsection \<open>Recovery\<close>

definition lease_expired_error_code :: string where
  "lease_expired_error_code = ''unknown_after_lease_expired''"

definition lease_expired_status_reason :: string where
  "lease_expired_status_reason = ''Tool outcome is unknown after the durable lease expired; '' @
     ''the invocation must not be re-executed.''"

definition terminalized :: "stored_row \<Rightarrow> instant \<Rightarrow> stored_row" where
  "terminalized r now =
     r\<lparr>sr_inv := (sr_inv r)\<lparr>ti_status := InvFailed, ti_output := None, ti_output_trust := None,
         ti_error_code := Some lease_expired_error_code, ti_status_reason := Some lease_expired_status_reason,
         ti_completed_at := Some now, ti_lease_owner := None, ti_lease_expires := None\<rparr>,
       sr_output_sha := None\<rparr>"

definition lease_expired_event :: "invocation \<Rightarrow> instant \<Rightarrow> audit_event" where
  "lease_expired_event t now =
     \<lparr>ae_event_id = ti_id t @ '':'' @ lease_expired_error_code, ae_run_id = ti_run_id t, ae_task_id = ti_task_id t,
      ae_attempt_id = ti_attempt_id t, ae_aggregate_id = ti_id t, ae_event_type = event_completed,
      ae_occurred_at = now, ae_producer = ''session-tool-audit-store'',
      ae_dedup_key = ti_id t @ '':'' @ lease_expired_error_code,
      ae_payload = VDict [(''tool_name'', VStr (ti_tool_name t)), (''tool_version'', VStr (ti_tool_version t)),
        (''outcome'', VStr (invocation_status_value (ti_status t))),
        (''error_code'', (case ti_error_code t of None \<Rightarrow> VNone | Some c \<Rightarrow> VStr c)),
        (''status_reason'', (case ti_status_reason t of None \<Rightarrow> VNone | Some c \<Rightarrow> VStr c))],
      ae_destinations = [], ae_correlation_id = None\<rparr>"

definition terminalize_expired_pending :: "stored_row \<Rightarrow> instant \<Rightarrow> string \<Rightarrow> store \<Rightarrow>
    store_error + invocation \<times> store" where
  "terminalize_expired_pending r now org s =
     bind_result (update_row (terminalized r now) s) (\<lambda>s1.
     bind_result (to_contract (terminalized r now)) (\<lambda>t.
     bind_result (append_audit_event (lease_expired_event t now) org s1) (\<lambda>s2. Inr (t, s2))))"

subsection \<open>Lookups\<close>

definition matches_key :: "string \<Rightarrow> string \<Rightarrow> string \<Rightarrow> string \<Rightarrow> stored_row \<Rightarrow> bool" where
  "matches_key run attempt key org r \<longleftrightarrow>
     ti_run_id (sr_inv r) = run \<and> ti_attempt_id (sr_inv r) = attempt \<and> ti_idempotency_key (sr_inv r) = key \<and> sr_org r = org"

text \<open>The newest of the matching rows: latest request first, later insertion first among equals.\<close>

definition newest :: "stored_row list \<Rightarrow> stored_row option" where
  "newest rows =
     (case rev (sort_key (\<lambda>r. ti_requested_at (sr_inv r)) rows) of [] \<Rightarrow> None | r # rs \<Rightarrow> Some r)"

definition lookup_status :: "invocation_status set \<Rightarrow> (string \<Rightarrow> string option) \<Rightarrow> store \<Rightarrow> string \<Rightarrow> string \<Rightarrow>
    string option \<Rightarrow> string \<Rightarrow> store_error + invocation option" where
  "lookup_status statuses U s run attempt org key =
     bind_result (normalize_context U run None attempt org) (\<lambda>u.
       case newest (filter (\<lambda>r. matches_key run attempt key u r \<and> ti_status (sr_inv r) \<in> statuses) (so_rows s)) of
         None \<Rightarrow> Inr None
       | Some r \<Rightarrow> bind_result (to_contract r) (\<lambda>t. Inr (Some t)))"

definition find_invocation :: "(string \<Rightarrow> string option) \<Rightarrow> store \<Rightarrow> string \<Rightarrow> string \<Rightarrow> string option \<Rightarrow>
    string \<Rightarrow> store_error + invocation option" where
  "find_invocation = lookup_status replayable_record_statuses"

definition find_pending_invocation :: "(string \<Rightarrow> string option) \<Rightarrow> store \<Rightarrow> string \<Rightarrow> string \<Rightarrow> string option \<Rightarrow>
    string \<Rightarrow> store_error + invocation option" where
  "find_pending_invocation = lookup_status pending_statuses"

definition find_by_idempotency_key :: "store \<Rightarrow> string \<Rightarrow> string \<Rightarrow> string \<Rightarrow> string \<Rightarrow> stored_row option" where
  "find_by_idempotency_key s run attempt key org =
     find (\<lambda>r. matches_key run attempt key org r \<and> ti_status (sr_inv r) \<noteq> InvDenied) (so_rows s)"

subsection \<open>The three transactions that write\<close>

type_synonym 'a transaction = "(store_error + 'a) \<times> store"

text \<open>Commit the new tables, or roll back.\<close>

definition commit :: "store \<Rightarrow> store_error + 'a \<times> store \<Rightarrow> 'a transaction" where
  "commit s r = (case r of Inl e \<Rightarrow> (Inl e, s) | Inr (a, s') \<Rightarrow> (Inr a, s'))"

definition reconcile_pending_invocation :: "(string \<Rightarrow> string option) \<Rightarrow> string \<Rightarrow> string \<Rightarrow> string option \<Rightarrow>
    string \<Rightarrow> py_datetime \<Rightarrow> store \<Rightarrow> invocation option transaction" where
  "reconcile_pending_invocation U run attempt org key now s =
     (case now of
        Naive n \<Rightarrow> (Inl NaiveInstant, s)
      | Aware t \<Rightarrow> commit s (bind_result (normalize_context U run None attempt org) (\<lambda>u.
          case find (\<lambda>r. matches_key run attempt key u r \<and>
              ti_status (sr_inv r) \<in> pending_statuses \<union> replayable_record_statuses) (so_rows s) of
            None \<Rightarrow> Inr (None, s)
          | Some r \<Rightarrow>
              if ti_status (sr_inv r) \<in> replayable_record_statuses \<or> lease_holds (sr_inv r) t
              then bind_result (to_contract r) (\<lambda>i. Inr (Some i, s))
              else bind_result (terminalize_expired_pending r t u s) (\<lambda>(i, s1). Inr (Some i, s1)))))"

definition renew_invocation_lease :: "(string \<Rightarrow> string option) \<Rightarrow> string \<Rightarrow> string \<Rightarrow> string \<Rightarrow> string option \<Rightarrow>
    string \<Rightarrow> string \<Rightarrow> py_datetime \<Rightarrow> py_datetime \<Rightarrow> store \<Rightarrow> bool transaction" where
  "renew_invocation_lease U i run attempt org key owner now expires s =
     (case (now, expires) of
        (Aware t, Aware x) \<Rightarrow>
          if x \<le> t then (Inr False, s)
          else commit s (bind_result (normalize_context U run None attempt org) (\<lambda>u.
            let held = (\<lambda>r. ti_id (sr_inv r) = i \<and> matches_key run attempt key u r \<and>
              ti_lease_owner (sr_inv r) = Some owner \<and> ti_status (sr_inv r) \<in> pending_statuses \<and>
              some_and (\<lambda>old. t < old) (ti_lease_expires (sr_inv r)))
            in Inr (list_ex held (so_rows s),
                 s\<lparr>so_rows := map (\<lambda>r. if held r then r\<lparr>sr_inv := (sr_inv r)\<lparr>ti_lease_expires := Some x\<rparr>\<rparr> else r)
                   (so_rows s)\<rparr>)))
      | _ \<Rightarrow> (Inl NaiveInstant, s))"

text \<open>
  \<open>persist\<close>. A conflict found by identifier after the lease ran out is raised after the recovery was
  committed; every other error rolls back.
\<close>

definition persist_new :: "(pyval \<Rightarrow> digest) \<Rightarrow> invocation \<Rightarrow> string \<Rightarrow> cap_decision option \<Rightarrow> store \<Rightarrow>
    store_error + store" where
  "persist_new D t u decision s =
     (case create_tool_invocation D t u decision s of
        Inl Integrity \<Rightarrow>
          (case find_by_idempotency_key s (ti_run_id t) (ti_attempt_id t) (ti_idempotency_key t) u of
             None \<Rightarrow> Inl Integrity
           | Some r \<Rightarrow> bind_result (to_contract r) (\<lambda>i. Inl (ConflictWith i)))
      | r \<Rightarrow> r)"

definition persist :: "(string \<Rightarrow> string option) \<Rightarrow> (pyval \<Rightarrow> digest) \<Rightarrow> py_datetime \<Rightarrow> invocation \<Rightarrow>
    audit_event list \<Rightarrow> string option \<Rightarrow> cap_decision option \<Rightarrow> store \<Rightarrow> unit transaction" where
  "persist U D clock t events org decision s =
     (case find (\<lambda>e. event_association e t \<noteq> None) events of
        Some e \<Rightarrow> (Inl (the (event_association e t)), s)
      | None \<Rightarrow>
         (case normalize_context U (ti_run_id t) (Some (ti_task_id t)) (ti_attempt_id t) org of
            Inl e \<Rightarrow> (Inl e, s)
          | Inr u \<Rightarrow>
             (case require_parents s (ti_run_id t) (ti_task_id t) (ti_attempt_id t) u of
                Some e \<Rightarrow> (Inl e, s)
              | None \<Rightarrow>
                 (case find (\<lambda>r. ti_id (sr_inv r) = ti_id t \<and> sr_org r = u) (so_rows s) of
                    None \<Rightarrow> commit s (bind_result (persist_new D t u decision s) (\<lambda>s1.
                      bind_result (append_audit_events events u s1) (\<lambda>s2. Inr ((), s2))))
                  | Some r \<Rightarrow>
                     (case transition_identity (sr_inv r) t of
                        Some e \<Rightarrow> (Inl e, s)
                      | None \<Rightarrow>
                          if ti_status (sr_inv r) \<notin> pending_statuses then
                            (case to_contract r of Inl e \<Rightarrow> (Inl e, s) | Inr i \<Rightarrow> (Inl (ConflictWith i), s))
                          else
                           (case (ti_status t \<in> replayable_record_statuses, clock) of
                              (True, Naive n) \<Rightarrow> (Inl NaiveInstant, s)
                            | (True, Aware now) \<Rightarrow>
                                if lease_holds (sr_inv r) now then
                                  commit s (bind_result (record_transition D t r s) (\<lambda>s1.
                                    bind_result (append_audit_events events u s1) (\<lambda>s2. Inr ((), s2))))
                                else
                                 (case terminalize_expired_pending r now u s of
                                    Inl e \<Rightarrow> (Inl e, s)
                                  | Inr (i, s1) \<Rightarrow> (Inl (ConflictWith i), s1))
                            | (False, _) \<Rightarrow>
                                commit s (bind_result (record_transition D t r s) (\<lambda>s1.
                                  bind_result (append_audit_events events u s1) (\<lambda>s2. Inr ((), s2))))))))))"

end
