(* ===== verification/Store_Laws.thy ===== *)
theory Store_Laws
  imports Durable_Store
begin

text \<open>
  What the durable store guarantees. The tables keep their invariant; a history of transactions only
  adds rows and moves pending ones; a key admits one unit of work; a settled row is never rewritten.
\<close>

subsection \<open>Invariant and evolution of the tables\<close>

definition settled :: "stored_row \<Rightarrow> bool" where
  "settled r \<longleftrightarrow> ti_status (sr_inv r) \<notin> pending_statuses"

definition row_good :: "stored_row \<Rightarrow> bool" where
  "row_good r \<longleftrightarrow> \<not> row_rejected r \<and> invocation_violation (sr_inv r) = None"

definition row_key :: "stored_row \<Rightarrow> string \<times> string" where
  "row_key r = (ti_attempt_id (sr_inv r), ti_idempotency_key (sr_inv r))"

definition occupies_key :: "stored_row \<Rightarrow> bool" where
  "occupies_key r \<longleftrightarrow> ti_status (sr_inv r) \<noteq> InvDenied"

text \<open>A row belongs to the run, task and organization of its attempt.\<close>

definition parented :: "store \<Rightarrow> stored_row \<Rightarrow> bool" where
  "parented s r \<longleftrightarrow> so_attempts s (ti_attempt_id (sr_inv r)) =
     Some (ti_task_id (sr_inv r), ti_run_id (sr_inv r), sr_org r)"

definition store_ok :: "store \<Rightarrow> bool" where
  "store_ok s \<longleftrightarrow>
     distinct (map (\<lambda>r. ti_id (sr_inv r)) (so_rows s)) \<and>
     distinct (map row_key (filter occupies_key (so_rows s))) \<and>
     list_all row_good (so_rows s) \<and> list_all (parented s) (so_rows s) \<and> stream_ok (so_stream s)"

text \<open>The request a row stands for never changes.\<close>

definition same_request_row :: "stored_row \<Rightarrow> stored_row \<Rightarrow> bool" where
  "same_request_row r q \<longleftrightarrow>
     sr_org q = sr_org r \<and> ti_id (sr_inv q) = ti_id (sr_inv r) \<and> ti_run_id (sr_inv q) = ti_run_id (sr_inv r) \<and>
     ti_task_id (sr_inv q) = ti_task_id (sr_inv r) \<and> row_key q = row_key r \<and>
     ti_tool_name (sr_inv q) = ti_tool_name (sr_inv r) \<and> ti_tool_version (sr_inv q) = ti_tool_version (sr_inv r) \<and>
     ti_scope (sr_inv q) = ti_scope (sr_inv r) \<and> ti_input (sr_inv q) = ti_input (sr_inv r) \<and>
     ti_requested_at (sr_inv q) = ti_requested_at (sr_inv r)"

definition moves :: "stored_row list \<Rightarrow> (stored_row \<Rightarrow> stored_row) \<Rightarrow> bool" where
  "moves rows f \<longleftrightarrow> (\<forall>r \<in> set rows. f r = r \<or> (\<not> settled r \<and> same_request_row r (f r) \<and> row_good (f r)))"

definition evolves :: "store \<Rightarrow> store \<Rightarrow> bool" where
  "evolves s s' \<longleftrightarrow>
     (stream_ok (so_stream s) \<longrightarrow> stream_ok (so_stream s')) \<and> so_attempts s' = so_attempts s \<and>
     ((\<exists>f. so_rows s' = map f (so_rows s) \<and> moves (so_rows s) f) \<or>
      (\<exists>r. so_rows s' = so_rows s @ [r] \<and> row_good r \<and> parented s r \<and> \<not> list_ex (rows_clash r) (so_rows s)))"

lemma evolves_same [simp]: "evolves s s"
  by (auto simp: evolves_def moves_def intro: exI[of _ id])

lemma same_request_row_refl [simp]: "same_request_row r r"
  by (simp add: same_request_row_def)

lemma same_request_row_trans: "same_request_row r q \<Longrightarrow> same_request_row q p \<Longrightarrow> same_request_row r p"
  by (simp add: same_request_row_def)

lemma distinct_key_map:
  assumes "distinct (map k (filter P xs))" "\<And>x. x \<in> set xs \<Longrightarrow> k (f x) = k x" "\<And>x. x \<in> set xs \<Longrightarrow> P (f x) \<Longrightarrow> P x"
  shows "distinct (map k (filter P (map f xs)))"
  using assms
proof (induction xs)
  case (Cons x xs)
  have sub: "k ` set (filter P (map f xs)) \<subseteq> k ` set (filter P xs)" using Cons(3,4) by force
  have "distinct (map k (filter P xs))" using Cons(2) by (simp split: if_splits)
  then have IH: "distinct (map k (filter P (map f xs)))" by (rule Cons.IH) (use Cons(3,4) in auto)
  show ?case
  proof (cases "P (f x)")
    case True
    then have "P x" "k (f x) = k x" using Cons(3,4) by auto
    with Cons(2) have "k (f x) \<notin> k ` set (filter P xs)" by simp
    with sub IH True show ?thesis by auto
  qed (use IH in simp)
qed simp

lemma evolves_ok:
  assumes "store_ok s" "evolves s s'"
  shows "store_ok s'"
proof -
  from assms(2) consider
      (map) f where "so_rows s' = map f (so_rows s)" "moves (so_rows s) f"
    | (add) r where "so_rows s' = so_rows s @ [r]" "row_good r" "parented s r" "\<not> list_ex (rows_clash r) (so_rows s)"
    by (auto simp: evolves_def)
  then show ?thesis
  proof cases
    case map
    have same: "ti_id (sr_inv (f r)) = ti_id (sr_inv r) \<and> row_key (f r) = row_key r \<and>
        (occupies_key (f r) \<longrightarrow> occupies_key r) \<and> row_good (f r) \<and> parented s (f r)" if "r \<in> set (so_rows s)" for r
      using map(2) that assms(1)
      by (auto simp: moves_def same_request_row_def settled_def pending_statuses_def occupies_key_def store_ok_def
          list_all_iff parented_def row_key_def)
    then have "map (\<lambda>r. ti_id (sr_inv r)) (so_rows s') = map (\<lambda>r. ti_id (sr_inv r)) (so_rows s)"
      by (simp add: map(1))
    moreover have "distinct (map row_key (filter occupies_key (so_rows s')))"
      unfolding map(1) by (rule distinct_key_map) (use assms(1) same in \<open>auto simp: store_ok_def\<close>)
    moreover have "list_all row_good (so_rows s')" using same by (simp add: map(1) list_all_iff)
    moreover have "list_all (parented s') (so_rows s')"
      using same assms(2) by (simp add: map(1) list_all_iff parented_def evolves_def)
    ultimately show ?thesis using assms unfolding store_ok_def evolves_def by simp
  next
    case add
    then have "ti_id (sr_inv r) \<notin> (\<lambda>r. ti_id (sr_inv r)) ` set (so_rows s)"
      "occupies_key r \<Longrightarrow> row_key r \<notin> row_key ` {q \<in> set (so_rows s). occupies_key q}"
      by (auto simp: list_ex_iff rows_clash_def row_key_def occupies_key_def)
    with add assms show ?thesis by (auto simp: store_ok_def evolves_def parented_def list_all_iff)
  qed
qed

text \<open>Rows are never lost, and settled rows are never rewritten.\<close>

lemma evolves_row:
  assumes "evolves s s'" "r \<in> set (so_rows s)"
  shows "\<exists>q \<in> set (so_rows s'). same_request_row r q \<and> (settled r \<longrightarrow> q = r)"
proof -
  from assms(1) consider (map) f where "so_rows s' = map f (so_rows s)" "moves (so_rows s) f"
    | (add) q where "so_rows s' = so_rows s @ [q]" by (auto simp: evolves_def)
  then show ?thesis
  proof cases
    case map
    with assms(2) have "f r \<in> set (so_rows s')" "f r = r \<or> (\<not> settled r \<and> same_request_row r (f r))"
      by (auto simp: moves_def)
    then show ?thesis by (intro bexI[of _ "f r"]) auto
  next
    case add
    with assms(2) show ?thesis by (intro bexI[of _ r]) simp_all
  qed
qed

subsection \<open>Every transaction lets the tables evolve\<close>

lemma insert_row_evolves:
  "insert_row r s = Inr s' \<Longrightarrow> invocation_violation (sr_inv r) = None \<Longrightarrow> parented s r \<Longrightarrow> evolves s s'"
  by (auto simp: insert_row_def evolves_def row_good_def split: if_splits)

lemma update_row_evolves:
  assumes "store_ok s" "q \<in> set (so_rows s)" "\<not> settled q" "same_request_row q r"
    and "invocation_violation (sr_inv r) = None" "update_row r s = Inr s'"
  shows "evolves s s'"
proof -
  have unique: "p = q" if "p \<in> set (so_rows s)" "ti_id (sr_inv p) = ti_id (sr_inv r)" for p
    using assms(1,2,4) that by (auto simp: store_ok_def same_request_row_def distinct_map inj_on_def)
  let ?f = "\<lambda>p. if ti_id (sr_inv p) = ti_id (sr_inv r) then r else p"
  from assms(6) have s': "\<not> row_rejected r" "so_rows s' = map ?f (so_rows s)" "so_stream s' = so_stream s"
    "so_attempts s' = so_attempts s"
    by (auto simp: update_row_def split: if_splits)
  have "moves (so_rows s) ?f" unfolding moves_def
  proof
    fix p assume "p \<in> set (so_rows s)"
    with unique[OF this] assms(3-5) s'(1) show "?f p = p \<or> (\<not> settled p \<and> same_request_row p (?f p) \<and> row_good (?f p))"
      by (auto simp: row_good_def)
  qed
  with s' show ?thesis unfolding evolves_def by (intro conjI disjI1 exI[of _ ?f]) auto
qed

lemma append_audit_events_rows:
  "append_audit_events es org s = Inr s' \<Longrightarrow>
     so_rows s' = so_rows s \<and> so_attempts s' = so_attempts s \<and> (stream_ok (so_stream s) \<longrightarrow> stream_ok (so_stream s'))"
proof (induction es arbitrary: s)
  case (Cons e es)
  then show ?case
    by (fastforce simp: append_audit_event_def split: sum.splits dest: append_event_ok)
qed simp

lemma append_audit_event_rows:
  "append_audit_event e org s = Inr s' \<Longrightarrow>
     so_rows s' = so_rows s \<and> so_attempts s' = so_attempts s \<and> (stream_ok (so_stream s) \<longrightarrow> stream_ok (so_stream s'))"
  by (auto simp: append_audit_event_def split: sum.splits dest: append_event_ok)

lemma evolves_events:
  "evolves s s1 \<Longrightarrow> append_audit_events es org s1 = Inr s2 \<Longrightarrow> evolves s s2"
  using append_audit_events_rows by (fastforce simp: evolves_def)

lemma dumped_valid:
  "validate_json_object v = Some w \<Longrightarrow> validate_json_object (dumped v) \<noteq> None"
proof -
  assume v: "validate_json_object v = Some w"
  then obtain kvs ks where kvs: "thaw_value v = VDict kvs" "json_shaped_items kvs" "freeze_items kvs = Inr ks"
    by (auto simp: validate_json_object_Some)
  have "dumped v = VDict kvs" by (simp add: dumped_def v serialize_validated[OF v] kvs(1))
  with kvs show ?thesis by (auto simp: validate_json_object_def thaw_json_shaped(2) freeze_json_object_def)
qed

lemma dumped_invocation_valid:
  assumes "invocation_violation t = None"
  shows "invocation_violation (dumped_invocation t) = None"
proof -
  from assms have f: "invocation_field_violation t = None" and st: "invocation_status_violation t = None"
    by (simp_all add: invocation_violation_def)
  have inp: "validate_json_object (dumped (ti_input t)) \<noteq> None"
    using f dumped_valid by (auto simp: invocation_field_violation_def)
  have out: "\<not> some_and (\<lambda>v. validate_json_object v = None) (map_option dumped (ti_output t))"
    using f dumped_valid by (cases "ti_output t") (auto simp: invocation_field_violation_def)
  let ?d = "dumped_invocation t"
  have "invocation_field_violation ?d = None"
    using f inp out by (simp add: invocation_field_violation_def dumped_invocation_def)
  moreover have "ti_status ?d = ti_status t" "ti_completed_at ?d = ti_completed_at t"
      "ti_requested_at ?d = ti_requested_at t" "ti_lease_owner ?d = ti_lease_owner t"
      "ti_lease_expires ?d = ti_lease_expires t" "(ti_output ?d = None) = (ti_output t = None)"
      "ti_output_trust ?d = ti_output_trust t" "ti_error_code ?d = ti_error_code t"
      "ti_producer_kind ?d = ti_producer_kind t" "ti_prompt_binding ?d = ti_prompt_binding t"
      "ti_input_trust ?d = ti_input_trust t"
    by (simp_all add: dumped_invocation_def)
  then have "invocation_status_violation ?d = invocation_status_violation t"
    by (simp only: invocation_status_violation_def output_trust_violation_def)
  ultimately show ?thesis using st by (simp add: invocation_violation_def)
qed


lemma invocation_eqI:
  fixes t u :: invocation
  assumes "ti_id t = ti_id u" "ti_run_id t = ti_run_id u" "ti_task_id t = ti_task_id u"
    "ti_attempt_id t = ti_attempt_id u" "ti_tool_name t = ti_tool_name u" "ti_tool_version t = ti_tool_version u"
    "ti_status t = ti_status u" "ti_scope t = ti_scope u" "ti_idempotency_key t = ti_idempotency_key u"
    "ti_input t = ti_input u" "ti_input_trust t = ti_input_trust u" "ti_output t = ti_output u"
    "ti_output_trust t = ti_output_trust u" "ti_producer_kind t = ti_producer_kind u"
    "ti_prompt_binding t = ti_prompt_binding u" "ti_error_code t = ti_error_code u"
    "ti_status_reason t = ti_status_reason u" "ti_requested_at t = ti_requested_at u"
    "ti_completed_at t = ti_completed_at u" "ti_lease_owner t = ti_lease_owner u"
    "ti_lease_expires t = ti_lease_expires u"
  shows "t = u"
  using assms by (cases t, cases u) simp

lemma transition_row_stands_for:
  assumes "transition_identity (sr_inv r) t = None" "ti_id (sr_inv r) = ti_id t"
  shows "sr_inv (transition_row D t r) = dumped_invocation t"
    and "same_request_row r (transition_row D t r)"
  using assms by (auto simp: transition_identity_def transition_row_def dumped_invocation_def
      same_request_row_def row_key_def intro!: invocation_eqI)

lemma persist_new_evolves:
  assumes "persist_new D t u decision s = Inr s'" "invocation_violation t = None"
    and "so_attempts s (ti_attempt_id t) = Some (ti_task_id t, ti_run_id t, u)"
  shows "evolves s s'"
proof -
  have "parented s (row_for D t u decision)" using assms(3) by (simp add: parented_def row_for_def dumped_invocation_def)
  moreover
  have "invocation_violation (sr_inv (row_for D t u decision)) = None"
    using assms(2) by (simp add: row_for_def dumped_invocation_valid)
  moreover have "insert_row (row_for D t u decision) s = Inr s'"
    using assms(1) by (auto simp: persist_new_def create_tool_invocation_def
        split: sum.splits if_splits store_error.splits option.splits)
  ultimately show ?thesis by (simp add: insert_row_evolves)
qed

lemma record_transition_evolves:
  assumes "store_ok s" "r \<in> set (so_rows s)" "\<not> settled r" "transition_identity (sr_inv r) t = None"
    and "ti_id (sr_inv r) = ti_id t" "invocation_violation t = None" "record_transition D t r s = Inr s'"
  shows "evolves s s'"
  using assms dumped_invocation_valid[OF assms(6)] transition_row_stands_for[OF assms(4,5)]
  unfolding record_transition_def by (intro update_row_evolves[of s r "transition_row D t r"]) simp_all

lemma terminalize_evolves:
  assumes "store_ok s" "r \<in> set (so_rows s)" "\<not> settled r"
    and "terminalize_expired_pending r now u s = Inr (i, s')"
  shows "evolves s s'" and "i = sr_inv (terminalized r now)" and "terminalized r now \<in> set (so_rows s')"
proof -
  obtain s1 where s1: "update_row (terminalized r now) s = Inr s1"
    and valid: "invocation_violation (sr_inv (terminalized r now)) = None" "i = sr_inv (terminalized r now)"
    and app: "append_audit_event (lease_expired_event i now) u s1 = Inr s'"
    using assms(4) by (auto simp: terminalize_expired_pending_def to_contract_def split: option.splits)
  have "same_request_row r (terminalized r now)" by (simp add: same_request_row_def terminalized_def row_key_def)
  then have ev: "evolves s s1" using update_row_evolves assms(1-3) valid(1) s1 by blast
  show "evolves s s'" using evolves_events[OF ev, of "[lease_expired_event i now]" u] app by simp
  show "i = sr_inv (terminalized r now)" by (fact valid(2))
  have "so_rows s' = so_rows s1" using append_audit_event_rows[OF app] by simp
  moreover have "ti_id (sr_inv (terminalized r now)) = ti_id (sr_inv r)" by (simp add: terminalized_def)
  ultimately show "terminalized r now \<in> set (so_rows s')"
    using s1 assms(2) by (force simp: update_row_def split: if_splits)
qed

lemma evolves_commit: "(\<And>a s'. r = Inr (a, s') \<Longrightarrow> evolves s s') \<Longrightarrow> evolves s (snd (commit s r))"
  by (auto simp: commit_def split: sum.splits)

lemma find_mem: "find P xs = Some x \<Longrightarrow> x \<in> set xs \<and> P x"
  by (auto simp: find_Some_iff)

lemma reconcile_evolves:
  assumes "store_ok s"
  shows "evolves s (snd (reconcile_pending_invocation U run attempt org key now s))"
proof (cases now)
  case (Aware t)
  have dead: "evolves s s1" if "find P (so_rows s) = Some r" "ti_status (sr_inv r) \<in> pending_statuses"
    "terminalize_expired_pending r t u s = Inr (i, s1)" for P r u i s1
    using terminalize_evolves(1)[OF assms _ _ that(3)] find_mem[OF that(1)] that(2) by (simp add: settled_def)
  show ?thesis unfolding reconcile_pending_invocation_def Aware py_datetime.case
  proof (rule evolves_commit, unfold bind_result_Inr, elim exE conjE)
    fix i s' u
    assume "(case find (\<lambda>r. matches_key run attempt key u r \<and>
              ti_status (sr_inv r) \<in> pending_statuses \<union> replayable_record_statuses) (so_rows s) of
            None \<Rightarrow> Inr (None, s)
          | Some r \<Rightarrow>
              if ti_status (sr_inv r) \<in> replayable_record_statuses \<or> lease_holds (sr_inv r) t
              then bind_result (to_contract r) (\<lambda>i. Inr (Some i, s))
              else bind_result (terminalize_expired_pending r t u s) (\<lambda>(i, s1). Inr (Some i, s1))) = Inr (i, s')"
    then show "evolves s s'"
      by (auto split: option.splits if_splits dest: find_mem intro: dead)
  qed
qed (simp add: reconcile_pending_invocation_def)

lemma renewed_row_good:
  assumes "row_good r" "ti_lease_owner (sr_inv r) = Some owner" "ti_lease_expires (sr_inv r) = Some old"
  shows "row_good (r\<lparr>sr_inv := (sr_inv r)\<lparr>ti_lease_expires := Some x\<rparr>\<rparr>)"
  using assms by (auto simp: row_good_def row_rejected_def invocation_violation_def invocation_field_violation_def
      invocation_status_violation_def output_trust_violation_def Let_def split: option.splits)

lemma renew_evolves:
  assumes "store_ok s"
  shows "evolves s (snd (renew_invocation_lease U i run attempt org key owner now expires s))"
proof -
  have good: "row_good r" if "r \<in> set (so_rows s)" for r using assms that by (simp add: store_ok_def list_all_iff)
  have renewed: "evolves s (s\<lparr>so_rows := map (\<lambda>r. if held r then r\<lparr>sr_inv := (sr_inv r)\<lparr>ti_lease_expires := Some x\<rparr>\<rparr> else r)
      (so_rows s)\<rparr>)" if "\<And>r. held r \<Longrightarrow> \<not> settled r \<and> ti_lease_owner (sr_inv r) = Some owner \<and>
        (\<exists>old. ti_lease_expires (sr_inv r) = Some old)" for held x
    unfolding evolves_def moves_def
    by (intro conjI disjI1 exI[of _ "\<lambda>r. if held r then r\<lparr>sr_inv := (sr_inv r)\<lparr>ti_lease_expires := Some x\<rparr>\<rparr> else r"])
      (use that in \<open>auto simp: same_request_row_def row_key_def dest!: that intro!: renewed_row_good intro: good\<close>)
  show ?thesis
  proof (cases "case (now, expires) of (Aware t, Aware x) \<Rightarrow> t < x | _ \<Rightarrow> False")
    case True
    then obtain t x where at_times: "now = Aware t" "expires = Aware x" "\<not> x \<le> t"
      by (auto split: py_datetime.splits)
    show ?thesis unfolding renew_invocation_lease_def at_times prod.case py_datetime.case if_not_P[OF at_times(3)]
      by (rule evolves_commit) (auto simp: Let_def settled_def some_and_def split: option.splits intro!: renewed)
  qed (auto simp: renew_invocation_lease_def split: py_datetime.splits)
qed

lemma persist_evolves:
  assumes "store_ok s" "invocation_violation t = None"
  shows "evolves s (snd (persist U D clock t events org decision s))"
proof -
  have new: "evolves s (snd (commit s (bind_result (persist_new D t u decision s) (\<lambda>s1.
      bind_result (append_audit_events events u s1) (\<lambda>s2. Inr ((), s2))))))"
    if "require_parents s (ti_run_id t) (ti_task_id t) (ti_attempt_id t) u = None" for u
    by (rule evolves_commit) (use that in \<open>auto simp: require_parents_def intro: evolves_events[OF persist_new_evolves] assms(2)\<close>)
  have old: "evolves s (snd (commit s (bind_result (record_transition D t r s) (\<lambda>s1.
      bind_result (append_audit_events events u s1) (\<lambda>s2. Inr ((), s2))))))"
    if "find (\<lambda>r. ti_id (sr_inv r) = ti_id t \<and> sr_org r = u) (so_rows s) = Some r"
      "transition_identity (sr_inv r) t = None" "ti_status (sr_inv r) \<in> pending_statuses" for u r
    by (rule evolves_commit) (use find_mem[OF that(1)] that assms in
        \<open>auto simp: settled_def intro: evolves_events[OF record_transition_evolves]\<close>)
  have dead: "evolves s s1" if "find (\<lambda>r. ti_id (sr_inv r) = ti_id t \<and> sr_org r = u) (so_rows s) = Some r"
    "ti_status (sr_inv r) \<in> pending_statuses" "terminalize_expired_pending r now u s = Inr (i, s1)" for u r now i s1
    using terminalize_evolves(1)[OF assms(1) _ _ that(3)] find_mem[OF that(1)] that(2) by (simp add: settled_def)
  show ?thesis unfolding persist_def
    by (auto split: option.split sum.split bool.split py_datetime.split if_split intro: new old dead simp del: bind_result_Inr)
qed

end
