(* ===== verification/Store_History.thy ===== *)
theory Store_History
  imports Store_Laws
begin

text \<open>
  Histories of the durable store: any sequence of its transactions, committed or rolled back, in the
  order the row locks serialise them. The interface of a table whose rows outlive every step is a
  locale, met by the durable store and by the event stream.
\<close>

subsection \<open>Tables whose rows outlive every step\<close>

locale lasting_rows =
  fixes step :: "'op \<Rightarrow> 's \<Rightarrow> 's"
    and admissible :: "'op \<Rightarrow> bool"
    and ok :: "'s \<Rightarrow> bool"
    and rows :: "'s \<Rightarrow> 'r set"
    and frozen :: "'r \<Rightarrow> bool"
    and same :: "'r \<Rightarrow> 'r \<Rightarrow> bool"
  assumes step_ok: "ok s \<Longrightarrow> admissible op \<Longrightarrow> ok (step op s)"
    and step_row: "ok s \<Longrightarrow> admissible op \<Longrightarrow> r \<in> rows s \<Longrightarrow>
          \<exists>q \<in> rows (step op s). same r q \<and> (frozen r \<longrightarrow> q = r)"
    and same_refl: "same r r"
    and same_trans: "same r q \<Longrightarrow> same q p \<Longrightarrow> same r p"
begin

lemma history_ok: "ok s \<Longrightarrow> list_all admissible ops \<Longrightarrow> ok (fold step ops s)"
  by (induction ops arbitrary: s) (auto intro: step_ok)

lemma history_row:
  "ok s \<Longrightarrow> list_all admissible ops \<Longrightarrow> r \<in> rows s \<Longrightarrow>
     \<exists>q \<in> rows (fold step ops s). same r q \<and> (frozen r \<longrightarrow> q = r)"
proof (induction ops arbitrary: s r)
  case Nil
  then show ?case using same_refl by auto
next
  case (Cons op ops)
  then have ok: "ok (step op s)" and adm: "admissible op" "list_all admissible ops" by (auto intro: step_ok)
  from step_row[OF Cons(2) adm(1) Cons(4)] obtain q where
    q: "q \<in> rows (step op s)" "same r q" "frozen r \<longrightarrow> q = r" by blast
  from Cons.IH[OF ok adm(2) q(1)] obtain p where
    "p \<in> rows (fold step ops (step op s))" "same q p" "frozen q \<longrightarrow> p = q" by blast
  with q show ?case by (intro bexI[of _ p]) (auto intro: same_trans)
qed

lemma frozen_row_lasts: "ok s \<Longrightarrow> list_all admissible ops \<Longrightarrow> r \<in> rows s \<Longrightarrow> frozen r \<Longrightarrow> r \<in> rows (fold step ops s)"
  using history_row by blast

end

text \<open>The event stream: an event, once appended, is never changed.\<close>

definition stream_step :: "string \<times> run_event \<times> string list \<Rightarrow> stream \<Rightarrow> stream" where
  "stream_step op s = append_all s [op]"

interpretation stream_rows: lasting_rows stream_step "\<lambda>op. True" stream_ok "\<lambda>s. set (st_events s)" "\<lambda>e. True" "(=)"
proof unfold_locales
  fix s :: stream and op and r
  assume "r \<in> set (st_events s)"
  then show "\<exists>q \<in> set (st_events (stream_step op s)). r = q \<and> (True \<longrightarrow> q = r)"
    by (cases op) (auto simp: stream_step_def append_event_Inr split: sum.split)
qed (auto simp: stream_step_def intro: append_all_ok)

subsection \<open>The transactions\<close>

datatype store_op =
  Persist py_datetime invocation "audit_event list" "string option" "cap_decision option"
| Reconcile string string "string option" string py_datetime
| Renew string string string "string option" string string py_datetime py_datetime

fun history_step :: "(string \<Rightarrow> string option) \<Rightarrow> (pyval \<Rightarrow> digest) \<Rightarrow> store_op \<Rightarrow> store \<Rightarrow> store" where
  "history_step U D (Persist clock t events org decision) s = snd (persist U D clock t events org decision s)"
| "history_step U D (Reconcile run attempt org key now) s =
     snd (reconcile_pending_invocation U run attempt org key now s)"
| "history_step U D (Renew i run attempt org key owner now expires) s =
     snd (renew_invocation_lease U i run attempt org key owner now expires s)"

text \<open>A record handed to the store is a constructed contract.\<close>

fun op_valid :: "store_op \<Rightarrow> bool" where
  "op_valid (Persist clock t events org decision) = (invocation_violation t = None)"
| "op_valid op = True"

lemma store_step_evolves: "store_ok s \<Longrightarrow> op_valid op \<Longrightarrow> evolves s (history_step U D op s)"
  by (cases op) (auto intro: persist_evolves reconcile_evolves renew_evolves)

interpretation store_rows: lasting_rows "history_step U D" op_valid store_ok "\<lambda>s. set (so_rows s)" settled same_request_row
  for U D
proof unfold_locales
  fix s op
  assume "store_ok s" "op_valid op"
  then have ev: "evolves s (history_step U D op s)" by (rule store_step_evolves)
  show "store_ok (history_step U D op s)" using \<open>store_ok s\<close> ev by (rule evolves_ok)
  show "r \<in> set (so_rows s) \<Longrightarrow> \<exists>q \<in> set (so_rows (history_step U D op s)). same_request_row r q \<and> (settled r \<longrightarrow> q = r)"
    for r using ev by (rule evolves_row)
qed (auto intro: same_request_row_trans)

lemma store_step_attempts: "store_ok s \<Longrightarrow> op_valid op \<Longrightarrow> so_attempts (history_step U D op s) = so_attempts s"
  using store_step_evolves by (simp add: evolves_def)

lemma history_attempts:
  "store_ok s \<Longrightarrow> list_all op_valid ops \<Longrightarrow> so_attempts (fold (history_step U D) ops s) = so_attempts s"
  by (induction ops arbitrary: s) (simp_all add: store_step_attempts store_rows.step_ok)

definition empty_store :: "(string \<rightharpoonup> string option) \<Rightarrow> (string \<rightharpoonup> string \<times> string) \<Rightarrow>
    (string \<rightharpoonup> string \<times> string \<times> string) \<Rightarrow> string set \<Rightarrow> string set \<Rightarrow> store" where
  "empty_store runs tasks attempts grants approvals =
     \<lparr>so_rows = [], so_stream = empty_stream runs, so_tasks = tasks, so_attempts = attempts, so_grants = grants,
      so_approvals = approvals\<rparr>"

lemma empty_store_ok: "store_ok (empty_store runs tasks attempts grants approvals)"
  by (simp add: store_ok_def empty_store_def empty_stream_ok)

end
