(* ===== verification/Boundary_Invoke.thy ===== *)
theory Boundary_Invoke
  imports Boundary
begin

text \<open>
  \<^verbatim>\<open>src/core/tools/boundary.py\<close>, continued: the lease heartbeat, the handler under its deadline, and
  \<open>invoke\<close> itself.
\<close>

subsection \<open>The lease\<close>

text \<open>
  The heartbeat after admission: the answers of its renewals so far give the failure it has set, if
  any. It ends at the first failure.
\<close>

fun lease_heartbeat :: "renewal list \<Rightarrow> string option" where
  "lease_heartbeat [] = None"
| "lease_heartbeat (Renewed # rs) = lease_heartbeat rs"
| "lease_heartbeat (RenewalRejected # rs) = Some ''durable lease renewal was rejected''"
| "lease_heartbeat (RenewalRaised t # rs) = Some (''durable lease renewal raised '' @ t)"
| "lease_heartbeat (RenewalCancelled # rs) = Some ''durable lease renewal was cancelled''"

definition heartbeat_interval :: "rat \<Rightarrow> rat" where
  "heartbeat_interval timeout = min (max (1/100) (timeout / 3)) (1/4)"

text \<open>\<open>lease_monitor.lost\<close> after a number of ticks; without a lease-aware store there is no monitor.\<close>

definition lease_lost :: "deployment \<Rightarrow> answers \<Rightarrow> nat \<Rightarrow> string option" where
  "lease_lost dp an ticks = (if dp_lease_aware dp then lease_heartbeat (take ticks (an_renewals an)) else None)"

subsection \<open>The handler\<close>

datatype handler_error = LeaseRenewalFailure | ToolRaised string

type_synonym handler_result = "outcome_status \<times> pyval option \<times> string option \<times> handler_error option"

definition call_handler :: "deployment \<Rightarrow> answers \<Rightarrow> call_args \<Rightarrow> tool_spec \<Rightarrow> pyval \<Rightarrow> handler_result action" where
  "call_handler dp an ca sp parsed =
     (if ca_token ca \<and> an_token_set an then returns (Cancelled, None, Some ''cancelled before dispatch'', None)
      else
       (case lease_lost dp an (an_ticks_dispatch an) of
          Some d \<Rightarrow> returns (Failed, None, Some d, Some LeaseRenewalFailure)
        | None \<Rightarrow>
            bind_action (emit (HandlerStarted parsed)) (\<lambda>_.
              if an_external_cancel an then raises CancelledError
              else
               (case lease_lost dp an (an_ticks_wait an) of
                  Some d \<Rightarrow> returns (Failed, None, Some d, Some LeaseRenewalFailure)
                | None \<Rightarrow>
                   (case an_handler an of
                      Some HandlerCancelled \<Rightarrow> raises CancelledError
                    | Some (HandlerRaised t) \<Rightarrow> returns (Failed, None, Some t, Some (ToolRaised t))
                    | Some (HandlerReturned v) \<Rightarrow> returns (Succeeded, Some v, None, None)
                    | None \<Rightarrow>
                        if ca_token ca \<and> an_token_signalled an
                        then returns (Cancelled, None, Some ''cancelled by caller'', None)
                        else returns (TimedOut, None,
                          Some (''exceeded '' @ dp_float_str dp (sp_timeout_seconds sp) @ ''s deadline''), None))))))"

definition with_lease :: "deployment \<Rightarrow> answers \<Rightarrow> handler_result \<Rightarrow> handler_result" where
  "with_lease dp an r =
     (case lease_lost dp an (an_ticks_done an) of
        Some d \<Rightarrow> (Failed, None, Some d, Some LeaseRenewalFailure) | None \<Rightarrow> r)"

definition retry_of :: "tool_spec \<Rightarrow> outcome_status \<Rightarrow> handler_error option \<Rightarrow> retry option" where
  "retry_of sp status error =
     (if status = Failed then
       (case error of
          None \<Rightarrow> None
        | Some LeaseRenewalFailure \<Rightarrow> Some Terminal
        | Some (ToolRaised t) \<Rightarrow> Some (disposition_for sp t))
      else None)"

definition output_trust_of :: "call_args \<Rightarrow> call \<Rightarrow> raised + trust" where
  "output_trust_of ca cl =
     (case ca_output_trust ca of
        Some t \<Rightarrow> Inr t
      | None \<Rightarrow> (case propagate_trust [cl_trust cl] of None \<Rightarrow> Inl NoTrustLabels | Some t \<Rightarrow> Inr t))"

definition finish_success :: "deployment \<Rightarrow> answers \<Rightarrow> call_args \<Rightarrow> call \<Rightarrow> cap_decision \<Rightarrow> instant \<Rightarrow>
    pyval \<Rightarrow> outcome action" where
  "finish_success dp an ca cl decision completed_at payload =
     (case sp_parse_output (cl_spec cl) payload of
        Inl error \<Rightarrow>
          bind_action (on_breaker (dp_fresh_breaker dp) (sp_name (cl_spec cl)) (\<lambda>b. ((), record_failure completed_at b))) (\<lambda>_.
          bind_action (lift_result (redact_detail dp (Some error))) (\<lambda>detail.
            terminate dp an cl 2 InvalidOutput completed_at decision detail None None))
      | Inr output \<Rightarrow>
          bind_action (on_breaker (dp_fresh_breaker dp) (sp_name (cl_spec cl)) (\<lambda>b. ((), record_success b))) (\<lambda>_.
          bind_action (lift_result (redact_object dp output)) (\<lambda>redacted.
          bind_action (lift_result (output_trust_of ca cl)) (\<lambda>label.
            terminate dp an cl 2 Succeeded completed_at decision None (Some (redacted, label)) None))))"

definition finish_failure :: "deployment \<Rightarrow> answers \<Rightarrow> call \<Rightarrow> cap_decision \<Rightarrow> instant \<Rightarrow> handler_result \<Rightarrow>
    outcome action" where
  "finish_failure dp an cl decision completed_at result =
     (case result of (status, payload, detail, error) \<Rightarrow>
        bind_action (on_breaker (dp_fresh_breaker dp) (sp_name (cl_spec cl)) (\<lambda>b. ((),
            if status = Cancelled then record_abandoned b else record_failure completed_at b))) (\<lambda>_.
          terminate dp an cl 2 status completed_at decision detail None (retry_of (cl_spec cl) status error)))"

definition run_tool :: "deployment \<Rightarrow> answers \<Rightarrow> call_args \<Rightarrow> call \<Rightarrow> pyval \<Rightarrow> cap_decision \<Rightarrow> outcome action" where
  "run_tool dp an ca cl parsed decision =
     bind_action (try_action (call_handler dp an ca (cl_spec cl) parsed)) (\<lambda>r.
       case r of
         Inl CancelledError \<Rightarrow>
           bind_action (on_breaker (dp_fresh_breaker dp) (sp_name (cl_spec cl)) (\<lambda>b. ((), record_abandoned b))) (\<lambda>_.
           bind_action (lift_result (now_of (an_later an))) (\<lambda>t.
           bind_action (terminate dp an cl 2 Cancelled t decision (Some ''cancelled by the event loop'') None None)
             (\<lambda>_. raises CancelledError)))
       | Inl e \<Rightarrow> raises e
       | Inr result \<Rightarrow>
           bind_action (lift_result (now_of (an_later an))) (\<lambda>completed_at.
             case with_lease dp an result of
               (Succeeded, Some payload, detail, error) \<Rightarrow> finish_success dp an ca cl decision completed_at payload
             | other \<Rightarrow> finish_failure dp an cl decision completed_at other))"

subsection \<open>Admission\<close>

text \<open>The reservation: persist and publish the requested row, then run the tool.\<close>

definition requested_payload :: "call \<Rightarrow> grant \<Rightarrow> digest \<Rightarrow> pyval" where
  "requested_payload cl g d = VDict
     [(''tool_name'', VStr (sp_name (cl_spec cl))), (''tool_version'', VStr (sp_version (cl_spec cl))),
      (''capability_scope'', VStr (cl_scope cl)), (''grant_id'', VStr (cg_id g)),
      (''input_sha256'', VStr d), (''input_trust'', VStr (trust_value (cl_trust cl)))]"

definition admit_and_run :: "deployment \<Rightarrow> answers \<Rightarrow> call_args \<Rightarrow> call \<Rightarrow> grant \<Rightarrow> cap_decision \<Rightarrow> pyval \<Rightarrow>
    digest \<Rightarrow> outcome action" where
  "admit_and_run dp an ca cl g decision parsed d =
     bind_action (try_action (record_call dp cl (requested_invocation cl) event_requested (requested_payload cl g d)
         (an_ids an 1) decision True (an_persist_requested an) (an_publish_requested an))) (\<lambda>r.
       if an_cancel_admission an \<or> r = Inl CancelledError then
         bind_action (lift_result (now_of (an_later an))) (\<lambda>t.
         bind_action (terminate dp an cl 2 Cancelled t decision (Some ''cancelled during admission'') None None)
           (\<lambda>_. raises CancelledError))
       else
        (case r of
           Inl (RequestedPublication e) \<Rightarrow>
             bind_action (lift_result (now_of (an_later an))) (\<lambda>t.
               terminate dp an cl 2 Failed t decision (Some e) None None)
         | Inl (InvocationConflict other) \<Rightarrow>
             lift_result (settle_conflict dp other (cl_spec cl) (cl_scope cl) d decision)
         | Inl e \<Rightarrow> raises e
         | Inr _ \<Rightarrow> run_tool dp an ca cl parsed decision))"

definition from_store :: "string + invocation option \<Rightarrow> raised + invocation option" where
  "from_store a = (case a of Inl e \<Rightarrow> Inl (External e) | Inr m \<Rightarrow> Inr m)"

definition reserve :: "deployment \<Rightarrow> answers \<Rightarrow> call_args \<Rightarrow> call \<Rightarrow> grant \<Rightarrow> cap_decision \<Rightarrow> pyval \<Rightarrow>
    digest \<Rightarrow> outcome action" where
  "reserve dp an ca cl g decision parsed d =
     (if dp_admission dp then
        bind_action (lift_result (from_store (an_reserve an))) (\<lambda>existing.
          case existing of
            None \<Rightarrow> admit_and_run dp an ca cl g decision parsed d
          | Some row \<Rightarrow> lift_result (settle_conflict dp row (cl_spec cl) (cl_scope cl) d decision))
      else admit_and_run dp an ca cl g decision parsed d)"

text \<open>From the input rejection on; the requested record is built after the breaker was asked.\<close>

definition dispatch :: "deployment \<Rightarrow> answers \<Rightarrow> call_args \<Rightarrow> call \<Rightarrow> grant \<Rightarrow> cap_decision \<Rightarrow> prepared \<Rightarrow>
    instant \<Rightarrow> outcome action" where
  "dispatch dp an ca cl g decision prep now =
     (case prep of
        Rejected w d reason \<Rightarrow> terminate dp an cl 1 InvalidInput now decision (Some reason) None None
      | Accepted parsed w d \<Rightarrow>
          bind_action (on_breaker (dp_fresh_breaker dp) (sp_name (cl_spec cl)) (allows now)) (\<lambda>granted.
            if \<not> granted then
              terminate dp an cl 1 CircuitOpen now decision
                (Some (''circuit open for '' @ dp_repr dp (sp_name (cl_spec cl)))) None None
            else
             (case invocation_violation (requested_invocation cl) of
                Some e \<Rightarrow> raises (RecordInvalid e)
              | None \<Rightarrow> reserve dp an ca cl g decision parsed d)))"

subsection \<open>Lookup\<close>

text \<open>A row the stores already hold under the key; \<open>None\<close> is that the call goes on.\<close>

definition recovered_answer :: "deployment \<Rightarrow> answers \<Rightarrow> call \<Rightarrow> digest \<Rightarrow> cap_decision \<Rightarrow>
    raised + outcome option" where
  "recovered_answer dp an cl d decision =
     (if dp_lease_aware dp then
        bind_result (from_store (an_lookup an)) (\<lambda>found.
          case found of
            None \<Rightarrow> Inr None
          | Some row \<Rightarrow> answer_from dp row (cl_spec cl) (cl_scope cl) d decision)
      else
        bind_result (from_store (an_lookup an)) (\<lambda>found.
          if some_and (\<lambda>row. ti_status row \<in> replayable_record_statuses) found
          then answer_from dp (the found) (cl_spec cl) (cl_scope cl) d decision
          else if dp_pending_aware dp then
            bind_result (from_store (an_pending an)) (\<lambda>pending.
              case pending of
                None \<Rightarrow> Inr None
              | Some row \<Rightarrow>
                 (case require_same_request dp row (cl_spec cl) (cl_scope cl) d of
                    Some e \<Rightarrow> Inl e
                  | None \<Rightarrow> bind_result (in_progress row decision) (\<lambda>oc. Inr (Some oc))))
          else Inr None))"

subsection \<open>Authorization and \<open>invoke\<close>\<close>

definition cap_request_of :: "tool_spec \<Rightarrow> call_args \<Rightarrow> digest \<Rightarrow> instant \<Rightarrow> cap_request" where
  "cap_request_of sp ca d now =
     \<lparr>cr_run_id = ca_run_id ca, cr_task_id = ca_task_id ca, cr_attempt_id = ca_attempt_id ca,
      cr_tool_name = sp_name sp, cr_tool_version = sp_version sp, cr_scope = ca_scope ca,
      cr_sensitivity = sp_sensitivity sp, cr_input_trust = ca_trust ca, cr_input_sha256 = d,
      cr_requested_at = now\<rparr>"

definition call_of :: "answers \<Rightarrow> tool_spec \<Rightarrow> call_args \<Rightarrow> string \<Rightarrow> pyval \<Rightarrow> rendered option \<Rightarrow> instant \<Rightarrow> call" where
  "call_of an sp ca key input prompt now =
     \<lparr>cl_spec = sp, cl_id = an_ids an 0, cl_run_id = ca_run_id ca, cl_task_id = ca_task_id ca,
      cl_attempt_id = ca_attempt_id ca, cl_org = ca_org ca, cl_scope = ca_scope ca, cl_key = key,
      cl_input = input, cl_trust = ca_trust ca,
      cl_kind = (if prompt = None then SystemProducer else ModelTurn), cl_prompt = prompt,
      cl_requested_at = now, cl_lease_expires_at = now + lease_duration (sp_timeout_seconds sp)\<rparr>"

text \<open>Everything up to the decision: values only, nothing written.\<close>

definition authorize :: "deployment \<Rightarrow> answers \<Rightarrow> call_args \<Rightarrow> raised + (call \<times> prepared \<times> cap_decision \<times> instant)" where
  "authorize dp an ca =
     bind_result (now_of (an_now an)) (\<lambda>now.
     bind_result (specification_of (dp_specs dp) (ca_tool ca)) (\<lambda>sp.
     bind_result (verify_prompt dp (ca_prompt ca) (ca_pinned ca)) (\<lambda>prompt.
     bind_result (prepare_input dp sp (ca_arguments ca)) (\<lambda>prep.
     bind_result (effective_key dp sp ca (prepared_digest prep)) (\<lambda>key.
       let request = cap_request_of sp ca (prepared_digest prep) now in
       case request_violation request of
         Some e \<Rightarrow> Inl (RequestInvalid e)
       | None \<Rightarrow>
           Inr (call_of an sp ca key (prepared_input prep) prompt now, prep,
                dp_decide dp request (ca_grants ca) now (ca_approvals ca), now))))))"

fun resolve_grant :: "cap_decision \<Rightarrow> grant list \<Rightarrow> raised + grant" where
  "resolve_grant decision [] = Inl DecisionUnusable"
| "resolve_grant decision (g # gs) =
     (if Some (cg_id g) = cd_grant_id decision then Inr g else resolve_grant decision gs)"

definition invoke :: "deployment \<Rightarrow> answers \<Rightarrow> call_args \<Rightarrow> outcome action" where
  "invoke dp an ca =
     bind_action (lift_result (authorize dp an ca)) (\<lambda>(cl, prep, decision, now).
       if cd_effect decision \<noteq> Allow then
         terminate dp an cl 1 Denied now decision (map_option denial_value (cd_denial_reason decision)) None None
       else
         bind_action (lift_result (resolve_grant decision (ca_grants ca))) (\<lambda>g.
           let cl' = cl\<lparr>cl_scope := cg_scope g\<rparr> in
           bind_action (lift_result (recovered_answer dp an cl' (prepared_digest prep) decision)) (\<lambda>answer.
             case answer of
               Some oc \<Rightarrow> returns oc
             | None \<Rightarrow> dispatch dp an ca cl' g decision prep now)))"

end
