(* ===== verification/Boundary_Laws.thy ===== *)
theory Boundary_Laws
  imports Boundary_Invoke
begin

text \<open>
  What a mediated call guarantees. The abstract specification is a protocol, a small state machine
  over the effects a call may have; \<open>invoke\<close> refines it, whatever the outside answers. The
  guarantees a caller relies on are read off the protocol.
\<close>

subsection \<open>The protocol\<close>

datatype phase = Idle | Reserved audit_event | Announced | Running | Settled invocation audit_event | Told invocation

text \<open>A row of this call: its identity and input are the call's, and its contract accepts it.\<close>

definition row_of :: "call \<Rightarrow> invocation \<Rightarrow> bool" where
  "row_of cl row \<longleftrightarrow>
     invocation_violation row = None \<and> ti_id row = cl_id cl \<and> ti_run_id row = cl_run_id cl \<and>
     ti_task_id row = cl_task_id cl \<and> ti_attempt_id row = cl_attempt_id cl \<and>
     ti_tool_name row = sp_name (cl_spec cl) \<and> ti_tool_version row = sp_version (cl_spec cl) \<and>
     ti_scope row = cl_scope cl \<and> ti_idempotency_key row = cl_key cl \<and> ti_input row = cl_input cl"

text \<open>No held secret that can be told from the marker is left in what a row says.\<close>

definition row_hides :: "string list \<Rightarrow> invocation \<Rightarrow> bool" where
  "row_hides secrets row \<longleftrightarrow>
     (\<forall>s \<in> set secrets. separable s \<longrightarrow>
        \<not> exposed s (ti_input row) \<and> \<not> some_and (exposed s) (ti_output row) \<and>
        \<not> some_and (contains s) (ti_status_reason row))"

inductive protocol_step :: "string list \<Rightarrow> call \<Rightarrow> cap_decision \<Rightarrow> phase \<Rightarrow> happening \<Rightarrow> phase \<Rightarrow> bool"
  for secrets cl d where
  step_reserve: "cd_effect d = Allow \<Longrightarrow> ti_status row = InvRequested \<Longrightarrow> row_of cl row \<Longrightarrow> row_hides secrets row \<Longrightarrow>
     protocol_step secrets cl d Idle (Persisted row ev (cl_org cl) d) (Reserved ev)"
| step_announce: "protocol_step secrets cl d (Reserved ev) (Published ev) Announced"
| step_start: "protocol_step secrets cl d Announced (HandlerStarted v) Running"
| step_settle: "p \<in> {Idle, Announced, Running} \<or> (\<exists>e. p = Reserved e) \<Longrightarrow>
     ti_status row \<in> terminal_invocation_statuses \<Longrightarrow>
     (ti_status row = InvSucceeded \<Longrightarrow> p = Running) \<Longrightarrow>
     (ti_status row \<noteq> InvSucceeded \<Longrightarrow> ti_output row = None) \<Longrightarrow>
     (cd_effect d \<noteq> Allow \<Longrightarrow> ti_status row = InvDenied) \<Longrightarrow>
     row_of cl row \<Longrightarrow> row_hides secrets row \<Longrightarrow>
     protocol_step secrets cl d p (Persisted row ev (cl_org cl) d) (Settled row ev)"
| step_tell: "protocol_step secrets cl d (Settled row ev) (Published ev) (Told row)"

inductive protocol :: "string list \<Rightarrow> call \<Rightarrow> cap_decision \<Rightarrow> phase \<Rightarrow> happening list \<Rightarrow> phase \<Rightarrow> bool"
  for secrets cl d where
  protocol_Nil: "protocol secrets cl d p [] p"
| protocol_Cons: "protocol_step secrets cl d p e q \<Longrightarrow> protocol secrets cl d q es r \<Longrightarrow>
     protocol secrets cl d p (e # es) r"

inductive_simps protocol_Nil_iff [simp]: "protocol secrets cl d p [] q"
inductive_simps protocol_Cons_iff: "protocol secrets cl d p (e # es) q"
inductive_cases step_PersistedE: "protocol_step secrets cl d p (Persisted row ev org d') q"
inductive_cases step_PublishedE: "protocol_step secrets cl d p (Published ev) q"
inductive_cases step_HandlerE: "protocol_step secrets cl d p (HandlerStarted v) q"

lemma protocol_append:
  "protocol secrets cl d p es q \<Longrightarrow> protocol secrets cl d q fs r \<Longrightarrow> protocol secrets cl d p (es @ fs) r"
  by (induction rule: protocol.induct) (auto intro: protocol_Cons)

lemma protocol_one: "protocol_step secrets cl d p e q \<Longrightarrow> protocol secrets cl d p [e] q"
  by (auto intro: protocol_Cons protocol_Nil)

subsection \<open>What the protocol excludes\<close>

lemma protocol_persisted:
  "protocol secrets cl d p es q \<Longrightarrow> Persisted row ev org d' \<in> set es \<Longrightarrow>
   d' = d \<and> org = cl_org cl \<and> row_of cl row \<and> row_hides secrets row \<and>
   (cd_effect d \<noteq> Allow \<longrightarrow> ti_status row = InvDenied \<and> ti_output row = None)"
  by (induction rule: protocol.induct) (auto elim!: step_PersistedE)

fun announced_event :: "phase \<Rightarrow> audit_event option" where
  "announced_event (Reserved e) = Some e"
| "announced_event (Settled row e) = Some e"
| "announced_event _ = None"

lemma protocol_published:
  "protocol secrets cl d p es q \<Longrightarrow> es = xs @ Published ev # ys \<Longrightarrow>
   announced_event p = Some ev \<or> (\<exists>row. Persisted row ev (cl_org cl) d \<in> set xs)"
proof (induction arbitrary: xs rule: protocol.induct)
  case (protocol_Cons p e q es r)
  show ?case
  proof (cases xs)
    case Nil
    with protocol_Cons show ?thesis by (auto elim!: step_PublishedE)
  next
    case (Cons x xs')
    with protocol_Cons have eq: "x = e" "es = xs' @ Published ev # ys" by auto
    from protocol_Cons(1) protocol_Cons(3)[OF eq(2)] show ?thesis
      by cases (auto simp: Cons eq(1))
  qed
qed simp

fun handler_budget :: "phase \<Rightarrow> nat" where
  "handler_budget Idle = 1"
| "handler_budget (Reserved e) = 1"
| "handler_budget Announced = 1"
| "handler_budget _ = 0"

definition is_handler :: "happening \<Rightarrow> bool" where
  "is_handler h = (case h of HandlerStarted v \<Rightarrow> True | _ \<Rightarrow> False)"

lemma protocol_handler_count:
  "protocol secrets cl d p es q \<Longrightarrow> length (filter is_handler es) \<le> handler_budget p"
proof (induction rule: protocol.induct)
  case (protocol_Cons p e q es r)
  from protocol_Cons(1) have "(if is_handler e then 1 else 0) + handler_budget q \<le> handler_budget p"
    by cases (auto simp: is_handler_def)
  with protocol_Cons(3) show ?case by auto
qed simp

text \<open>Before the handler starts, its request was committed and then announced.\<close>

lemma protocol_handler_admitted:
  "protocol secrets cl d Idle (xs @ HandlerStarted v # ys) q \<Longrightarrow>
   cd_effect d = Allow \<and>
   (\<exists>row ev. xs = [Persisted row ev (cl_org cl) d, Published ev] \<and> ti_status row = InvRequested \<and> row_of cl row)"
proof -
  assume prot: "protocol secrets cl d Idle (xs @ HandlerStarted v # ys) q"
  have reach: "protocol secrets cl d p (zs @ HandlerStarted v # ys) q \<Longrightarrow>
      (p = Announced \<longrightarrow> zs = []) \<and> (\<forall>ev. p = Reserved ev \<longrightarrow> zs = [Published ev]) \<and>
      p \<noteq> Running \<and> (\<forall>row. p \<noteq> Told row) \<and> (\<forall>row ev. p \<noteq> Settled row ev)" for p zs
  proof (induction zs arbitrary: p)
    case Nil
    then show ?case by (auto simp: protocol_Cons_iff elim: step_HandlerE)
  next
    case (Cons x zs)
    from Cons(2) obtain p' where s: "protocol_step secrets cl d p x p'"
      and rest: "protocol secrets cl d p' (zs @ HandlerStarted v # ys) q"
      by (auto simp: protocol_Cons_iff)
    from s Cons(1)[OF rest] show ?case by cases auto
  qed
  show ?thesis
  proof (cases xs)
    case Nil
    with prot show ?thesis by (auto simp: protocol_Cons_iff elim: step_HandlerE)
  next
    case (Cons x xs')
    with prot obtain p' where s: "protocol_step secrets cl d Idle x p'"
      and rest: "protocol secrets cl d p' (xs' @ HandlerStarted v # ys) q"
      by (auto simp: protocol_Cons_iff)
    from s reach[OF rest] show ?thesis by cases (auto simp: Cons)
  qed
qed

lemma protocol_settled: "protocol secrets cl d p es q \<Longrightarrow> p = Told row \<Longrightarrow> es = []"
  by (induction rule: protocol.induct) (auto elim: protocol_step.cases)

lemma protocol_denied_length:
  "protocol secrets cl d Idle es q \<Longrightarrow> cd_effect d \<noteq> Allow \<Longrightarrow> length es \<le> 2 \<and> filter is_handler es = []"
proof -
  assume prot: "protocol secrets cl d Idle es q" and deny: "cd_effect d \<noteq> Allow"
  have settled: "length fs \<le> 1 \<and> filter is_handler fs = []" if "protocol secrets cl d (Settled row ev) fs q" for row ev fs
    using that
    by (cases rule: protocol.cases) (auto elim!: protocol_step.cases dest!: protocol_settled[OF _ refl] simp: is_handler_def)
  from prot show ?thesis
  proof (cases rule: protocol.cases)
    case (protocol_Cons e q' fs)
    from protocol_Cons(2) deny obtain row ev where "q' = Settled row ev" "\<not> is_handler e"
      by (cases rule: protocol_step.cases) (auto simp: is_handler_def)
    with settled[of row ev fs] protocol_Cons show ?thesis by simp
  qed simp
qed

text \<open>What a call did whose terminal record was told.\<close>

definition terminal_row :: "string list \<Rightarrow> call \<Rightarrow> cap_decision \<Rightarrow> invocation \<Rightarrow> bool" where
  "terminal_row secrets cl d row \<longleftrightarrow>
     ti_status row \<in> terminal_invocation_statuses \<and> (ti_status row \<noteq> InvSucceeded \<longrightarrow> ti_output row = None) \<and>
     (cd_effect d \<noteq> Allow \<longrightarrow> ti_status row = InvDenied) \<and> row_of cl row \<and> row_hides secrets row"

lemma told_ends: "protocol secrets cl d (Told r) es q \<Longrightarrow> es = [] \<and> q = Told r"
  by (cases es) (auto simp: protocol_Cons_iff elim: protocol_step.cases)

lemma told_after_settled: "protocol secrets cl d (Settled r ev) es (Told row) \<Longrightarrow> r = row \<and> es = [Published ev]"
  by (cases es) (auto simp: protocol_Cons_iff elim!: protocol_step.cases dest!: told_ends)

lemma told_by_settling:
  assumes "protocol_step secrets cl d p e (Settled r ev)" "protocol secrets cl d (Settled r ev) es (Told row)"
  shows "e # es = [Persisted row ev (cl_org cl) d, Published ev] \<and> terminal_row secrets cl d row \<and>
    (ti_status row = InvSucceeded \<longrightarrow> p = Running)"
  using assms(1) told_after_settled[OF assms(2)] by cases (auto simp: terminal_row_def)

text \<open>A step that does not settle, from each phase.\<close>

lemma protocol_step_on:
  "protocol_step secrets cl d p e q \<Longrightarrow>
     (\<exists>row ev. q = Settled row ev) \<or>
     (\<exists>row ev. p = Idle \<and> e = Persisted row ev (cl_org cl) d \<and> q = Reserved ev \<and> ti_status row = InvRequested) \<or>
     (\<exists>ev. p = Reserved ev \<and> e = Published ev \<and> q = Announced) \<or>
     (\<exists>v. p = Announced \<and> e = HandlerStarted v \<and> q = Running) \<or>
     (\<exists>row ev. p = Settled row ev \<and> e = Published ev \<and> q = Told row)"
  by (erule protocol_step.cases) blast+

lemma protocol_ends_told:
  assumes "protocol secrets cl d p es (Told row)" "p \<in> {Idle, Announced, Running} \<or> (\<exists>e. p = Reserved e)"
  shows "\<exists>xs ev. es = xs @ [Persisted row ev (cl_org cl) d, Published ev] \<and> terminal_row secrets cl d row \<and>
    (p = Running \<longrightarrow> xs = []) \<and>
    (ti_status row = InvSucceeded \<longrightarrow> p = Running \<or> (\<exists>v ys. xs = ys @ [HandlerStarted v]))"
  using assms
proof (induction es arbitrary: p)
  case (Cons e es)
  from Cons(2) obtain q where q: "protocol_step secrets cl d p e q" "protocol secrets cl d q es (Told row)"
    by (auto simp: protocol_Cons_iff)
  show ?case
  proof (cases "\<exists>r ev. q = Settled r ev")
    case True
    then obtain r ev where "q = Settled r ev" by blast
    with told_by_settling[of secrets cl d p e r ev es row] q show ?thesis by (intro exI[of _ "[]"]) auto
  next
    case False
    with protocol_step_on[OF q(1)] Cons(3)
    have next_p: "p \<noteq> Running" "q \<in> {Announced, Running} \<or> (\<exists>e. q = Reserved e)" "q = Running \<Longrightarrow> \<exists>v. e = HandlerStarted v" by auto
    from Cons(1)[OF q(2)] next_p(2) obtain xs ev where xs: "es = xs @ [Persisted row ev (cl_org cl) d, Published ev]"
      "terminal_row secrets cl d row" "q = Running \<longrightarrow> xs = []" "ti_status row = InvSucceeded \<longrightarrow> q = Running \<or> (\<exists>v ys. xs = ys @ [HandlerStarted v])"
      by blast
    have "ti_status row = InvSucceeded \<longrightarrow> (\<exists>v ys. e # xs = ys @ [HandlerStarted v])"
    proof
      assume "ti_status row = InvSucceeded"
      then consider "q = Running" | v ys where "xs = ys @ [HandlerStarted v]" using xs(4) by blast
      then show "\<exists>v ys. e # xs = ys @ [HandlerStarted v]"
      proof cases
        case 1
        with xs(3) next_p(3) show ?thesis by auto
      next
        case 2
        then show ?thesis by (intro exI[of _ v] exI[of _ "e # ys"]) simp
      qed
    qed
    with xs(1,2) next_p(1) show ?thesis by (intro exI[of _ "e # xs"]) auto
  qed
qed auto

subsection \<open>Actions that follow the protocol\<close>

definition follows :: "string list \<Rightarrow> call \<Rightarrow> cap_decision \<Rightarrow> phase \<Rightarrow> (raised + 'a \<Rightarrow> phase \<Rightarrow> bool) \<Rightarrow>
    'a action \<Rightarrow> bool" where
  "follows secrets cl d p Q m \<longleftrightarrow> ensures (\<lambda>es r. \<exists>q. protocol secrets cl d p es q \<and> Q r q) m"

lemma follows_bind:
  assumes "follows secrets cl d p P m"
    and "\<And>q e. P (Inl e) q \<Longrightarrow> Q (Inl e) q"
    and "\<And>q a. P (Inr a) q \<Longrightarrow> follows secrets cl d q Q (f a)"
  shows "follows secrets cl d p Q (bind_action m f)"
  unfolding follows_def
proof (rule ensures_bind[OF assms(1)[unfolded follows_def]])
  show "\<exists>q. protocol secrets cl d p es q \<and> P (Inl e) q \<Longrightarrow> \<exists>q. protocol secrets cl d p es q \<and> Q (Inl e) q" for es e
    using assms(2) by blast
  show "ensures (\<lambda>es2 r. \<exists>q. protocol secrets cl d p (es @ es2) q \<and> Q r q) (f a)"
    if "\<exists>q. protocol secrets cl d p es q \<and> P (Inr a) q" for es a
  proof -
    from that obtain q where q: "protocol secrets cl d p es q" "P (Inr a) q" by blast
    show ?thesis
      by (rule ensures_weaken[OF assms(3)[OF q(2), unfolded follows_def]]) (use q(1) protocol_append in blast)
  qed
qed

lemma follows_raises [simp]: "follows secrets cl d p Q (raises e) = Q (Inl e) p"
  by (simp add: follows_def)

lemma follows_returns [simp]: "follows secrets cl d p Q (returns a) = Q (Inr a) p"
  by (simp add: follows_def)

lemma follows_lift [simp]: "follows secrets cl d p Q (lift_result r) = Q r p"
  by (simp add: follows_def)

lemma follows_try [simp]: "follows secrets cl d p Q (try_action m) = follows secrets cl d p (\<lambda>r. Q (Inr r)) m"
  by (simp add: follows_def)

lemma follows_bind_lift [simp]:
  "follows secrets cl d p Q (bind_action (lift_result r) f) =
     (case r of Inl e \<Rightarrow> Q (Inl e) p | Inr a \<Rightarrow> follows secrets cl d p Q (f a))"
  by (cases r) (simp_all add: follows_def)

lemma follows_emit:
  "protocol_step secrets cl d p h q \<Longrightarrow> follows secrets cl d q Q (f ()) \<Longrightarrow>
   follows secrets cl d p Q (bind_action (emit h) f)"
  unfolding follows_def ensures_bind_emit
  by (erule ensures_weaken) (blast intro: protocol_Cons)

lemma follows_breaker:
  "(\<And>a. follows secrets cl d p Q (f a)) \<Longrightarrow>
   follows secrets cl d p Q (bind_action (on_breaker fresh tool g) f)"
  unfolding follows_def by (rule ensures_bind_breaker)

lemma follows_weaken:
  "follows secrets cl d p P m \<Longrightarrow> (\<And>r q. P r q \<Longrightarrow> Q r q) \<Longrightarrow> follows secrets cl d p Q m"
  unfolding follows_def by (erule ensures_weaken) blast

subsection \<open>What the parts guarantee\<close>

lemma redact_object_hides:
  "redact_object dp v = Inr w \<Longrightarrow> s \<in> set (dp_secrets dp) \<Longrightarrow> separable s \<Longrightarrow> \<not> exposed s w"
  by (auto simp: redact_object_def redact_def Let_def redact_hides split: sum.splits if_splits)

lemma redact_detail_hides:
  "redact_detail dp detail = Inr (Some t) \<Longrightarrow> s \<in> set (dp_secrets dp) \<Longrightarrow> separable s \<Longrightarrow> \<not> contains s t"
  by (auto simp: redact_detail_def redact_def Let_def redact_text_removes
      split: option.splits sum.splits if_splits pyval.splits)

lemma unprocessable_hides: "\<not> exposed s unprocessable_input"
  by (simp add: unprocessable_input_def)

lemma reject_input_Inr:
  "reject_input dp args error = Inr prep \<Longrightarrow>
     digest_object dp (prepared_input prep) = Inr (prepared_digest prep) \<and>
     (\<forall>s \<in> set (dp_secrets dp). separable s \<longrightarrow> \<not> exposed s (prepared_input prep)) \<and>
     (\<exists>w d reason. prep = Rejected w d reason)"
  by (auto simp: reject_input_def unprocessable_hides split: if_splits dest: redact_object_hides)

lemma prepare_input_Inr:
  "prepare_input dp sp args = Inr prep \<Longrightarrow>
     digest_object dp (prepared_input prep) = Inr (prepared_digest prep) \<and>
     (\<forall>s \<in> set (dp_secrets dp). separable s \<longrightarrow> \<not> exposed s (prepared_input prep))"
  by (auto simp: prepare_input_def split: sum.splits if_splits dest: reject_input_Inr redact_object_hides)

lemma make_outcome_Inr:
  "make_outcome status row retry d detail = Inr oc \<longleftrightarrow>
     outcome_violation status row = None \<and>
     oc = \<lparr>oc_status = status, oc_invocation = row, oc_retry = retry, oc_decision = Some d, oc_detail = detail\<rparr>"
  by (auto simp: make_outcome_def new_outcome_def split: sum.splits)

definition same_request :: "deployment \<Rightarrow> call \<Rightarrow> invocation \<Rightarrow> bool" where
  "same_request dp cl row \<longleftrightarrow>
     (\<exists>dg. digest_object dp (cl_input cl) = Inr dg \<and> digest_object dp (ti_input row) = Inr dg) \<and>
     ti_tool_name row = sp_name (cl_spec cl) \<and> ti_tool_version row = sp_version (cl_spec cl) \<and>
     ti_scope row = cl_scope cl"

lemma require_same_request_None:
  "digest_object dp (cl_input cl) = Inr dg \<Longrightarrow>
   require_same_request dp row (cl_spec cl) (cl_scope cl) dg = None \<longleftrightarrow> same_request dp cl row"
  by (auto simp: require_same_request_def same_request_def Let_def split: sum.splits if_splits)

text \<open>
  The rows the stores answered with, and a result taken from one of them: of the same request; a denied
  row never answers.
\<close>

definition recorded_rows :: "answers \<Rightarrow> invocation set" where
  "recorded_rows an =
     {row. an_lookup an = Inr (Some row) \<or> an_pending an = Inr (Some row) \<or> an_reserve an = Inr (Some row) \<or>
        an_persist_requested an = StoreConflict row \<or> an_persist_terminal an = StoreConflict row}"

definition replayed :: "deployment \<Rightarrow> answers \<Rightarrow> call \<Rightarrow> outcome \<Rightarrow> bool" where
  "replayed dp an cl oc \<longleftrightarrow>
     oc_invocation oc \<in> recorded_rows an \<and> same_request dp cl (oc_invocation oc) \<and> ti_status (oc_invocation oc) \<noteq> InvDenied \<and>
     (oc_status oc = outcome_status_of (oc_invocation oc) \<or> oc_status oc = InProgress)"

lemma in_progress_replayed:
  "in_progress row d = Inr oc \<Longrightarrow> row \<in> recorded_rows an \<Longrightarrow> same_request dp cl row \<Longrightarrow> replayed dp an cl oc \<and> oc_decision oc = Some d"
  by (auto simp: in_progress_def make_outcome_Inr replayed_def outcome_violation_def split: if_splits)

lemma answer_from_replayed:
  assumes "digest_object dp (cl_input cl) = Inr dg" "answer_from dp row (cl_spec cl) (cl_scope cl) dg d = Inr (Some oc)"
    and "row \<in> recorded_rows an"
  shows "replayed dp an cl oc \<and> oc_decision oc = Some d"
proof -
  have same: "same_request dp cl row"
    using assms(2) require_same_request_None[OF assms(1)] by (auto simp: answer_from_def split: option.splits)
  then show ?thesis
    using assms(2,3) in_progress_replayed[OF _ assms(3) same]
    by (auto simp: answer_from_def replay_def make_outcome_Inr replayed_def Let_def replayable_record_statuses_def
        split: option.splits if_splits)
qed

lemma settle_conflict_replayed:
  "digest_object dp (cl_input cl) = Inr dg \<Longrightarrow>
   settle_conflict dp row (cl_spec cl) (cl_scope cl) dg d = Inr oc \<Longrightarrow> row \<in> recorded_rows an \<Longrightarrow>
   replayed dp an cl oc \<and> oc_decision oc = Some d"
  using answer_from_replayed by (auto simp: settle_conflict_def split: option.splits)

lemma record_call_follows:
  assumes "\<And>ev. protocol_step secrets cl d p (Persisted row ev (cl_org cl) d) (mid ev)"
    and "\<And>ev. protocol_step secrets cl d (mid ev) (Published ev) fin"
  shows "follows secrets cl d p
     (\<lambda>r q. (r = Inr () \<longrightarrow> q = fin) \<and> (q = p \<or> q = fin) \<and> (\<forall>other. r = Inl (InvocationConflict other) \<longrightarrow> st = StoreConflict other))
     (record_call dp cl row et pl eid d wrap st pub)"
  unfolding record_call_def Let_def
  by (cases st) (auto intro!: follows_emit[OF assms(1)] follows_emit[OF assms(2)] split: publish_answer.split)

lemma terminal_row_of:
  "row_of cl (terminal_invocation cl status t reason output label) \<longleftrightarrow>
     invocation_violation (terminal_invocation cl status t reason output label) = None"
  by (auto simp: row_of_def terminal_invocation_def)

lemma status_for_terminal:
  "status \<noteq> InProgress \<Longrightarrow> invocation_status_for status \<in> terminal_invocation_statuses"
  "invocation_status_for status = InvSucceeded \<longleftrightarrow> status = Succeeded"
  "invocation_status_for status = InvDenied \<longleftrightarrow> status = Denied"
  by (cases status; simp add: terminal_invocation_statuses_def)+

definition input_hidden :: "deployment \<Rightarrow> call \<Rightarrow> bool" where
  "input_hidden dp cl \<longleftrightarrow> (\<forall>s \<in> set (dp_secrets dp). separable s \<longrightarrow> \<not> exposed s (cl_input cl))"

definition unsettled :: "phase \<Rightarrow> bool" where
  "unsettled p \<longleftrightarrow> p \<in> {Idle, Announced, Running} \<or> (\<exists>e. p = Reserved e)"

lemma terminate_follows:
  assumes "unsettled p" "status \<noteq> InProgress" "status = Succeeded \<Longrightarrow> p = Running"
    and "cd_effect d \<noteq> Allow \<Longrightarrow> status = Denied" "input_hidden dp cl"
    and "\<And>w l. out = Some (w, l) \<Longrightarrow> status = Succeeded \<and> (\<exists>v. redact_object dp v = Inr w)"
  shows "follows (dp_secrets dp) cl d p
     (\<lambda>r q. \<forall>oc. r = Inr oc \<longrightarrow> oc_decision oc = Some d \<and>
(replayed dp an cl oc \<or>
         (q = Told (oc_invocation oc) \<and> oc_status oc = status \<and> ti_status (oc_invocation oc) = invocation_status_for status \<and>
          ti_output (oc_invocation oc) = map_option fst out)))
     (terminate dp an cl k status t d detail out retry)"
proof (cases "redact_detail dp detail")
  case (Inr reason)
  let ?row = "terminal_invocation cl status t reason (map_option fst out) (map_option snd out)"
  show ?thesis
  proof (cases "invocation_violation ?row")
    case None
    have hides: "row_hides (dp_secrets dp) ?row"
      using assms(5,6) Inr redact_object_hides redact_detail_hides
      by (cases out; cases reason) (auto simp: row_hides_def input_hidden_def terminal_invocation_def)
    have noout: "status \<noteq> Succeeded \<Longrightarrow> out = None" using assms(6) by (cases out) auto
    have settle: "protocol_step (dp_secrets dp) cl d p (Persisted ?row ev (cl_org cl) d) (Settled ?row ev)" for ev
      using assms(1-4) noout None hides status_for_terminal
      by (intro step_settle) (auto simp: unsettled_def terminal_row_of, auto simp: terminal_invocation_def)
    note rec = record_call_follows[OF settle step_tell]
    show ?thesis
      unfolding terminate_def follows_bind_lift Inr sum.case Let_def None option.case
    proof (rule follows_bind[where P = "\<lambda>r q. \<exists>r'. r = Inr r' \<and> (r' = Inr () \<longrightarrow> q = Told ?row) \<and>
        (\<forall>other. r' = Inl (InvocationConflict other) \<longrightarrow> other \<in> recorded_rows an)"], goal_cases)
      case 1
      show ?case unfolding follows_try by (rule follows_weaken[OF rec]) (auto simp: recorded_rows_def)
    next
      case (3 q r)
      then show ?case
        by (auto simp: make_outcome_Inr terminal_invocation_def
            dest: settle_conflict_replayed split: cancel_point.split sum.split raised.split)
    qed simp
  qed (simp add: terminate_def Inr Let_def)
qed (simp add: terminate_def)

subsection \<open>What a whole call guarantees\<close>

text \<open>A success of this very call: the handler's value, validated by the tool's output model and redacted.\<close>

definition fresh_success :: "deployment \<Rightarrow> answers \<Rightarrow> call \<Rightarrow> outcome \<Rightarrow> bool" where
  "fresh_success dp an cl oc \<longleftrightarrow>
     (\<exists>v parsed w. an_handler an = Some (HandlerReturned v) \<and> sp_parse_output (cl_spec cl) v = Inr parsed \<and>
        redact_object dp parsed = Inr w \<and> ti_output (oc_invocation oc) = Some w)"

definition good_outcome :: "deployment \<Rightarrow> answers \<Rightarrow> call \<Rightarrow> cap_decision \<Rightarrow> outcome \<Rightarrow> phase \<Rightarrow> bool" where
  "good_outcome dp an cl d oc q \<longleftrightarrow>
     oc_decision oc = Some d \<and>
     (replayed dp an cl oc \<or>
      q = Told (oc_invocation oc) \<and> ti_status (oc_invocation oc) = invocation_status_for (oc_status oc) \<and>
      (if oc_status oc = Succeeded then fresh_success dp an cl oc else ti_output (oc_invocation oc) = None))"

abbreviation ends_well :: "deployment \<Rightarrow> answers \<Rightarrow> call \<Rightarrow> cap_decision \<Rightarrow> raised + outcome \<Rightarrow> phase \<Rightarrow> bool" where
  "ends_well dp an cl d r q \<equiv> \<forall>oc. r = Inr oc \<longrightarrow> good_outcome dp an cl d oc q"

lemma terminate_failure:
  assumes "unsettled p" "status \<notin> {InProgress, Succeeded}" "cd_effect d \<noteq> Allow \<Longrightarrow> status = Denied"
    "input_hidden dp cl"
  shows "follows (dp_secrets dp) cl d p (ends_well dp an cl d) (terminate dp an cl k status t d detail None retry)"
proof -
  have "follows (dp_secrets dp) cl d p
     (\<lambda>r q. \<forall>oc. r = Inr oc \<longrightarrow> oc_decision oc = Some d \<and>
        (replayed dp an cl oc \<or>
         (q = Told (oc_invocation oc) \<and> oc_status oc = status \<and> ti_status (oc_invocation oc) = invocation_status_for status \<and>
          ti_output (oc_invocation oc) = map_option fst (None :: (pyval \<times> trust) option))))
     (terminate dp an cl k status t d detail None retry)"
    by (rule terminate_follows) (use assms in auto)
  then show ?thesis by (rule follows_weaken) (use assms(2) in \<open>auto simp: good_outcome_def\<close>)
qed

lemma terminate_cancelled:
  assumes "unsettled p" "cd_effect d = Allow" "input_hidden dp cl"
  shows "follows (dp_secrets dp) cl d p (ends_well dp an cl d)
    (bind_action (terminate dp an cl k Cancelled t d detail None retry) (\<lambda>_. raises CancelledError))"
  by (rule follows_bind[OF terminate_failure[where an = an]]) (use assms in auto)

definition handler_post :: "answers \<Rightarrow> raised + handler_result \<Rightarrow> phase \<Rightarrow> bool" where
  "handler_post an r q \<longleftrightarrow> q \<in> {Announced, Running} \<and>
     (\<forall>st pl dt er. r = Inr (st, pl, dt, er) \<longrightarrow> st \<in> {Succeeded, Failed, Cancelled, TimedOut} \<and>
        (st = Succeeded \<longrightarrow> q = Running \<and> (\<exists>v. pl = Some v \<and> an_handler an = Some (HandlerReturned v))))"

lemma call_handler_follows:
  "follows secrets cl d Announced (handler_post an) (call_handler dp an ca sp parsed)"
  by (auto simp: call_handler_def handler_post_def intro!: follows_emit[OF step_start]
      split: option.split handler_answer.split)

lemma finish_failure_follows:
  assumes "unsettled p" "st \<in> {Failed, Cancelled, TimedOut}" "cd_effect d = Allow" "input_hidden dp cl"
  shows "follows (dp_secrets dp) cl d p (ends_well dp an cl d) (finish_failure dp an cl d t (st, pl, dt, er))"
  using assms by (auto simp: finish_failure_def intro!: follows_breaker terminate_failure)

lemma finish_success_follows:
  assumes "cd_effect d = Allow" "input_hidden dp cl" "an_handler an = Some (HandlerReturned v)"
  shows "follows (dp_secrets dp) cl d Running (ends_well dp an cl d) (finish_success dp an ca cl d t v)"
proof (cases "sp_parse_output (cl_spec cl) v")
  case (Inl error)
  then show ?thesis
    using assms by (auto simp: finish_success_def unsettled_def intro!: follows_breaker terminate_failure split: sum.split)
next
  case (Inr parsed)
  have told: "follows (dp_secrets dp) cl d Running (ends_well dp an cl d)
      (terminate dp an cl 2 Succeeded t d None (Some (w, label)) None)" if w: "redact_object dp parsed = Inr w" for w label
  proof -
    have "follows (dp_secrets dp) cl d Running
       (\<lambda>r q. \<forall>oc. r = Inr oc \<longrightarrow> oc_decision oc = Some d \<and>
          (replayed dp an cl oc \<or>
           (q = Told (oc_invocation oc) \<and> oc_status oc = Succeeded \<and> ti_status (oc_invocation oc) = invocation_status_for Succeeded \<and>
            ti_output (oc_invocation oc) = map_option fst (Some (w, label)))))
       (terminate dp an cl 2 Succeeded t d None (Some (w, label)) None)"
      by (rule terminate_follows) (use assms w in \<open>auto simp: unsettled_def\<close>)
    then show ?thesis
      by (rule follows_weaken) (use assms(3) Inr w in \<open>auto simp: good_outcome_def fresh_success_def\<close>)
  qed
  then show ?thesis by (auto simp: finish_success_def Inr intro!: follows_breaker split: sum.split)
qed

lemma with_lease_cases:
  "with_lease dp an r = r \<or> (\<exists>t. with_lease dp an r = (Failed, None, Some t, Some LeaseRenewalFailure))"
  by (auto simp: with_lease_def split: option.split)

lemma run_tool_follows:
  assumes allow: "cd_effect d = Allow" and hidden: "input_hidden dp cl"
  shows "follows (dp_secrets dp) cl d Announced (ends_well dp an cl d) (run_tool dp an ca cl parsed d)"
  unfolding run_tool_def
proof (rule follows_bind[where P = "\<lambda>r q. \<exists>r'. r = Inr r' \<and> handler_post an r' q"], goal_cases)
  case 1
  show ?case by (simp add: call_handler_follows)
next
  case (3 q r)
  then have post: "handler_post an r q" by simp
  then have q: "unsettled q" by (auto simp: unsettled_def handler_post_def)
  show ?case
  proof (cases r)
    case (Inl e)
    then show ?thesis
      using q assms by (cases e) (auto intro!: follows_breaker terminate_cancelled split: sum.split)
  next
    case (Inr result)
    obtain st pl dt er where res: "result = (st, pl, dt, er)" by (cases result) auto
    from post have st: "st \<in> {Succeeded, Failed, Cancelled, TimedOut}"
      "st = Succeeded \<Longrightarrow> q = Running \<and> (\<exists>v. pl = Some v \<and> an_handler an = Some (HandlerReturned v))"
      by (auto simp: Inr res handler_post_def)
    have "follows (dp_secrets dp) cl d q (ends_well dp an cl d)
        (case with_lease dp an result of
           (Succeeded, Some payload, detail, error) \<Rightarrow> finish_success dp an ca cl d t payload
         | other \<Rightarrow> finish_failure dp an cl d t other)" for t
      using with_lease_cases[of dp an result] st q assms
      by (auto simp: res intro!: finish_success_follows finish_failure_follows split: outcome_status.split)
    then show ?thesis by (auto simp: Inr split: sum.split)
  qed
qed simp

lemma good_replayed: "replayed dp an cl oc \<and> oc_decision oc = Some d \<Longrightarrow> good_outcome dp an cl d oc q"
  by (simp add: good_outcome_def)

lemma requested_row:
  assumes "invocation_violation (requested_invocation cl) = None" "input_hidden dp cl" "cd_effect d = Allow"
  shows "protocol_step (dp_secrets dp) cl d Idle (Persisted (requested_invocation cl) ev (cl_org cl) d) (Reserved ev)"
  using assms
  by (intro step_reserve) (auto simp: row_of_def requested_invocation_def row_hides_def input_hidden_def)

lemma admit_and_run_follows:
  assumes ok: "invocation_violation (requested_invocation cl) = None" "input_hidden dp cl" "cd_effect d = Allow"
    and dg: "digest_object dp (cl_input cl) = Inr dg"
  shows "follows (dp_secrets dp) cl d Idle (ends_well dp an cl d) (admit_and_run dp an ca cl g d parsed dg)"
  unfolding admit_and_run_def
proof (rule follows_bind[where P = "\<lambda>r q. \<exists>r'. r = Inr r' \<and> (r' = Inr () \<longrightarrow> q = Announced) \<and> (q = Idle \<or> q = Announced) \<and>
      (\<forall>other. r' = Inl (InvocationConflict other) \<longrightarrow> other \<in> recorded_rows an)"],
    goal_cases)
  case 1
  show ?case
    unfolding follows_try
    by (rule follows_weaken[OF record_call_follows[OF requested_row[OF ok] step_announce]]) (auto simp: recorded_rows_def)
next
  case (3 q r)
  then have q: "unsettled q" "r = Inr () \<Longrightarrow> q = Announced"
    "\<And>other. r = Inl (InvocationConflict other) \<Longrightarrow> other \<in> recorded_rows an" by (auto simp: unsettled_def)
  show ?case
  proof (cases "an_cancel_admission an \<or> r = Inl CancelledError")
    case True
    with q ok show ?thesis by (auto intro!: terminate_cancelled split: sum.split)
  next
    case False
    with q ok dg show ?thesis
      by (cases r)
        (auto intro!: terminate_failure run_tool_follows good_replayed
          dest: settle_conflict_replayed split: sum.split raised.split)
  qed
qed simp

lemma reserve_follows:
  assumes "invocation_violation (requested_invocation cl) = None" "input_hidden dp cl" "cd_effect d = Allow"
    and "digest_object dp (cl_input cl) = Inr dg"
  shows "follows (dp_secrets dp) cl d Idle (ends_well dp an cl d) (reserve dp an ca cl g d parsed dg)"
  using settle_conflict_replayed[OF assms(4)]
  by (auto simp: reserve_def from_store_def recorded_rows_def intro!: admit_and_run_follows good_replayed assms split: sum.split option.split)

lemma dispatch_follows:
  assumes "input_hidden dp cl" "cd_effect d = Allow"
    and "cl_input cl = prepared_input prep" "digest_object dp (prepared_input prep) = Inr (prepared_digest prep)"
  shows "follows (dp_secrets dp) cl d Idle (ends_well dp an cl d) (dispatch dp an ca cl g d prep now)"
proof (cases prep)
  case (Accepted parsed w dg)
  then show ?thesis
    using assms
    by (auto simp: dispatch_def unsettled_def intro!: follows_breaker terminate_failure reserve_follows split: option.split)
next
  case (Rejected w dg reason)
  then show ?thesis using assms by (auto simp: dispatch_def unsettled_def intro!: terminate_failure)
qed

lemma recovered_answer_replayed:
  assumes "digest_object dp (cl_input cl) = Inr dg" "recovered_answer dp an cl dg d = Inr (Some oc)"
  shows "replayed dp an cl oc \<and> oc_decision oc = Some d"
proof -
  have rows: "from_store (an_lookup an) = Inr (Some row) \<Longrightarrow> row \<in> recorded_rows an"
    "from_store (an_pending an) = Inr (Some row) \<Longrightarrow> row \<in> recorded_rows an" for row
    by (auto simp: from_store_def recorded_rows_def split: sum.splits)
  have found: "some_and P a \<Longrightarrow> \<exists>row. a = Some row" for P and a :: "invocation option" by (cases a) auto
  show ?thesis
    using assms(2) answer_from_replayed[OF assms(1) _ rows(1)] require_same_request_None[OF assms(1)]
      in_progress_replayed[OF _ rows(2)]
    by (auto simp: recovered_answer_def split: if_splits option.splits dest!: found)
qed

lemma authorize_Inr:
  assumes "authorize dp an ca = Inr (cl, prep, d, now)"
  shows "cl_input cl = prepared_input prep" "digest_object dp (prepared_input prep) = Inr (prepared_digest prep)"
    and "input_hidden dp cl" "cl_scope cl = ca_scope ca" "an_now an = Aware now"
    and "dp_specs dp (ca_tool ca) = Some (cl_spec cl)"
    and "d = dp_decide dp (cap_request_of (cl_spec cl) ca (prepared_digest prep) now) (ca_grants ca) now (ca_approvals ca)"
  using assms prepare_input_Inr
  by (auto simp: authorize_def call_of_def input_hidden_def Let_def now_of_def specification_of_def
      split: option.splits py_datetime.splits)

lemma resolve_grant_Inr: "resolve_grant d gs = Inr g \<Longrightarrow> g \<in> set gs \<and> cd_grant_id d = Some (cg_id g)"
  by (induction gs) (auto split: if_splits)

text \<open>The call as it is recorded: an allowed call takes its scope from the grant that was named.\<close>

definition settled_call :: "call \<Rightarrow> cap_decision \<Rightarrow> grant list \<Rightarrow> call" where
  "settled_call cl d gs =
     (if cd_effect d = Allow then (case resolve_grant d gs of Inr g \<Rightarrow> cl\<lparr>cl_scope := cg_scope g\<rparr> | Inl e \<Rightarrow> cl) else cl)"

text \<open>\<open>invoke\<close> refines the protocol.\<close>

lemma invoke_follows:
  assumes auth: "authorize dp an ca = Inr (cl, prep, d, now)"
  shows "follows (dp_secrets dp) (settled_call cl d (ca_grants ca)) d Idle
     (ends_well dp an (settled_call cl d (ca_grants ca)) d) (invoke dp an ca)"
proof (cases "cd_effect d = Allow")
  case False
  then show ?thesis
    using authorize_Inr(3)[OF auth]
    by (simp add: invoke_def auth settled_call_def) (rule terminate_failure, auto simp: unsettled_def)
next
  case True
  note a = authorize_Inr[OF auth]
  show ?thesis
  proof (cases "resolve_grant d (ca_grants ca)")
    case (Inl e)
    with True show ?thesis by (simp add: invoke_def auth)
  next
    case (Inr g)
    let ?cl = "cl\<lparr>cl_scope := cg_scope g\<rparr>"
    have cl: "settled_call cl d (ca_grants ca) = ?cl" by (simp add: settled_call_def True Inr)
    have in': "input_hidden dp ?cl" "cl_input ?cl = prepared_input prep"
      "digest_object dp (cl_input ?cl) = Inr (prepared_digest prep)" using a(1-3) by (simp_all add: input_hidden_def)
    show ?thesis
      unfolding invoke_def auth follows_bind_lift sum.case prod.case cl
      using recovered_answer_replayed[OF in'(3)] dispatch_follows[OF in'(1) True in'(2) a(2)] True
      by (auto simp: Inr Let_def intro: good_replayed split: sum.split option.split)
  qed
qed

lemma invoke_protocol:
  assumes "authorize dp an ca = Inr (cl, prep, d, now)" "invoke dp an ca bs = (es, bs', r)"
  shows "\<exists>q. protocol (dp_secrets dp) (settled_call cl d (ca_grants ca)) d Idle es q \<and>
    ends_well dp an (settled_call cl d (ca_grants ca)) d r q"
  using ensuresD[OF invoke_follows[OF assms(1), unfolded follows_def] assms(2)] by blast

lemma invoke_unauthorized:
  "authorize dp an ca = Inl e \<Longrightarrow> invoke dp an ca bs = ([], bs, Inl e)"
  by (simp add: invoke_def bind_action_def lift_result_def)

end
