(* ===== verification/Boundary_Props.thy ===== *)
theory Boundary_Props
  imports Boundary_Laws
begin

text \<open>
  What callers of the tool boundary rely on, read off the protocol of theory \<open>Boundary_Laws\<close>, with a
  deployment on which the statements are exercised, and two places where the boundary falls short.
\<close>

subsection \<open>Breakers\<close>

definition keeps_breakers :: "'a action \<Rightarrow> bool" where
  "keeps_breakers m \<longleftrightarrow> (\<forall>bs. fst (snd (m bs)) = bs)"

lemma keeps_breakers_bind:
  "keeps_breakers m \<Longrightarrow> (\<And>a. keeps_breakers (f a)) \<Longrightarrow> keeps_breakers (bind_action m f)"
  by (auto simp: keeps_breakers_def bind_action_def split_beta split: sum.split)

lemma keeps_breakers_simps [simp]:
  "keeps_breakers (returns a)" "keeps_breakers (raises e)" "keeps_breakers (lift_result r)" "keeps_breakers (emit h)"
  "keeps_breakers (try_action m) = keeps_breakers m"
  by (simp_all add: keeps_breakers_def returns_def raises_def lift_result_def emit_def try_action_def split_beta)

lemma keeps_breakers_record: "keeps_breakers (record_call dp cl row et pl eid d wrap st pub)"
  by (auto simp: record_call_def Let_def intro!: keeps_breakers_bind split: store_answer.split publish_answer.split)

lemma keeps_breakers_terminate: "keeps_breakers (terminate dp an cl k status t d detail out retry)"
  unfolding terminate_def Let_def
  by (auto intro!: keeps_breakers_bind simp: keeps_breakers_record
      split: option.split cancel_point.split sum.split raised.split)

lemma terminate_no_conflict:
  assumes "\<And>other. an_persist_terminal an \<noteq> StoreConflict other"
  shows "ensures (\<lambda>es r. \<forall>oc. r = Inr oc \<longrightarrow> oc_status oc = status)
    (terminate dp an cl k status t d detail out retry)"
proof -
  have rec: "ensures (\<lambda>es r. \<forall>other. r \<noteq> Inl (InvocationConflict other))
      (record_call dp cl row et pl eid d wrap (an_persist_terminal an) pub)" for row et pl eid wrap pub
    using assms by (cases "an_persist_terminal an") (auto simp: record_call_def Let_def split: publish_answer.split)
  show ?thesis
  proof (cases "redact_detail dp detail")
    case (Inr reason)
    then show ?thesis
      unfolding terminate_def ensures_bind_lift Inr sum.case Let_def
      by (auto intro!: ensures_bind[where P = "\<lambda>es r. \<exists>r'. r = Inr r' \<and> (\<forall>other. r' \<noteq> Inl (InvocationConflict other))"]
          simp: rec make_outcome_Inr split: option.split cancel_point.split sum.split raised.split)
  qed (simp add: terminate_def)
qed

subsection \<open>What a handler is started with\<close>

definition starts_in :: "pyval set \<Rightarrow> 'a action \<Rightarrow> bool" where
  "starts_in V m \<longleftrightarrow> ensures (\<lambda>es r. \<forall>u. HandlerStarted u \<in> set es \<longrightarrow> u \<in> V) m"

lemma starts_in_bind: "starts_in V m \<Longrightarrow> (\<And>a. starts_in V (f a)) \<Longrightarrow> starts_in V (bind_action m f)"
  unfolding starts_in_def
  by (rule ensures_bind[where P = "\<lambda>es r. \<forall>u. HandlerStarted u \<in> set es \<longrightarrow> u \<in> V"]) (auto elim: ensures_weaken)

lemma starts_in_simps [simp]:
  "starts_in V (returns a)" "starts_in V (raises e)" "starts_in V (lift_result r)"
  "starts_in V (try_action m) = starts_in V m" "starts_in V (on_breaker fresh tool g)"
  "starts_in V (emit h) = (\<forall>u. h = HandlerStarted u \<longrightarrow> u \<in> V)"
  by (auto simp: starts_in_def) (simp add: ensures_def on_breaker_def split: prod.split)

lemma starts_in_record [simp]: "starts_in V (record_call dp cl row et pl eid d wrap st pub)"
  by (auto simp: record_call_def Let_def intro!: starts_in_bind split: store_answer.split publish_answer.split)

lemma starts_in_terminate [simp]: "starts_in V (terminate dp an cl k status t d detail out retry)"
  unfolding terminate_def Let_def
  by (auto intro!: starts_in_bind split: option.split cancel_point.split sum.split raised.split)

lemma starts_in_bind_lift [simp]:
  "starts_in V (bind_action (lift_result r) f) = (case r of Inl e \<Rightarrow> True | Inr a \<Rightarrow> starts_in V (f a))"
  by (simp add: starts_in_def split: sum.split)

lemma starts_in_call_handler: "v \<in> V \<Longrightarrow> starts_in V (call_handler dp an ca sp v)"
  by (auto simp: call_handler_def intro!: starts_in_bind split: option.split handler_answer.split)

lemma starts_in_finish [simp]: "starts_in V (finish_success dp an ca cl d t payload)" "starts_in V (finish_failure dp an cl d t result)"
  unfolding finish_success_def finish_failure_def
  by (auto intro!: starts_in_bind split: sum.split prod.split)

lemma starts_in_run_tool: "v \<in> V \<Longrightarrow> starts_in V (run_tool dp an ca cl v d)"
  unfolding run_tool_def
  by (rule starts_in_bind, simp add: starts_in_call_handler)
    (auto intro!: starts_in_bind split: sum.split raised.split prod.split outcome_status.split option.split)

lemma starts_in_admit: "v \<in> V \<Longrightarrow> starts_in V (admit_and_run dp an ca cl g d v dg)"
  unfolding admit_and_run_def
  by (rule starts_in_bind, simp) (auto intro!: starts_in_bind starts_in_run_tool split: sum.split raised.split)

lemma starts_in_dispatch: "v \<in> V \<Longrightarrow> starts_in V (dispatch dp an ca cl g d (Accepted v w dg) now)"
  by (auto simp: dispatch_def reserve_def intro!: starts_in_bind starts_in_admit split: option.split sum.split)

lemma starts_in_invoke:
  assumes "authorize dp an ca = Inr (cl, prep, d, now)"
  shows "starts_in {v. \<exists>w dg. prep = Accepted v w dg} (invoke dp an ca)"
proof (cases prep)
  case (Accepted v w dg)
  then show ?thesis
    using assms by (auto simp: invoke_def Let_def intro!: starts_in_bind starts_in_dispatch split: sum.split option.split)
next
  case (Rejected w dg reason)
  then show ?thesis
    using assms by (auto simp: invoke_def dispatch_def Let_def intro!: starts_in_bind split: sum.split option.split)
qed

lemma no_handler_iff: "filter is_handler es = [] \<longleftrightarrow> (\<forall>u. HandlerStarted u \<notin> set es)"
  by (auto simp: filter_empty_conv is_handler_def split: happening.splits)

lemma starts_nothing: "starts_in {} m \<Longrightarrow> m bs = (es, bs', r) \<Longrightarrow> filter is_handler es = []"
  unfolding starts_in_def no_handler_iff by (drule (1) ensuresD) simp

subsection \<open>A deployment\<close>

definition example_hash :: "string \<Rightarrow> digest" where
  "example_hash s = replicate 64 CHR ''0''"

definition example_breaker :: breaker where
  "example_breaker = \<lparr>br_threshold = 1, br_cooldown = 1000, br_state = Closed, br_failures = 0,
     br_opened_at = None, br_in_flight = False\<rparr>"

definition example_deployment :: deployment where
  "example_deployment = \<lparr>dp_specs = [''search'' \<mapsto> example_spec], dp_secrets = [''hunter22''], dp_destinations = [],
     dp_verifier = None, dp_fresh_breaker = example_breaker, dp_lease_aware = False, dp_pending_aware = False,
     dp_admission = False, dp_decide = decide_capability example_hash, dp_hash = example_hash,
     dp_json = (\<lambda>v. ''{}''), dp_float_str = (\<lambda>x. ''30.0''), dp_repr = (\<lambda>s. s),
     dp_too_deep = (\<lambda>v. False), dp_repr_error = (\<lambda>v. ''unrepresentable'')\<rparr>"

definition example_search_grant :: grant where
  "example_search_grant = \<lparr>cg_id = ''g'', cg_run_id = ''r'', cg_task_id = ''t'', cg_scope = ''web'',
     cg_tool_name = ''search'', cg_tool_versions = [''1.0''], cg_sensitivity = ReadOnly,
     cg_max_input_trust = ExternalUntrusted, cg_requires_approval = False, cg_issued_at = 0, cg_expires_at = 10000000\<rparr>"

definition example_call :: "grant list \<Rightarrow> call_args" where
  "example_call gs = \<lparr>ca_tool = ''search'', ca_run_id = ''r'', ca_task_id = ''t'', ca_attempt_id = ''a'', ca_org = None,
     ca_scope = ''web'', ca_arguments = [(''api_key'', VStr ''hunter22''), (''limit'', VInt 3)], ca_trust = UserSupplied, ca_grants = gs,
     ca_approvals = [], ca_output_trust = None, ca_key = Some ''k'', ca_prompt = None, ca_pinned = None,
     ca_token = False\<rparr>"

definition example_answers :: answers where
  "example_answers = \<lparr>an_now = Aware 5000, an_later = Aware 6000, an_ids = (\<lambda>n. ''i'' @ nat_str n),
     an_lookup = Inr None, an_pending = Inr None, an_reserve = Inr None,
     an_persist_requested = Stored, an_publish_requested = Delivered, an_cancel_admission = False,
     an_persist_terminal = Stored, an_publish_terminal = Delivered, an_cancel_terminal = NotCancelled,
     an_token_set = False, an_token_signalled = False, an_external_cancel = False,
     an_handler = Some (HandlerReturned (VDict [(''count'', VInt 1)])),
     an_renewals = [], an_ticks_dispatch = 0, an_ticks_wait = 0, an_ticks_done = 0\<rparr>"

subsection \<open>The guarantees\<close>

lemma invoke_denied:
  assumes "authorize dp an ca = Inr (cl, prep, d, now)" "cd_effect d \<noteq> Allow"
  shows "invoke dp an ca = terminate dp an cl 1 Denied now d (map_option denial_value (cd_denial_reason d)) None None"
  using assms by (simp add: invoke_def bind_action_def lift_result_def fun_eq_iff)

text \<open>
  C2: Authorization precedes every effect. A call that raises before the decision does nothing. Every
  row a call commits carries the decision just made for it. A call that is denied touches no breaker,
  never starts the handler, and commits at most its own row, which says \<open>denied\<close> and has no output;
  its outcome is \<open>denied\<close>, for a store that does not answer the insertion of a denied row with a
  conflict (its uniqueness constraint excludes denied rows).
\<close>

theorem authorization_precedes_effects:
  assumes run: "invoke dp an ca bs = (es, bs', r)"
  shows "case authorize dp an ca of
      Inl e \<Rightarrow> es = [] \<and> bs' = bs \<and> r = Inl e
    | Inr (cl, prep, d, now) \<Rightarrow>
        (\<forall>row ev org d'. Persisted row ev org d' \<in> set es \<longrightarrow> d' = d) \<and>
        (cd_effect d \<noteq> Allow \<longrightarrow>
           bs' = bs \<and> filter is_handler es = [] \<and> length es \<le> 2 \<and>
           (\<forall>row ev org d'. Persisted row ev org d' \<in> set es \<longrightarrow> ti_status row = InvDenied \<and> ti_output row = None) \<and>
           ((\<forall>other. an_persist_terminal an \<noteq> StoreConflict other) \<longrightarrow>
              (\<forall>oc. r = Inr oc \<longrightarrow> oc_status oc = Denied)))"
proof (cases "authorize dp an ca")
  case (Inl e)
  with invoke_unauthorized[OF Inl, of bs] run show ?thesis by simp
next
  case (Inr a)
  obtain cl prep d now where a: "a = (cl, prep, d, now)" by (cases a) auto
  note auth = Inr[unfolded a]
  from invoke_protocol[OF auth run] obtain q where
    prot: "protocol (dp_secrets dp) (settled_call cl d (ca_grants ca)) d Idle es q" by blast
  have rows: "Persisted row ev org d' \<in> set es \<Longrightarrow> d' = d \<and> (cd_effect d \<noteq> Allow \<longrightarrow>
      ti_status row = InvDenied \<and> ti_output row = None)" for row ev org d'
    using protocol_persisted[OF prot] by blast
  show ?thesis
  proof (cases "cd_effect d = Allow")
    case False
    have "bs' = bs"
      using keeps_breakers_terminate[of dp an cl 1 Denied now d "map_option denial_value (cd_denial_reason d)" None None] run
      unfolding keeps_breakers_def invoke_denied[OF auth False] by (metis fst_conv snd_conv)
    moreover have "\<forall>oc. r = Inr oc \<longrightarrow> oc_status oc = Denied"
      if "\<And>other. an_persist_terminal an \<noteq> StoreConflict other"
      using ensuresD[OF terminate_no_conflict[OF that] run[unfolded invoke_denied[OF auth False]]] .
    ultimately show ?thesis
      using False rows protocol_denied_length[OF prot False] by (auto simp: auth)
  qed (use rows in \<open>auto simp: auth\<close>)
qed

text \<open>
  C3: Persist before publish, and reserve before running. Whatever the stores, the publisher, the
  handler and the event loop do: an event is handed to the publisher only after the row it belongs to
  was committed; the handler starts at most once; and it starts only under an allowing decision,
  right after the request was committed as \<open>requested\<close> and announced.
\<close>

theorem effects_in_order:
  assumes run: "invoke dp an ca bs = (es, bs', r)"
  shows "(\<forall>xs ev ys. es = xs @ Published ev # ys \<longrightarrow> (\<exists>row org d. Persisted row ev org d \<in> set xs)) \<and>
     length (filter is_handler es) \<le> 1 \<and>
     (\<forall>xs v ys. es = xs @ HandlerStarted v # ys \<longrightarrow>
        (\<exists>row ev org d. xs = [Persisted row ev org d, Published ev] \<and> ti_status row = InvRequested \<and>
           cd_effect d = Allow))"
proof (cases "authorize dp an ca")
  case (Inl e)
  with invoke_unauthorized[OF Inl, of bs] run show ?thesis by simp
next
  case (Inr a)
  obtain cl prep d now where a: "a = (cl, prep, d, now)" by (cases a) auto
  from invoke_protocol[OF Inr[unfolded a] run] obtain q where
    prot: "protocol (dp_secrets dp) (settled_call cl d (ca_grants ca)) d Idle es q" by blast
  have "\<exists>row org d. Persisted row ev org d \<in> set xs" if "es = xs @ Published ev # ys" for xs ev ys
    using protocol_published[OF prot that] by auto
  moreover have "length (filter is_handler es) \<le> 1" using protocol_handler_count[OF prot] by simp
  moreover have "\<exists>row ev org d. xs = [Persisted row ev org d, Published ev] \<and> ti_status row = InvRequested \<and>
           cd_effect d = Allow" if "es = xs @ HandlerStarted v # ys" for xs v ys
    using protocol_handler_admitted[OF prot[unfolded that]] by blast
  ultimately show ?thesis by blast
qed

text \<open>
  No held secret reaches the audit trail. Every row a call commits satisfies its contract, and
  neither its input, nor its output, nor its status reason contains a held secret that can be told
  from the redaction marker; secret handles and keys of mappings are the exception.
\<close>

theorem audit_rows_hide_secrets:
  assumes run: "invoke dp an ca bs = (es, bs', r)" and row: "Persisted row ev org d' \<in> set es"
  shows "invocation_violation row = None \<and> row_hides (dp_secrets dp) row"
proof (cases "authorize dp an ca")
  case (Inl e)
  with invoke_unauthorized[OF Inl, of bs] run row show ?thesis by simp
next
  case (Inr a)
  obtain cl prep d now where a: "a = (cl, prep, d, now)" by (cases a) auto
  from invoke_protocol[OF Inr[unfolded a] run] obtain q where
    prot: "protocol (dp_secrets dp) (settled_call cl d (ca_grants ca)) d Idle es q" by blast
  from protocol_persisted[OF prot row] show ?thesis by (auto simp: row_of_def)
qed

text \<open>
  C15: A success is earned. When a call returns an outcome, its invocation is a row the stores answered
  with, of the same request (same tool and version, same scope as the grant, same input digest), reported
  under its own status or as in progress; or it is the terminal row of this very call, committed and then
  announced as its last two effects. In the second case a success means that the handler was started, with
  the validated input, just before, that it returned a value the tool's output model validated, and that
  the recorded output is the redaction of exactly that; every other outcome has no output. So when the
  stores answer with no row, nothing but the validated and redacted result of this call's handler is ever
  returned as a success. The outcome carries the decision made for this caller, and the decision behind a
  success is to allow unless the store answered with a conflict.
\<close>

theorem success_is_earned:
  assumes run: "invoke dp an ca bs = (es, bs', Inr oc)"
  shows "\<exists>cl prep d now. authorize dp an ca = Inr (cl, prep, d, now) \<and> oc_decision oc = Some d \<and>
     (let cl' = settled_call cl d (ca_grants ca) in
      replayed dp an cl' oc \<or>
      (\<exists>xs ev. es = xs @ [Persisted (oc_invocation oc) ev (cl_org cl') d, Published ev] \<and>
         row_of cl' (oc_invocation oc) \<and> ti_status (oc_invocation oc) = invocation_status_for (oc_status oc) \<and>
         (if oc_status oc = Succeeded
          then fresh_success dp an cl' oc \<and> (\<exists>v w dg ys. prep = Accepted v w dg \<and> xs = ys @ [HandlerStarted v])
          else ti_output (oc_invocation oc) = None))) \<and>
     (oc_status oc = Succeeded \<longrightarrow> cd_effect d = Allow \<or> (\<exists>other. an_persist_terminal an = StoreConflict other))"
proof (cases "authorize dp an ca")
  case (Inl e)
  with invoke_unauthorized[OF Inl, of bs] run show ?thesis by simp
next
  case (Inr a)
  obtain cl prep d now where a: "a = (cl, prep, d, now)" by (cases a) auto
  note auth = Inr[unfolded a]
  let ?cl = "settled_call cl d (ca_grants ca)"
  from invoke_protocol[OF auth run] obtain q where q: "protocol (dp_secrets dp) ?cl d Idle es q"
    and good: "good_outcome dp an ?cl d oc q" by blast
  have "cd_effect d = Allow \<or> (\<exists>other. an_persist_terminal an = StoreConflict other)" if "oc_status oc = Succeeded"
  proof (rule ccontr)
    assume "\<not> ?thesis"
    then have deny: "cd_effect d \<noteq> Allow" and store: "\<And>other. an_persist_terminal an \<noteq> StoreConflict other" by auto
    from ensuresD[OF terminate_no_conflict[OF store] run[unfolded invoke_denied[OF auth deny]]] that show False by simp
  qed
  moreover have "replayed dp an ?cl oc \<or>
      (\<exists>xs ev. es = xs @ [Persisted (oc_invocation oc) ev (cl_org ?cl) d, Published ev] \<and>
         row_of ?cl (oc_invocation oc) \<and> ti_status (oc_invocation oc) = invocation_status_for (oc_status oc) \<and>
         (if oc_status oc = Succeeded
          then fresh_success dp an ?cl oc \<and> (\<exists>v w dg ys. prep = Accepted v w dg \<and> xs = ys @ [HandlerStarted v])
          else ti_output (oc_invocation oc) = None))"
  proof (rule disjCI[THEN disj_commute[THEN iffD1]])
    assume "\<not> replayed dp an ?cl oc"
    with good have told: "q = Told (oc_invocation oc)" "ti_status (oc_invocation oc) = invocation_status_for (oc_status oc)"
      "if oc_status oc = Succeeded then fresh_success dp an ?cl oc else ti_output (oc_invocation oc) = None"
      by (auto simp: good_outcome_def)
    from protocol_ends_told[OF q[unfolded told(1)]] obtain xs ev where
      es: "es = xs @ [Persisted (oc_invocation oc) ev (cl_org ?cl) d, Published ev]" and
      row: "terminal_row (dp_secrets dp) ?cl d (oc_invocation oc)" and
      started: "ti_status (oc_invocation oc) = InvSucceeded \<longrightarrow> (\<exists>v ys. xs = ys @ [HandlerStarted v])" by auto
    have "\<exists>v w dg ys. prep = Accepted v w dg \<and> xs = ys @ [HandlerStarted v]" if "oc_status oc = Succeeded"
    proof -
      from started told(2) that obtain v ys where v: "xs = ys @ [HandlerStarted v]" by auto
      then have "HandlerStarted v \<in> set es" using es by simp
      with ensuresD[OF starts_in_invoke[OF auth, unfolded starts_in_def] run] v show ?thesis by blast
    qed
    with told(2,3) es row show "\<exists>xs ev. es = xs @ [Persisted (oc_invocation oc) ev (cl_org ?cl) d, Published ev] \<and>
         row_of ?cl (oc_invocation oc) \<and> ti_status (oc_invocation oc) = invocation_status_for (oc_status oc) \<and>
         (if oc_status oc = Succeeded
          then fresh_success dp an ?cl oc \<and> (\<exists>v w dg ys. prep = Accepted v w dg \<and> xs = ys @ [HandlerStarted v])
          else ti_output (oc_invocation oc) = None)"
      by (intro exI[of _ xs] exI[of _ ev]) (auto simp: terminal_row_def)
  qed
  ultimately show ?thesis using auth good by (auto simp: good_outcome_def Let_def)
qed

subsection \<open>The guarantees on a run\<close>

definition example_run :: "happening list \<times> breakers \<times> (raised + outcome)" where
  "example_run = invoke example_deployment example_answers (example_call [example_search_grant]) Map.empty"

definition example_denied_run :: "happening list \<times> breakers \<times> (raised + outcome)" where
  "example_denied_run = invoke example_deployment example_answers (example_call []) Map.empty"

text \<open>The effects of a run, by kind.\<close>

definition kinds :: "happening list \<Rightarrow> (invocation_status option) list" where
  "kinds es = map (\<lambda>e. case e of Persisted row ev org d \<Rightarrow> Some (ti_status row) | _ \<Rightarrow> None) es"

theorem authorization_precedes_effects_witness:
  "fst (snd example_denied_run) = Map.empty \<and> length (fst example_denied_run) \<le> 2"
proof -
  have deny: "(case authorize example_deployment example_answers (example_call []) of
      Inr (cl, prep, d, now) \<Rightarrow> cd_effect d = Deny | Inl e \<Rightarrow> False)" by code_simp
  obtain es bs' r where run: "invoke example_deployment example_answers (example_call []) Map.empty = (es, bs', r)"
    by (metis prod_cases3)
  from authorization_precedes_effects[OF run] deny show ?thesis
    by (auto simp: example_denied_run_def run split: sum.splits prod.splits)
qed

theorem effects_in_order_witness:
  "length (filter is_handler (fst example_run)) \<le> 1 \<and>
   kinds (fst example_run) = [Some InvRequested, None, None, Some InvSucceeded, None]"
proof -
  obtain es bs' r where run: "invoke example_deployment example_answers (example_call [example_search_grant]) Map.empty
      = (es, bs', r)" by (metis prod_cases3)
  have "kinds (fst example_run) = [Some InvRequested, None, None, Some InvSucceeded, None]" by code_simp
  with effects_in_order[OF run] show ?thesis by (simp add: example_run_def run)
qed

definition example_requested_row :: invocation where
  "example_requested_row = (case hd (fst example_run) of Persisted row ev org d \<Rightarrow> row)"

theorem audit_rows_hide_secrets_witness: "\<not> exposed ''hunter22'' (ti_input example_requested_row)"
proof -
  obtain es bs' r where run: "invoke example_deployment example_answers (example_call [example_search_grant]) Map.empty
      = (es, bs', r)" by (metis prod_cases3)
  have hd: "(case fst example_run of Persisted row ev org d # es \<Rightarrow> True | _ \<Rightarrow> False)" by code_simp
  then obtain row ev org d fs where es: "es = Persisted row ev org d # fs"
    by (auto simp: example_run_def run split: list.splits happening.splits)
  then have row: "row = example_requested_row" by (simp add: example_requested_row_def example_run_def run)
  have mem: "Persisted row ev org d \<in> set es" using es by simp
  have "separable ''hunter22''" by (simp add: separable_def min_redactable_secret_length_def)
  with audit_rows_hide_secrets[OF run mem] show ?thesis
    by (simp add: row_hides_def row example_deployment_def)
qed

theorem success_is_earned_witness:
  "\<exists>oc. snd (snd example_run) = Inr oc \<and> cd_effect (the (oc_decision oc)) = Allow \<and>
     (\<exists>v parsed w. an_handler example_answers = Some (HandlerReturned v) \<and> sp_parse_output example_spec v = Inr parsed \<and>
        redact_object example_deployment parsed = Inr w \<and> ti_output (oc_invocation oc) = Some w)"
proof -
  obtain es bs' r where run: "invoke example_deployment example_answers (example_call [example_search_grant]) Map.empty
      = (es, bs', r)" by (metis prod_cases3)
  have "(case snd (snd example_run) of Inr oc \<Rightarrow> oc_status oc = Succeeded | Inl e \<Rightarrow> False)" by code_simp
  then obtain oc where oc: "r = Inr oc" "oc_status oc = Succeeded"
    by (auto simp: example_run_def run split: sum.splits)
  have "recorded_rows example_answers = {}" by (auto simp: recorded_rows_def example_answers_def)
  then have no_row: "\<not> replayed dp example_answers cl oc" for dp cl by (simp add: replayed_def)
  have stored: "an_persist_terminal example_answers = Stored" by (simp add: example_answers_def)
  have spec: "dp_specs example_deployment (ca_tool (example_call [example_search_grant])) = Some example_spec"
    by (simp add: example_deployment_def example_call_def)
  from success_is_earned[OF run[unfolded oc(1)]] obtain cl prep d now where
    auth: "authorize example_deployment example_answers (example_call [example_search_grant]) = Inr (cl, prep, d, now)" and
    dec: "oc_decision oc = Some d" "cd_effect d = Allow" and
    fresh: "fresh_success example_deployment example_answers (settled_call cl d (ca_grants (example_call [example_search_grant]))) oc"
    using no_row oc(2) stored by (auto simp: Let_def)
  have "cl_spec (settled_call cl d (ca_grants (example_call [example_search_grant]))) = example_spec"
    using authorize_Inr(6)[OF auth] spec by (auto simp: settled_call_def split: sum.split)
  with fresh dec oc(1) show ?thesis by (auto simp: fresh_success_def example_run_def run)
qed

subsection \<open>Two gaps\<close>

text \<open>A breaker whose probe is out and never reported refuses every call from then on.\<close>

lemma wedged_breaker: "br_state b = HalfOpen \<Longrightarrow> br_in_flight b \<Longrightarrow> allows now b = (False, b)"
  by (simp add: allows_def)

text \<open>An action that, among breakers with a property, changes none and starts no handler.\<close>

definition quiet :: "(breakers \<Rightarrow> bool) \<Rightarrow> 'a action \<Rightarrow> bool" where
  "quiet P m \<longleftrightarrow> (\<forall>bs. P bs \<longrightarrow> fst (snd (m bs)) = bs \<and> filter is_handler (fst (m bs)) = [])"

lemma quiet_bind:
  assumes "quiet P m" "\<And>bs es bs' a. P bs \<Longrightarrow> m bs = (es, bs', Inr a) \<Longrightarrow> quiet P (f a)"
  shows "quiet P (bind_action m f)"
  unfolding quiet_def
proof (intro allI impI)
  fix bs assume P: "P bs"
  obtain es bs1 r where m: "m bs = (es, bs1, r)" by (cases "m bs") auto
  then have bs1: "bs1 = bs" "filter is_handler es = []" using assms(1) P unfolding quiet_def by (metis fst_conv snd_conv)+
  show "fst (snd (bind_action m f bs)) = bs \<and> filter is_handler (fst (bind_action m f bs)) = []"
  proof (cases r)
    case (Inr a)
    obtain es2 bs2 r2 where f: "f a bs = (es2, bs2, r2)" by (cases "f a bs") auto
    have "bs2 = bs \<and> filter is_handler es2 = []" using assms(2)[OF P m[unfolded Inr]] P f unfolding quiet_def by (metis fst_conv snd_conv)
    with bs1 f show ?thesis by (simp add: bind_action_def m Inr)
  qed (simp add: bind_action_def m bs1)
qed

lemma quiet_both: "keeps_breakers m \<Longrightarrow> starts_in {} m \<Longrightarrow> quiet P m"
  by (auto simp: quiet_def keeps_breakers_def starts_in_def ensures_def no_handler_iff split_beta)

lemma quiet_simps [simp]: "quiet P (returns a)" "quiet P (raises e)" "quiet P (lift_result r)"
  "quiet P (terminate dp an cl k status t d detail out retry)"
  "quiet P (try_action (record_call dp cl row et pl eid d wrap st pub))"
  by (auto intro!: quiet_both simp: keeps_breakers_terminate keeps_breakers_record)

lemma quiet_bind_lift: "(\<And>a. r = Inr a \<Longrightarrow> quiet P (f a)) \<Longrightarrow> quiet P (bind_action (lift_result r) f)"
  by (rule quiet_bind) (auto simp: lift_result_def)

text \<open>A request that is not recorded and announced leaves the breakers alone and runs nothing.\<close>

lemma record_call_lost:
  "st \<noteq> Stored \<or> pub \<noteq> Delivered \<Longrightarrow> record_call dp cl row et pl eid d wrap st pub bs = (es, bs', r) \<Longrightarrow> \<exists>e. r = Inl e"
  by (cases st; cases pub) (auto simp: record_call_def Let_def bind_action_def emit_def raises_def)

lemma admit_lost:
  assumes "an_persist_requested an \<noteq> Stored \<or> an_publish_requested an \<noteq> Delivered \<or> an_cancel_admission an"
  shows "quiet P (admit_and_run dp an ca cl g d v dg)"
  unfolding admit_and_run_def
proof (rule quiet_bind, goal_cases)
  case (2 bs es bs' r)
  show ?case
  proof (cases "an_cancel_admission an")
    case True
    then show ?thesis by (auto intro!: quiet_bind)
  next
    case False
    with assms 2(2) obtain e where "r = Inl e"
      using record_call_lost by (fastforce simp: try_action_def split: prod.splits)
    then show ?thesis by (cases e) (auto intro!: quiet_bind)
  qed
qed simp

lemma reserve_lost:
  assumes "an_persist_requested an \<noteq> Stored \<or> an_publish_requested an \<noteq> Delivered \<or> an_cancel_admission an \<or>
    dp_admission dp \<and> an_reserve an \<noteq> Inr None"
  shows "quiet P (reserve dp an ca cl g d v dg)"
proof (cases "dp_admission dp \<and> an_reserve an \<noteq> Inr None")
  case True
  then show ?thesis
    by (cases "an_reserve an") (auto simp: reserve_def from_store_def intro!: quiet_bind_lift split: option.split)
next
  case False
  with assms have "quiet P (admit_and_run dp an ca cl g d v dg)" by (intro admit_lost) blast
  with False show ?thesis by (auto simp: reserve_def from_store_def intro!: quiet_bind_lift)
qed

text \<open>A call touches the breaker of its own tool only.\<close>

definition touches_only :: "string \<Rightarrow> 'a action \<Rightarrow> bool" where
  "touches_only tool m \<longleftrightarrow> (\<forall>bs t. t \<noteq> tool \<longrightarrow> fst (snd (m bs)) t = bs t)"

lemma touches_only_bind:
  "touches_only tool m \<Longrightarrow> (\<And>a. touches_only tool (f a)) \<Longrightarrow> touches_only tool (bind_action m f)"
  by (auto simp: touches_only_def bind_action_def split_beta split: sum.split)

lemma touches_only_keeps: "keeps_breakers m \<Longrightarrow> touches_only tool m"
  by (simp add: keeps_breakers_def touches_only_def)

lemma touches_only_breaker [simp]: "touches_only tool (on_breaker fresh tool g)"
  by (auto simp: touches_only_def on_breaker_def for_tool_def split: prod.split option.split)

lemma touches_only_simps [simp]: "touches_only tool (returns a)" "touches_only tool (raises e)" "touches_only tool (lift_result r)"
  "touches_only tool (terminate dp an cl k status t d detail out retry)"
  "touches_only tool (try_action (record_call dp cl row et pl eid d wrap st pub))"
  "touches_only tool (call_handler dp an ca sp v)" "touches_only tool (try_action (call_handler dp an ca sp v))"
proof -
  have "keeps_breakers (call_handler dp an ca sp v)"
    by (auto simp: call_handler_def intro!: keeps_breakers_bind split: option.split handler_answer.split)
  then show "touches_only tool (call_handler dp an ca sp v)" "touches_only tool (try_action (call_handler dp an ca sp v))"
    by (simp_all add: touches_only_keeps)
qed (simp_all add: touches_only_keeps keeps_breakers_terminate keeps_breakers_record)

lemma touches_only_finish:
  "touches_only (sp_name (cl_spec cl)) (finish_success dp an ca cl d t payload)"
  "touches_only (sp_name (cl_spec cl)) (finish_failure dp an cl d t result)"
  unfolding finish_success_def finish_failure_def
  by (auto intro!: touches_only_bind split: sum.split prod.split)

lemma touches_only_run_tool: "touches_only (sp_name (cl_spec cl)) (run_tool dp an ca cl v d)"
  unfolding run_tool_def
  by (rule touches_only_bind, simp)
    (auto intro!: touches_only_bind touches_only_finish split: sum.split raised.split prod.split outcome_status.split option.split)

lemma touches_only_admit: "touches_only (sp_name (cl_spec cl)) (admit_and_run dp an ca cl g d v dg)"
  unfolding admit_and_run_def
  by (rule touches_only_bind, simp) (auto intro!: touches_only_bind touches_only_run_tool split: sum.split raised.split)

lemma touches_only_dispatch: "touches_only (sp_name (cl_spec cl)) (dispatch dp an ca cl g d prep now)"
  by (cases prep) (auto simp: dispatch_def reserve_def intro!: touches_only_bind touches_only_admit split: option.split sum.split)

lemma invoke_touches:
  assumes "authorize dp an ca = Inr (cl, prep, d, now)"
  shows "touches_only (sp_name (cl_spec cl)) (invoke dp an ca)"
proof -
  have "touches_only (sp_name (cl_spec cl)) (dispatch dp an ca (cl\<lparr>cl_scope := u\<rparr>) g d prep now)" for u g
    using touches_only_dispatch[of "cl\<lparr>cl_scope := u\<rparr>"] by simp
  moreover have "invoke dp an ca = (if cd_effect d \<noteq> Allow then
         terminate dp an cl 1 Denied now d (map_option denial_value (cd_denial_reason d)) None None
       else
         bind_action (lift_result (resolve_grant d (ca_grants ca))) (\<lambda>g.
           bind_action (lift_result (recovered_answer dp an (cl\<lparr>cl_scope := cg_scope g\<rparr>) (prepared_digest prep) d)) (\<lambda>answer.
             case answer of
               Some oc \<Rightarrow> returns oc
             | None \<Rightarrow> dispatch dp an ca (cl\<lparr>cl_scope := cg_scope g\<rparr>) g d prep now)))"
    by (auto simp: invoke_def bind_action_def lift_result_def assms Let_def fun_eq_iff split: prod.split)
  ultimately show ?thesis by (auto intro!: touches_only_bind split: option.split)
qed

lemma invoke_wedged:
  assumes b: "bs tool = Some b" "br_state b = HalfOpen" "br_in_flight b" and run: "invoke dp an ca bs = (es, bs', r)"
  shows "bs' tool = Some b \<and> (\<forall>sp. dp_specs dp (ca_tool ca) = Some sp \<longrightarrow> sp_name sp = tool \<longrightarrow> filter is_handler es = [])"
proof (cases "authorize dp an ca")
  case (Inl e)
  with invoke_unauthorized[OF Inl, of bs] run b show ?thesis by simp
next
  case (Inr a)
  obtain cl prep d now where "a = (cl, prep, d, now)" by (cases a) auto
  note auth = Inr[unfolded this]
  show ?thesis
  proof (cases "sp_name (cl_spec cl) = tool")
    case False
    then have "bs' tool = bs tool"
      using invoke_touches[OF auth] run unfolding touches_only_def by (metis fst_conv snd_conv)
    with False b authorize_Inr(6)[OF auth] show ?thesis by auto
  next
    case True
    let ?P = "\<lambda>bs. bs tool = Some b"
    have refused: "on_breaker (dp_fresh_breaker dp) tool (allows now) bs = ([], bs, Inr False)" if "?P bs" for bs
      using that wedged_breaker[OF b(2,3), of now] by (simp add: on_breaker_def for_tool_def fun_upd_idem)
    have dis: "quiet ?P (dispatch dp an ca (cl\<lparr>cl_scope := u\<rparr>) g d prep now)" for u g
    proof (cases prep)
      case (Accepted v w dg)
      then show ?thesis
        unfolding dispatch_def Accepted prepared.case
        by (intro quiet_bind) (simp add: quiet_def refused True, auto simp: refused True)
    qed (simp add: dispatch_def)
    have "quiet ?P (invoke dp an ca)"
      unfolding invoke_def auth by (auto simp: Let_def intro!: quiet_bind_lift dis split: option.split)
    with b(1) run show ?thesis unfolding quiet_def by (metis fst_conv snd_conv)
  qed
qed

text \<open>Calls that follow each other, each with what the outside answers it.\<close>

fun call_sequence :: "deployment \<Rightarrow> (answers \<times> call_args) list \<Rightarrow> breakers \<Rightarrow> happening list list \<times> breakers" where
  "call_sequence dp [] bs = ([], bs)"
| "call_sequence dp ((an, ca) # calls) bs =
     (case invoke dp an ca bs of (es, bs1, r) \<Rightarrow>
      case call_sequence dp calls bs1 of (ess, bs2) \<Rightarrow> (es # ess, bs2))"

lemma sequence_wedged:
  assumes "bs tool = Some b" "br_state b = HalfOpen" "br_in_flight b" "call_sequence dp calls bs = (ess, bs')"
  shows "bs' tool = Some b \<and> list_all2 (\<lambda>(an, ca) es. \<forall>sp. dp_specs dp (ca_tool ca) = Some sp \<longrightarrow> sp_name sp = tool \<longrightarrow>
    filter is_handler es = []) calls ess"
  using assms(1,4)
proof (induction calls arbitrary: bs ess)
  case (Cons x calls)
  obtain an ca es bs1 r where x: "x = (an, ca)" and inv: "invoke dp an ca bs = (es, bs1, r)"
    by (metis prod.exhaust prod_cases3)
  obtain ess1 where rest: "call_sequence dp calls bs1 = (ess1, bs')" "ess = es # ess1"
    using Cons(3) by (auto simp: x inv split: prod.splits)
  note one = invoke_wedged[OF Cons(2) assms(2,3) inv]
  from Cons(1)[OF conjunct1[OF one] rest(1)] one show ?case by (simp add: x rest(2))
qed simp

text \<open>
  C27: The slot of a probe can be lost for good. Whenever a call the grants allow is admitted as the
  half-open probe of its tool's breaker, and then its request is not recorded, is not announced, is
  cancelled during admission, or is answered by a reservation: the handler does not start, and the breaker
  is left with the probe out, never reported. From then on the breaker refuses at every instant, and
  whatever calls follow, of any tool and with any answers of the outside, leave it so and start no handler
  of this tool.
\<close>

theorem lost_probe_wedges_breaker:
  assumes auth: "authorize dp an ca = Inr (cl, Accepted v w dg, d, now)" and allow: "cd_effect d = Allow"
    and grant: "resolve_grant d (ca_grants ca) = Inr g"
    and unanswered: "recovered_answer dp an (cl\<lparr>cl_scope := cg_scope g\<rparr>) dg d = Inr None"
    and probe: "bs (sp_name (cl_spec cl)) = Some b" "br_state b \<noteq> Closed" "fst (allows now b)"
    and lost: "an_persist_requested an \<noteq> Stored \<or> an_publish_requested an \<noteq> Delivered \<or> an_cancel_admission an \<or>
      dp_admission dp \<and> an_reserve an \<noteq> Inr None"
    and run: "invoke dp an ca bs = (es, bs', r)" and later: "call_sequence dp calls bs' = (ess, bs'')"
  shows "filter is_handler es = [] \<and> bs' (sp_name (cl_spec cl)) = Some (b\<lparr>br_state := HalfOpen, br_in_flight := True\<rparr>) \<and>
    bs'' (sp_name (cl_spec cl)) = bs' (sp_name (cl_spec cl)) \<and>
    (\<forall>t. \<not> fst (allows t (the (bs'' (sp_name (cl_spec cl)))))) \<and>
    list_all2 (\<lambda>(an2, ca2) es2. \<forall>sp. dp_specs dp (ca_tool ca2) = Some sp \<longrightarrow> sp_name sp = sp_name (cl_spec cl) \<longrightarrow>
      filter is_handler es2 = []) calls ess"
proof -
  let ?tool = "sp_name (cl_spec cl)" and ?cl = "cl\<lparr>cl_scope := cg_scope g\<rparr>"
  let ?b = "b\<lparr>br_state := HalfOpen, br_in_flight := True\<rparr>" and ?bs = "bs(?tool \<mapsto> b\<lparr>br_state := HalfOpen, br_in_flight := True\<rparr>)"
  have granted: "allows now b = (True, ?b)"
    using probe(2,3) by (cases "br_state b") (auto simp: allows_def split: if_splits)
  have ask: "on_breaker (dp_fresh_breaker dp) ?tool (allows now) bs = ([], ?bs, Inr True)"
    by (simp add: on_breaker_def for_tool_def probe(1) granted)
  define f where "f = (case invocation_violation (requested_invocation ?cl) of
      Some e \<Rightarrow> raises (RecordInvalid e) | None \<Rightarrow> reserve dp an ca ?cl g d v dg)"
  have "invoke dp an ca bs = f ?bs"
    by (simp add: invoke_def bind_action_def lift_result_def auth allow grant unanswered dispatch_def ask f_def Let_def split: prod.split)
  moreover have "quiet (\<lambda>_. True) f" using reserve_lost[OF lost] by (simp add: f_def split: option.split)
  ultimately have out: "bs' = ?bs" "filter is_handler es = []" using run unfolding quiet_def by (metis fst_conv snd_conv)+
  have wedge: "bs' ?tool = Some ?b" "br_state ?b = HalfOpen" "br_in_flight ?b" by (simp_all add: out(1))
  note seq = sequence_wedged[OF wedge later]
  have "\<not> fst (allows t ?b)" for t using wedged_breaker[OF wedge(2,3)] by simp
  with out(2) wedge(1) seq show ?thesis by simp
qed

definition example_open_breakers :: breakers where
  "example_open_breakers = [''search'' \<mapsto>
     example_breaker\<lparr>br_state := Open, br_failures := 1, br_opened_at := Some 0\<rparr>]"

definition example_lost :: answers where
  "example_lost = example_answers\<lparr>an_publish_requested := PublishError []\<rparr>"

definition unanswered_by_stores :: "answers \<Rightarrow> call_args \<Rightarrow> call \<Rightarrow> digest \<Rightarrow> cap_decision \<Rightarrow> bool" where
  "unanswered_by_stores an ca cl dg d =
     (case resolve_grant d (ca_grants ca) of
        Inr g \<Rightarrow> (case recovered_answer example_deployment an (cl\<lparr>cl_scope := cg_scope g\<rparr>) dg d of Inr None \<Rightarrow> True | _ \<Rightarrow> False)
      | Inl e \<Rightarrow> False)"

lemma unanswered_by_storesE:
  assumes "unanswered_by_stores an ca cl dg d"
  obtains g where "resolve_grant d (ca_grants ca) = Inr g"
    "recovered_answer example_deployment an (cl\<lparr>cl_scope := cg_scope g\<rparr>) dg d = Inr None"
  using assms unfolding unanswered_by_stores_def by (auto split: sum.splits option.splits)

lemma accepted_callE:
  assumes "case x of Inr (cl, Accepted v w dg, d, now) \<Rightarrow> Q cl dg d now | _ \<Rightarrow> False"
  obtains cl v w dg d now where "x = Inr (cl, Accepted v w dg, d, now)" "Q cl dg d now"
  using assms by (auto split: sum.splits prod.splits prepared.splits)

text \<open>One publication fails; the next call, for which everything works, is refused.\<close>

theorem lost_probe_wedges_breaker_witness:
  "case invoke example_deployment example_lost (example_call [example_search_grant]) example_open_breakers of
     (es, bs, r) \<Rightarrow> filter is_handler es = [] \<and>
       filter is_handler (fst (invoke example_deployment example_answers (example_call [example_search_grant]) bs)) = []"
proof -
  let ?ca = "example_call [example_search_grant]"
  have "case authorize example_deployment example_lost ?ca of
      Inr (cl, Accepted v w dg, d, now) \<Rightarrow> cd_effect d = Allow \<and> sp_name (cl_spec cl) = ''search'' \<and> now = 5000 \<and>
        unanswered_by_stores example_lost ?ca cl dg d
    | _ \<Rightarrow> False" by code_simp
  then obtain cl v w dg d now where x: "authorize example_deployment example_lost ?ca = Inr (cl, Accepted v w dg, d, now)"
    "cd_effect d = Allow \<and> sp_name (cl_spec cl) = ''search'' \<and> now = 5000 \<and> unanswered_by_stores example_lost ?ca cl dg d"
    by (rule accepted_callE)
  then have a: "authorize example_deployment example_lost ?ca = Inr (cl, Accepted v w dg, d, 5000)"
    "cd_effect d = Allow" "unanswered_by_stores example_lost ?ca cl dg d" and tool: "sp_name (cl_spec cl) = ''search''" by simp_all
  from a(3) obtain g where "resolve_grant d (ca_grants ?ca) = Inr g"
    "recovered_answer example_deployment example_lost (cl\<lparr>cl_scope := cg_scope g\<rparr>) dg d = Inr None"
    by (rule unanswered_by_storesE)
  note auth = a(1,2) this
  obtain es bs r where run: "invoke example_deployment example_lost ?ca example_open_breakers = (es, bs, r)" by (metis prod_cases3)
  obtain es2 bs2 r2 where run2: "invoke example_deployment example_answers ?ca bs = (es2, bs2, r2)" by (metis prod_cases3)
  have later: "call_sequence example_deployment [(example_answers, ?ca)] bs = ([es2], bs2)" by (simp add: run2)
  have spec: "dp_specs example_deployment (ca_tool ?ca) = Some example_spec" "sp_name example_spec = ''search''"
    by (simp_all add: example_deployment_def example_call_def example_spec_def)
  have "filter is_handler es = [] \<and> filter is_handler es2 = []"
    using lost_probe_wedges_breaker[OF auth _ _ _ _ run later,
        where b = "example_breaker\<lparr>br_state := Open, br_failures := 1, br_opened_at := Some 0\<rparr>"]
    by (simp add: tool spec example_open_breakers_def example_lost_def allows_def example_breaker_def)
  with run run2 show ?thesis by simp
qed

definition example_success_row :: invocation where
  "example_success_row = (case fst example_run ! 3 of Persisted row ev org d \<Rightarrow> row)"

definition example_denied_replay :: "happening list \<times> breakers \<times> (raised + outcome)" where
  "example_denied_replay = invoke example_deployment
     (example_answers\<lparr>an_persist_terminal := StoreConflict example_success_row\<rparr>) (example_call []) Map.empty"

text \<open>
  The exclusion of denials from replays rests on the store. If the store answers the insertion of
  a denied row with a conflict that names a recorded success of the same request, the caller that was
  just denied is handed that success with its output.
\<close>

theorem denied_call_can_replay_success:
  "case snd (snd example_denied_replay) of
     Inr oc \<Rightarrow> oc_status oc = Succeeded \<and> ti_output (oc_invocation oc) = Some (VDict [(''count'', VInt 1)]) \<and>
       map_option cd_effect (oc_decision oc) = Some Deny
   | Inl e \<Rightarrow> False"
  by code_simp

end
