(* ===== verification/Store_Props.thy ===== *)
theory Store_Props
  imports Store_History Boundary_Props
begin

text \<open>
  The guarantees of the durable store, alone and under the tool boundary.
\<close>

subsection \<open>Rows of a key\<close>

lemma parented_context:
  assumes "store_ok s" "r \<in> set (so_rows s)" "require_parents s run task attempt u = None"
    and "ti_attempt_id (sr_inv r) = attempt"
  shows "ti_run_id (sr_inv r) = run" "ti_task_id (sr_inv r) = task" "sr_org r = u"
  using assms by (auto simp: store_ok_def list_all_iff parented_def require_parents_def)

lemma one_row_per_key:
  assumes "store_ok s" "r \<in> set (so_rows s)" "q \<in> set (so_rows s)" "occupies_key r" "occupies_key q"
    and "row_key r = row_key q"
  shows "r = q"
  using assms by (auto simp: store_ok_def distinct_map inj_on_def)

lemma one_row_per_id:
  assumes "store_ok s" "r \<in> set (so_rows s)" "q \<in> set (so_rows s)" "ti_id (sr_inv r) = ti_id (sr_inv q)"
  shows "r = q"
  using assms by (auto simp: store_ok_def distinct_map inj_on_def)

lemma row_contract: "store_ok s \<Longrightarrow> r \<in> set (so_rows s) \<Longrightarrow> to_contract r = Inr (sr_inv r)"
  by (simp add: store_ok_def list_all_iff row_good_def to_contract_def)

lemma find_unique:
  assumes "x \<in> set xs" "P x" "\<And>y. y \<in> set xs \<Longrightarrow> P y \<Longrightarrow> y = x"
  shows "find P xs = Some x"
proof (cases "find P xs")
  case None
  with assms(1,2) show ?thesis by (auto simp: find_None_iff)
next
  case (Some y)
  with find_mem[OF Some] assms(3) show ?thesis by simp
qed

lemma commit_Inl: "fst (commit s r) = Inl e \<longleftrightarrow> r = Inl e" "fst (commit s r) = Inl e \<Longrightarrow> snd (commit s r) = s"
  by (simp_all add: commit_def split: sum.splits prod.splits)

lemma find_key_row:
  assumes "store_ok s" "r \<in> set (so_rows s)" "occupies_key r" "matches_key run attempt key u r"
  shows "find_by_idempotency_key s run attempt key u = Some r"
  unfolding find_by_idempotency_key_def
proof (rule find_unique)
  fix q assume "q \<in> set (so_rows s)" "matches_key run attempt key u q \<and> ti_status (sr_inv q) \<noteq> InvDenied"
  then show "q = r"
    using assms(3,4) one_row_per_key[OF assms(1) _ assms(2)] by (simp add: matches_key_def occupies_key_def row_key_def)
qed (use assms in \<open>simp_all add: occupies_key_def\<close>)

lemma newest_mem:
  assumes "newest xs = Some r"
  shows "r \<in> set xs"
proof -
  have "r \<in> set (rev (sort_key (\<lambda>r. ti_requested_at (sr_inv r)) xs))"
    using assms unfolding newest_def by (cases "rev (sort_key (\<lambda>r. ti_requested_at (sr_inv r)) xs)") simp_all
  then show ?thesis by simp
qed

lemma newest_None: "newest xs = None \<longleftrightarrow> xs = []"
proof -
  have "sort_key f xs = [] \<longleftrightarrow> xs = []" for f :: "stored_row \<Rightarrow> instant"
    by (simp only: length_0_conv[symmetric] length_sort)
  then have "rev (sort_key f xs) = [] \<longleftrightarrow> xs = []" for f :: "stored_row \<Rightarrow> instant" by simp
  from this[of "\<lambda>r. ti_requested_at (sr_inv r)"] show ?thesis
    unfolding newest_def by (cases "rev (sort_key (\<lambda>r. ti_requested_at (sr_inv r)) xs)") simp_all
qed

lemma lookup_status_exact:
  assumes ok: "store_ok s" and st: "InvDenied \<notin> statuses" and ctx: "normalize_context U run None attempt org = Inr u"
  shows "lookup_status statuses U s run attempt org key = Inr (Some i) \<longleftrightarrow>
    (\<exists>r \<in> set (so_rows s). matches_key run attempt key u r \<and> ti_status (sr_inv r) \<in> statuses \<and> sr_inv r = i)"
    and "\<exists>a. lookup_status statuses U s run attempt org key = Inr a"
proof -
  let ?rows = "filter (\<lambda>r. matches_key run attempt key u r \<and> ti_status (sr_inv r) \<in> statuses) (so_rows s)"
  have unique: "r = q" if "r \<in> set ?rows" "q \<in> set ?rows" for r q
    using that st by (intro one_row_per_key[OF ok]) (auto simp: occupies_key_def row_key_def matches_key_def)
  have get: "lookup_status statuses U s run attempt org key =
      (case newest ?rows of None \<Rightarrow> Inr None | Some r \<Rightarrow> Inr (Some (sr_inv r)))"
    using ctx row_contract[OF ok] by (auto simp: lookup_status_def dest: newest_mem split: option.split)
  then show "\<exists>a. lookup_status statuses U s run attempt org key = Inr a" by (auto split: option.splits)
  show "lookup_status statuses U s run attempt org key = Inr (Some i) \<longleftrightarrow>
    (\<exists>r \<in> set (so_rows s). matches_key run attempt key u r \<and> ti_status (sr_inv r) \<in> statuses \<and> sr_inv r = i)"
  proof (cases "newest ?rows")
    case None
    then have "?rows = []" by (simp only: newest_None)
    with get None show ?thesis by (auto simp: filter_empty_conv)
  next
    case (Some r)
    with get unique newest_mem[OF Some] show ?thesis by auto
  qed
qed

subsection \<open>Histories\<close>

text \<open>
  C17: A history of the durable store keeps its tables sound and loses nothing. After any sequence of
  transactions, failed ones included: identifiers do not repeat; an attempt has at most one row that is
  not denied per key; every row is a valid record that meets the constraints of its table and belongs
  to the run, task and organization of its attempt; the event stream is gap-free. A longer history
  keeps every row with the same request, and a row that is settled exactly as it is.
\<close>

theorem store_history:
  assumes "list_all op_valid ops" and "list_all op_valid later"
    and "s = fold (history_step U D) ops (empty_store runs tasks attempts grants approvals)"
  shows "store_ok s \<and> (\<forall>r \<in> set (so_rows s). \<exists>q \<in> set (so_rows (fold (history_step U D) later s)).
      same_request_row r q \<and> (settled r \<longrightarrow> q = r))"
proof -
  have "store_ok s" using store_rows.history_ok[OF empty_store_ok assms(1)] assms(3) by simp
  with store_rows.history_row[OF this assms(2)] show ?thesis by blast
qed

text \<open>
  C5: One key, one unit of work. Persisting a call that is not denied under a fresh identifier is
  refused as a conflict exactly when a row that is not denied holds its key, the conflict carries that
  row, and a refused call leaves no trace.
\<close>

theorem one_unit_of_work:
  assumes ok: "store_ok s" and fresh: "ti_id t \<notin> (\<lambda>r. ti_id (sr_inv r)) ` set (so_rows s)"
    and live: "ti_status t \<noteq> InvDenied"
    and events: "\<forall>e \<in> set events. event_association e t = None"
    and ctx: "normalize_context U (ti_run_id t) (Some (ti_task_id t)) (ti_attempt_id t) org = Inr u"
    and parents: "require_parents s (ti_run_id t) (ti_task_id t) (ti_attempt_id t) u = None"
  shows "(fst (persist U D clock t events org (Some d) s) = Inl (ConflictWith i) \<longleftrightarrow>
      (\<exists>r \<in> set (so_rows s). occupies_key r \<and> row_key r = (ti_attempt_id t, ti_idempotency_key t) \<and> sr_inv r = i)) \<and>
    (\<forall>e. fst (persist U D clock t events org (Some d) s) = Inl e \<longrightarrow> snd (persist U D clock t events org (Some d) s) = s)"
proof -
  let ?new = "bind_result (persist_new D t u (Some d) s) (\<lambda>s1.
      bind_result (append_audit_events events u s1) (\<lambda>s2. Inr ((), s2)))"
  have "find (\<lambda>e. event_association e t \<noteq> None) events = None" using events by (simp add: find_None_iff)
  moreover have "find (\<lambda>r. ti_id (sr_inv r) = ti_id t \<and> sr_org r = u) (so_rows s) = None"
    using fresh by (force simp: find_None_iff)
  ultimately have run: "persist U D clock t events org (Some d) s = commit s ?new"
    using ctx parents by (simp add: persist_def)
  have stream: "append_audit_events events u s1 \<noteq> Inl (ConflictWith i)" for s1
  proof (induction events arbitrary: s1)
    case (Cons e es)
    then show ?case by (cases "append_audit_event e u s1") (auto simp: append_audit_event_def split: sum.splits)
  qed simp
  show ?thesis
  proof (cases "\<exists>r \<in> set (so_rows s). occupies_key r \<and> row_key r = (ti_attempt_id t, ti_idempotency_key t)")
    case True
    then obtain r where r: "r \<in> set (so_rows s)" "occupies_key r" "row_key r = (ti_attempt_id t, ti_idempotency_key t)"
      by blast
    have "matches_key (ti_run_id t) (ti_attempt_id t) (ti_idempotency_key t) u r"
      using parented_context[OF ok r(1) parents] r(3) by (simp add: matches_key_def row_key_def)
    then have found: "find_by_idempotency_key s (ti_run_id t) (ti_attempt_id t) (ti_idempotency_key t) u = Some r"
      using find_key_row[OF ok r(1,2)] by blast
    have "list_ex (rows_clash (row_for D t u (Some d))) (so_rows s)"
      using r live by (auto simp: list_ex_iff rows_clash_def row_for_def dumped_invocation_def occupies_key_def row_key_def)
    then have "persist_new D t u (Some d) s = Inl (ConflictWith (sr_inv r))"
      using found row_contract[OF ok r(1)] by (simp add: persist_new_def create_tool_invocation_def insert_row_def)
    then have "?new = Inl (ConflictWith (sr_inv r))" by simp
    then have res: "persist U D clock t events org (Some d) s = (Inl (ConflictWith (sr_inv r)), s)"
      using run by (simp add: commit_def)
    have "sr_inv r = i \<longleftrightarrow> (\<exists>q \<in> set (so_rows s). occupies_key q \<and>
        row_key q = (ti_attempt_id t, ti_idempotency_key t) \<and> sr_inv q = i)"
    proof
      assume "\<exists>q \<in> set (so_rows s). occupies_key q \<and>
        row_key q = (ti_attempt_id t, ti_idempotency_key t) \<and> sr_inv q = i"
      then obtain q where q: "q \<in> set (so_rows s)" "occupies_key q" "row_key q = row_key r" "sr_inv q = i"
        using r(3) by auto
      from one_row_per_key[OF ok q(1) r(1) q(2) r(2) q(3)] q(4) show "sr_inv r = i" by simp
    qed (use r in blast)
    then show ?thesis by (simp add: res)
  next
    case False
    have "find_by_idempotency_key s (ti_run_id t) (ti_attempt_id t) (ti_idempotency_key t) u = None"
      using False by (auto simp: find_by_idempotency_key_def find_None_iff occupies_key_def row_key_def matches_key_def)
    then have "persist_new D t u (Some d) s \<noteq> Inl (ConflictWith i)"
      by (auto simp: persist_new_def create_tool_invocation_def insert_row_def)
    moreover have "bind_result (append_audit_events events u s1) (\<lambda>s2. Inr ((), s2)) \<noteq> Inl (ConflictWith i)" for s1
      using stream[of s1] by (cases "append_audit_events events u s1") auto
    ultimately have "?new \<noteq> Inl (ConflictWith i)" by (cases "persist_new D t u (Some d) s") auto
    then have "fst (commit s ?new) \<noteq> Inl (ConflictWith i)" by (simp only: commit_Inl(1) not_False_eq_True)
    with False commit_Inl(2)[of s ?new] show ?thesis unfolding run by blast
  qed
qed

text \<open>
  A reader sees exactly the committed outcome. On sound tables a lookup by key returns the settled
  (or the pending) row of that run, attempt, key and organization, when there is one, and otherwise
  nothing; it never returns a row of another organization and never fails.
\<close>

theorem lookup_exact:
  assumes "store_ok s" and "normalize_context U run None attempt org = Inr u"
  shows "(find_invocation U s run attempt org key = Inr (Some i) \<longleftrightarrow>
      (\<exists>r \<in> set (so_rows s). sr_org r = u \<and> ti_run_id i = run \<and> ti_attempt_id i = attempt \<and>
         ti_idempotency_key i = key \<and> ti_status i \<in> replayable_record_statuses \<and> sr_inv r = i)) \<and>
    (find_pending_invocation U s run attempt org key = Inr (Some i) \<longleftrightarrow>
      (\<exists>r \<in> set (so_rows s). sr_org r = u \<and> ti_run_id i = run \<and> ti_attempt_id i = attempt \<and>
         ti_idempotency_key i = key \<and> ti_status i \<in> pending_statuses \<and> sr_inv r = i)) \<and>
    (\<exists>a b. find_invocation U s run attempt org key = Inr a \<and> find_pending_invocation U s run attempt org key = Inr b)"
proof -
  have st: "InvDenied \<notin> replayable_record_statuses" "InvDenied \<notin> pending_statuses"
    by (simp_all add: replayable_record_statuses_def pending_statuses_def)
  note exact = lookup_status_exact[OF assms(1) _ assms(2)]
  have "find_invocation U s run attempt org key = Inr (Some i) \<longleftrightarrow>
      (\<exists>r \<in> set (so_rows s). sr_org r = u \<and> ti_run_id i = run \<and> ti_attempt_id i = attempt \<and>
         ti_idempotency_key i = key \<and> ti_status i \<in> replayable_record_statuses \<and> sr_inv r = i)"
    unfolding find_invocation_def exact(1)[OF st(1)] by (auto simp: matches_key_def)
  moreover have "find_pending_invocation U s run attempt org key = Inr (Some i) \<longleftrightarrow>
      (\<exists>r \<in> set (so_rows s). sr_org r = u \<and> ti_run_id i = run \<and> ti_attempt_id i = attempt \<and>
         ti_idempotency_key i = key \<and> ti_status i \<in> pending_statuses \<and> sr_inv r = i)"
    unfolding find_pending_invocation_def exact(1)[OF st(2)] by (auto simp: matches_key_def)
  ultimately show ?thesis
    using exact(2)[OF st(1)] exact(2)[OF st(2)] unfolding find_invocation_def find_pending_invocation_def by blast
qed

subsection \<open>Lease fencing\<close>

lemma normalize_same:
  "normalize_context U a b c org = Inr u \<Longrightarrow> normalize_context U a' b' c' org = Inr v \<Longrightarrow> u = v"
  by (auto simp: normalize_context_def split: if_splits option.splits)

lemma find_reconcilable:
  assumes "store_ok s" "r \<in> set (so_rows s)" "matches_key run attempt key u r"
    and "ti_status (sr_inv r) \<in> pending_statuses \<union> replayable_record_statuses"
  shows "find (\<lambda>r. matches_key run attempt key u r \<and>
              ti_status (sr_inv r) \<in> pending_statuses \<union> replayable_record_statuses) (so_rows s) = Some r"
proof (rule find_unique)
  fix q assume q: "q \<in> set (so_rows s)" "matches_key run attempt key u q \<and>
      ti_status (sr_inv q) \<in> pending_statuses \<union> replayable_record_statuses"
  have occ: "occupies_key p" if "ti_status (sr_inv p) \<in> pending_statuses \<union> replayable_record_statuses" for p
    using that by (auto simp: occupies_key_def pending_statuses_def replayable_record_statuses_def)
  show "q = r"
    by (rule one_row_per_key[OF assms(1) q(1) assms(2)]) (use q occ assms(3,4) in \<open>simp_all add: matches_key_def row_key_def\<close>)
qed (use assms in simp_all)

lemma reconcile_settled:
  assumes "store_ok s" "r \<in> set (so_rows s)" "matches_key run attempt key u r"
    and "ti_status (sr_inv r) \<in> replayable_record_statuses" "normalize_context U run None attempt org = Inr u"
  shows "reconcile_pending_invocation U run attempt org key (Aware t) s = (Inr (Some (sr_inv r)), s)"
  using find_reconcilable[OF assms(1-3)] assms(4,5) row_contract[OF assms(1,2)]
  by (simp add: reconcile_pending_invocation_def commit_def)

lemma renew_settled:
  assumes "store_ok s" "r \<in> set (so_rows s)" "settled r"
  shows "fst (renew_invocation_lease U (ti_id (sr_inv r)) run attempt org key owner now expires s) \<noteq> Inr True"
proof -
  have no: "\<not> list_ex (\<lambda>q. ti_id (sr_inv q) = ti_id (sr_inv r) \<and> matches_key run attempt key u q \<and>
        ti_lease_owner (sr_inv q) = Some owner \<and> ti_status (sr_inv q) \<in> pending_statuses \<and>
        some_and (\<lambda>old. t < old) (ti_lease_expires (sr_inv q))) (so_rows s)" for u t
    using one_row_per_id[OF assms(1) _ assms(2)] assms(3) by (auto simp: list_ex_iff settled_def)
  show ?thesis
    using no by (cases "normalize_context U run None attempt org")
      (auto simp: renew_invocation_lease_def commit_def Let_def split: py_datetime.split)
qed

text \<open>A settled row refuses every further write under its identifier.\<close>

lemma persist_settled:
  assumes ok: "store_ok s" and r: "r \<in> set (so_rows s)" "settled r" "ti_id t = ti_id (sr_inv r)"
    and org: "normalize_context U run None attempt org = Inr (sr_org r)"
  shows "\<exists>e. persist U D clock t events org decision s = (Inl e, s) \<and>
     ((\<forall>ev \<in> set events. event_association ev t = None) \<longrightarrow>
      normalize_context U (ti_run_id t) (Some (ti_task_id t)) (ti_attempt_id t) org = Inr (sr_org r) \<longrightarrow>
      require_parents s (ti_run_id t) (ti_task_id t) (ti_attempt_id t) (sr_org r) = None \<longrightarrow>
      transition_identity (sr_inv r) t = None \<longrightarrow> e = ConflictWith (sr_inv r))"
proof -
  have found: "find (\<lambda>q. ti_id (sr_inv q) = ti_id t \<and> sr_org q = sr_org r) (so_rows s) = Some r"
    by (rule find_unique) (use r one_row_per_id[OF ok _ r(1)] in auto)
  have same: "u = sr_org r" if "normalize_context U (ti_run_id t) (Some (ti_task_id t)) (ti_attempt_id t) org = Inr u" for u
    using normalize_same[OF that org] .
  have none: "find (\<lambda>e. event_association e t \<noteq> None) events = None \<longleftrightarrow>
      (\<forall>ev \<in> set events. event_association ev t = None)" by (auto simp: find_None_iff)
  show ?thesis
  proof (cases "find (\<lambda>e. event_association e t \<noteq> None) events")
    case (Some ev)
    with none show ?thesis by (auto simp: persist_def)
  next
    case assoc: None
    show ?thesis
    proof (cases "normalize_context U (ti_run_id t) (Some (ti_task_id t)) (ti_attempt_id t) org")
      case (Inl e)
      then show ?thesis unfolding persist_def assoc Inl option.case sum.case by simp
    next
      case (Inr u)
      with same have u: "u = sr_org r" by blast
      show ?thesis
        unfolding persist_def assoc Inr u option.case sum.case
        using found r(2) row_contract[OF ok r(1)] by (simp add: settled_def split: option.split)
    qed
  qed
qed


text \<open>
  C6: Recovery fences the lost worker. When a reconciliation finds a pending row whose lease does not
  hold, and commits, the row is terminal with the code for an unknown outcome. After any later history
  the lost worker can neither renew its lease nor write its result: a write under the identifier is
  refused without a trace, a well-addressed one with a conflict that carries the recovered row; and a
  later reconciliation answers that same row and changes nothing.
\<close>

theorem recovery_fences_worker:
  assumes ok: "store_ok s" and r: "r \<in> set (so_rows s)" "matches_key run attempt key u r"
    and pend: "ti_status (sr_inv r) \<in> pending_statuses" "\<not> lease_holds (sr_inv r) now"
    and org: "normalize_context U run None attempt org = Inr u"
    and rec: "reconcile_pending_invocation U run attempt org key (Aware now) s = (Inr (Some i), s1)"
    and later: "list_all op_valid ops" and s2: "s2 = fold (history_step U D) ops s1"
    and same: "ti_id t = ti_id (sr_inv r)"
  shows "ti_id i = ti_id (sr_inv r) \<and> ti_status i = InvFailed \<and> ti_error_code i = Some lease_expired_error_code \<and>
    ti_output i = None \<and>
    fst (renew_invocation_lease U (ti_id i) run attempt org key owner n x s2) \<noteq> Inr True \<and>
    reconcile_pending_invocation U run attempt org key (Aware m) s2 = (Inr (Some i), s2) \<and>
    (\<exists>e. persist U D clock t events org decision s2 = (Inl e, s2) \<and>
     ((\<forall>ev \<in> set events. event_association ev t = None) \<longrightarrow>
      normalize_context U (ti_run_id t) (Some (ti_task_id t)) (ti_attempt_id t) org = Inr u \<longrightarrow>
      require_parents s2 (ti_run_id t) (ti_task_id t) (ti_attempt_id t) u = None \<longrightarrow>
      transition_identity i t = None \<longrightarrow> e = ConflictWith i))"
proof -
  have "terminalize_expired_pending r now u s = Inr (i, s1)"
    using rec org find_reconcilable[OF ok r] pend
    by (auto simp: reconcile_pending_invocation_def commit_def pending_statuses_def replayable_record_statuses_def
        split: sum.splits)
  from terminalize_evolves[OF ok r(1) _ this] pend(1) have
    ev: "evolves s s1" "i = sr_inv (terminalized r now)" "terminalized r now \<in> set (so_rows s1)"
    by (simp_all add: settled_def)
  let ?q = "terminalized r now"
  have ok1: "store_ok s1" using ok ev(1) by (rule evolves_ok)
  have closed: "settled ?q" "sr_org ?q = u" "matches_key run attempt key u ?q" "ti_status (sr_inv ?q) \<in> replayable_record_statuses"
    using r(2) by (auto simp: settled_def terminalized_def matches_key_def pending_statuses_def
        replayable_record_statuses_def)
  have q: "?q \<in> set (so_rows s2)"
    unfolding s2 using ok1 later ev(3) closed(1) by (rule store_rows.frozen_row_lasts)
  have ok2: "store_ok s2" unfolding s2 using ok1 later by (rule store_rows.history_ok)
  have "ti_id i = ti_id (sr_inv r) \<and> ti_status i = InvFailed \<and> ti_error_code i = Some lease_expired_error_code \<and>
      ti_output i = None" by (simp add: ev(2) terminalized_def)
  moreover have "fst (renew_invocation_lease U (ti_id i) run attempt org key owner n x s2) \<noteq> Inr True"
    unfolding ev(2) using ok2 q closed(1) by (rule renew_settled)
  moreover have "reconcile_pending_invocation U run attempt org key (Aware m) s2 = (Inr (Some i), s2)"
    unfolding ev(2) by (rule reconcile_settled[OF ok2 q closed(3,4) org])
  moreover have "ti_id t = ti_id (sr_inv ?q)" using same by (simp add: terminalized_def)
  note persist_settled[OF ok2 q closed(1) this, of U run attempt org, unfolded closed(2), OF org, folded ev(2)]
  ultimately show ?thesis by blast
qed


subsection \<open>Under the boundary\<close>

text \<open>
  What the boundary relies on when it records a denial: the insertion of a denied row under a new
  identifier is never answered by another row.
\<close>

locale denial_safe_store =
  fixes ask :: "'s \<Rightarrow> invocation \<Rightarrow> audit_event list \<Rightarrow> string option \<Rightarrow> cap_decision \<Rightarrow> store_answer"
    and unused :: "'s \<Rightarrow> string \<Rightarrow> bool"
    and sound :: "'s \<Rightarrow> cap_decision \<Rightarrow> bool"
  assumes denied_no_conflict: "ti_status row = InvDenied \<Longrightarrow> invocation_violation row = None \<Longrightarrow> unused s (ti_id row) \<Longrightarrow>
      cd_effect d = Deny \<Longrightarrow> sound s d \<Longrightarrow> ask s row events org d \<noteq> StoreConflict other"
begin

lemma denied_stays_denied:
  assumes "authorize dp an ca = Inr (cl, prep, d, now)" "cd_effect d = Deny" "sound s d"
    and "ti_status row = InvDenied" "invocation_violation row = None" "unused s (ti_id row)"
    and "an_persist_terminal an = ask s row events org d" "invoke dp an ca bs = (es, bs', Inr oc)"
  shows "oc_status oc = Denied"
proof -
  have "an_persist_terminal an \<noteq> StoreConflict other" for other using denied_no_conflict assms by simp
  from ensuresD[OF terminate_no_conflict[OF this]] invoke_denied[OF assms(1)] assms(2,8) show ?thesis
    by (metis effect.distinct(1))
qed

end

text \<open>What a caller of \<open>persist\<close> sees.\<close>

definition answer_of :: "store_error + unit \<Rightarrow> store_answer" where
  "answer_of r = (case r of Inr u \<Rightarrow> Stored | Inl (ConflictWith i) \<Rightarrow> StoreConflict i | Inl e \<Rightarrow> StoreError ''store'')"

lemma answer_of_conflict: "answer_of r = StoreConflict i \<longleftrightarrow> r = Inl (ConflictWith i)"
  by (auto simp: answer_of_def split: sum.splits store_error.splits)

lemma denied_row_accepted:
  assumes "ti_status t = InvDenied" "invocation_violation t = None" "cd_effect d = Deny"
    and "cap_decision_violation d = None" "\<And>v. length (D v) = 64"
  shows "\<not> row_rejected (row_for D t u (Some d))"
  using assms by (cases "ti_output t") (auto simp: row_rejected_def row_for_def dumped_invocation_def
      cap_decision_violation_def invocation_violation_def invocation_status_violation_def Let_def content_sha256_ok_def
      split: option.splits)

lemma append_audit_events_no_conflict: "append_audit_events events u s \<noteq> Inl (ConflictWith i)"
proof (induction events arbitrary: s)
  case (Cons e es)
  then show ?case by (cases "append_audit_event e u s") (auto simp: append_audit_event_def split: sum.splits)
qed simp

lemma persist_denied_no_conflict:
  assumes "ti_status t = InvDenied" "invocation_violation t = None" "cd_effect d = Deny"
    and "cap_decision_violation d = None" "\<And>v. length (D v) = 64"
    and fresh: "ti_id t \<notin> (\<lambda>r. ti_id (sr_inv r)) ` set (so_rows s)"
    and known: "\<not> some_and (\<lambda>g. g \<notin> so_grants s) (cd_grant_id d)"
  shows "fst (persist U D clock t events org (Some d) s) \<noteq> Inl (ConflictWith i)"
proof -
  have none: "find (\<lambda>r. ti_id (sr_inv r) = ti_id t \<and> sr_org r = u) (so_rows s) = None" for u
    using fresh by (force simp: find_None_iff)
  have "\<not> list_ex (rows_clash (row_for D t u (Some d))) (so_rows s)" for u
    using fresh assms(1) by (force simp: list_ex_iff rows_clash_def row_for_def dumped_invocation_def)
  moreover have "\<not> dangling s (row_for D t u (Some d))" for u
    using known assms(3,4) by (simp add: dangling_def row_for_def cap_decision_violation_def)
  ultimately have ins: "\<exists>s1. persist_new D t u (Some d) s = Inr s1" for u
    using denied_row_accepted[where D = D, OF assms(1-5)] by (simp add: persist_new_def create_tool_invocation_def insert_row_def)
  have new: "fst (commit s (bind_result (persist_new D t u (Some d) s) (\<lambda>s1.
      bind_result (append_audit_events events u s1) (\<lambda>s2. Inr ((), s2))))) \<noteq> Inl (ConflictWith i)" for u
  proof -
    obtain s1 where s1: "persist_new D t u (Some d) s = Inr s1" using ins by blast
    show ?thesis using append_audit_events_no_conflict[of events u s1 i]
      by (cases "append_audit_events events u s1") (simp_all add: s1 commit_def)
  qed
  have assoc: "event_association e t \<noteq> Some (ConflictWith i)" for e
    by (auto simp: event_association_def dest!: checks_Some_mem)
  have ctx: "normalize_context U a b c org \<noteq> Inl (ConflictWith i)" for a b c
    by (auto simp: normalize_context_def split: option.split)
  have par: "require_parents s a b c u \<noteq> Some (ConflictWith i)" for a b c u
    by (auto simp: require_parents_def dest!: checks_Some_mem)
  show ?thesis
    unfolding persist_def none option.case using new assoc ctx par
    by (auto split: option.split sum.split simp: find_Some_iff)
qed

interpretation durable: denial_safe_store
  "\<lambda>(U, D, clock, s) row events org d. answer_of (fst (persist U D clock row events org (Some d) s))"
  "\<lambda>(U, D, clock, s) i. i \<notin> (\<lambda>r. ti_id (sr_inv r)) ` set (so_rows s) \<and> (\<forall>v. length (D v) = 64)"
  "\<lambda>(U, D, clock, s) d. cap_decision_violation d = None \<and> \<not> some_and (\<lambda>g. g \<notin> so_grants s) (cd_grant_id d)"
  by unfold_locales (auto simp: answer_of_conflict dest: persist_denied_no_conflict)

text \<open>
  On the durable store a denied call stays denied. When the terminal row of a denied call, under a
  new identifier, is persisted in the durable store, and the grant that the denial names, if any, is
  durable, the outcome of the call is \<open>denied\<close>, whatever rows the store holds under its key: a recorded
  success is not handed to a caller who lost the right to it.
\<close>

theorem denied_stays_denied_durably:
  assumes "authorize dp an ca = Inr (cl, prep, d, now)" "cd_effect d = Deny" "cap_decision_violation d = None"
    and "ti_status row = InvDenied" "invocation_violation row = None"
    and "ti_id row \<notin> (\<lambda>r. ti_id (sr_inv r)) ` set (so_rows s)" "\<forall>v. length (D v) = 64"
    and "\<not> some_and (\<lambda>g. g \<notin> so_grants s) (cd_grant_id d)"
    and "an_persist_terminal an = answer_of (fst (persist U D clock row events org (Some d) s))"
    and "invoke dp an ca bs = (es, bs', Inr oc)"
  shows "oc_status oc = Denied"
  using durable.denied_stays_denied[where s = "(U, D, clock, s)" and events = events and org = org,
      OF assms(1,2) _ assms(4,5) _ _ assms(10)] assms by simp


subsection \<open>The guarantees on a run\<close>

definition example_allow :: cap_decision where
  "example_allow = \<lparr>cd_effect = Allow, cd_fingerprint = replicate 64 CHR ''0'', cd_grant_id = Some ''g'',
     cd_approval_id = None, cd_denial_reason = None, cd_decided_at = 5\<rparr>"

definition example_pending :: invocation where
  "example_pending = \<lparr>ti_id = ''i1'', ti_run_id = ''r'', ti_task_id = ''t'', ti_attempt_id = ''a'',
     ti_tool_name = ''search'', ti_tool_version = ''1.0'', ti_status = InvRequested, ti_scope = ''web'',
     ti_idempotency_key = ''k'', ti_input = VDict [(''limit'', VInt 3)], ti_input_trust = UserSupplied,
     ti_output = None, ti_output_trust = None, ti_producer_kind = SystemProducer, ti_prompt_binding = None,
     ti_error_code = None, ti_status_reason = None, ti_requested_at = 5, ti_completed_at = None,
     ti_lease_owner = Some ''w'', ti_lease_expires = Some 50\<rparr>"

definition example_finished :: invocation where
  "example_finished = example_pending\<lparr>ti_status := InvSucceeded, ti_output := Some (VDict []),
     ti_output_trust := Some ExternalUntrusted, ti_completed_at := Some 90, ti_lease_owner := None,
     ti_lease_expires := None\<rparr>"

definition zero_digest :: "pyval \<Rightarrow> digest" where
  "zero_digest v = replicate 64 CHR ''0''"

definition example_persist :: store_op where
  "example_persist = Persist (Aware 10) example_pending [] (Some ''o'') (Some example_allow)"

definition example_empty :: store where
  "example_empty = empty_store [''r'' \<mapsto> Some ''o''] [''t'' \<mapsto> (''r'', ''o'')] [''a'' \<mapsto> (''t'', ''r'', ''o'')] {''g''} {}"

definition example_store :: store where
  "example_store = fold (history_step Some zero_digest) [example_persist] example_empty"

lemma example_op_valid: "list_all op_valid [example_persist]" by code_simp

lemma example_rows: "map sr_inv (so_rows example_store) = [example_pending]" by code_simp

lemma example_store_ok: "store_ok example_store"
  unfolding example_store_def using example_op_valid
  by (intro store_rows.history_ok) (simp_all add: example_empty_def empty_store_ok)

lemma example_row: obtains r where "so_rows example_store = [r]" "sr_inv r = example_pending"
  using example_rows by auto

theorem store_history_witness:
  "\<exists>r \<in> set (so_rows example_store).
     \<exists>q \<in> set (so_rows (fold (history_step Some zero_digest) [Reconcile ''r'' ''a'' (Some ''o'') ''k'' (Aware 99)] example_store)).
       sr_inv r = example_pending \<and> ti_id (sr_inv q) = ''i1''"
proof -
  obtain r where r: "so_rows example_store = [r]" "sr_inv r = example_pending" by (rule example_row)
  have "list_all op_valid [Reconcile ''r'' ''a'' (Some ''o'') ''k'' (Aware 99)]" by simp
  note hist = store_history[OF example_op_valid this example_store_def[unfolded example_empty_def]]
  have "ti_id example_pending = ''i1''" by (simp add: example_pending_def)
  with hist r show ?thesis by (auto simp: same_request_row_def)
qed

theorem one_unit_of_work_witness:
  "persist Some zero_digest (Aware 20) (example_pending\<lparr>ti_id := ''i2''\<rparr>) [] (Some ''o'') (Some example_allow) example_store =
     (Inl (ConflictWith example_pending), example_store)"
proof -
  let ?t = "example_pending\<lparr>ti_id := ''i2''\<rparr>"
  let ?r = "persist Some zero_digest (Aware 20) ?t [] (Some ''o'') (Some example_allow) example_store"
  obtain r where r: "so_rows example_store = [r]" "sr_inv r = example_pending" by (rule example_row)
  have 1: "ti_id ?t \<notin> (\<lambda>r. ti_id (sr_inv r)) ` set (so_rows example_store)" "ti_status ?t \<noteq> InvDenied"
    by (simp_all add: r example_pending_def)
  have 2: "normalize_context Some (ti_run_id ?t) (Some (ti_task_id ?t)) (ti_attempt_id ?t) (Some ''o'') = Inr ''o''" by code_simp
  have 3: "require_parents example_store (ti_run_id ?t) (ti_task_id ?t) (ti_attempt_id ?t) ''o'' = None" by code_simp
  have "\<forall>e \<in> set []. event_association e ?t = None" by simp
  note one = one_unit_of_work[OF example_store_ok 1 this 2 3, of zero_digest "Aware 20" example_allow]
  have "fst ?r = Inl (ConflictWith example_pending)"
    using one[of example_pending] r by (simp add: occupies_key_def row_key_def example_pending_def)
  with one[of example_pending] show ?thesis by (metis prod.collapse)
qed

theorem lookup_exact_witness:
  "find_pending_invocation Some example_store ''r'' ''a'' (Some ''o'') ''k'' = Inr (Some example_pending)"
proof -
  obtain r where r: "so_rows example_store = [r]" "sr_inv r = example_pending" by (rule example_row)
  have "normalize_context Some ''r'' None ''a'' (Some ''o'') = Inr ''o''" by code_simp
  note exact = lookup_exact[OF example_store_ok this, of "''k''" example_pending]
  have "map sr_org (so_rows example_store) = [''o'']" by code_simp
  with exact r show ?thesis by (simp add: example_pending_def pending_statuses_def)
qed

theorem recovery_fences_worker_witness:
  "\<exists>i s1. reconcile_pending_invocation Some ''r'' ''a'' (Some ''o'') ''k'' (Aware 99) example_store = (Inr (Some i), s1) \<and>
     ti_status i = InvFailed \<and>
     persist Some zero_digest (Aware 100) example_finished [] (Some ''o'') (Some example_allow) s1 = (Inl (ConflictWith i), s1)"
proof -
  obtain r where r: "so_rows example_store = [r]" "sr_inv r = example_pending" by (rule example_row)
  have org: "normalize_context Some ''r'' None ''a'' (Some ''o'') = Inr ''o''" by code_simp
  have "map sr_org (so_rows example_store) = [''o'']" by code_simp
  then have row: "r \<in> set (so_rows example_store)" "matches_key ''r'' ''a'' ''k'' ''o'' r"
    "ti_status (sr_inv r) \<in> pending_statuses" "\<not> lease_holds (sr_inv r) 99"
    using r by (simp_all add: matches_key_def example_pending_def pending_statuses_def lease_holds_def lease_is_live_def)
  have "(case fst (reconcile_pending_invocation Some ''r'' ''a'' (Some ''o'') ''k'' (Aware 99) example_store) of
      Inr (Some i) \<Rightarrow> transition_identity i example_finished = None | _ \<Rightarrow> False)" by code_simp
  then obtain i s1 where rec: "reconcile_pending_invocation Some ''r'' ''a'' (Some ''o'') ''k'' (Aware 99) example_store
      = (Inr (Some i), s1)" and ident: "transition_identity i example_finished = None"
    by (cases "reconcile_pending_invocation Some ''r'' ''a'' (Some ''o'') ''k'' (Aware 99) example_store")
      (auto split: sum.splits option.splits)
  have same: "ti_id example_finished = ti_id (sr_inv r)" by (simp add: r example_finished_def)
  have par: "require_parents (snd (reconcile_pending_invocation Some ''r'' ''a'' (Some ''o'') ''k'' (Aware 99) example_store))
      (ti_run_id example_finished) (ti_task_id example_finished) (ti_attempt_id example_finished) ''o'' = None" by code_simp
  have ctx: "normalize_context Some (ti_run_id example_finished) (Some (ti_task_id example_finished))
      (ti_attempt_id example_finished) (Some ''o'') = Inr ''o''" by code_simp
  note fence = recovery_fences_worker[OF example_store_ok row org rec, of "[]" s1 zero_digest example_finished "''w''" "Aware 1"
      "Aware 2" 1 "Aware 100" "[]" "Some example_allow"]
  from fence same par ctx ident rec show ?thesis by auto
qed

definition example_denied_row :: invocation where
  "example_denied_row = (case fst example_denied_run of Persisted row ev org d # es \<Rightarrow> row)"

theorem denied_stays_denied_durably_witness:
  "\<exists>oc. snd (snd example_denied_run) = Inr oc \<and> oc_status oc = Denied"
proof -
  let ?s = example_store
  have "(case authorize example_deployment example_answers (example_call []) of
      Inr (cl, prep, d, now) \<Rightarrow> cd_effect d = Deny \<and> cap_decision_violation d = None \<and>
        \<not> some_and (\<lambda>g. g \<notin> so_grants ?s) (cd_grant_id d) \<and>
        answer_of (fst (persist Some zero_digest (Aware 10) (example_denied_row\<lparr>ti_id := ''i3''\<rparr>) [] (Some ''o'') (Some d) ?s)) = Stored
    | Inl e \<Rightarrow> False)" by code_simp
  then obtain cl prep d now where auth: "authorize example_deployment example_answers (example_call []) = Inr (cl, prep, d, now)"
    "cd_effect d = Deny" "cap_decision_violation d = None"
    and known: "\<not> some_and (\<lambda>g. g \<notin> so_grants ?s) (cd_grant_id d)"
    and stored: "answer_of (fst (persist Some zero_digest (Aware 10) (example_denied_row\<lparr>ti_id := ''i3''\<rparr>) [] (Some ''o'') (Some d) ?s)) = Stored"
    by (auto split: sum.splits prod.splits)
  have row: "ti_status (example_denied_row\<lparr>ti_id := ''i3''\<rparr>) = InvDenied"
    "invocation_violation (example_denied_row\<lparr>ti_id := ''i3''\<rparr>) = None" by code_simp+
  obtain r where r: "so_rows ?s = [r]" "sr_inv r = example_pending" by (rule example_row)
  have fresh: "ti_id (example_denied_row\<lparr>ti_id := ''i3''\<rparr>) \<notin> (\<lambda>r. ti_id (sr_inv r)) ` set (so_rows ?s)"
    by (simp add: r example_pending_def)
  have dig: "\<forall>v. length (zero_digest v) = 64" by (simp add: zero_digest_def)
  have ans: "an_persist_terminal example_answers = answer_of (fst (persist Some zero_digest (Aware 10)
      (example_denied_row\<lparr>ti_id := ''i3''\<rparr>) [] (Some ''o'') (Some d) ?s))" using stored by (simp add: example_answers_def)
  have "(case snd (snd example_denied_run) of Inr oc \<Rightarrow> True | Inl e \<Rightarrow> False)" by code_simp
  then obtain es bs' oc where run: "invoke example_deployment example_answers (example_call []) Map.empty = (es, bs', Inr oc)"
    by (metis (no_types, lifting) example_denied_run_def prod.exhaust_sel sum.case_eq_if sum.collapse(2))
  from denied_stays_denied_durably[OF auth row fresh dig known ans run] show ?thesis by (simp add: example_denied_run_def run)
qed


subsection \<open>A gap\<close>

text \<open>
  The handler of an integrity error takes every violated constraint for an occupied key: a denial that
  names a grant that is not durable breaks the foreign key instead.
\<close>

definition example_lapsed_call :: call_args where
  "example_lapsed_call = example_call [example_search_grant\<lparr>cg_id := ''g2'', cg_expires_at := 10\<rparr>]"

definition example_later_answers :: answers where
  "example_later_answers = example_answers\<lparr>an_ids := (\<lambda>n. ''j'' @ nat_str n)\<rparr>"

definition example_recorded :: invocation where
  "example_recorded = \<lparr>ti_id = ''i0'', ti_run_id = ''r'', ti_task_id = ''t'', ti_attempt_id = ''a'',
     ti_tool_name = ''search'', ti_tool_version = ''1.0'', ti_status = InvSucceeded, ti_scope = ''web'',
     ti_idempotency_key = ''k'', ti_input = VDict [(''api_key'', VStr ''[REDACTED]''), (''limit'', VInt 3)],
     ti_input_trust = UserSupplied, ti_output = Some (VDict [(''count'', VInt 1)]),
     ti_output_trust = Some DerivedUntrusted, ti_producer_kind = SystemProducer, ti_prompt_binding = None,
     ti_error_code = None, ti_status_reason = None, ti_requested_at = 5000, ti_completed_at = Some 6000,
     ti_lease_owner = None, ti_lease_expires = None\<rparr>"

definition example_refused :: invocation where
  "example_refused = example_recorded\<lparr>ti_id := ''j0'', ti_status := InvDenied, ti_output := None, ti_output_trust := None,
     ti_error_code := Some ''capability_denied'', ti_status_reason := Some ''grant_expired'', ti_completed_at := Some 5000\<rparr>"

definition example_refusal :: cap_decision where
  "example_refusal = \<lparr>cd_effect = Deny, cd_fingerprint = replicate 64 CHR ''0'', cd_grant_id = Some ''g2'',
     cd_approval_id = None, cd_denial_reason = Some GrantExpired, cd_decided_at = 5000\<rparr>"

definition example_success_store :: store where
  "example_success_store =
     snd (persist Some zero_digest (Aware 7000) example_recorded [] (Some ''o'') (Some example_allow) example_empty)"

text \<open>
  A denial that names a grant that is not durable is answered with the recorded success. A denied
  call offers its denied row; the durable store refuses the row for its foreign key, finds the succeeded
  row of another call under the same key and answers with it; and under that answer the denied caller
  is handed the success with its output.
\<close>

theorem undurable_denial_replays_success:
  "(case fst (invoke example_deployment example_later_answers example_lapsed_call Map.empty) of
      Persisted row ev org d # es \<Rightarrow> row = example_refused \<and> d = example_refusal | _ \<Rightarrow> False) \<and>
   fst (persist Some zero_digest (Aware 7000) example_refused [] (Some ''o'') (Some example_refusal) example_success_store)
     = Inl (ConflictWith example_recorded) \<and>
   (case snd (snd (invoke example_deployment
        (example_later_answers\<lparr>an_persist_terminal := StoreConflict example_recorded\<rparr>) example_lapsed_call Map.empty)) of
      Inr oc \<Rightarrow> oc_status oc = Succeeded \<and> ti_output (oc_invocation oc) = Some (VDict [(''count'', VInt 1)]) \<and>
        map_option cd_effect (oc_decision oc) = Some Deny
    | Inl e \<Rightarrow> False)"
proof (intro conjI)
  show "case fst (invoke example_deployment example_later_answers example_lapsed_call Map.empty) of
      Persisted row ev org d # es \<Rightarrow> row = example_refused \<and> d = example_refusal | _ \<Rightarrow> False" by code_simp
  show "fst (persist Some zero_digest (Aware 7000) example_refused [] (Some ''o'') (Some example_refusal) example_success_store)
     = Inl (ConflictWith example_recorded)" by code_simp
  show "case snd (snd (invoke example_deployment
        (example_later_answers\<lparr>an_persist_terminal := StoreConflict example_recorded\<rparr>) example_lapsed_call Map.empty)) of
      Inr oc \<Rightarrow> oc_status oc = Succeeded \<and> ti_output (oc_invocation oc) = Some (VDict [(''count'', VInt 1)]) \<and>
        map_option cd_effect (oc_decision oc) = Some Deny
    | Inl e \<Rightarrow> False" by code_simp
qed

end
