(* ===== verification/Locator_Resolution.thy ===== *)
theory Locator_Resolution
  imports Locators
begin

text \<open>
  \<^verbatim>\<open>src/core/acquisition/resolution.py\<close>: resolving a locator against the bytes of a snapshot. Bytes
  are characters (code points below 256). Decoded text is a list of Unicode code points; strict
  UTF-8, as \<open>bytes.decode("utf-8")\<close> does it: no overlong form, no surrogate, nothing above
  0x10FFFF.
\<close>

subsection \<open>UTF-8\<close>

definition byte_char :: "nat \<Rightarrow> char" where
  "byte_char n = char_of n"

definition cont :: "char \<Rightarrow> bool" where
  "cont c \<longleftrightarrow> 128 \<le> code c \<and> code c < 192"

definition scalar :: "nat \<Rightarrow> bool" where
  "scalar n \<longleftrightarrow> n < 55296 \<or> (57344 \<le> n \<and> n < 1114112)"

definition encode_point :: "nat \<Rightarrow> string" where
  "encode_point n =
     (if n < 128 then [byte_char n]
      else if n < 2048 then [byte_char (192 + n div 64), byte_char (128 + n mod 64)]
      else if n < 65536
      then [byte_char (224 + n div 4096), byte_char (128 + n div 64 mod 64), byte_char (128 + n mod 64)]
      else [byte_char (240 + n div 262144), byte_char (128 + n div 4096 mod 64),
            byte_char (128 + n div 64 mod 64), byte_char (128 + n mod 64)])"

definition utf8_encode :: "nat list \<Rightarrow> string" where
  "utf8_encode points = concat (map encode_point points)"

text \<open>One code point from the front of the bytes.\<close>

definition decode_point :: "string \<Rightarrow> (nat \<times> string) option" where
  "decode_point bs =
     (case bs of
        [] \<Rightarrow> None
      | a # bs1 \<Rightarrow>
         if code a < 128 then Some (code a, bs1)
         else if 194 \<le> code a \<and> code a < 224 then
          (case bs1 of b # rest \<Rightarrow>
             if cont b then Some ((code a - 192) * 64 + (code b - 128), rest) else None
           | _ \<Rightarrow> None)
         else if 224 \<le> code a \<and> code a < 240 then
          (case bs1 of b # c # rest \<Rightarrow>
             (let n = (code a - 224) * 4096 + (code b - 128) * 64 + (code c - 128) in
              if cont b \<and> cont c \<and> 2048 \<le> n \<and> scalar n then Some (n, rest) else None)
           | _ \<Rightarrow> None)
         else if 240 \<le> code a \<and> code a < 245 then
          (case bs1 of b # c # d # rest \<Rightarrow>
             (let n = (code a - 240) * 262144 + (code b - 128) * 4096 + (code c - 128) * 64 + (code d - 128) in
              if cont b \<and> cont c \<and> cont d \<and> 65536 \<le> n \<and> scalar n then Some (n, rest) else None)
           | _ \<Rightarrow> None)
         else None)"

lemma decode_point_shorter: "decode_point bs = Some (n, rest) \<Longrightarrow> length rest < length bs"
  by (auto simp: decode_point_def Let_def split: list.splits if_splits)

function utf8_decode :: "string \<Rightarrow> nat list option" where
  "utf8_decode [] = Some []"
| "utf8_decode (b # bs) =
     (case decode_point (b # bs) of
        None \<Rightarrow> None
      | Some (n, rest) \<Rightarrow> map_option ((#) n) (utf8_decode rest))"
  by pat_completeness auto
termination
  by (relation "measure length") (auto dest: decode_point_shorter)

text \<open>Decoding is strict, hence lossless: encoding the text gives the bytes back.\<close>

lemma char_of_code [simp]: "byte_char (code c) = c"
  by (simp add: byte_char_def code_def)

lemma cont_byte: "cont c \<Longrightarrow> byte_char (128 + (code c - 128)) = c"
  by (simp add: cont_def)

lemma cont_div:
  assumes "cont c"
  shows "(m * 64 + (code c - 128)) div 64 = m" "(m * 64 + (code c - 128)) mod 64 = code c - 128"
proof -
  have "code c - 128 < 64" using assms by (auto simp: cont_def)
  then show "(m * 64 + (code c - 128)) div 64 = m" "(m * 64 + (code c - 128)) mod 64 = code c - 128" by simp_all
qed

lemma encode_decode_point:
  "decode_point bs = Some (n, rest) \<Longrightarrow> bs = encode_point n @ rest"
proof (cases bs)
  case (Cons a bs1)
  assume d: "decode_point bs = Some (n, rest)"
  consider "code a < 128" | "194 \<le> code a" "code a < 224" | "224 \<le> code a" "code a < 240"
    | "240 \<le> code a" "code a < 245" using d Cons by (force simp: decode_point_def split: if_splits)
  then show ?thesis
  proof cases
    case 1
    with d Cons show ?thesis by (auto simp: decode_point_def encode_point_def)
  next
    case 2
    with d Cons obtain b where b: "bs1 = b # rest" "cont b" "n = (code a - 192) * 64 + (code b - 128)"
      by (auto simp: decode_point_def split: list.splits if_splits)
    have "n div 64 = code a - 192" "n mod 64 = code b - 128" using b cont_div by auto
    moreover have "128 \<le> n" "n < 2048" using 2 b by (auto simp: cont_def)
    ultimately show ?thesis using 2 b(1,2) Cons cont_byte by (simp add: encode_point_def)
  next
    case 3
    with d Cons obtain b c where b: "bs1 = b # c # rest" "cont b" "cont c" "2048 \<le> n"
      "n = (code a - 224) * 4096 + (code b - 128) * 64 + (code c - 128)"
      by (auto simp: decode_point_def Let_def split: list.splits if_splits)
    define m where "m = (code a - 224) * 64 + (code b - 128)"
    have n: "n = m * 64 + (code c - 128)" by (simp add: b(5) m_def)
    have d1: "n div 64 = m" "n mod 64 = code c - 128" unfolding n using b cont_div by auto
    have d2: "m div 64 = code a - 224" "m mod 64 = code b - 128" unfolding m_def using b cont_div by auto
    have d3: "n div 4096 = m div 64" using d1(1) by (simp add: div_mult2_eq[of n 64 64, simplified])
    have "n < 65536" using 3 b by (auto simp: cont_def)
    then show ?thesis using 3 b(1-4) Cons cont_byte d1 d2 d3 by (simp add: encode_point_def)
  next
    case 4
    with d Cons obtain b c e where b: "bs1 = b # c # e # rest" "cont b" "cont c" "cont e" "65536 \<le> n"
      "n = (code a - 240) * 262144 + (code b - 128) * 4096 + (code c - 128) * 64 + (code e - 128)"
      by (auto simp: decode_point_def Let_def split: list.splits if_splits)
    define l where "l = (code a - 240) * 64 + (code b - 128)"
    define m where "m = l * 64 + (code c - 128)"
    have n: "n = m * 64 + (code e - 128)" by (simp add: b(6) m_def l_def)
    have d1: "n div 64 = m" "n mod 64 = code e - 128" unfolding n using b cont_div by auto
    have d2: "m div 64 = l" "m mod 64 = code c - 128" unfolding m_def using b cont_div by auto
    have d3: "l div 64 = code a - 240" "l mod 64 = code b - 128" unfolding l_def using b cont_div by auto
    have d4: "n div 4096 = l" using d1(1) d2(1) by (simp add: div_mult2_eq[of n 64 64, simplified])
    have d5: "n div 262144 = l div 64" using d4 by (simp add: div_mult2_eq[of n 4096 64, simplified])
    show ?thesis using 4 b(1-5) Cons cont_byte d1 d2 d3 d4 d5 by (simp add: encode_point_def)
  qed
qed (simp add: decode_point_def)

lemma encode_decode: "utf8_decode bs = Some points \<Longrightarrow> utf8_encode points = bs"
proof (induction bs arbitrary: points rule: utf8_decode.induct)
  case (2 b bs)
  then obtain n rest ns where d: "decode_point (b # bs) = Some (n, rest)" and r: "utf8_decode rest = Some ns"
    and t: "points = n # ns" by (auto split: option.splits)
  from 2(1)[OF d refl r] encode_decode_point[OF d] show ?case by (simp add: t utf8_encode_def)
qed (simp add: utf8_encode_def)

subsection \<open>Resolution\<close>

datatype resolve_error =
  InvalidLocator locator_error | RunsBeyond span nat | NotUtf8 span

definition refuse_beyond :: "span \<Rightarrow> nat \<Rightarrow> resolve_error option" where
  "refuse_beyond s available = (if sp_end s > available then Some (RunsBeyond s available) else None)"

text \<open>The Python slice \<open>xs[i:j]\<close> for \<open>0 <= i\<close> and \<open>0 <= j\<close>.\<close>

definition slice :: "nat \<Rightarrow> nat \<Rightarrow> 'a list \<Rightarrow> 'a list" where
  "slice i j xs = take (j - i) (drop i xs)"

definition resolve_bytes :: "span \<Rightarrow> string \<Rightarrow> resolve_error + string" where
  "resolve_bytes s snapshot =
     (case refuse_beyond s (length snapshot) of
        Some e \<Rightarrow> Inl e | None \<Rightarrow> Inr (slice (sp_start s) (sp_end s) snapshot))"

definition resolve_chars :: "span \<Rightarrow> string \<Rightarrow> resolve_error + string" where
  "resolve_chars s snapshot =
     (case utf8_decode snapshot of
        None \<Rightarrow> Inl (NotUtf8 s)
      | Some points \<Rightarrow>
         (case refuse_beyond s (length points) of
            Some e \<Rightarrow> Inl e | None \<Rightarrow> Inr (utf8_encode (slice (sp_start s) (sp_end s) points))))"

definition LF :: char where
  "LF = CHR 0x0A"

text \<open>The loop of \<open>_line_starts\<close> from position \<open>offset\<close>: after each line feed that is not the last byte.\<close>

fun following_starts :: "nat \<Rightarrow> string \<Rightarrow> nat list" where
  "following_starts offset [] = []"
| "following_starts offset (c # cs) =
     (if c = LF \<and> cs \<noteq> [] then Suc offset # following_starts (Suc offset) cs
      else following_starts (Suc offset) cs)"

definition line_starts :: "string \<Rightarrow> nat list" where
  "line_starts snapshot = (if snapshot = [] then [] else 0 # following_starts 0 snapshot)"

definition resolve_lines :: "span \<Rightarrow> string \<Rightarrow> resolve_error + string" where
  "resolve_lines s snapshot =
     (let starts = line_starts snapshot in
      case refuse_beyond s (length starts + 1) of
        Some e \<Rightarrow> Inl e
      | None \<Rightarrow>
         (let first = starts ! (sp_start s - 1);
              last = (if sp_end s - 1 < length starts then starts ! (sp_end s - 1) else length snapshot)
          in Inr (slice first last snapshot)))"

definition resolve :: "string \<Rightarrow> string \<Rightarrow> resolve_error + string" where
  "resolve value snapshot =
     (case parse_locator value of
        Inl e \<Rightarrow> Inl (InvalidLocator e)
      | Inr l \<Rightarrow>
         (let s = lo_canonical l in
          if sp_scheme s = ''bytes'' then resolve_bytes s snapshot
          else if sp_scheme s = ''char'' then resolve_chars s snapshot
          else resolve_lines s snapshot))"

text \<open>\<open>locate\<close>: offsets may be negative, which \<open>str\<close> prints with a sign.\<close>

definition int_str :: "int \<Rightarrow> string" where
  "int_str i = (if i < 0 then ''-'' @ nat_str (nat (- i)) else nat_str (nat i))"

definition locate :: "string \<Rightarrow> int \<Rightarrow> int \<Rightarrow> string list \<Rightarrow> locator_error + string" where
  "locate scheme start stop annotations =
     (let value = py_join ''|'' ((scheme @ '':'' @ int_str start @ ''-'' @ int_str stop) # annotations)
      in case parse_locator value of Inl e \<Rightarrow> Inl e | Inr l \<Rightarrow> Inr value)"

subsection \<open>What a locator resolves to\<close>

text \<open>The reference notion of line: split after every line feed, keeping it.\<close>

fun lines :: "string \<Rightarrow> string list" where
  "lines [] = []"
| "lines (c # cs) =
     (if c = LF \<or> cs = [] then [c] # lines cs
      else (case lines cs of [] \<Rightarrow> [[c]] | l # ls \<Rightarrow> (c # l) # ls))"

lemma lines_Nil_iff [simp]: "lines s = [] \<longleftrightarrow> s = []"
  by (cases s) (auto split: list.splits)

lemma concat_lines: "concat (lines s) = s"
  by (induction s rule: lines.induct) (auto split: list.splits)

text \<open>The computed starts are the lengths of the prefixes of the line list.\<close>

fun prefix_lengths :: "nat \<Rightarrow> string list \<Rightarrow> nat list" where
  "prefix_lengths n [] = []"
| "prefix_lengths n (l # ls) = n # prefix_lengths (n + length l) ls"

lemma following_starts_lines:
  "s \<noteq> [] \<Longrightarrow> k # following_starts k s = prefix_lengths k (lines s)"
proof (induction s arbitrary: k)
  case (Cons c cs)
  show ?case
  proof (cases "cs = []")
    case False
    then obtain l ls where ls: "lines cs = l # ls" by (cases "lines cs") auto
    from Cons(1)[OF False, of "Suc k"] ls show ?thesis using False by (auto simp: ls)
  qed simp
qed simp

lemma line_starts_lines: "line_starts s = prefix_lengths 0 (lines s)"
  using following_starts_lines[of s 0] by (cases "s = []") (simp_all add: line_starts_def)

lemma prefix_lengths_length [simp]: "length (prefix_lengths n ls) = length ls"
  by (induction ls arbitrary: n) auto

lemma prefix_lengths_nth: "i < length ls \<Longrightarrow> prefix_lengths n ls ! i = n + length (concat (take i ls))"
  by (induction ls arbitrary: n i) (auto simp: nth_Cons split: nat.splits)

lemma drop_concat_prefix: "drop (length (concat (take i ls))) (concat ls) = concat (drop i ls)"
  by (metis append_eq_conv_conj append_take_drop_id concat_append)

lemma slice_concat:
  assumes "i \<le> j"
  shows "slice (length (concat (take i ls))) (length (concat (take j ls))) (concat ls) =
     concat (take (j - i) (drop i ls))"
proof -
  have "take j ls = take i ls @ take (j - i) (drop i ls)"
    using assms by (metis le_add_diff_inverse take_add)
  then have "length (concat (take j ls)) - length (concat (take i ls)) = length (concat (take (j - i) (drop i ls)))"
    by simp
  then show ?thesis unfolding slice_def drop_concat_prefix
    by (metis append_eq_conv_conj append_take_drop_id concat_append)
qed

lemma resolve_lines_spec:
  assumes "1 \<le> sp_start s" "sp_start s < sp_end s"
  shows "resolve_lines s snapshot =
     (if sp_end s \<le> length (lines snapshot) + 1
      then Inr (concat (slice (sp_start s - 1) (sp_end s - 1) (lines snapshot)))
      else Inl (RunsBeyond s (length (lines snapshot) + 1)))"
proof (cases "sp_end s \<le> length (lines snapshot) + 1")
  case True
  let ?ls = "lines snapshot" and ?i = "sp_start s - 1" and ?j = "sp_end s - 1"
  have first: "line_starts snapshot ! ?i = length (concat (take ?i ?ls))"
    using True assms by (simp add: line_starts_lines prefix_lengths_nth)
  have last: "(if ?j < length (line_starts snapshot) then line_starts snapshot ! ?j else length snapshot) =
      length (concat (take ?j ?ls))"
    using True by (auto simp: line_starts_lines prefix_lengths_nth concat_lines)
  have "slice (length (concat (take ?i ?ls))) (length (concat (take ?j ?ls))) snapshot = concat (slice ?i ?j ?ls)"
    using slice_concat[of ?i ?j ?ls] assms by (simp add: concat_lines slice_def)
  moreover have "refuse_beyond s (length (line_starts snapshot) + 1) = None"
    using True by (simp add: refuse_beyond_def line_starts_lines)
  ultimately show ?thesis
    using True unfolding resolve_lines_def Let_def first last by simp
next
  case False
  then show ?thesis by (simp add: resolve_lines_def refuse_beyond_def Let_def line_starts_lines)
qed

lemma slice_infix: "\<exists>a b. xs = a @ slice i j xs @ b"
  unfolding slice_def by (metis append_take_drop_id)

lemma slice_length: "j \<le> length xs \<Longrightarrow> length (slice i j xs) = j - i"
  by (simp add: slice_def)

text \<open>
  C21: Resolution refuses rather than truncates. Against a given snapshot a well-formed locator
  resolves exactly when its span lies inside the snapshot (bytes, decoded characters, or lines
  ended by line feeds), and then to exactly the named units: that many bytes, the encoding of that
  many characters of a snapshot that is strict UTF-8, or those lines with their terminators; the
  annotations play no part.
\<close>

theorem resolve_exact:
  assumes "locator_ok l" and "s = lo_canonical l"
  shows "resolve (print_locator l) snapshot =
     (if sp_scheme s = ''bytes'' then
        (if sp_end s \<le> length snapshot then Inr (slice (sp_start s) (sp_end s) snapshot)
         else Inl (RunsBeyond s (length snapshot)))
      else if sp_scheme s = ''char'' then
        (case utf8_decode snapshot of
           None \<Rightarrow> Inl (NotUtf8 s)
         | Some points \<Rightarrow>
            if sp_end s \<le> length points then Inr (utf8_encode (slice (sp_start s) (sp_end s) points))
            else Inl (RunsBeyond s (length points)))
      else
        (if sp_end s \<le> length (lines snapshot) + 1
         then Inr (concat (slice (sp_start s - 1) (sp_end s - 1) (lines snapshot)))
         else Inl (RunsBeyond s (length (lines snapshot) + 1))))"
proof -
  have parse: "parse_locator (print_locator l) = Inr l" using assms by (simp add: parse_locator_Inr)
  have ok: "span_ok s" using assms by (simp add: locator_ok_def)
  show ?thesis
  proof (cases "sp_scheme s \<in> {''bytes'', ''char''}")
    case True
    then show ?thesis
      by (auto simp: resolve_def parse assms(2) Let_def resolve_bytes_def resolve_chars_def refuse_beyond_def
          split: option.splits)
  next
    case False
    with ok have "1 \<le> sp_start s" "sp_start s < sp_end s"
      by (auto simp: span_ok_def canonical_schemes_def one_based_schemes_def)
    from resolve_lines_spec[OF this] False show ?thesis
      by (simp add: resolve_def parse assms(2) Let_def)
  qed
qed

definition example_locator :: locator where
  "example_locator = \<lparr>lo_canonical = \<lparr>sp_scheme = ''line'', sp_start = 2, sp_end = 3\<rparr>,
     lo_annotations = [\<lparr>sg_scheme = ''page'', sg_argument = ''7''\<rparr>]\<rparr>"

theorem resolve_exact_witness:
  "resolve ''line:2-3|page:7'' ''a'' = Inl (RunsBeyond \<lparr>sp_scheme = ''line'', sp_start = 2, sp_end = 3\<rparr> 2) \<and>
   resolve ''line:2-3|page:7'' (''a'' @ [LF] @ ''bc'' @ [LF] @ ''d'') = Inr (''bc'' @ [LF])"
proof -
  have ok: "locator_ok example_locator" by code_simp
  have print: "print_locator example_locator = ''line:2-3|page:7''" by code_simp
  have canon: "lo_canonical example_locator = \<lparr>sp_scheme = ''line'', sp_start = 2, sp_end = 3\<rparr>"
    by (simp add: example_locator_def)
  show ?thesis
    using resolve_exact[OF ok refl, of "''a''"] resolve_exact[OF ok refl, of "''a'' @ [LF] @ ''bc'' @ [LF] @ ''d''"]
    by (simp add: print canon slice_def LF_def)
qed

lemma utf8_encode_append: "utf8_encode (a @ b) = utf8_encode a @ utf8_encode b"
  by (simp add: utf8_encode_def)

lemma resolve_is_quotation_facts:
  assumes "resolve value snapshot = Inr excerpt"
  shows "contains excerpt snapshot"
    and "parse_locator value = Inr l \<Longrightarrow> sp_scheme (lo_canonical l) = ''bytes'' \<Longrightarrow>
         length excerpt = sp_end (lo_canonical l) - sp_start (lo_canonical l)"
proof -
  from assms obtain l where parse: "parse_locator value = Inr l" by (auto simp: resolve_def split: sum.splits)
  have bytes: "resolve_bytes s snapshot = Inr excerpt \<Longrightarrow>
      contains excerpt snapshot \<and> length excerpt = sp_end s - sp_start s" for s
    using slice_infix[of snapshot "sp_start s" "sp_end s"] slice_length[of "sp_end s" snapshot "sp_start s"]
    unfolding contains_iff by (auto simp: resolve_bytes_def refuse_beyond_def not_less split: if_splits)
  have chars: "resolve_chars s snapshot = Inr excerpt \<Longrightarrow> contains excerpt snapshot" for s
  proof -
    assume "resolve_chars s snapshot = Inr excerpt"
    then obtain points where p: "utf8_decode snapshot = Some points"
        "excerpt = utf8_encode (slice (sp_start s) (sp_end s) points)"
      by (auto simp: resolve_chars_def split: option.splits)
    obtain a b where "points = a @ slice (sp_start s) (sp_end s) points @ b" using slice_infix by blast
    then have "utf8_encode points = utf8_encode a @ excerpt @ utf8_encode b"
      by (metis p(2) utf8_encode_append)
    then show ?thesis using encode_decode[OF p(1)] by (auto simp: contains_iff)
  qed
  have ls: "resolve_lines s snapshot = Inr excerpt \<Longrightarrow> contains excerpt snapshot" for s
    using slice_infix[of snapshot] by (auto simp: resolve_lines_def Let_def contains_iff)
  show "contains excerpt snapshot"
    using assms bytes chars ls by (auto simp: resolve_def parse Let_def split: if_splits)
  show "parse_locator value = Inr l \<Longrightarrow> sp_scheme (lo_canonical l) = ''bytes'' \<Longrightarrow>
         length excerpt = sp_end (lo_canonical l) - sp_start (lo_canonical l)" for l
    using assms bytes by (auto simp: resolve_def Let_def)
qed

text \<open>
  A resolved excerpt is a quotation: whatever the locator string, if it resolves then the
  result occurs verbatim and contiguously in the snapshot, so no byte is invented, reordered or
  normalised; and for a byte span it has exactly the length the locator claims.
\<close>

theorem resolve_is_quotation:
  assumes "resolve value snapshot = Inr excerpt"
  shows "contains excerpt snapshot \<and>
    (parse_locator value = Inr l \<longrightarrow> sp_scheme (lo_canonical l) = ''bytes'' \<longrightarrow>
       length excerpt = sp_end (lo_canonical l) - sp_start (lo_canonical l))"
  using resolve_is_quotation_facts[OF assms] by blast

theorem resolve_is_quotation_witness:
  "contains (''bc'' @ [LF]) (''a'' @ [LF] @ ''bc'' @ [LF] @ ''d'') \<and> length ''bc'' = 2"
proof -
  have 1: "resolve ''line:2-3'' (''a'' @ [LF] @ ''bc'' @ [LF] @ ''d'') = Inr (''bc'' @ [LF])" by code_simp
  have 2: "resolve ''bytes:1-3'' ''abcd'' = Inr ''bc''" by code_simp
  have 3: "parse_locator ''bytes:1-3'' = Inr \<lparr>lo_canonical = \<lparr>sp_scheme = ''bytes'', sp_start = 1, sp_end = 3\<rparr>,
      lo_annotations = []\<rparr>" by code_simp
  from resolve_is_quotation[OF 1] resolve_is_quotation[OF 2] 3 show ?thesis by simp
qed

end
