(* ===== verification/Materiality.thy ===== *)
theory Materiality
  imports Locator_Resolution
begin

text \<open>
  \<^verbatim>\<open>src/core/claims/materiality.py\<close>: the material claims of an artifact. The text is cut into segments
  at the matches of the pattern \<open>(?<=[.!?])[ \t]+|\n+\<close>, and every segment is a claim or is excluded for a
  reason.
\<close>

subsection \<open>Policy\<close>

definition minimum_assertion_words :: nat where
  "minimum_assertion_words = 4"

definition materiality_policy_id :: string where
  "materiality_policy_id = ''material-claim''"

definition materiality_policy_version :: string where
  "materiality_policy_version = ''1.0''"

definition deliverable_artifact_kinds :: "string set" where
  "deliverable_artifact_kinds = {''analysis'', ''answer'', ''comparative_analysis'', ''literature_review'', ''report'',
     ''research_report'', ''summary''}"

definition non_deliverable_artifact_kinds :: "string set" where
  "non_deliverable_artifact_kinds = {''plan'', ''prompt_log'', ''source_snapshot'', ''tool_output'', ''trace''}"

datatype exclusion_reason = NotADeliverable | NoAlphabeticContent | Interrogative | BelowMinimumLength

record source_segment =
  ss_text :: string
  ss_start :: nat
  ss_end :: nat

record material_claim =
  mc_id :: string
  mc_text :: string
  mc_span :: "nat \<times> nat"

record excluded_segment =
  es_span :: "nat \<times> nat"
  es_text :: string
  es_reason :: exclusion_reason

record claim_inventory =
  inv_artifact_id :: string
  inv_artifact_kind :: string
  inv_source_sha256 :: string
  inv_policy_id :: string
  inv_policy_version :: string
  inv_claims :: "material_claim list"
  inv_exclusions :: "excluded_segment list"

datatype materiality_error = UnclassifiedArtifactKind | DuplicateClaimIds

subsection \<open>Segmentation\<close>

definition terminator :: "char \<Rightarrow> bool" where
  "terminator c \<longleftrightarrow> c \<in> {CHR ''.'', CHR ''!'', CHR ''?''}"

definition gap_char :: "char \<Rightarrow> bool" where
  "gap_char c \<longleftrightarrow> c \<in> {CHR '' '', CHR 0x09}"

text \<open>
  The length of the match of the pattern at a position, given the character before it: the first
  alternative, else the second.
\<close>

definition boundary_match :: "char option \<Rightarrow> string \<Rightarrow> nat option" where
  "boundary_match prev s =
     (let gap = takeWhile gap_char s; feeds = takeWhile (\<lambda>c. c = LF) s in
      if some_and terminator prev \<and> gap \<noteq> [] then Some (length gap)
      else if feeds \<noteq> [] then Some (length feeds)
      else None)"

lemma boundary_match_bounds: "boundary_match prev s = Some n \<Longrightarrow> 0 < n \<and> n \<le> length s"
  by (auto simp: boundary_match_def Let_def length_takeWhile_le split: if_splits)

text \<open>\<open>finditer\<close>: the ends of the matches, from position \<open>i\<close> on.\<close>

function boundary_ends :: "nat \<Rightarrow> char option \<Rightarrow> string \<Rightarrow> nat list" where
  "boundary_ends i prev [] = []"
| "boundary_ends i prev (c # cs) =
     (case boundary_match prev (c # cs) of
        Some n \<Rightarrow> (i + n) # boundary_ends (i + n) (Some ((c # cs) ! (n - 1))) (drop n (c # cs))
      | None \<Rightarrow> boundary_ends (Suc i) (Some c) cs)"
  by pat_completeness auto
termination
  by (relation "measure (\<lambda>(i, prev, s). length s)") (auto dest: boundary_match_bounds)

text \<open>The loop over the matches, and the rest after the last.\<close>

fun cut_segments :: "string \<Rightarrow> nat \<Rightarrow> nat list \<Rightarrow> source_segment list" where
  "cut_segments source cursor [] =
     (if cursor < length source
      then [\<lparr>ss_text = drop cursor source, ss_start = cursor, ss_end = length source\<rparr>] else [])"
| "cut_segments source cursor (stop # stops) =
     (if stop \<le> cursor then cut_segments source cursor stops
      else \<lparr>ss_text = slice cursor stop source, ss_start = cursor, ss_end = stop\<rparr>
        # cut_segments source stop stops)"

definition segment_source :: "string \<Rightarrow> source_segment list" where
  "segment_source source = cut_segments source 0 (boundary_ends 0 None source)"

subsection \<open>The inventory\<close>

definition is_deliverable :: "string \<Rightarrow> materiality_error + bool" where
  "is_deliverable kind =
     (if kind \<in> deliverable_artifact_kinds then Inr True
      else if kind \<in> non_deliverable_artifact_kinds then Inr False
      else Inl UnclassifiedArtifactKind)"

definition tighten :: "source_segment \<Rightarrow> string \<times> nat \<times> nat" where
  "tighten s =
     (let lead = length (ss_text s) - length (py_lstrip (ss_text s));
          trail = length (ss_text s) - length (py_rstrip (ss_text s))
      in (py_strip (ss_text s), ss_start s + lead, ss_end s - trail))"

text \<open>\<open>text.split()\<close>: the maximal runs without white space.\<close>

function py_words :: "string \<Rightarrow> string list" where
  "py_words s =
     (case dropWhile py_space s of
        [] \<Rightarrow> []
      | c # cs \<Rightarrow> takeWhile (\<lambda>x. \<not> py_space x) (c # cs) # py_words (dropWhile (\<lambda>x. \<not> py_space x) (c # cs)))"
  by pat_completeness auto
termination
proof (relation "measure length")
  fix s c cs assume "dropWhile py_space s = c # cs"
  then have "\<not> py_space c" "length (c # cs) \<le> length s"
    using hd_dropWhile[of py_space s] length_dropWhile_le[of py_space s] by simp_all
  then have "length (dropWhile (\<lambda>x. \<not> py_space x) (c # cs)) < length s"
    using length_dropWhile_le[of "\<lambda>x. \<not> py_space x" cs] by simp
  then show "(dropWhile (\<lambda>x. \<not> py_space x) (c # cs), s) \<in> measure length" by simp
qed simp

declare py_words.simps [simp del]

definition exclusion_for :: "string \<Rightarrow> bool \<Rightarrow> exclusion_reason option" where
  "exclusion_for text deliverable =
     (if \<not> deliverable then Some NotADeliverable
      else if \<not> list_ex py_alpha text then Some NoAlphabeticContent
      else if text \<noteq> [] \<and> last text = CHR ''?'' then Some Interrogative
      else if length (py_words text) < minimum_assertion_words then Some BelowMinimumLength
      else None)"

text \<open>One disposition per segment: a claim (\<open>Inr\<close>) or an exclusion.\<close>

definition disposition :: "bool \<Rightarrow> source_segment \<Rightarrow> excluded_segment + material_claim" where
  "disposition deliverable s =
     (case tighten s of (text, sp) \<Rightarrow>
        (case exclusion_for text deliverable of
           Some reason \<Rightarrow> Inl \<lparr>es_span = sp, es_text = text, es_reason = reason\<rparr>
         | None \<Rightarrow> Inr \<lparr>mc_id = canonical_span ''char'' (fst sp) (snd sp), mc_text = text, mc_span = sp\<rparr>))"

fun partition_segments :: "bool \<Rightarrow> source_segment list \<Rightarrow> material_claim list \<times> excluded_segment list" where
  "partition_segments d [] = ([], [])"
| "partition_segments d (s # ss) =
     (case partition_segments d ss of (claims, exclusions) \<Rightarrow>
        (case disposition d s of
           Inl e \<Rightarrow> (claims, e # exclusions)
         | Inr c \<Rightarrow> (c # claims, exclusions)))"

definition inventory_violation :: "claim_inventory \<Rightarrow> materiality_error option" where
  "inventory_violation i = (if distinct (map mc_id (inv_claims i)) then None else Some DuplicateClaimIds)"

text \<open>\<open>H\<close> is SHA-256 of the UTF-8 bytes.\<close>

definition build_inventory :: "(string \<Rightarrow> string) \<Rightarrow> string \<Rightarrow> string \<Rightarrow> string \<Rightarrow> materiality_error + claim_inventory" where
  "build_inventory H artifact_id kind source =
     bind_result (is_deliverable kind) (\<lambda>deliverable.
       case partition_segments deliverable (segment_source source) of (claims, exclusions) \<Rightarrow>
         let i = \<lparr>inv_artifact_id = artifact_id, inv_artifact_kind = kind,
                  inv_source_sha256 = H (utf8_encode (map code source)), inv_policy_id = materiality_policy_id,
                  inv_policy_version = materiality_policy_version, inv_claims = claims, inv_exclusions = exclusions\<rparr>
         in raise_or (inventory_violation i) i)"

subsection \<open>Segments tile the source\<close>

text \<open>Contiguous, non-empty segments of \<open>source\<close> from \<open>a\<close> to \<open>b\<close>.\<close>

fun tiles :: "string \<Rightarrow> nat \<Rightarrow> nat \<Rightarrow> source_segment list \<Rightarrow> bool" where
  "tiles source a b [] = (a = b)"
| "tiles source a b (s # ss) =
     (ss_start s = a \<and> a < ss_end s \<and> ss_end s \<le> b \<and> ss_text s = slice a (ss_end s) source \<and>
      tiles source (ss_end s) b ss)"

lemma slice_append: "i \<le> j \<Longrightarrow> j \<le> k \<Longrightarrow> slice i j xs @ slice j k xs = slice i k xs"
  using take_add[of "j - i" "k - j" "drop i xs"] by (simp add: slice_def)

lemma boundary_ends_bound: "\<forall>e \<in> set (boundary_ends i prev s). e \<le> i + length s"
proof (induction i prev s rule: boundary_ends.induct)
  case (2 i prev c cs)
  show ?case
  proof (cases "boundary_match prev (c # cs)")
    case None
    with 2(1)[OF None] show ?thesis by simp
  next
    case (Some n)
    with 2(2)[OF Some] boundary_match_bounds[OF Some] show ?thesis by fastforce
  qed
qed simp

lemma cut_segments_tiles:
  "cursor \<le> length source \<Longrightarrow> \<forall>e \<in> set stops. e \<le> length source \<Longrightarrow>
     tiles source cursor (length source) (cut_segments source cursor stops)"
  by (induction source cursor stops rule: cut_segments.induct) (auto simp: slice_def)

lemma segment_source_tiles: "tiles source 0 (length source) (segment_source source)"
  unfolding segment_source_def using boundary_ends_bound[of 0 None source] by (intro cut_segments_tiles) auto

lemma tiles_concat: "tiles source a b ss \<Longrightarrow> a \<le> b \<and> concat (map ss_text ss) = slice a b source"
proof (induction ss arbitrary: a)
  case Nil
  then show ?case by (simp add: slice_def)
next
  case (Cons s ss)
  then have "ss_end s \<le> b" "concat (map ss_text ss) = slice (ss_end s) b source" by auto
  with Cons(2) show ?case by (simp add: slice_append)
qed

lemma tiles_bounds: "tiles source a b ss \<Longrightarrow> s \<in> set ss \<Longrightarrow>
    a \<le> ss_start s \<and> ss_start s < ss_end s \<and> ss_end s \<le> b \<and> ss_text s = slice (ss_start s) (ss_end s) source"
  by (induction ss arbitrary: a) (auto dest: tiles_concat, fastforce+)


subsection \<open>Claims quote the source\<close>

lemma slice_slice: "i \<le> j \<Longrightarrow> j \<le> b - a \<Longrightarrow> slice i j (slice a b xs) = slice (a + i) (a + j) xs"
  by (simp add: slice_def drop_take take_take add.commute min_def)

lemma strip_parts:
  assumes "\<not> blank t"
  obtains p q where "t = p @ py_strip t @ q" "length (py_lstrip t) + length p = length t"
    "length (py_rstrip t) + length q = length t" "list_all py_space p" "list_all py_space q"
proof -
  let ?p = "takeWhile py_space t" and ?u = "py_lstrip t"
  let ?q = "rev (takeWhile py_space (rev ?u))"
  have t: "t = ?p @ ?u" by (simp add: py_lstrip_def)
  have u: "?u = py_rstrip ?u @ ?q"
    unfolding py_rstrip_def rev_append[symmetric] takeWhile_dropWhile_id rev_rev_ident ..
  have "py_rstrip ?u \<noteq> []" using assms by (simp add: blank_def py_strip_def)
  then have "\<exists>x \<in> set (rev ?u). \<not> py_space x" by (auto simp: py_rstrip_def dropWhile_eq_Nil_conv)
  then have "dropWhile py_space (rev ?u @ rev ?p) = dropWhile py_space (rev ?u) @ rev ?p"
    by (auto intro: dropWhile_append1)
  then have "py_rstrip (?p @ ?u) = ?p @ py_rstrip ?u" by (simp add: py_rstrip_def)
  with t have r: "py_rstrip t = ?p @ py_rstrip ?u" by simp
  show thesis
  proof
    show "t = ?p @ py_strip t @ ?q" using t u by (simp add: py_strip_def)
    show "length ?u + length ?p = length t" using arg_cong[OF t, of length] by simp
    have "length ?u = length (py_rstrip ?u) + length ?q" using arg_cong[OF u, of length] by simp
    then show "length (py_rstrip t) + length ?q = length t" using arg_cong[OF t, of length] by (simp add: r)
    show "list_all py_space ?p" "list_all py_space ?q" by (auto simp: list_all_iff dest: set_takeWhileD)
  qed
qed

lemma tighten_slice:
  assumes "ss_text s = slice (ss_start s) (ss_end s) source" "ss_end s \<le> length source" "ss_start s < ss_end s"
    and "\<not> blank (ss_text s)" "tighten s = (text, x, y)"
  shows "text = slice x y source" "ss_start s \<le> x" "x < y" "y \<le> ss_end s"
    "\<forall>k. ss_start s \<le> k \<longrightarrow> k < ss_end s \<longrightarrow> \<not> (x \<le> k \<and> k < y) \<longrightarrow> py_space (source ! k)"
proof -
  obtain p q where pq: "ss_text s = p @ py_strip (ss_text s) @ q"
    "length (py_lstrip (ss_text s)) + length p = length (ss_text s)"
    "length (py_rstrip (ss_text s)) + length q = length (ss_text s)" "list_all py_space p" "list_all py_space q"
    using strip_parts[OF assms(4)] .
  have len: "length (ss_text s) = ss_end s - ss_start s" using assms(1,2) by (simp add: slice_def)
  have tx: "text = py_strip (ss_text s)" and x: "x = ss_start s + length p" and y: "y = ss_end s - length q"
    using assms(5) pq(2,3) by (auto simp: tighten_def Let_def)
  have lens: "length p + length text + length q = ss_end s - ss_start s"
    using arg_cong[OF pq(1), of length] len tx by simp
  have ne: "text \<noteq> []" using assms(4) tx not_blank_strip by simp
  then have "0 < length text" by simp
  then show "ss_start s \<le> x" "x < y" "y \<le> ss_end s" using lens x y assms(3) by linarith+
  have y': "y = ss_start s + (length p + length text)" using lens y assms(3) by linarith
  have "slice (length p) (length p + length text) (p @ py_strip (ss_text s) @ q) = py_strip (ss_text s)"
    by (simp add: slice_def tx)
  then have "text = slice (length p) (length p + length text) (ss_text s)" using pq(1) tx by metis
  also have "\<dots> = slice x y source"
    unfolding assms(1) x y' by (rule slice_slice) (use lens in auto)
  finally show "text = slice x y source" .
  show "\<forall>k. ss_start s \<le> k \<longrightarrow> k < ss_end s \<longrightarrow> \<not> (x \<le> k \<and> k < y) \<longrightarrow> py_space (source ! k)"
  proof (intro allI impI)
    fix k assume k: "ss_start s \<le> k" "k < ss_end s" "\<not> (x \<le> k \<and> k < y)"
    define j where "j = k - ss_start s"
    have j: "k = ss_start s + j" "j < ss_end s - ss_start s" using k by (auto simp: j_def)
    have here: "source ! k = ss_text s ! j"
      using assms(1,2) j by (simp add: slice_def)
    consider "j < length p" | "length p + length text \<le> j" using k(3) x y' j(1) by linarith
    then show "py_space (source ! k)"
    proof cases
      case 1
      then have "ss_text s ! j = p ! j" using pq(1) by (metis nth_append)
      with 1 pq(4) here show ?thesis by (simp add: list_all_length)
    next
      case 2
      then have "ss_text s ! j = q ! (j - length p - length text)"
        using pq(1) tx by (metis append.assoc diff_diff_left length_append not_less nth_append)
      moreover have "j - length p - length text < length q" using 2 j(2) lens by linarith
      ultimately show ?thesis using pq(5) here by (simp add: list_all_length)
    qed
  qed
qed

lemma tile_of: "tiles source a b ss \<Longrightarrow> a \<le> k \<Longrightarrow> k < b \<Longrightarrow> \<exists>s \<in> set ss. ss_start s \<le> k \<and> k < ss_end s"
proof (induction ss arbitrary: a)
  case (Cons s ss)
  then show ?case by (cases "k < ss_end s") (auto simp: not_less)
qed simp

lemma not_blank_mem: "c \<in> set t \<Longrightarrow> \<not> py_space c \<Longrightarrow> \<not> blank t"
proof
  assume c: "c \<in> set t" "\<not> py_space c" and "blank t"
  then have "list_all py_space (py_lstrip t)"
    by (simp add: blank_def py_strip_def py_rstrip_def dropWhile_eq_Nil_conv list_all_iff)
  moreover have "c \<in> set (py_lstrip t)"
    using c by (metis UnE py_lstrip_def set_append set_takeWhileD takeWhile_dropWhile_id)
  ultimately show False using c by (simp add: list_all_iff)
qed

lemma alpha_not_space: "py_alpha c \<Longrightarrow> \<not> py_space c"
  by (auto simp: py_alpha_def py_space_def Let_def)

lemma alpha_not_blank:
  assumes "list_ex py_alpha (py_strip t)"
  shows "\<not> blank t"
  using assms by (auto simp: blank_def)


lemma disposition_claim:
  assumes "disposition d s = Inr c"
  shows "exclusion_for (mc_text c) d = None \<and> \<not> blank (ss_text s) \<and> tighten s = (mc_text c, mc_span c) \<and>
    mc_id c = canonical_span ''char'' (fst (mc_span c)) (snd (mc_span c))"
proof -
  obtain tx sp where t: "tighten s = (tx, sp)" by (cases "tighten s")
  then have "tx = py_strip (ss_text s)" by (simp add: tighten_def Let_def)
  with assms t show ?thesis
    by (auto simp: disposition_def exclusion_for_def alpha_not_blank split: option.splits if_splits)
qed

lemma partition_claims: "fst (partition_segments d ss) = concat (map (\<lambda>s. case disposition d s of Inr c \<Rightarrow> [c] | Inl e \<Rightarrow> []) ss)"
  by (induction ss) (auto split: prod.splits sum.splits)

lemma partition_exclusions:
  "snd (partition_segments d ss) = concat (map (\<lambda>s. case disposition d s of Inr c \<Rightarrow> [] | Inl e \<Rightarrow> [e]) ss)"
  by (induction ss) (auto split: prod.splits sum.splits)

lemma claim_quotes:
  assumes "tiles source a b ss" "b \<le> length source" "c \<in> set (fst (partition_segments d ss))"
  shows "mc_text c = slice (fst (mc_span c)) (snd (mc_span c)) source \<and> a \<le> fst (mc_span c) \<and>
    fst (mc_span c) < snd (mc_span c) \<and> snd (mc_span c) \<le> b \<and>
    mc_id c = canonical_span ''char'' (fst (mc_span c)) (snd (mc_span c))"
proof -
  obtain s where s: "s \<in> set ss" "disposition d s = Inr c"
    using assms(3) by (auto simp: partition_claims split: sum.splits)
  from tiles_bounds[OF assms(1) s(1)] disposition_claim[OF s(2)] tighten_slice[of s source "mc_text c"] assms(2)
  show ?thesis by (cases "mc_span c") fastforce
qed

text \<open>The spans of the claims follow each other, so their identifiers differ.\<close>

lemma claims_ordered:
  "tiles source a b ss \<Longrightarrow> b \<le> length source \<Longrightarrow>
     sorted_wrt (\<lambda>c e. snd (mc_span c) \<le> fst (mc_span e)) (fst (partition_segments d ss))"
proof (induction ss arbitrary: a)
  case (Cons s ss)
  have rest: "tiles source (ss_end s) b ss" using Cons(2) by simp
  note IH = Cons.IH[OF rest Cons(3)]
  show ?case
  proof (cases "disposition d s")
    case (Inr c)
    obtain x y where sp: "mc_span c = (x, y)" by (cases "mc_span c")
    have "tiles source a (ss_end s) [s]" using Cons(2) by simp
    moreover have "ss_end s \<le> length source" using Cons(2,3) by simp
    moreover have "c \<in> set (fst (partition_segments d [s]))" by (simp add: Inr)
    ultimately have "snd (mc_span c) \<le> ss_end s" using claim_quotes by blast
    moreover have "ss_end s \<le> fst (mc_span e)" if "e \<in> set (fst (partition_segments d ss))" for e
      using claim_quotes[OF rest Cons(3) that] by simp
    ultimately show ?thesis using IH by (auto simp: Inr split: prod.split) (meson le_trans)
  qed (use IH in \<open>auto split: prod.splits\<close>)
qed simp

lemma canonical_span_inj:
  assumes "canonical_span sc a b = canonical_span sc a' b'"
  shows "a = a' \<and> b = b'"
proof -
  have "nat_str a @ CHR ''-'' # nat_str b = nat_str a' @ CHR ''-'' # nat_str b'"
    using assms by (simp add: canonical_span_def)
  then have "split_on CHR ''-'' (nat_str a @ CHR ''-'' # nat_str b) = split_on CHR ''-'' (nat_str a' @ CHR ''-'' # nat_str b')"
    by simp
  then have "nat_str a = nat_str a' \<and> nat_str b = nat_str b'"
    by (simp add: split_on_append split_on_plain decimal_no_dash canonical_decimal_nat_str)
  then show ?thesis by (metis str_nat_nat_str)
qed

lemma claims_distinct:
  assumes "tiles source a b ss" "b \<le> length source"
  shows "distinct (map mc_id (fst (partition_segments d ss)))"
proof -
  let ?cs = "fst (partition_segments d ss)"
  have "mc_id (?cs ! i) \<noteq> mc_id (?cs ! j)" if "i < j" "j < length ?cs" for i j
  proof
    assume same: "mc_id (?cs ! i) = mc_id (?cs ! j)"
    have "?cs ! i \<in> set ?cs" "?cs ! j \<in> set ?cs" using that by simp_all
    note q = claim_quotes[OF assms this(1)] claim_quotes[OF assms this(2)]
    have "snd (mc_span (?cs ! i)) \<le> fst (mc_span (?cs ! j))"
      using claims_ordered[OF assms] that by (simp add: sorted_wrt_iff_nth_less)
    moreover have "fst (mc_span (?cs ! i)) = fst (mc_span (?cs ! j))" using q same canonical_span_inj by metis
    ultimately show False using q by linarith
  qed
  then show ?thesis by (auto simp: distinct_conv_nth nat_neq_iff) metis+
qed


lemma build_inventory_Inr:
  assumes "is_deliverable kind = Inr d"
  shows "build_inventory H artifact kind source = Inr
    \<lparr>inv_artifact_id = artifact, inv_artifact_kind = kind, inv_source_sha256 = H (utf8_encode (map code source)),
     inv_policy_id = materiality_policy_id, inv_policy_version = materiality_policy_version,
     inv_claims = fst (partition_segments d (segment_source source)),
     inv_exclusions = snd (partition_segments d (segment_source source))\<rparr>"
  using claims_distinct[OF segment_source_tiles order_refl]
  by (cases "partition_segments d (segment_source source)")
    (simp add: build_inventory_def assms inventory_violation_def raise_or_def, metis fst_conv)

lemma split_dispositions:
  "length (fst (partition_segments d ss)) + length (snd (partition_segments d ss)) = length ss"
  by (induction ss) (auto split: prod.splits sum.splits)

text \<open>
  C28: No statement is skipped. The inventory of an artifact of a registered kind always exists; its
  segments put together are the source, character for character; every segment has exactly one
  disposition, in order; the identifiers of the claims differ; each claim is the verbatim slice of the
  source at its span; and in a deliverable, every letter of the source lies in the span of a claim or of
  an excluded question or short label. An artifact of any other kind is refused.
\<close>

theorem inventory_accounts_for_source:
  "case build_inventory H artifact kind source of
     Inl e \<Rightarrow> e = UnclassifiedArtifactKind \<and> kind \<notin> deliverable_artifact_kinds \<union> non_deliverable_artifact_kinds
   | Inr i \<Rightarrow>
       concat (map ss_text (segment_source source)) = source \<and>
       length (inv_claims i) + length (inv_exclusions i) = length (segment_source source) \<and>
       inv_claims i = concat (map (\<lambda>s. case disposition (kind \<in> deliverable_artifact_kinds) s of
           Inr c \<Rightarrow> [c] | Inl e \<Rightarrow> []) (segment_source source)) \<and>
       distinct (map mc_id (inv_claims i)) \<and>
       (\<forall>c \<in> set (inv_claims i). mc_text c = slice (fst (mc_span c)) (snd (mc_span c)) source \<and> mc_text c \<noteq> []) \<and>
       (kind \<in> deliverable_artifact_kinds \<longrightarrow>
         (\<forall>k < length source. py_alpha (source ! k) \<longrightarrow>
           (\<exists>c \<in> set (inv_claims i). fst (mc_span c) \<le> k \<and> k < snd (mc_span c)) \<or>
           (\<exists>e \<in> set (inv_exclusions i). es_reason e \<in> {Interrogative, BelowMinimumLength} \<and>
              fst (es_span e) \<le> k \<and> k < snd (es_span e))))"
proof (cases "is_deliverable kind")
  case (Inl e)
  then show ?thesis by (auto simp: build_inventory_def is_deliverable_def split: if_splits)
next
  case (Inr d)
  let ?ss = "segment_source source"
  let ?p = "partition_segments d ?ss"
  note tile = segment_source_tiles[of source]
  have d: "d = (kind \<in> deliverable_artifact_kinds)" using Inr by (auto simp: is_deliverable_def split: if_splits)
  have whole: "concat (map ss_text ?ss) = source" using tiles_concat[OF tile] by (simp add: slice_def)
  have quotes: "mc_text c = slice (fst (mc_span c)) (snd (mc_span c)) source \<and> mc_text c \<noteq> []"
    if "c \<in> set (fst ?p)" for c
    using claim_quotes[OF tile order_refl that] by (auto simp: slice_def)
  have letters: "(\<exists>c \<in> set (fst ?p). fst (mc_span c) \<le> k \<and> k < snd (mc_span c)) \<or>
      (\<exists>e \<in> set (snd ?p). es_reason e \<in> {Interrogative, BelowMinimumLength} \<and> fst (es_span e) \<le> k \<and> k < snd (es_span e))"
    if del: "d" and k: "k < length source" "py_alpha (source ! k)" for k
  proof -
    obtain s where s: "s \<in> set ?ss" "ss_start s \<le> k" "k < ss_end s"
      using tile_of[OF tile, of k] k(1) by auto
    note b = tiles_bounds[OF tile s(1)]
    obtain tx x y where t: "tighten s = (tx, x, y)" by (cases "tighten s") auto
    have inside: "source ! k \<in> set (ss_text s)"
      using b s(2,3) k(1) by (auto simp: slice_def in_set_conv_nth intro!: exI[of _ "k - ss_start s"])
    then have nb: "\<not> blank (ss_text s)" using k(2) alpha_not_space not_blank_mem by blast
    have len: "ss_end s \<le> length source" using b by simp
    have cut: "ss_text s = slice (ss_start s) (ss_end s) source" "ss_start s < ss_end s" using b by simp_all
    note tight = tighten_slice[OF cut(1) len cut(2) nb t]
    have xy: "x \<le> k" "k < y" using tight(5) s(2,3) alpha_not_space[OF k(2)] by auto
    have "source ! k \<in> set tx"
      using xy tight(1,4) len by (auto simp: slice_def in_set_conv_nth intro!: exI[of _ "k - x"])
    then have alpha: "list_ex py_alpha tx" using k(2) by (auto simp: list_ex_iff)
    have mem: "(\<forall>c. disposition d s = Inr c \<longrightarrow> c \<in> set (fst ?p)) \<and> (\<forall>e. disposition d s = Inl e \<longrightarrow> e \<in> set (snd ?p))"
      using s(1) by (force simp: partition_claims partition_exclusions)
    show ?thesis
    proof (cases "exclusion_for tx d")
      case None
      then have "disposition d s = Inr \<lparr>mc_id = canonical_span ''char'' x y, mc_text = tx, mc_span = (x, y)\<rparr>"
        by (simp add: disposition_def t)
      with mem xy show ?thesis by fastforce
    next
      case (Some r)
      then have "disposition d s = Inl \<lparr>es_span = (x, y), es_text = tx, es_reason = r\<rparr>"
        by (simp add: disposition_def t)
      moreover have "r \<in> {Interrogative, BelowMinimumLength}"
        using Some del alpha by (auto simp: exclusion_for_def split: if_splits)
      ultimately show ?thesis using mem xy by fastforce
    qed
  qed
  show ?thesis
    unfolding build_inventory_Inr[OF Inr] sum.case claim_inventory.select_convs
    using whole split_dispositions[of d ?ss] partition_claims[of d ?ss] quotes letters
      claims_distinct[OF tile order_refl, of d] d by blast
qed


subsection \<open>A claim identifier is a locator\<close>

lemma code_less: "code c < 256"
  by (simp add: code_def)

lemma code_byte_char: "n < 256 \<Longrightarrow> code (byte_char n) = n"
  by (simp add: code_def byte_char_def)

lemma decode_encode_point: "n < 256 \<Longrightarrow> decode_point (encode_point n @ rest) = Some (n, rest)"
proof -
  assume n: "n < 256"
  have "n div 64 < 4" "n mod 64 < 64" using n by auto
  moreover have "n div 64 * 64 + n mod 64 = n" by simp
  moreover have "2 \<le> n div 64" if "128 \<le> n" using that div_le_mono[of 128 n 64] by simp
  ultimately show ?thesis
    using n by (auto simp: encode_point_def decode_point_def cont_def code_byte_char not_less)
qed

lemma utf8_decode_encode: "utf8_decode (utf8_encode (map code s)) = Some (map code s)"
proof (induction s)
  case (Cons c s)
  have "utf8_encode (map code (c # s)) = encode_point (code c) @ utf8_encode (map code s)"
    by (simp add: utf8_encode_def)
  moreover have "encode_point (code c) \<noteq> []" by (simp add: encode_point_def)
  ultimately obtain b bs where "utf8_encode (map code (c # s)) = b # bs"
    "decode_point (b # bs) = Some (code c, utf8_encode (map code s))"
    using decode_encode_point[OF code_less, of c] by (metis append_is_Nil_conv neq_Nil_conv)
  with Cons show ?case by simp
qed (simp add: utf8_encode_def)

lemma nat_str_length: "n < 10 ^ k \<Longrightarrow> 0 < k \<Longrightarrow> length (nat_str n) \<le> k"
proof (induction n arbitrary: k rule: nat_str.induct)
  case (1 n)
  show ?case
  proof (cases "n < 10")
    case False
    obtain j where j: "k = Suc j" using 1(3) by (cases k) auto
    have "j \<noteq> 0" using False 1(2) j by (intro notI) simp
    with j have k: "k = Suc j" "0 < j" by simp_all
    have "n div 10 < 10 ^ j" using 1(2) k(1) by (simp add: div_less_iff_less_mult mult.commute)
    from 1(1)[OF False this k(2)] False show ?thesis by (simp add: nat_str.simps[of n] k(1))
  qed (use 1(3) in \<open>simp add: nat_str.simps[of n]\<close>)
qed

text \<open>
  C29: The identifier of a claim quotes the claim. Whatever artifact it comes from (of fewer than
  \<open>10 ^ 100\<close> characters), the identifier of a claim is an evidence locator, and resolving it against the
  artifact's bytes gives exactly the claim's text: the denominator can be recomputed from identifiers.
\<close>

theorem claim_id_quotes_claim:
  assumes "build_inventory H artifact kind source = Inr i" and "c \<in> set (inv_claims i)"
    and "length source < 10 ^ 100"
  shows "resolve (mc_id c) (utf8_encode (map code source)) = Inr (utf8_encode (map code (mc_text c)))"
proof -
  obtain d where d: "is_deliverable kind = Inr d" using assms(1) by (auto simp: build_inventory_def)
  have "c \<in> set (fst (partition_segments d (segment_source source)))"
    using assms(1,2) by (auto simp: build_inventory_Inr[OF d])
  note q = claim_quotes[OF segment_source_tiles order_refl this]
  obtain x y where sp: "mc_span c = (x, y)" by (cases "mc_span c")
  let ?l = "\<lparr>lo_canonical = \<lparr>sp_scheme = ''char'', sp_start = x, sp_end = y\<rparr>, lo_annotations = []\<rparr>"
  have xy: "x < y" "y \<le> length source" using q sp by auto
  then have "x < 10 ^ 100" "y < 10 ^ 100" using assms(3) by linarith+
  then have "length (nat_str x) \<le> 100" "length (nat_str y) \<le> 100" by (simp_all only: nat_str_length zero_less_numeral)
  then have ok: "locator_ok ?l"
    using xy(1) by (simp add: locator_ok_def span_ok_def canonical_schemes_def one_based_schemes_def print_locator_def
        print_span_def canonical_span_def max_locator_length_def)
  have "mc_id c = print_locator ?l" using q sp by (simp add: print_locator_def print_span_def)
  then have "resolve (mc_id c) (utf8_encode (map code source)) =
      resolve_chars \<lparr>sp_scheme = ''char'', sp_start = x, sp_end = y\<rparr> (utf8_encode (map code source))"
    using ok by (simp add: resolve_def parse_locator_Inr[THEN iffD2, OF conjI])
  also have "\<dots> = Inr (utf8_encode (slice x y (map code source)))"
    using xy(2) by (simp add: resolve_chars_def utf8_decode_encode refuse_beyond_def)
  also have "slice x y (map code source) = map code (mc_text c)" using q sp by (simp add: slice_def take_map drop_map)
  finally show ?thesis .
qed

definition example_report :: string where
  "example_report = ''Results'' @ [LF, LF] @ ''The cache halved the latency. Why is that? See below. '' @
     ''All runs used one machine.''"

definition example_inventory :: claim_inventory where
  "example_inventory = (case build_inventory (\<lambda>b. []) ''a'' ''report'' example_report of Inr i \<Rightarrow> i)"

lemma example_inventory_built: "build_inventory (\<lambda>b. []) ''a'' ''report'' example_report = Inr example_inventory"
proof -
  have "is_deliverable ''report'' = Inr True" by code_simp
  from build_inventory_Inr[OF this] show ?thesis by (simp add: example_inventory_def)
qed

lemma example_inventory_claims: "map mc_id (inv_claims example_inventory) = [''char:9-38'', ''char:63-89'']"
  by code_simp

theorem inventory_accounts_for_source_witness:
  "concat (map ss_text (segment_source example_report)) = example_report \<and>
   distinct (map mc_id (inv_claims example_inventory)) \<and> length (inv_claims example_inventory) = 2"
proof -
  have "length (inv_claims example_inventory) = 2"
    using arg_cong[OF example_inventory_claims, of length] by simp
  with inventory_accounts_for_source[where H = "\<lambda>b. []" and artifact = "''a''" and kind = "''report''" and source = example_report]
  show ?thesis unfolding example_inventory_built sum.case by (elim conjE) (intro conjI)
qed

theorem claim_id_quotes_claim_witness:
  "resolve ''char:9-38'' (utf8_encode (map code example_report)) =
     Inr (utf8_encode (map code ''The cache halved the latency.''))"
proof -
  obtain c cs where c: "inv_claims example_inventory = c # cs" "mc_id c = ''char:9-38''"
    using example_inventory_claims by (cases "inv_claims example_inventory") auto
  have "mc_text (hd (inv_claims example_inventory)) = ''The cache halved the latency.''" by code_simp
  moreover have "length example_report < 10 ^ 100"
  proof -
    have "length example_report = 89" by code_simp
    then show ?thesis by simp
  qed
  ultimately show ?thesis
    using claim_id_quotes_claim[OF example_inventory_built, of c] c by simp
qed

text \<open>A segment of white space alone is excluded with its offsets exchanged.\<close>

lemma blank_segment_span: "blank (ss_text s) \<Longrightarrow> length (ss_text s) = ss_end s - ss_start s \<Longrightarrow> ss_start s \<le> ss_end s \<Longrightarrow>
    snd (tighten s) = (ss_end s, ss_start s)"
proof -
  assume b: "blank (ss_text s)" "length (ss_text s) = ss_end s - ss_start s" "ss_start s \<le> ss_end s"
  then have "list_all py_space (ss_text s)" using not_blank_mem by (auto simp: list_all_iff)
  then have "py_lstrip (ss_text s) = [] \<and> py_rstrip (ss_text s) = []"
    by (simp add: py_lstrip_def py_rstrip_def dropWhile_eq_Nil_conv list_all_iff)
  with b show ?thesis by (simp add: tighten_def Let_def)
qed

end
