(* ===== verification/Claim_Resolution.thy ===== *)
theory Claim_Resolution
  imports Materiality Provenance Lifecycle
begin

text \<open>
  \<^verbatim>\<open>src/core/claims/resolution.py\<close> and \<^verbatim>\<open>recording.py\<close> with \<^verbatim>\<open>src/repositories/claim_support_repository.py\<close>
  and its table: one verdict for every material claim, and their append-only record. The factory of
  record identifiers is a function of how often it was called.
\<close>

subsection \<open>Verdicts and resolutions\<close>

record claim_verdict =
  cv_claim_id :: string
  cv_status :: support_status
  cv_explanation :: string
  cv_evaluator_id :: string
  cv_evaluator_version :: string
  cv_producer_kind :: producer_kind
  cv_evaluated_at :: py_datetime
  cv_prompt_binding :: "prompt_binding option"
  cv_evidence_ids :: "string list"
  cv_absent_reason :: "absent_reason option"

record resolution =
  rs_inventory :: claim_inventory
  rs_run_id :: string
  rs_supports :: "claim_support list"

datatype resolution_error =
  UnknownClaim string | DuplicateVerdict string | RecordedTwice "string set" | LeftWithout "string set"
| Unlisted "string set" | OtherRun string | OtherArtifact string | SupportInvalid contract_error

definition resolver_evaluator_id :: string where
  "resolver_evaluator_id = ''claim-support-resolver''"

definition resolver_evaluator_version :: string where
  "resolver_evaluator_version = ''1.0''"

definition unevaluated_explanation :: string where
  "unevaluated_explanation = ''No evaluator returned a verdict for this claim, so it is recorded as '' @
     ''unsupported with absent_evidence_reason not_attempted rather than left '' @ ''out of the record.''"

text \<open>The constructor of a claim support, with its aware time.\<close>

definition new_support :: "claim_support \<Rightarrow> py_datetime \<Rightarrow> resolution_error + claim_support" where
  "new_support c evaluated_at =
     (case claim_support_violation c of
        Some e \<Rightarrow> Inl (SupportInvalid e)
      | None \<Rightarrow>
         (case evaluated_at of
            Naive n \<Rightarrow> Inl (SupportInvalid (FieldError ''evaluated_at''))
          | Aware t \<Rightarrow> Inr (c\<lparr>cs_evaluated_at := t\<rparr>)))"

definition unevaluated :: "string \<Rightarrow> claim_inventory \<Rightarrow> string \<Rightarrow> py_datetime \<Rightarrow> material_claim \<Rightarrow>
    resolution_error + claim_support" where
  "unevaluated record_id iv run resolved_at claim = new_support
     \<lparr>cs_id = record_id, cs_run_id = run, cs_artifact_id = inv_artifact_id iv, cs_claim_id = mc_id claim,
      cs_claim_text = mc_text claim, cs_status = Unsupported, cs_evidence_ids = [],
      cs_absent_reason = Some NotAttempted, cs_evaluator_id = resolver_evaluator_id,
      cs_evaluator_version = resolver_evaluator_version, cs_producer_kind = SystemProducer,
      cs_prompt_binding = None, cs_explanation = unevaluated_explanation, cs_evaluated_at = 0\<rparr> resolved_at"

definition to_support :: "string \<Rightarrow> claim_inventory \<Rightarrow> string \<Rightarrow> py_datetime \<Rightarrow> material_claim \<Rightarrow> claim_verdict option \<Rightarrow>
    resolution_error + claim_support" where
  "to_support record_id iv run resolved_at claim verdict =
     (case verdict of
        None \<Rightarrow> unevaluated record_id iv run resolved_at claim
      | Some v \<Rightarrow> new_support
          \<lparr>cs_id = record_id, cs_run_id = run, cs_artifact_id = inv_artifact_id iv, cs_claim_id = mc_id claim,
           cs_claim_text = mc_text claim, cs_status = cv_status v, cs_evidence_ids = cv_evidence_ids v,
           cs_absent_reason = cv_absent_reason v, cs_evaluator_id = cv_evaluator_id v,
           cs_evaluator_version = cv_evaluator_version v, cs_producer_kind = cv_producer_kind v,
           cs_prompt_binding = cv_prompt_binding v, cs_explanation = cv_explanation v, cs_evaluated_at = 0\<rparr>
          (cv_evaluated_at v))"

fun first_error :: "('a \<Rightarrow> 'e option) \<Rightarrow> 'a list \<Rightarrow> 'e option" where
  "first_error f [] = None"
| "first_error f (x # xs) = (case f x of Some e \<Rightarrow> Some e | None \<Rightarrow> first_error f xs)"

definition resolution_violation :: "resolution \<Rightarrow> resolution_error option" where
  "resolution_violation r =
     (let expected = set (map mc_id (inv_claims (rs_inventory r))); recorded = map cs_claim_id (rs_supports r);
          duplicates = {c \<in> set recorded. count_list recorded c > 1}
      in and_then (checks
        [(duplicates \<noteq> {}, RecordedTwice duplicates),
         (expected - set recorded \<noteq> {}, LeftWithout (expected - set recorded)),
         (set recorded - expected \<noteq> {}, Unlisted (set recorded - expected))])
        (first_error (\<lambda>s. checks
          [(cs_run_id s \<noteq> rs_run_id r, OtherRun (cs_id s)),
           (cs_artifact_id s \<noteq> inv_artifact_id (rs_inventory r), OtherArtifact (cs_id s))]) (rs_supports r)))"

text \<open>The loop over the verdicts.\<close>

fun index_verdicts :: "string set \<Rightarrow> claim_verdict list \<Rightarrow> (string \<rightharpoonup> claim_verdict) \<Rightarrow>
    resolution_error + (string \<rightharpoonup> claim_verdict)" where
  "index_verdicts listed [] by_claim = Inr by_claim"
| "index_verdicts listed (v # vs) by_claim =
     (if cv_claim_id v \<notin> listed then Inl (UnknownClaim (cv_claim_id v))
      else if by_claim (cv_claim_id v) \<noteq> None then Inl (DuplicateVerdict (cv_claim_id v))
      else index_verdicts listed vs (by_claim(cv_claim_id v \<mapsto> v)))"

definition resolve_claims :: "(nat \<Rightarrow> string) \<Rightarrow> claim_inventory \<Rightarrow> string \<Rightarrow> claim_verdict list \<Rightarrow> py_datetime \<Rightarrow>
    resolution_error + resolution" where
  "resolve_claims ids iv run verdicts resolved_at =
     bind_result (index_verdicts (set (map mc_id (inv_claims iv))) verdicts Map.empty) (\<lambda>by_claim.
     bind_result (map_result (\<lambda>(k, claim). to_support (ids k) iv run resolved_at claim (by_claim (mc_id claim)))
         (enumerate 0 (inv_claims iv))) (\<lambda>supports.
       let r = \<lparr>rs_inventory = iv, rs_run_id = run, rs_supports = supports\<rparr>
       in raise_or (resolution_violation r) r))"

text \<open>\<open>_by_claim_id[claim_id]\<close>: the last of several, \<open>None\<close> for \<open>KeyError\<close>.\<close>

definition support_for :: "resolution \<Rightarrow> string \<Rightarrow> claim_support option" where
  "support_for r claim = map_of (rev (map (\<lambda>s. (cs_claim_id s, s)) (rs_supports r))) claim"

definition material_claim_count :: "resolution \<Rightarrow> nat" where
  "material_claim_count r = length (rs_supports r)"

definition unsupported_count :: "resolution \<Rightarrow> nat" where
  "unsupported_count r = length (filter (\<lambda>s. cs_status s = Unsupported) (rs_supports r))"

definition unsupported_ratio :: "resolution \<Rightarrow> rat option" where
  "unsupported_ratio r =
     (if rs_supports r = [] then None
      else Some (rat_of_nat (unsupported_count r) / rat_of_nat (material_claim_count r)))"

subsection \<open>Every claim has exactly one verdict\<close>

abbreviation verdict_map :: "claim_verdict list \<Rightarrow> string \<rightharpoonup> claim_verdict" where
  "verdict_map vs \<equiv> map_of (map (\<lambda>v. (cv_claim_id v, v)) vs)"

lemma verdict_map_Some: "verdict_map vs i = Some v \<Longrightarrow> v \<in> set vs \<and> cv_claim_id v = i"
  by (auto dest!: map_of_SomeD)

lemma verdict_map_None: "verdict_map vs i = None \<longleftrightarrow> i \<notin> set (map cv_claim_id vs)"
  by (auto simp: map_of_eq_None_iff image_image)

lemma index_verdicts_Inr:
  "index_verdicts listed vs m = Inr m' \<longleftrightarrow>
     set (map cv_claim_id vs) \<subseteq> listed \<and> distinct (map cv_claim_id vs) \<and> set (map cv_claim_id vs) \<inter> dom m = {} \<and>
     m' = m ++ verdict_map vs"
proof (induction vs arbitrary: m)
  case (Cons v vs)
  let ?k = "cv_claim_id v"
  have swap: "m(?k \<mapsto> v) ++ verdict_map vs = m ++ (verdict_map vs)(?k \<mapsto> v)" if "?k \<notin> set (map cv_claim_id vs)"
    using that verdict_map_None[of vs ?k] by (intro ext) (simp add: map_add_def split: option.split)
  show ?case
  proof (cases "?k \<in> listed \<and> m ?k = None")
    case True
    then have step: "index_verdicts listed (v # vs) m = index_verdicts listed vs (m(?k \<mapsto> v))" by simp
    have dom: "dom (m(?k \<mapsto> v)) = insert ?k (dom m)" "?k \<notin> dom m" using True by auto
    show ?thesis
    proof (cases "?k \<in> set (map cv_claim_id vs)")
      case True
      then show ?thesis unfolding step Cons.IH dom(1) by auto
    next
      case False
      then show ?thesis unfolding step Cons.IH dom(1) swap[OF False] using True dom(2) by (auto simp del: fun_upd_apply)
    qed
  qed auto
qed auto

lemma new_support_Inr: "new_support c t = Inr s \<longleftrightarrow>
    claim_support_violation c = None \<and> (\<exists>a. t = Aware a \<and> s = c\<lparr>cs_evaluated_at := a\<rparr>)"
  by (auto simp: new_support_def split: option.splits py_datetime.splits)

lemma new_support_valid: "new_support c t = Inr s \<Longrightarrow> claim_support_violation s = None"
  by (auto simp: new_support_Inr claim_support_violation_def evidence_links_violation_def)

lemma to_support_valid: "to_support i iv run t claim v = Inr s \<Longrightarrow> claim_support_violation s = None"
  by (auto simp: to_support_def unevaluated_def dest: new_support_valid split: option.splits)

lemma to_support_Inr:
  assumes "to_support i iv run t claim v = Inr s"
  shows "cs_claim_id s = mc_id claim \<and> cs_claim_text s = mc_text claim \<and> cs_run_id s = run \<and>
    cs_artifact_id s = inv_artifact_id iv \<and>
    (case v of None \<Rightarrow> cs_status s = Unsupported \<and> cs_absent_reason s = Some NotAttempted \<and> cs_evidence_ids s = [] \<and>
        cs_evaluator_id s = resolver_evaluator_id
     | Some w \<Rightarrow> cs_status s = cv_status w \<and> cs_evidence_ids s = cv_evidence_ids w \<and>
        cs_evaluator_id s = cv_evaluator_id w)"
  using assms by (auto simp: to_support_def unevaluated_def new_support_Inr split: option.splits)

lemma map_result_enumerate:
  "map_result (\<lambda>(k, x). f k x) (enumerate n xs) = Inr ys \<longleftrightarrow>
     length ys = length xs \<and> (\<forall>k < length xs. f (n + k) (xs ! k) = Inr (ys ! k))"
  by (auto simp: map_result_Inr list_all2_conv_all_nth nth_enumerate_eq)

lemma first_error_None [simp]: "first_error f xs = None \<longleftrightarrow> (\<forall>x \<in> set xs. f x = None)"
  by (induction xs) (auto split: option.split)

lemma distinct_count_le: "distinct xs \<longleftrightarrow> (\<forall>x. count_list xs x \<le> 1)"
proof (induction xs)
  case (Cons x xs)
  have step: "count_list (x # xs) y = (if x = y then Suc (count_list xs y) else count_list xs y)" for y by simp
  have "(\<forall>y. count_list (x # xs) y \<le> 1) \<longleftrightarrow> count_list xs x = 0 \<and> (\<forall>y. count_list xs y \<le> 1)"
  proof
    assume all: "\<forall>y. count_list (x # xs) y \<le> 1"
    then have "count_list xs x = 0" using step[of x] by (metis One_nat_def Suc_le_mono le_zero_eq)
    moreover have "count_list xs y \<le> 1" for y using all step[of y] by (metis Suc_leD)
    ultimately show "count_list xs x = 0 \<and> (\<forall>y. count_list xs y \<le> 1)" by blast
  qed (simp add: step)
  with Cons show ?case by (simp add: count_list_0_iff)
qed simp

lemma distinct_count: "distinct xs \<longleftrightarrow> {x \<in> set xs. 1 < count_list xs x} = {}"
proof -
  have "1 < count_list xs x \<Longrightarrow> x \<in> set xs" for x by (rule ccontr) (simp add: count_list_0_iff[symmetric])
  then show ?thesis unfolding distinct_count_le by (auto simp: not_less) (metis not_less)
qed

lemma resolution_violation_None:
  "resolution_violation r = None \<longleftrightarrow>
     distinct (map cs_claim_id (rs_supports r)) \<and>
     set (map cs_claim_id (rs_supports r)) = set (map mc_id (inv_claims (rs_inventory r))) \<and>
     (\<forall>s \<in> set (rs_supports r). cs_run_id s = rs_run_id r \<and> cs_artifact_id s = inv_artifact_id (rs_inventory r))"
proof -
  have three: "and_then (checks [(A \<noteq> {}, a), (B \<noteq> {}, b), (C \<noteq> {}, c)]) w = None \<longleftrightarrow>
      A = {} \<and> B = {} \<and> C = {} \<and> w = None" for A B C :: "string set" and a b c and w :: "resolution_error option"
    by simp
  have two: "checks [(x \<noteq> y, a), (z \<noteq> u, b)] = None \<longleftrightarrow> x = y \<and> z = u" for x y z u :: string and a b :: resolution_error
    by simp
  show ?thesis
    unfolding resolution_violation_def Let_def three first_error_None two
    unfolding distinct_count[of "map cs_claim_id (rs_supports r)"] Diff_eq_empty_iff
      set_eq_subset[of "set (map cs_claim_id (rs_supports r))" "set (map mc_id (inv_claims (rs_inventory r)))"]
    by argo
qed

lemma resolve_claims_Inr:
  assumes "resolve_claims ids iv run verdicts t = Inr r"
  shows "set (map cv_claim_id verdicts) \<subseteq> set (map mc_id (inv_claims iv))" "distinct (map cv_claim_id verdicts)"
    "rs_inventory r = iv" "rs_run_id r = run" "length (rs_supports r) = length (inv_claims iv)"
    "\<And>k. k < length (inv_claims iv) \<Longrightarrow> to_support (ids k) iv run t (inv_claims iv ! k)
       (verdict_map verdicts (mc_id (inv_claims iv ! k))) = Inr (rs_supports r ! k)"
  using assms by (auto simp: resolve_claims_def index_verdicts_Inr map_result_enumerate Let_def)

text \<open>
  No claim is left without a verdict. A resolution has exactly one record per material claim, in
  the order of the inventory and with the claim's text; a claim an evaluator judged carries that
  judgment, every other is recorded as unsupported, not attempted, by the resolver itself.
\<close>

theorem resolution_total:
  assumes "resolve_claims ids iv run verdicts t = Inr r"
  shows "map cs_claim_id (rs_supports r) = map mc_id (inv_claims iv) \<and>
    map cs_claim_text (rs_supports r) = map mc_text (inv_claims iv) \<and>
    distinct (map cs_claim_id (rs_supports r)) \<and>
    (\<forall>s \<in> set (rs_supports r).
       (\<exists>v \<in> set verdicts. cv_claim_id v = cs_claim_id s \<and> cs_status s = cv_status v \<and> cs_evidence_ids s = cv_evidence_ids v) \<or>
       (cs_claim_id s \<notin> set (map cv_claim_id verdicts) \<and> cs_status s = Unsupported \<and>
          cs_absent_reason s = Some NotAttempted \<and> cs_evaluator_id s = resolver_evaluator_id))"
proof -
  note res = resolve_claims_Inr[OF assms]
  note each = to_support_Inr[OF res(6)]
  have ids: "map cs_claim_id (rs_supports r) = map mc_id (inv_claims iv)"
    "map cs_claim_text (rs_supports r) = map mc_text (inv_claims iv)"
    using res(5) each by (auto intro!: nth_equalityI)
  have "resolution_violation r = None" using assms by (auto simp: resolve_claims_def Let_def)
  then have dist: "distinct (map cs_claim_id (rs_supports r))" by (simp add: resolution_violation_None)
  have "(\<exists>v \<in> set verdicts. cv_claim_id v = cs_claim_id s \<and> cs_status s = cv_status v \<and> cs_evidence_ids s = cv_evidence_ids v) \<or>
       (cs_claim_id s \<notin> set (map cv_claim_id verdicts) \<and> cs_status s = Unsupported \<and>
          cs_absent_reason s = Some NotAttempted \<and> cs_evaluator_id s = resolver_evaluator_id)"
    if "s \<in> set (rs_supports r)" for s
  proof -
    from that res(5) obtain k where k: "k < length (inv_claims iv)" "s = rs_supports r ! k"
      by (metis in_set_conv_nth)
    note e = each[OF k(1), folded k(2)]
    show ?thesis
    proof (cases "verdict_map verdicts (mc_id (inv_claims iv ! k))")
      case None
      with verdict_map_None[of verdicts "mc_id (inv_claims iv ! k)"] e[unfolded None] show ?thesis
        by (simp only: option.case) simp
    next
      case (Some v)
      with verdict_map_Some[OF Some] e[unfolded Some] show ?thesis by auto
    qed
  qed
  with ids dist show ?thesis by blast
qed

text \<open>
  C30: Silence never flatters the gate. Whatever verdicts are withheld from a resolution, the
  denominator stays the number of material claims and the count of unsupported claims does not go down;
  the ratio is undefined exactly for an artifact without claims, and lies between 0 and 1 otherwise.
\<close>

theorem withheld_verdicts_never_flatter:
  assumes all: "resolve_claims ids iv run verdicts t = Inr r"
    and some: "resolve_claims ids' iv run kept t' = Inr r'" and kept: "set kept \<subseteq> set verdicts"
  shows "material_claim_count r' = length (inv_claims iv) \<and> material_claim_count r = length (inv_claims iv) \<and>
    unsupported_count r \<le> unsupported_count r' \<and> (unsupported_ratio r' = None) = (inv_claims iv = []) \<and>
    (\<forall>x. unsupported_ratio r' = Some x \<longrightarrow> 0 \<le> x \<and> x \<le> 1)"
proof -
  note res = resolve_claims_Inr[OF all] and res' = resolve_claims_Inr[OF some]
  have up: "cs_status (rs_supports r' ! k) = Unsupported"
    if k: "k < length (inv_claims iv)" and un: "cs_status (rs_supports r ! k) = Unsupported" for k
  proof -
    let ?i = "mc_id (inv_claims iv ! k)"
    let ?m = "verdict_map verdicts" and ?m' = "verdict_map kept"
    have uniq: "?m ?i = Some v" if "?m' ?i = Some v" for v
    proof -
      have "v \<in> set kept" "cv_claim_id v = ?i" using verdict_map_Some[OF that] by simp_all
      then have "(?i, v) \<in> set (map (\<lambda>v. (cv_claim_id v, v)) verdicts)" using kept by force
      moreover have "distinct (map fst (map (\<lambda>v. (cv_claim_id v, v)) verdicts))" using res(2) by (simp add: comp_def)
      ultimately show ?thesis by (metis map_of_is_SomeI)
    qed
    show ?thesis
    proof (cases "?m' ?i")
      case None
      with to_support_Inr[OF res'(6)[OF k]] show ?thesis by simp
    next
      case (Some v)
      with uniq[OF Some] to_support_Inr[OF res'(6)[OF k]] to_support_Inr[OF res(6)[OF k]] un show ?thesis by simp
    qed
  qed
  let ?n = "length (inv_claims iv)"
  have count: "unsupported_count q = card {k. k < ?n \<and> cs_status (rs_supports q ! k) = Unsupported}"
    if "length (rs_supports q) = ?n" for q
    using that by (simp add: unsupported_count_def length_filter_conv_card)
  have "unsupported_count r \<le> unsupported_count r'"
    unfolding count[OF res(5)] count[OF res'(5)] by (rule card_mono) (use up in auto)
  moreover have "unsupported_count r' \<le> material_claim_count r'"
    by (simp add: unsupported_count_def material_claim_count_def)
  moreover have "(rs_supports r' = []) = (inv_claims iv = [])" using res'(5) by auto
  ultimately show ?thesis
    using res(5) res'(5) by (auto simp: material_claim_count_def unsupported_ratio_def divide_le_eq_1)
qed


subsection \<open>Recording\<close>

text \<open>
  The tables the recorder sees: runs with their organization, evidence with run and organization, the
  artifacts, and the appended rows. A row keeps the count of its evidence.
\<close>

record claim_row =
  cl_support :: claim_support
  cl_row_org :: string
  cl_evidence_count :: int

record claim_tables =
  ct_runs :: "string \<rightharpoonup> string option"
  ct_evidence :: "string \<rightharpoonup> string \<times> string"
  ct_artifacts :: "string set"
  ct_rows :: "claim_row list"

datatype record_error =
  NoOrganization | OrganizationInvalid | RunMissing string | OtherTenant string | EvidenceMissing "string set"
| ConstraintViolated

definition normalize_organization_id :: "(string \<Rightarrow> string option) \<Rightarrow> string option \<Rightarrow> record_error + string" where
  "normalize_organization_id U org =
     (case org of
        None \<Rightarrow> Inl NoOrganization
      | Some t \<Rightarrow> (case U t of None \<Rightarrow> Inl OrganizationInvalid | Some u \<Rightarrow> Inr u))"

definition get_run_organization_id :: "claim_tables \<Rightarrow> string \<Rightarrow> string option" where
  "get_run_organization_id ts run = (case ct_runs ts run of None \<Rightarrow> None | Some org \<Rightarrow> org)"

definition missing_evidence_ids :: "claim_tables \<Rightarrow> string list \<Rightarrow> string \<Rightarrow> string \<Rightarrow> string set" where
  "missing_evidence_ids ts ids u run = {e \<in> set ids. ct_evidence ts e \<noteq> Some (run, u)}"

text \<open>The check constraints of the table; those on enumerated columns hold by the types.\<close>

definition claim_row_rejected :: "claim_row \<Rightarrow> bool" where
  "claim_row_rejected r \<longleftrightarrow>
     (let c = cl_support r; n = cl_evidence_count r in
      n < 0 \<or> (cs_status c \<in> {Supported, PartiallySupported, Disputed} \<and> \<not> 0 < n) \<or>
      (cs_status c = Unsupported \<and> \<not> 0 < n \<and> cs_absent_reason c = None) \<or>
      (cs_absent_reason c \<noteq> None \<and> n \<noteq> 0) \<or>
      (cs_absent_reason c \<noteq> None \<and> cs_status c \<noteq> Unsupported) \<or>
      \<not> ((cs_producer_kind c = ModelTurn \<and> cs_prompt_binding c \<noteq> None) \<or>
         (cs_producer_kind c = SystemProducer \<and> cs_prompt_binding c = None)))"

definition insert_claim_row :: "claim_row \<Rightarrow> claim_tables \<Rightarrow> record_error + claim_tables" where
  "insert_claim_row r ts =
     (if claim_row_rejected r \<or> list_ex (\<lambda>q. cs_id (cl_support q) = cs_id (cl_support r)) (ct_rows ts) \<or>
         cs_artifact_id (cl_support r) \<notin> ct_artifacts ts
      then Inl ConstraintViolated
      else Inr (ts\<lparr>ct_rows := ct_rows ts @ [r]\<rparr>))"

definition record_claim_support :: "(string \<Rightarrow> string option) \<Rightarrow> string option \<Rightarrow> claim_support \<Rightarrow> claim_tables \<Rightarrow>
    record_error + claim_tables" where
  "record_claim_support U org c ts =
     bind_result (normalize_organization_id U org) (\<lambda>u.
       case get_run_organization_id ts (cs_run_id c) of
         None \<Rightarrow> Inl (RunMissing (cs_run_id c))
       | Some run_org \<Rightarrow>
           if run_org \<noteq> u then Inl (OtherTenant (cs_run_id c))
           else
            (let missing = missing_evidence_ids ts (cs_evidence_ids c) u (cs_run_id c) in
             if cs_evidence_ids c \<noteq> [] \<and> missing \<noteq> {} then Inl (EvidenceMissing missing)
             else insert_claim_row
               \<lparr>cl_support = c, cl_row_org = u, cl_evidence_count = int (length (cs_evidence_ids c))\<rparr> ts))"

text \<open>\<open>record\<close>, in the transaction of the caller, who rolls back when it raises.\<close>

fun record_supports :: "(string \<Rightarrow> string option) \<Rightarrow> string option \<Rightarrow> claim_support list \<Rightarrow> claim_tables \<Rightarrow>
    record_error + claim_tables" where
  "record_supports U org [] ts = Inr ts"
| "record_supports U org (c # cs) ts = bind_result (record_claim_support U org c ts) (record_supports U org cs)"

definition record_resolution :: "(string \<Rightarrow> string option) \<Rightarrow> string option \<Rightarrow> resolution \<Rightarrow> claim_tables \<Rightarrow>
    record_error + claim_tables" where
  "record_resolution U org r ts = record_supports U org (rs_supports r) ts"

definition list_claim_supports_for_claim :: "claim_tables \<Rightarrow> string \<Rightarrow> string option \<Rightarrow> claim_row list" where
  "list_claim_supports_for_claim ts claim org =
     sort_key (\<lambda>r. cs_evaluated_at (cl_support r))
       (filter (\<lambda>r. cs_claim_id (cl_support r) = claim \<and> (org = None \<or> org = Some (cl_row_org r))) (ct_rows ts))"

text \<open>A row of a validated record never breaks a check of the table.\<close>

lemma valid_row_accepted:
  "claim_support_violation c = None \<Longrightarrow>
     \<not> claim_row_rejected \<lparr>cl_support = c, cl_row_org = u, cl_evidence_count = int (length (cs_evidence_ids c))\<rparr>"
  by (cases "cs_status c"; cases "cs_producer_kind c")
    (auto simp: claim_row_rejected_def Let_def claim_support_violation_def evidence_links_None)

definition rows_of :: "string \<Rightarrow> claim_support list \<Rightarrow> claim_row list" where
  "rows_of u cs = map (\<lambda>c. \<lparr>cl_support = c, cl_row_org = u, cl_evidence_count = int (length (cs_evidence_ids c))\<rparr>) cs"

lemma record_claim_support_Inr:
  assumes "normalize_organization_id U org = Inr u" "claim_support_violation c = None"
  shows "record_claim_support U org c ts = Inr ts' \<longleftrightarrow>
    ct_runs ts (cs_run_id c) = Some (Some u) \<and> (\<forall>e \<in> set (cs_evidence_ids c). ct_evidence ts e = Some (cs_run_id c, u)) \<and>
    cs_artifact_id c \<in> ct_artifacts ts \<and> (\<forall>q \<in> set (ct_rows ts). cs_id (cl_support q) \<noteq> cs_id c) \<and>
    ts' = ts\<lparr>ct_rows := ct_rows ts @ rows_of u [c]\<rparr>"
  using valid_row_accepted[OF assms(2), of u]
  by (auto simp: record_claim_support_def assms(1) get_run_organization_id_def missing_evidence_ids_def
      insert_claim_row_def rows_of_def list_ex_iff Let_def split: option.splits)

lemma record_supports_Inr:
  assumes "normalize_organization_id U org = Inr u" "\<forall>c \<in> set cs. claim_support_violation c = None"
  shows "record_supports U org cs ts = Inr ts' \<longleftrightarrow>
    (\<forall>c \<in> set cs. ct_runs ts (cs_run_id c) = Some (Some u) \<and> cs_artifact_id c \<in> ct_artifacts ts \<and>
       (\<forall>e \<in> set (cs_evidence_ids c). ct_evidence ts e = Some (cs_run_id c, u))) \<and>
    distinct (map cs_id cs) \<and> (\<forall>c \<in> set cs. \<forall>q \<in> set (ct_rows ts). cs_id (cl_support q) \<noteq> cs_id c) \<and>
    ts' = ts\<lparr>ct_rows := ct_rows ts @ rows_of u cs\<rparr>"
  using assms(2)
proof (induction cs arbitrary: ts)
  case (Cons c cs)
  have valid: "claim_support_violation c = None" "\<forall>c \<in> set cs. claim_support_violation c = None" using Cons(2) by auto
  have "record_supports U org (c # cs) ts = Inr ts' \<longleftrightarrow>
      (\<exists>ts1. record_claim_support U org c ts = Inr ts1 \<and> record_supports U org cs ts1 = Inr ts')" by simp
  then show ?case unfolding record_claim_support_Inr[OF assms(1) valid(1)] Cons.IH[OF valid(2)]
    by (auto simp: rows_of_def)
qed (auto simp: rows_of_def)

lemma resolution_supports_valid:
  assumes "resolve_claims ids iv run verdicts t = Inr r" "c \<in> set (rs_supports r)"
  shows "claim_support_violation c = None" "cs_run_id c = run" "cs_artifact_id c = inv_artifact_id iv"
proof -
  note res = resolve_claims_Inr[OF assms(1)]
  from assms(2) res(5) obtain k where k: "k < length (inv_claims iv)" "c = rs_supports r ! k" by (metis in_set_conv_nth)
  from to_support_valid[OF res(6)[OF k(1)]] k(2) show "claim_support_violation c = None" by simp
  from to_support_Inr[OF res(6)[OF k(1)]] k(2) show "cs_run_id c = run" "cs_artifact_id c = inv_artifact_id iv" by auto
qed

text \<open>
  C31: A resolution is recorded whole or not at all. Recording succeeds exactly when every cited piece
  of evidence exists in the same run and organization, the run belongs to the caller's organization,
  the artifact exists and the record identifiers are new; then it appends exactly one row per material
  claim, in order, with the true evidence count, and changes no earlier row. No check of the table is
  ever violated by a resolution.
\<close>

theorem recording_exact:
  assumes res: "resolve_claims ids iv run verdicts t = Inr r" and org: "normalize_organization_id U org = Inr u"
  shows "record_resolution U org r ts = Inr ts' \<longleftrightarrow>
    (inv_claims iv = [] \<or> (ct_runs ts run = Some (Some u) \<and> inv_artifact_id iv \<in> ct_artifacts ts)) \<and>
    (\<forall>c \<in> set (rs_supports r). \<forall>e \<in> set (cs_evidence_ids c). ct_evidence ts e = Some (run, u)) \<and>
    distinct (map cs_id (rs_supports r) ) \<and>
    (\<forall>c \<in> set (rs_supports r). \<forall>q \<in> set (ct_rows ts). cs_id (cl_support q) \<noteq> cs_id c) \<and>
    ts' = ts\<lparr>ct_rows := ct_rows ts @ rows_of u (rs_supports r)\<rparr>"
proof -
  have valid: "\<forall>c \<in> set (rs_supports r). claim_support_violation c = None"
    using resolution_supports_valid(1)[OF res] by blast
  have "(\<forall>c \<in> set (rs_supports r). ct_runs ts run = Some (Some u) \<and> inv_artifact_id iv \<in> ct_artifacts ts) \<longleftrightarrow>
      inv_claims iv = [] \<or> (ct_runs ts run = Some (Some u) \<and> inv_artifact_id iv \<in> ct_artifacts ts)"
    using resolve_claims_Inr(5)[OF res] by (cases "rs_supports r"; cases "inv_claims iv") auto
  then show ?thesis
    unfolding record_resolution_def record_supports_Inr[OF org valid] using resolution_supports_valid(2,3)[OF res]
    by auto
qed

subsection \<open>The guarantees on a run\<close>

definition example_verdict :: claim_verdict where
  "example_verdict = \<lparr>cv_claim_id = ''char:9-38'', cv_status = Supported, cv_explanation = ''measured'',
     cv_evaluator_id = ''e'', cv_evaluator_version = ''1'', cv_producer_kind = SystemProducer,
     cv_evaluated_at = Aware 7, cv_prompt_binding = None, cv_evidence_ids = [''ev''], cv_absent_reason = None\<rparr>"

definition example_resolution :: resolution where
  "example_resolution = (case resolve_claims (\<lambda>k. ''s'' @ nat_str k) example_inventory ''r'' [example_verdict] (Aware 9) of
     Inr r \<Rightarrow> r)"

lemma example_resolved:
  "resolve_claims (\<lambda>k. ''s'' @ nat_str k) example_inventory ''r'' [example_verdict] (Aware 9) = Inr example_resolution"
proof -
  have "(case resolve_claims (\<lambda>k. ''s'' @ nat_str k) example_inventory ''r'' [example_verdict] (Aware 9) of
      Inl e \<Rightarrow> False | Inr r \<Rightarrow> True)" by code_simp
  then show ?thesis unfolding example_resolution_def by (auto split: sum.splits)
qed

theorem resolution_total_witness:
  "map cs_claim_id (rs_supports example_resolution) = [''char:9-38'', ''char:63-89'']"
  using resolution_total[OF example_resolved] by (simp add: example_inventory_claims)

theorem withheld_verdicts_never_flatter_witness:
  "unsupported_count example_resolution \<le> 2"
proof -
  have "(case resolve_claims (\<lambda>k. ''s'' @ nat_str k) example_inventory ''r'' [] (Aware 9) of
      Inl e \<Rightarrow> False | Inr r \<Rightarrow> unsupported_count r = 2)" by code_simp
  then obtain r where "resolve_claims (\<lambda>k. ''s'' @ nat_str k) example_inventory ''r'' [] (Aware 9) = Inr r"
    "unsupported_count r = 2" by (auto split: sum.splits)
  with withheld_verdicts_never_flatter[OF example_resolved this(1)] show ?thesis by simp
qed

definition example_claim_tables :: claim_tables where
  "example_claim_tables = \<lparr>ct_runs = [''r'' \<mapsto> Some ''o''], ct_evidence = [''ev'' \<mapsto> (''r'', ''o'')],
     ct_artifacts = {''a''}, ct_rows = []\<rparr>"

theorem recording_exact_witness:
  "\<exists>ts'. record_resolution Some (Some ''o'') example_resolution example_claim_tables = Inr ts' \<and>
     map cl_evidence_count (ct_rows ts') = [1, 0]"
proof -
  have org: "normalize_organization_id Some (Some ''o'') = Inr ''o''" by code_simp
  have ev: "map cs_evidence_ids (rs_supports example_resolution) = [[''ev''], []]" by code_simp
  have ids: "map cs_id (rs_supports example_resolution) = [''s0'', ''s1'']" by code_simp
  obtain c d where cd: "rs_supports example_resolution = [c, d]" "cs_evidence_ids c = [''ev'']" "cs_evidence_ids d = []"
    using ev by auto
  have art: "inv_artifact_id example_inventory = ''a''" by code_simp
  have "record_resolution Some (Some ''o'') example_resolution example_claim_tables =
      Inr (example_claim_tables\<lparr>ct_rows := ct_rows example_claim_tables @ rows_of ''o'' (rs_supports example_resolution)\<rparr>)"
    unfolding recording_exact[OF example_resolved org] using ids cd art by (auto simp: example_claim_tables_def)
  then show ?thesis by (simp add: rows_of_def cd example_claim_tables_def)
qed

text \<open>
  Claim identifiers are spans, which every artifact shares, and the listing by claim does not name the
  artifact.
\<close>

definition example_other_support :: claim_support where
  "example_other_support = (hd (rs_supports example_resolution))\<lparr>cs_id := ''x'', cs_artifact_id := ''b''\<rparr>"

lemma listing_mixes_artifacts:
  "map (\<lambda>r. cs_artifact_id (cl_support r)) (list_claim_supports_for_claim
     (example_claim_tables\<lparr>ct_rows := rows_of ''o'' [hd (rs_supports example_resolution), example_other_support]\<rparr>)
     ''char:9-38'' (Some ''o'')) = [''a'', ''b'']"
  by code_simp

end
