(* ===== verification/Citation_Render.thy ===== *)
theory Citation_Render
  imports Records Provenance
begin

text \<open>
  \<^verbatim>\<open>src/core/claims/citation_render.py\<close>: one author-date style, rendered from held metadata.
\<close>

definition author_date_minimal :: string where "author_date_minimal = ''author-date-minimal''"
definition unsupported_marker :: string where "unsupported_marker = ''[unsupported claim: no citation rendered]''"
definition partial_marker :: string where "partial_marker = ''[partial support]''"
definition disputed_marker :: string where "disputed_marker = ''[disputed]''"

record rendered_citation =
  rc_text :: string
  rc_spans :: "(nat \<times> nat) list"
  rc_missing :: "string list"

datatype style_error = StyleUnavailable string

fun authors_text :: "string list \<Rightarrow> string" where
  "authors_text [a] = a"
| "authors_text [a, b] = a @ '' and '' @ b"
| "authors_text (a # bs) = a @ '' et al.''"
| "authors_text [] = []"

definition missing_fields :: "citation_metadata \<Rightarrow> string list" where
  "missing_fields m = (if cm_authors m = [] then [''author''] else []) @ (if cm_year m = None then [''year''] else [])"

text \<open>What the renderer marks as citation text.\<close>

definition citation_text :: "citation_metadata \<Rightarrow> string" where
  "citation_text m =
     (case (missing_fields m, cm_year m) of
        ([], Some y) \<Rightarrow> ''('' @ authors_text (map sv_value (cm_authors m)) @ '', '' @ sv_value y @ '')''
      | (missing, _) \<Rightarrow> ''[citation incomplete: '' @ py_join '', '' (map (\<lambda>f. ''no '' @ f) missing) @ '']'') @
     (case cm_doi m of None \<Rightarrow> [] | Some d \<Rightarrow> '' https://doi.org/'' @ sv_value d)"

fun support_suffix :: "support_status \<Rightarrow> string" where
  "support_suffix PartiallySupported = CHR '' '' # partial_marker"
| "support_suffix Disputed = CHR '' '' # disputed_marker"
| "support_suffix s = []"

definition render_citation :: "citation_metadata \<Rightarrow> string \<Rightarrow> support_status \<Rightarrow> style_error + rendered_citation" where
  "render_citation m style support =
     (if style \<noteq> author_date_minimal then Inl (StyleUnavailable style)
      else if support = Unsupported
      then Inr \<lparr>rc_text = unsupported_marker, rc_spans = [], rc_missing = missing_fields m\<rparr>
      else Inr \<lparr>rc_text = citation_text m @ support_suffix support, rc_spans = [(0, length (citation_text m))],
                rc_missing = missing_fields m\<rparr>)"

text \<open>
  The status of a claim can be read off its rendered citation: the spans hold exactly the citation text,
  what follows them is the marker of the status, and a claim without support has no span.
\<close>

lemma rendered_status:
  assumes "render_citation m author_date_minimal s = Inr c" "render_citation m author_date_minimal s' = Inr c"
  shows "s = s'"
  using assms by (cases s; cases s') (auto simp: render_citation_def partial_marker_def disputed_marker_def)

lemma rendered_span:
  assumes "render_citation m style s = Inr c" "(i, j) \<in> set (rc_spans c)"
  shows "i = 0 \<and> take j (rc_text c) = citation_text m \<and> drop j (rc_text c) = support_suffix s \<and> s \<noteq> Unsupported"
  using assms by (auto simp: render_citation_def split: if_splits)

end
