(* ===== verification/Bounded_Runner.thy ===== *)
theory Bounded_Runner
  imports Prelude
begin

text \<open>
  \<^verbatim>\<open>src/core/kernel/bounded_concurrency.py\<close>: running work with bounded admission. The operation is a
  function from an item to its exception or result; which admitted tasks are found completed after a
  wait, and whether the caller is cancelled while it waits, is up to the event loop, so a run is a
  path of a step relation.
\<close>

subsection \<open>The runner\<close>

datatype runner_error = NotAnInteger | NotPositive int | AlreadyRunning

text \<open>The argument of the constructor: an integer, or \<open>None\<close> for a value of another type or a boolean.\<close>

definition new_runner :: "int option \<Rightarrow> runner_error + nat" where
  "new_runner max_concurrency =
     (case max_concurrency of
        None \<Rightarrow> Inl NotAnInteger
      | Some m \<Rightarrow> if m \<le> 0 then Inl (NotPositive m) else Inr (nat m))"

record ('e, 'r) runner =
  rn_active :: "nat list"
  rn_next :: nat
  rn_queued :: nat
  rn_created :: nat
  rn_peak :: nat
  rn_results :: "('e + 'r) option list"

text \<open>A run waits for admitted tasks, has returned, or has raised; the last two leave the counters readable.\<close>

datatype ('e, 'r) run_state =
  Waiting "('e, 'r) runner"
| Returned "('e + 'r) option list" "('e, 'r) runner"
| Raised 'e "('e, 'r) runner"
| CallerCancelled "('e, 'r) runner"

definition admit_next :: "nat \<Rightarrow> ('e, 'r) runner \<Rightarrow> bool \<times> ('e, 'r) runner" where
  "admit_next items s =
     (if items \<le> rn_next s then (False, s)
      else (True, s\<lparr>rn_active := rn_active s @ [rn_next s], rn_next := rn_next s + 1, rn_queued := rn_queued s - 1,
             rn_created := rn_created s + 1, rn_peak := max (rn_peak s) (length (rn_active s) + 1)\<rparr>))"

text \<open>\<open>while self.active_count < self.max_concurrency and admit_next()\<close>\<close>

function admit_all :: "nat \<Rightarrow> nat \<Rightarrow> ('e, 'r) runner \<Rightarrow> ('e, 'r) runner" where
  "admit_all limit items s =
     (if length (rn_active s) < limit \<and> fst (admit_next items s)
      then admit_all limit items (snd (admit_next items s)) else s)"
  by pat_completeness auto
termination
  by (relation "measure (\<lambda>(limit, items, s). items - rn_next s)") (auto simp: admit_next_def split: if_splits)

declare admit_all.simps [simp del]

text \<open>The completed tasks of one wait, in the order of their items.\<close>

fun settle_batch :: "(nat \<Rightarrow> 'e + 'r) \<Rightarrow> bool \<Rightarrow> nat list \<Rightarrow> ('e, 'r) runner \<Rightarrow> ('e option \<times> ('e, 'r) runner)" where
  "settle_batch f keep [] s = (None, s)"
| "settle_batch f keep (i # is) s =
     (let s1 = s\<lparr>rn_active := remove1 i (rn_active s)\<rparr> in
      case f i of
        Inr r \<Rightarrow> settle_batch f keep is (s1\<lparr>rn_results := (rn_results s1)[i := Some (Inr r)]\<rparr>)
      | Inl e \<Rightarrow>
          if keep then settle_batch f keep is (s1\<lparr>rn_results := (rn_results s1)[i := Some (Inl e)]\<rparr>)
          else (Some e, s1))"

text \<open>The \<open>except\<close> and \<open>finally\<close> blocks: the queue is dropped, admitted work cancelled and forgotten.\<close>

definition abandon :: "('e, 'r) runner \<Rightarrow> ('e, 'r) runner" where
  "abandon s = s\<lparr>rn_queued := 0, rn_active := []\<rparr>"

text \<open>The head of the loop \<open>while self._active_tasks\<close>.\<close>

definition loop_head :: "('e, 'r) runner \<Rightarrow> ('e, 'r) run_state" where
  "loop_head s = (if rn_active s = [] then Returned (rn_results s) s else Waiting s)"

definition after_wait :: "nat \<Rightarrow> nat \<Rightarrow> (nat \<Rightarrow> 'e + 'r) \<Rightarrow> bool \<Rightarrow> nat set \<Rightarrow> ('e, 'r) runner \<Rightarrow> ('e, 'r) run_state" where
  "after_wait limit items f keep completed s =
     (case settle_batch f keep (sorted_list_of_set completed) s of
        (Some e, s1) \<Rightarrow> Raised e (abandon s1)
      | (None, s1) \<Rightarrow> loop_head (admit_all limit items s1))"

definition run_start :: "nat \<Rightarrow> nat \<Rightarrow> ('e, 'r) run_state" where
  "run_start limit items =
     loop_head (admit_all limit items
       \<lparr>rn_active = [], rn_next = 0, rn_queued = items, rn_created = 0, rn_peak = 0,
        rn_results = replicate items None\<rparr>)"

inductive run_step :: "nat \<Rightarrow> nat \<Rightarrow> (nat \<Rightarrow> 'e + 'r) \<Rightarrow> bool \<Rightarrow> ('e, 'r) run_state \<Rightarrow> ('e, 'r) run_state \<Rightarrow> bool"
  for limit items f keep where
  step_wait: "completed \<noteq> {} \<Longrightarrow> completed \<subseteq> set (rn_active s) \<Longrightarrow>
    run_step limit items f keep (Waiting s) (after_wait limit items f keep completed s)"
| step_cancelled: "run_step limit items f keep (Waiting s) (CallerCancelled (abandon s))"

inductive_cases run_stepE: "run_step limit items f keep (Waiting s) t"
inductive_simps run_step_ended: "run_step limit items f keep (Returned rs s) t" "run_step limit items f keep (Raised e s) t"
  "run_step limit items f keep (CallerCancelled s) t"

abbreviation run_path :: "nat \<Rightarrow> nat \<Rightarrow> (nat \<Rightarrow> 'e + 'r) \<Rightarrow> bool \<Rightarrow> ('e, 'r) run_state \<Rightarrow> ('e, 'r) run_state \<Rightarrow> bool" where
  "run_path limit items f keep \<equiv> (run_step limit items f keep)\<^sup>*\<^sup>*"

subsection \<open>The invariant\<close>

text \<open>
  Admitted items are the first ones; an item that is admitted and not active has its result, every
  other has none; nothing is admitted beyond the limit.
\<close>

definition runner_core :: "nat \<Rightarrow> nat \<Rightarrow> (nat \<Rightarrow> 'e + 'r) \<Rightarrow> bool \<Rightarrow> ('e, 'r) runner \<Rightarrow> bool" where
  "runner_core limit items f keep s \<longleftrightarrow>
     distinct (rn_active s) \<and> (\<forall>j \<in> set (rn_active s). j < rn_next s) \<and> rn_next s \<le> items \<and>
     length (rn_active s) \<le> limit \<and> rn_queued s = items - rn_next s \<and> rn_created s = rn_next s \<and>
     rn_peak s \<le> limit \<and> rn_peak s \<le> rn_created s \<and> length (rn_active s) \<le> rn_peak s \<and>
     length (rn_results s) = items \<and>
     (\<forall>i < items. rn_results s ! i = (if i < rn_next s \<and> i \<notin> set (rn_active s) then Some (f i) else None)) \<and>
     (\<not> keep \<longrightarrow> (\<forall>i < rn_next s. i \<notin> set (rn_active s) \<longrightarrow> (\<exists>r. f i = Inr r)))"

definition runner_inv :: "nat \<Rightarrow> nat \<Rightarrow> (nat \<Rightarrow> 'e + 'r) \<Rightarrow> bool \<Rightarrow> ('e, 'r) runner \<Rightarrow> bool" where
  "runner_inv limit items f keep s \<longleftrightarrow>
     runner_core limit items f keep s \<and> (length (rn_active s) = limit \<or> rn_next s = items)"

fun state_inv :: "nat \<Rightarrow> nat \<Rightarrow> (nat \<Rightarrow> 'e + 'r) \<Rightarrow> bool \<Rightarrow> ('e, 'r) run_state \<Rightarrow> bool" where
  "state_inv limit items f keep (Waiting s) = (runner_inv limit items f keep s \<and> rn_active s \<noteq> [])"
| "state_inv limit items f keep (Returned rs s) =
     (rs = map (Some \<circ> f) [0..<items] \<and> (keep \<or> (\<forall>i < items. \<exists>r. f i = Inr r)) \<and> rn_queued s = 0 \<and>
      rn_active s = [] \<and> rn_peak s \<le> limit \<and> rn_created s = items)"
| "state_inv limit items f keep (Raised e s) =
     (\<not> keep \<and> (\<exists>i < rn_created s. f i = Inl e) \<and> rn_created s \<le> items \<and> rn_queued s = 0 \<and> rn_active s = [] \<and>
      rn_peak s \<le> limit)"
| "state_inv limit items f keep (CallerCancelled s) =
     (rn_created s \<le> items \<and> rn_queued s = 0 \<and> rn_active s = [] \<and> rn_peak s \<le> limit)"

lemma admit_all_core:
  "runner_core limit items f keep s \<Longrightarrow> 0 < limit \<Longrightarrow> runner_inv limit items f keep (admit_all limit items s)"
proof (induction limit items s rule: admit_all.induct)
  case (1 limit items s)
  show ?case
  proof (cases "length (rn_active s) < limit \<and> fst (admit_next items s)")
    case True
    let ?s = "snd (admit_next items s)"
    have more: "rn_next s < items" using True by (simp add: admit_next_def split: if_splits)
    have core: "runner_core limit items f keep ?s"
      using 1(2) True more unfolding runner_core_def admit_next_def
      by (auto simp: less_Suc_eq dest: less_imp_le)
    show ?thesis using 1(1)[OF True core 1(3)] True by (simp add: admit_all.simps[of limit items s])
  next
    case False
    then have same: "admit_all limit items s = s" unfolding admit_all.simps[of limit items s] by (simp only: if_False)
    have "length (rn_active s) = limit \<or> rn_next s = items"
      using False 1(2) by (auto simp: admit_next_def runner_core_def split: if_splits)
    with 1(2) show ?thesis by (simp add: same runner_inv_def)
  qed
qed

lemma settle_one:
  assumes "runner_core limit items f keep s" "i \<in> set (rn_active s)" "keep \<or> (\<exists>r. f i = Inr r)"
  shows "runner_core limit items f keep
    (s\<lparr>rn_active := remove1 i (rn_active s), rn_results := (rn_results s)[i := Some (f i)]\<rparr>)"
  using assms unfolding runner_core_def
  by (auto simp: length_remove1 nth_list_update set_remove1_eq)

lemma settle_batch_core:
  assumes "runner_core limit items f keep s" "distinct is" "set is \<subseteq> set (rn_active s)"
    and "settle_batch f keep is s = (err, s')"
  shows "(err = None \<longrightarrow> runner_core limit items f keep s' \<and> set (rn_active s') = set (rn_active s) - set is \<and>
      length (rn_active s') + length is = length (rn_active s) \<and> rn_next s' = rn_next s) \<and>
    (\<forall>e. err = Some e \<longrightarrow> \<not> keep \<and> (\<exists>i < rn_created s'. f i = Inl e) \<and> rn_created s' \<le> items \<and> rn_peak s' \<le> limit)"
  using assms
proof (induction "is" arbitrary: s)
  case (Cons i "is")
  have i: "i \<in> set (rn_active s)" using Cons(4) by simp
  have lt: "i < rn_next s" "rn_next s \<le> items" "rn_created s = rn_next s" "rn_peak s \<le> limit" "distinct (rn_active s)"
    using Cons(2) i by (auto simp: runner_core_def)
  let ?s = "s\<lparr>rn_active := remove1 i (rn_active s), rn_results := (rn_results s)[i := Some (f i)]\<rparr>"
  show ?case
  proof (cases "keep \<or> (\<exists>r. f i = Inr r)")
    case True
    then have step: "settle_batch f keep is ?s = (err, s')" using Cons(5) by (auto simp: Let_def split: sum.splits)
    have "set is \<subseteq> set (rn_active ?s)" using Cons(3,4) lt(5) by auto
    from Cons.IH[OF settle_one[OF Cons(2) i True] _ this step] Cons(3)
    show ?thesis using lt(5) i length_pos_if_in_set[OF i] by (auto simp: length_remove1)
  next
    case False
    then obtain e where "f i = Inl e" "\<not> keep" by (cases "f i") auto
    with Cons(5) lt show ?thesis by (auto simp: Let_def)
  qed
qed simp

lemma loop_head_inv:
  assumes "runner_inv limit items f keep s" "0 < limit"
  shows "state_inv limit items f keep (loop_head s)"
proof (cases "rn_active s = []")
  case True
  with assms have "rn_next s = items" by (auto simp: runner_inv_def)
  with True assms show ?thesis
    by (auto simp: loop_head_def runner_inv_def runner_core_def intro!: nth_equalityI)
qed (use assms in \<open>simp add: loop_head_def\<close>)

lemma run_start_inv: "0 < limit \<Longrightarrow> state_inv limit items f keep (run_start limit items)"
  unfolding run_start_def by (intro loop_head_inv admit_all_core) (auto simp: runner_core_def)

lemma run_step_inv:
  assumes "run_step limit items f keep a b" "state_inv limit items f keep a" "0 < limit"
  shows "state_inv limit items f keep b"
  using assms(1)
proof cases
  case (step_wait completed s)
  then have core: "runner_core limit items f keep s" using assms(2) by (simp add: runner_inv_def)
  have fin: "finite completed" using step_wait(4) finite_subset by blast
  obtain err s1 where s1: "settle_batch f keep (sorted_list_of_set completed) s = (err, s1)" by fastforce
  from settle_batch_core[OF core _ _ s1] fin step_wait(4) assms(3) show ?thesis
    unfolding step_wait(2) after_wait_def s1
    by (cases err) (auto simp: abandon_def intro!: loop_head_inv admit_all_core)
next
  case (step_cancelled s)
  with assms(2) show ?thesis by (auto simp: abandon_def runner_inv_def runner_core_def)
qed

lemma run_path_inv:
  "run_path limit items f keep a b \<Longrightarrow> state_inv limit items f keep a \<Longrightarrow> 0 < limit \<Longrightarrow> state_inv limit items f keep b"
  by (induction rule: rtranclp_induct) (auto intro: run_step_inv)


subsection \<open>A run ends\<close>

definition remaining :: "nat \<Rightarrow> ('e, 'r) runner \<Rightarrow> nat" where
  "remaining items s = (items - rn_next s) + length (rn_active s)"

fun steps_left :: "nat \<Rightarrow> ('e, 'r) run_state \<Rightarrow> nat" where
  "steps_left items (Waiting s) = remaining items s"
| "steps_left items st = 0"

lemma admit_all_remaining: "remaining items (admit_all limit items s) = remaining items s"
proof (induction limit items s rule: admit_all.induct)
  case (1 limit items s)
  show ?case
  proof (cases "length (rn_active s) < limit \<and> fst (admit_next items s)")
    case True
    have "remaining items (snd (admit_next items s)) = remaining items s"
      using True by (auto simp: admit_next_def remaining_def split: if_splits)
    with 1[OF True] True show ?thesis by (simp add: admit_all.simps[of limit items s])
  next
    case False
    then show ?thesis unfolding admit_all.simps[of limit items s] by (simp only: if_False)
  qed
qed

lemma run_step_decreases:
  assumes "run_step limit items f keep a b" "state_inv limit items f keep a"
  shows "steps_left items b < steps_left items a"
  using assms(1)
proof cases
  case (step_wait completed s)
  then have core: "runner_core limit items f keep s" using assms(2) by (simp add: runner_inv_def)
  have fin: "finite completed" using step_wait(4) finite_subset by blast
  obtain err s1 where s1: "settle_batch f keep (sorted_list_of_set completed) s = (err, s1)" by fastforce
  have pos: "0 < remaining items s" using assms(2) step_wait(1) by (simp add: remaining_def)
  show ?thesis
  proof (cases err)
    case None
    from settle_batch_core[OF core _ _ s1] fin step_wait(4) None
    have "length (rn_active s1) + card completed = length (rn_active s)" "rn_next s1 = rn_next s" by simp_all
    moreover have "0 < card completed" using fin step_wait(3) by (simp add: card_gt_0_iff)
    ultimately have "remaining items s1 < remaining items s" by (simp add: remaining_def)
    with None pos show ?thesis unfolding step_wait(1,2) after_wait_def s1
      by (simp add: loop_head_def admit_all_remaining)
  qed (use pos in \<open>simp add: step_wait(1,2) after_wait_def s1\<close>)
next
  case (step_cancelled s)
  with assms(2) show ?thesis by (simp add: remaining_def)
qed

lemma run_steps_decrease:
  "((run_step limit items f keep) ^^ n) a b \<Longrightarrow> state_inv limit items f keep a \<Longrightarrow> 0 < limit \<Longrightarrow>
     n + steps_left items b \<le> steps_left items a"
proof (induction n arbitrary: b)
  case (Suc n)
  then obtain c where c: "((run_step limit items f keep) ^^ n) a c" "run_step limit items f keep c b" by auto
  from run_path_inv[OF relpowp_imp_rtranclp[OF c(1)] Suc(3,4)] have "state_inv limit items f keep c" .
  with run_step_decreases[OF c(2)] Suc.IH[OF c(1) Suc(3,4)] show ?case by simp
qed simp

lemma run_start_steps: "steps_left items (run_start limit items :: ('e, 'r) run_state) \<le> items"
proof -
  have "remaining items (admit_all limit items (\<lparr>rn_active = [], rn_next = 0, rn_queued = items, rn_created = 0, rn_peak = 0,
      rn_results = replicate items None\<rparr> :: ('e, 'r) runner)) = items"
    unfolding admit_all_remaining by (simp add: remaining_def)
  then show ?thesis by (simp add: run_start_def loop_head_def)
qed

subsection \<open>Which items are admitted\<close>

text \<open>
  The items for which a task was created, in order: those the admission loop adds to the active ones,
  at the start and after every wait whose completed tasks were all settled.
\<close>

definition newly_admitted :: "nat \<Rightarrow> nat \<Rightarrow> ('e, 'r) runner \<Rightarrow> nat list" where
  "newly_admitted limit items s = drop (length (rn_active s)) (rn_active (admit_all limit items s))"

definition new_run :: "nat \<Rightarrow> ('e, 'r) runner" where
  "new_run items = \<lparr>rn_active = [], rn_next = 0, rn_queued = items, rn_created = 0, rn_peak = 0,
     rn_results = replicate items None\<rparr>"

inductive admissions :: "nat \<Rightarrow> nat \<Rightarrow> (nat \<Rightarrow> 'e + 'r) \<Rightarrow> bool \<Rightarrow> ('e, 'r) run_state \<Rightarrow> nat list \<Rightarrow> bool"
  for limit items f keep where
  at_start: "admissions limit items f keep (run_start limit items) (newly_admitted limit items (new_run items :: ('e, 'r) runner))"
| at_wait: "admissions limit items f keep (Waiting s) js \<Longrightarrow> completed \<noteq> {} \<Longrightarrow> completed \<subseteq> set (rn_active s) \<Longrightarrow>
    settle_batch f keep (sorted_list_of_set completed) s = (err, s1) \<Longrightarrow>
    admissions limit items f keep (after_wait limit items f keep completed s)
      (if err = None then js @ newly_admitted limit items s1 else js)"
| at_cancelled: "admissions limit items f keep (Waiting s) js \<Longrightarrow>
    admissions limit items f keep (CallerCancelled (abandon s)) js"

fun runner_of :: "('e, 'r) run_state \<Rightarrow> ('e, 'r) runner" where
  "runner_of (Waiting s) = s"
| "runner_of (Returned rs s) = s"
| "runner_of (Raised e s) = s"
| "runner_of (CallerCancelled s) = s"

lemma run_start_new: "run_start limit items = loop_head (admit_all limit items (new_run items))"
  by (simp add: run_start_def new_run_def)

lemma admissions_path: "admissions limit items f keep st js \<Longrightarrow> run_path limit items f keep (run_start limit items) st"
  by (induction rule: admissions.induct) (auto intro: rtranclp.rtrancl_into_rtrancl step_wait step_cancelled)

lemma path_admissions:
  "run_path limit items f keep (run_start limit items) st \<Longrightarrow> \<exists>js. admissions limit items f keep st js"
proof (induction rule: rtranclp_induct)
  case (step a b)
  from step(3) obtain js where js: "admissions limit items f keep a js" by blast
  from step(2) js show ?case
  proof cases
    case (step_wait completed s)
    obtain err s1 where s1: "settle_batch f keep (sorted_list_of_set completed) s = (err, s1)" by fastforce
    from at_wait[OF js[unfolded step_wait(1)] step_wait(3,4) s1] show ?thesis unfolding step_wait(2) by blast
  next
    case (step_cancelled s)
    with at_cancelled js show ?thesis by blast
  qed
qed (blast intro: at_start)

text \<open>Admission goes through the items in order, and the counter counts them.\<close>

lemma admit_all_next:
  "rn_created s = rn_next s \<Longrightarrow>
   newly_admitted limit items s = [rn_next s..<rn_next (admit_all limit items s)] \<and>
   rn_next s \<le> rn_next (admit_all limit items s) \<and>
   rn_created (admit_all limit items s) = rn_next (admit_all limit items s) \<and>
   rn_active (admit_all limit items s) = rn_active s @ newly_admitted limit items s"
proof (induction limit items s rule: admit_all.induct)
  case (1 limit items s)
  show ?case
  proof (cases "length (rn_active s) < limit \<and> fst (admit_next items s)")
    case True
    let ?s = "snd (admit_next items s)"
    have s: "rn_active ?s = rn_active s @ [rn_next s]" "rn_next ?s = Suc (rn_next s)" "rn_created ?s = rn_next ?s"
      using True 1(2) by (auto simp: admit_next_def split: if_splits)
    have same: "admit_all limit items s = admit_all limit items ?s"
      using True by (simp add: admit_all.simps[of limit items s])
    note ih = 1(1)[OF True s(3)]
    have "newly_admitted limit items s = rn_next s # newly_admitted limit items ?s"
      unfolding newly_admitted_def same using ih by (simp add: s(1))
    also have "\<dots> = [rn_next s..<rn_next (admit_all limit items s)]"
      using ih unfolding same s(2) by (simp add: upt_conv_Cons)
    finally show ?thesis using ih unfolding same by (simp add: s upt_conv_Cons)
  next
    case False
    then have same: "admit_all limit items s = s" unfolding admit_all.simps[of limit items s] by (simp only: if_False)
    with 1(2) show ?thesis by (simp add: newly_admitted_def)
  qed
qed

lemma runner_loop_head [simp]: "runner_of (loop_head s) = s"
  by (simp add: loop_head_def)

lemma settle_batch_next: "settle_batch f keep is s = (err, s1) \<Longrightarrow> rn_next s1 = rn_next s \<and> rn_created s1 = rn_created s"
  by (induction "is" arbitrary: s) (auto simp: Let_def split: sum.splits if_splits)

lemma admissions_upt:
  "admissions limit items f keep st js \<Longrightarrow>
   js = [0..<rn_next (runner_of st)] \<and> rn_created (runner_of st) = rn_next (runner_of st)"
proof (induction rule: admissions.induct)
  case at_start
  show ?case
    using admit_all_next[of "new_run items :: ('a, 'b) runner" limit items] by (simp add: run_start_new new_run_def)
next
  case (at_wait s js completed err s1)
  note n = settle_batch_next[OF at_wait(4)]
  show ?case
  proof (cases err)
    case None
    have "rn_created s1 = rn_next s1" using at_wait(5) n by simp
    note a = admit_all_next[OF this, of limit items]
    have "after_wait limit items f keep completed s = loop_head (admit_all limit items s1)"
      by (simp add: after_wait_def at_wait(4) None)
    moreover have "[0..<rn_next s] @ [rn_next s..<m] = [0..<m]" if "rn_next s \<le> m" for m
      using that upt_add_eq_append[of 0 "rn_next s" "m - rn_next s"] by simp
    ultimately show ?thesis using a at_wait(5) n None by simp
  next
    case (Some e)
    have "after_wait limit items f keep completed s = Raised e (abandon s1)"
      by (simp add: after_wait_def at_wait(4) Some)
    with at_wait(5) n Some show ?thesis by (simp add: abandon_def)
  qed
qed (simp add: abandon_def)

subsection \<open>The guarantees\<close>

text \<open>
  C32: Admission is bounded, in order and without repetition. Whatever the event loop does: a task is
  created for the items in their order, each at most once, and the counter of created tasks says how many
  (every item when the run returned); at every wait at most \<open>limit\<close> tasks are admitted and unfinished, they
  are different items already created, every other created item has its result and no item that is still
  queued has one, the high-water mark does not exceed the limit or the number of tasks created, and a free
  slot means that the queue is empty; a run that raised or was cancelled leaves nothing active and nothing
  queued.
\<close>

theorem bounded_admission:
  assumes "0 < limit" and "run_path limit items f keep (run_start limit items) st"
  shows "(\<exists>js. admissions limit items f keep st js) \<and>
    (\<forall>js. admissions limit items f keep st js \<longrightarrow> js = [0..<rn_created (runner_of st)] \<and> distinct js \<and> length js \<le> items) \<and>
    (case st of
      Waiting s \<Rightarrow> length (rn_active s) \<le> limit \<and> rn_peak s \<le> min limit (rn_created s) \<and>
        rn_queued s = items - rn_created s \<and> (length (rn_active s) < limit \<longrightarrow> rn_queued s = 0) \<and>
        distinct (rn_active s) \<and> set (rn_active s) \<subseteq> {..<rn_created s} \<and>
        (\<forall>i < items. rn_results s ! i \<noteq> None \<longleftrightarrow> i < rn_created s \<and> i \<notin> set (rn_active s))
    | Returned rs s \<Rightarrow> rn_peak s \<le> limit \<and> rn_created s = items
    | Raised e s \<Rightarrow> rn_active s = [] \<and> rn_queued s = 0 \<and> rn_peak s \<le> limit
    | CallerCancelled s \<Rightarrow> rn_active s = [] \<and> rn_queued s = 0 \<and> rn_peak s \<le> limit)"
proof -
  have inv: "state_inv limit items f keep st" by (rule run_path_inv[OF assms(2) run_start_inv[OF assms(1)] assms(1)])
  have "rn_created (runner_of st) \<le> items" using inv by (cases st) (auto simp: runner_inv_def runner_core_def)
  then have "js = [0..<rn_created (runner_of st)] \<and> distinct js \<and> length js \<le> items"
    if "admissions limit items f keep st js" for js using admissions_upt[OF that] by simp
  moreover have "(case st of
      Waiting s \<Rightarrow> length (rn_active s) \<le> limit \<and> rn_peak s \<le> min limit (rn_created s) \<and>
        rn_queued s = items - rn_created s \<and> (length (rn_active s) < limit \<longrightarrow> rn_queued s = 0) \<and>
        distinct (rn_active s) \<and> set (rn_active s) \<subseteq> {..<rn_created s} \<and>
        (\<forall>i < items. rn_results s ! i \<noteq> None \<longleftrightarrow> i < rn_created s \<and> i \<notin> set (rn_active s))
    | Returned rs s \<Rightarrow> rn_peak s \<le> limit \<and> rn_created s = items
    | Raised e s \<Rightarrow> rn_active s = [] \<and> rn_queued s = 0 \<and> rn_peak s \<le> limit
    | CallerCancelled s \<Rightarrow> rn_active s = [] \<and> rn_queued s = 0 \<and> rn_peak s \<le> limit)"
    using inv by (cases st) (auto simp: runner_inv_def runner_core_def split: if_splits)
  ultimately show ?thesis using path_admissions[OF assms(2)] by blast
qed

text \<open>
  C33: Concurrency does not show in the result. When a run returns, its results are those of the
  sequential map, in the order of the items, whatever the order of completion; it returns only if every
  operation succeeded or exceptions are to be returned, and it raises only the exception of an item it
  started.
\<close>

theorem bounded_run_is_map:
  assumes "0 < limit" and "run_path limit items f keep (run_start limit items) st"
  shows "case st of
      Waiting s \<Rightarrow> \<forall>i < items. rn_results s ! i \<in> {None, Some (f i)}
    | Returned rs s \<Rightarrow> rs = map (Some \<circ> f) [0..<items] \<and> (keep \<or> (\<forall>i < items. \<exists>r. f i = Inr r))
    | Raised e s \<Rightarrow> \<not> keep \<and> (\<exists>i < rn_created s. f i = Inl e) \<and> rn_created s \<le> items
    | CallerCancelled s \<Rightarrow> True"
proof -
  from run_path_inv[OF assms(2) run_start_inv[OF assms(1)] assms(1)] show ?thesis
    by (cases st) (auto simp: runner_inv_def runner_core_def)
qed

text \<open>
  C34: A run ends. A run that waits has admitted work to wait for, whichever of it completes the run goes
  on, and no run waits more often than it has items.
\<close>

theorem bounded_run_ends:
  assumes "0 < limit" and "((run_step limit items f keep) ^^ n) (run_start limit items) st"
  shows "n \<le> items \<and>
    (case st of
       Waiting s \<Rightarrow> rn_active s \<noteq> [] \<and>
         (\<forall>i \<in> set (rn_active s). run_step limit items f keep st (after_wait limit items f keep {i} s)) \<and>
         (\<exists>st'. run_step limit items f keep st st')
     | _ \<Rightarrow> True)"
proof -
  note start = run_start_inv[OF assms(1)]
  from run_steps_decrease[OF assms(2) start assms(1)]
  have "n + steps_left items st \<le> items" by (rule order_trans[OF _ run_start_steps])
  then have "n \<le> items" by simp
  moreover have "\<exists>st'. run_step limit items f keep (Waiting s) st'" for s by (rule exI) (rule step_cancelled)
  moreover have "run_step limit items f keep (Waiting s) (after_wait limit items f keep {i} s)"
    if "i \<in> set (rn_active s)" for i s using that by (intro step_wait) auto
  ultimately show ?thesis
    using run_path_inv[OF relpowp_imp_rtranclp[OF assms(2)] start assms(1)] by (cases st) auto
qed

subsection \<open>A run\<close>

definition example_operation :: "nat \<Rightarrow> string + nat" where
  "example_operation i = (if i = 1 then Inl ''boom'' else Inr (10 * i))"

definition example_state :: "(string, nat) run_state" where
  "example_state = after_wait 2 3 example_operation True {1}
     \<lparr>rn_active = [0, 1], rn_next = 2, rn_queued = 1, rn_created = 2, rn_peak = 2, rn_results = [None, None, None]\<rparr>"

lemma example_start: "run_start 2 3 = (Waiting \<lparr>rn_active = [0, 1], rn_next = 2, rn_queued = 1, rn_created = 2, rn_peak = 2,
    rn_results = [None, None, None]\<rparr> :: (string, nat) run_state)"
  by (simp add: run_start_def admit_all.simps admit_next_def loop_head_def numeral_eq_Suc)

lemma example_step: "run_step 2 3 example_operation True (run_start 2 3) example_state"
  unfolding example_start example_state_def by (rule step_wait) auto

lemma example_path: "run_path 2 3 example_operation True (run_start 2 3) example_state"
  by (rule r_into_rtranclp[where r = "run_step 2 3 example_operation True"]) (rule example_step)

lemma example_state_eq: "example_state = Waiting \<lparr>rn_active = [0, 2], rn_next = 3, rn_queued = 0, rn_created = 3, rn_peak = 2,
    rn_results = [None, Some (Inl ''boom''), None]\<rparr>"
  by (simp add: example_state_def after_wait_def example_operation_def admit_all.simps admit_next_def loop_head_def Let_def)

theorem bounded_admission_witness:
  "\<exists>js. admissions 2 3 example_operation True example_state js \<and> js = [0, 1, 2] \<and>
     (case example_state of Waiting s \<Rightarrow> length (rn_active s) \<le> 2 \<and> distinct (rn_active s) | _ \<Rightarrow> False)"
proof -
  have three: "[0..<3] = [0, 1, 2 :: nat]" by (simp add: upt_rec)
  note b = bounded_admission[OF _ example_path, simplified]
  from b obtain js where js: "admissions 2 3 example_operation True example_state js" by blast
  with b have "js = [0, 1, 2]" by (simp add: example_state_eq three)
  with b js show ?thesis by (auto simp: example_state_eq)
qed

theorem bounded_run_is_map_witness:
  "case example_state of Waiting s \<Rightarrow> rn_results s ! 1 \<in> {None, Some (example_operation 1)} | _ \<Rightarrow> False"
  using bounded_run_is_map[OF _ example_path] by (simp add: example_state_eq example_operation_def)

theorem bounded_run_ends_witness:
  "run_step 2 3 example_operation True example_state
     (after_wait 2 3 example_operation True {2} (runner_of example_state))"
proof -
  have "((run_step 2 3 example_operation True) ^^ 1) (run_start 2 3) example_state" using example_step by (simp only: relpowp_1)
  from bounded_run_ends[OF _ this] show ?thesis by (simp add: example_state_eq)
qed

end
