(* ===== verification/Component_Registry.thy ===== *)
theory Component_Registry
  imports Prelude "HOL-Library.Char_ord" "HOL-Library.List_Lexorder"
begin

text \<open>
  \<^verbatim>\<open>src/core/kernel/registry.py\<close> and the catalog of \<^verbatim>\<open>component_keys.py\<close>: the immutable registry of
  components. A key carries, besides its name, the identity of the object that was created with it, and
  two keys are equal only if all of these are; the identity is a natural number here.
\<close>

datatype namespace = AgentSpace | DomainSpace | ProviderSpace | SupervisorSpace | WorkflowSpace

fun namespace_value :: "namespace \<Rightarrow> string" where
  "namespace_value AgentSpace = ''agent''"
| "namespace_value DomainSpace = ''domain''"
| "namespace_value ProviderSpace = ''provider''"
| "namespace_value SupervisorSpace = ''supervisor''"
| "namespace_value WorkflowSpace = ''workflow''"

record registry_key =
  rk_namespace :: namespace
  rk_name :: string
  rk_identity :: nat

datatype registry_error = BadName string | DuplicateKey string | UnknownKey string string

text \<open>
  The pattern \<open>[a-z][a-z0-9]*(?:[._-][a-z0-9]+)*\<close>, with \<open>fullmatch\<close>: one character of look-behind says
  whether a separator may come next.
\<close>

definition name_char :: "char \<Rightarrow> bool" where
  "name_char c \<longleftrightarrow> is_lower c \<or> is_digit c"

definition name_separator :: "char \<Rightarrow> bool" where
  "name_separator c \<longleftrightarrow> c \<in> {CHR ''.'', CHR ''_'', CHR ''-''}"

fun name_rest :: "bool \<Rightarrow> string \<Rightarrow> bool" where
  "name_rest after_char [] = after_char"
| "name_rest after_char (c # cs) =
     ((name_char c \<and> name_rest True cs) \<or> (name_separator c \<and> after_char \<and> name_rest False cs))"

definition registry_name_ok :: "string \<Rightarrow> bool" where
  "registry_name_ok s = (case s of [] \<Rightarrow> False | c # cs \<Rightarrow> is_lower c \<and> name_rest True cs)"

definition new_key :: "namespace \<Rightarrow> string \<Rightarrow> nat \<Rightarrow> registry_error + registry_key" where
  "new_key space name identity =
     (if \<not> registry_name_ok name then Inl (BadName name)
      else Inr \<lparr>rk_namespace = space, rk_name = name, rk_identity = identity\<rparr>)"

definition qualified_name :: "registry_key \<Rightarrow> string" where
  "qualified_name k = namespace_value (rk_namespace k) @ '':'' @ rk_name k"

text \<open>A registry is the list of its entries in the order of registration.\<close>

type_synonym 'c registry = "(registry_key \<times> 'c) list"

fun register_entries :: "(registry_key \<times> 'c) list \<Rightarrow> 'c registry \<Rightarrow> registry_error + 'c registry" where
  "register_entries [] r = Inr r"
| "register_entries ((k, c) # es) r =
     (if qualified_name k \<in> set (map (qualified_name \<circ> fst) r) then Inl (DuplicateKey (qualified_name k))
      else register_entries es (r @ [(k, c)]))"

definition new_registry :: "(registry_key \<times> 'c) list \<Rightarrow> registry_error + 'c registry" where
  "new_registry entries = register_entries entries []"

definition registry_keys :: "'c registry \<Rightarrow> registry_key list" where
  "registry_keys r = sort_key qualified_name (map fst r)"

definition registry_entries :: "'c registry \<Rightarrow> (registry_key \<times> 'c option) list" where
  "registry_entries r = map (\<lambda>k. (k, map_of r k)) (registry_keys r)"

definition resolve_component :: "'c registry \<Rightarrow> registry_key \<Rightarrow> registry_error + 'c" where
  "resolve_component r k =
     (case map_of r k of
        Some c \<Rightarrow> Inr c
      | None \<Rightarrow>
         (let available = py_join '', '' (map qualified_name (registry_keys r)) in
          Inl (UnknownKey (qualified_name k) (if available = [] then ''<none>'' else available))))"

subsection \<open>The catalog\<close>

definition agent_names :: "string list" where
  "agent_names = [''literature_review'', ''comparative_analysis'', ''methodology'', ''synthesis'', ''citation'',
     ''financial_calculator'', ''content_planning'', ''drafting'', ''editing'', ''optimization'', ''data_analysis'',
     ''statistical_modeling'', ''insight_synthesis'', ''financial_analysis'', ''valuation'', ''risk_assessment'',
     ''verification'']"

definition catalog_names :: "(namespace \<times> string) list" where
  "catalog_names =
     map (\<lambda>n. (AgentSpace, map (\<lambda>c. if c = CHR ''_'' then CHR ''-'' else c) n)) agent_names @
     map (Pair SupervisorSpace) [''analytics'', ''content'', ''finance'', ''research''] @
     map (Pair DomainSpace) [''analytics'', ''content'', ''finance'', ''general'', ''multimodal'', ''research'', ''service''] @
     map (Pair ProviderSpace) [''deepseek'', ''gemini'', ''llama'', ''openrouter''] @
     map (Pair WorkflowSpace) [''routed-research'', ''direct-agent'', ''agent-chain'', ''agent-mixture'', ''collaboration-mode'']"

lemma catalog_names_ok: "list_all (registry_name_ok \<circ> snd) catalog_names" "distinct catalog_names"
  by code_simp+

subsection \<open>Qualified names identify\<close>

lemma name_rest_chars: "name_rest b s \<Longrightarrow> c \<in> set s \<Longrightarrow> name_char c \<or> name_separator c"
  by (induction b s rule: name_rest.induct) auto

lemma namespace_value_inj: "namespace_value a = namespace_value b \<longleftrightarrow> a = b"
  by (cases a; cases b) simp_all

lemma qualified_name_inj:
  assumes "qualified_name k = qualified_name q"
  shows "rk_namespace k = rk_namespace q \<and> rk_name k = rk_name q"
proof -
  have "split_on CHR '':'' (namespace_value a @ CHR '':'' # t) = namespace_value a # split_on CHR '':'' t" for a t
    by (rule split_on_append) (cases a; simp)
  then have "namespace_value (rk_namespace k) = namespace_value (rk_namespace q)"
    using arg_cong[OF assms, of "split_on CHR '':''"] by (simp add: qualified_name_def)
  with assms show ?thesis by (simp add: qualified_name_def namespace_value_inj)
qed

lemma register_entries_Inr:
  "register_entries es r = Inr r' \<longleftrightarrow>
     r' = r @ es \<and> distinct (map (qualified_name \<circ> fst) es) \<and>
     set (map (qualified_name \<circ> fst) es) \<inter> set (map (qualified_name \<circ> fst) r) = {}"
  by (induction es r rule: register_entries.induct) auto

lemma new_registry_Inr: "new_registry es = Inr r \<longleftrightarrow> r = es \<and> distinct (map (qualified_name \<circ> fst) es)"
  by (auto simp: new_registry_def register_entries_Inr)

text \<open>
  The registry is a typed lookup by object, not by name. Construction succeeds exactly when no two
  entries share a qualified name; then every registered key resolves to its own component, and any other
  key is refused, even one of the same name that another object was created for; the keys are listed
  once each, in strictly increasing order of their qualified names, whatever the order of registration.
\<close>

theorem registry_exact:
  assumes "new_registry entries = Inr r"
  shows "distinct (map (qualified_name \<circ> fst) entries) \<and>
    (\<forall>k c. resolve_component r k = Inr c \<longleftrightarrow> (k, c) \<in> set entries) \<and>
    set (registry_keys r) = fst ` set entries \<and>
    sorted_wrt (<) (map qualified_name (registry_keys r))"
proof -
  from assms have r: "r = entries" "distinct (map (qualified_name \<circ> fst) entries)" by (simp_all add: new_registry_Inr)
  have keys: "distinct (map fst entries)" using r(2) by (simp add: distinct_map inj_on_def)
  have "resolve_component r k = Inr c \<longleftrightarrow> (k, c) \<in> set entries" for k c
    unfolding resolve_component_def r(1) Let_def map_of_eq_Some_iff[OF keys, symmetric] by (simp split: option.split)
  moreover have "set (registry_keys r) = fst ` set entries" by (simp add: registry_keys_def r(1))
  moreover have "sorted_wrt (<) (map qualified_name (registry_keys r))"
  proof -
    have "distinct (map qualified_name (registry_keys r))"
      using r(2) by (simp add: registry_keys_def r(1) distinct_map inj_on_def) force
    then show ?thesis by (simp add: strict_sorted_iff registry_keys_def)
  qed
  ultimately show ?thesis using r(2) by blast
qed

definition example_keys :: "registry_key list" where
  "example_keys = [\<lparr>rk_namespace = WorkflowSpace, rk_name = ''agent-chain'', rk_identity = 1\<rparr>,
     \<lparr>rk_namespace = AgentSpace, rk_name = ''citation'', rk_identity = 2\<rparr>]"

theorem registry_exact_witness:
  "resolve_component (zip example_keys [1::nat, 2]) (example_keys ! 1) = Inr 2 \<and>
   (\<forall>c. resolve_component (zip example_keys [1::nat, 2]) ((example_keys ! 1)\<lparr>rk_identity := 3\<rparr>) \<noteq> Inr c)"
proof -
  have "new_registry (zip example_keys [1::nat, 2]) = Inr (zip example_keys [1, 2])"
    by (simp add: new_registry_Inr example_keys_def qualified_name_def)
  from registry_exact[OF this] show ?thesis by (simp add: example_keys_def)
qed

end
