(* ===== verification/Evidence_Rows.thy ===== *)
theory Evidence_Rows
  imports Claim_Resolution
begin

text \<open>
  \<^verbatim>\<open>src/repositories/{artifact,evidence}_repository.py\<close> on the tables of
  \<^verbatim>\<open>src/models/db/{artifact,evidence}.py\<close>: rows with the unique keys, foreign keys and checks of their
  tables. Flushing a row checks it against the tables; the caller owns the transaction. \<open>U\<close> reads an
  organization as a UUID.
\<close>

subsection \<open>Rows and tables\<close>

record artifact_row =
  aw_artifact :: artifact
  aw_org :: string

record evidence_row =
  ew_evidence :: evidence
  ew_org :: string
  ew_span :: span

record evidence_tables =
  et_runs :: "string \<rightharpoonup> string option"
  et_tasks :: "string set"
  et_attempts :: "string set"
  et_invocations :: "string set"
  et_artifacts :: "artifact_row list"
  et_evidence :: "evidence_row list"

datatype row_error =
  Tenancy record_error | RunUnknown string | NotYours string | ArtifactUnknown string | DigestMismatch | RowRejected

text \<open>\<open>scope_to_organization\<close>: \<open>None\<close> as an organization leaves a query unscoped.\<close>

definition scope_to_organization :: "(string \<Rightarrow> string option) \<Rightarrow> string option \<Rightarrow> row_error + (string \<Rightarrow> bool)" where
  "scope_to_organization U org =
     (if org = None then Inr (\<lambda>u. True)
      else (case normalize_organization_id U org of Inl e \<Rightarrow> Inl (Tenancy e) | Inr u \<Rightarrow> Inr (\<lambda>v. v = u)))"

definition run_organization :: "evidence_tables \<Rightarrow> string \<Rightarrow> string option" where
  "run_organization ts run = (case et_runs ts run of None \<Rightarrow> None | Some org \<Rightarrow> org)"

definition normalized :: "(string \<Rightarrow> string option) \<Rightarrow> string option \<Rightarrow> row_error + string" where
  "normalized U org =
     (case normalize_organization_id U org of Inl e \<Rightarrow> Inl (Tenancy e) | Inr u \<Rightarrow> Inr u)"

subsection \<open>Artifacts\<close>

definition binding_columns_ok :: "producer_kind \<Rightarrow> prompt_binding option \<Rightarrow> bool" where
  "binding_columns_ok kind binding \<longleftrightarrow>
     (kind = SystemProducer \<and> binding = None) \<or> (kind = ModelTurn \<and> binding \<noteq> None)"

definition artifact_row_rejected :: "evidence_tables \<Rightarrow> artifact_row \<Rightarrow> bool" where
  "artifact_row_rejected ts r \<longleftrightarrow>
     (let a = aw_artifact r in
      list_ex (\<lambda>q. ar_id (aw_artifact q) = ar_id a) (et_artifacts ts) \<or>
      et_runs ts (ar_run_id a) = None \<or> some_and (\<lambda>t. t \<notin> et_tasks ts) (ar_task_id a) \<or>
      some_and (\<lambda>t. t \<notin> et_attempts ts) (ar_attempt_id a) \<or>
      length (ar_content_sha256 a) \<noteq> 64 \<or> \<not> binding_columns_ok (ar_producer_kind a) (ar_prompt_binding a))"

definition create_artifact :: "(string \<Rightarrow> string option) \<Rightarrow> string option \<Rightarrow> artifact \<Rightarrow> evidence_tables \<Rightarrow>
    row_error + evidence_tables" where
  "create_artifact U org a ts =
     bind_result (normalized U org) (\<lambda>u.
       let r = \<lparr>aw_artifact = a, aw_org = u\<rparr> in
       if artifact_row_rejected ts r then Inl RowRejected
       else Inr (ts\<lparr>et_artifacts := et_artifacts ts @ [r]\<rparr>))"

definition get_artifact :: "(string \<Rightarrow> string option) \<Rightarrow> string option \<Rightarrow> string \<Rightarrow> evidence_tables \<Rightarrow>
    row_error + artifact_row option" where
  "get_artifact U org aid ts =
     bind_result (scope_to_organization U org) (\<lambda>visible.
       Inr (find (\<lambda>r. ar_id (aw_artifact r) = aid \<and> visible (aw_org r)) (et_artifacts ts)))"

definition list_artifacts_for_run :: "(string \<Rightarrow> string option) \<Rightarrow> string option \<Rightarrow> string \<Rightarrow> evidence_tables \<Rightarrow>
    row_error + artifact_row list" where
  "list_artifacts_for_run U org run ts =
     bind_result (scope_to_organization U org) (\<lambda>visible.
       Inr (sort_key (\<lambda>r. ar_created_at (aw_artifact r))
         (filter (\<lambda>r. ar_run_id (aw_artifact r) = run \<and> visible (aw_org r)) (et_artifacts ts))))"

definition record_status_transition :: "(string \<Rightarrow> string option) \<Rightarrow> string option \<Rightarrow> string \<Rightarrow> artifact_status \<Rightarrow>
    pyval option \<Rightarrow> evidence_tables \<Rightarrow> row_error + evidence_tables" where
  "record_status_transition U org aid status metadata ts =
     bind_result (normalized U org) (\<lambda>u.
       case find (\<lambda>r. ar_id (aw_artifact r) = aid) (et_artifacts ts) of
         None \<Rightarrow> Inl (ArtifactUnknown aid)
       | Some r \<Rightarrow>
           if aw_org r \<noteq> u then Inl (NotYours aid)
           else Inr (ts\<lparr>et_artifacts := map (\<lambda>q. if ar_id (aw_artifact q) = aid
             then q\<lparr>aw_artifact := (aw_artifact q)\<lparr>ar_status := status,
               ar_metadata := (case metadata of None \<Rightarrow> ar_metadata (aw_artifact q) | Some m \<Rightarrow> m)\<rparr>\<rparr>
             else q) (et_artifacts ts)\<rparr>))"

subsection \<open>Evidence\<close>

definition bigint_limit :: nat where
  "bigint_limit = 2 ^ 63"

definition evidence_row_rejected :: "evidence_tables \<Rightarrow> evidence_row \<Rightarrow> bool" where
  "evidence_row_rejected ts r \<longleftrightarrow>
     (let e = ew_evidence r; s = ew_span r in
      list_ex (\<lambda>q. ev_id (ew_evidence q) = ev_id e) (et_evidence ts) \<or>
      list_ex (\<lambda>q. ev_run_id (ew_evidence q) = ev_run_id e \<and>
         ev_snapshot_artifact_id (ew_evidence q) = ev_snapshot_artifact_id e \<and>
         ev_locator (ew_evidence q) = ev_locator e) (et_evidence ts) \<or>
      ev_task_id e \<notin> et_tasks ts \<or> some_and (\<lambda>t. t \<notin> et_invocations ts) (ev_producer_invocation_id e) \<or>
      length (ev_content_sha256 e) \<noteq> 64 \<or> ev_locator e = [] \<or> max_locator_length < length (ev_locator e) \<or>
      sp_scheme s \<notin> canonical_schemes \<or> \<not> sp_start s < sp_end s \<or> bigint_limit \<le> sp_end s \<or>
      (sp_scheme s = ''line'' \<and> sp_start s = 0) \<or>
      \<not> binding_columns_ok (ev_producer_kind e) (ev_prompt_binding e))"

definition record_evidence :: "(string \<Rightarrow> string option) \<Rightarrow> string option \<Rightarrow> evidence \<Rightarrow> evidence_tables \<Rightarrow>
    row_error + evidence_tables" where
  "record_evidence U org e ts =
     bind_result (normalized U org) (\<lambda>u.
       case run_organization ts (ev_run_id e) of
         None \<Rightarrow> Inl (RunUnknown (ev_run_id e))
       | Some run_org \<Rightarrow>
           if run_org \<noteq> u then Inl (NotYours (ev_run_id e))
           else
            (case find (\<lambda>r. ar_id (aw_artifact r) = ev_snapshot_artifact_id e \<and> aw_org r = u \<and>
                    ar_run_id (aw_artifact r) = ev_run_id e) (et_artifacts ts) of
               None \<Rightarrow> Inl (ArtifactUnknown (ev_snapshot_artifact_id e))
             | Some r \<Rightarrow>
                 if ar_content_sha256 (aw_artifact r) \<noteq> ev_content_sha256 e then Inl DigestMismatch
                 else
                  (case parse_locator (ev_locator e) of
                     Inl x \<Rightarrow> Inl RowRejected
                   | Inr l \<Rightarrow>
                      (let row = \<lparr>ew_evidence = e, ew_org = u, ew_span = lo_canonical l\<rparr> in
                       if evidence_row_rejected ts row then Inl RowRejected
                       else Inr (ts\<lparr>et_evidence := et_evidence ts @ [row]\<rparr>)))))"

definition get_evidence :: "(string \<Rightarrow> string option) \<Rightarrow> string option \<Rightarrow> string \<Rightarrow> evidence_tables \<Rightarrow>
    row_error + evidence_row option" where
  "get_evidence U org eid ts =
     bind_result (scope_to_organization U org) (\<lambda>visible.
       Inr (find (\<lambda>r. ev_id (ew_evidence r) = eid \<and> visible (ew_org r)) (et_evidence ts)))"

definition list_evidence_for_run :: "(string \<Rightarrow> string option) \<Rightarrow> string option \<Rightarrow> string \<Rightarrow> evidence_tables \<Rightarrow>
    row_error + evidence_row list" where
  "list_evidence_for_run U org run ts =
     bind_result (scope_to_organization U org) (\<lambda>visible.
       Inr (sort_key (\<lambda>r. ev_acquired_at (ew_evidence r))
         (filter (\<lambda>r. ev_run_id (ew_evidence r) = run \<and> visible (ew_org r)) (et_evidence ts))))"

subsection \<open>The invariant of the tables\<close>

text \<open>
  Artifact identifiers are unique, and every evidence row cites an artifact of its own run and tenant
  whose digest it repeats, with a span that its locator denotes.
\<close>

definition evidence_backed :: "evidence_tables \<Rightarrow> evidence_row \<Rightarrow> bool" where
  "evidence_backed ts w \<longleftrightarrow>
     (let e = ew_evidence w in
      (\<exists>r \<in> set (et_artifacts ts). ar_id (aw_artifact r) = ev_snapshot_artifact_id e \<and> aw_org r = ew_org w \<and>
         ar_run_id (aw_artifact r) = ev_run_id e \<and> ar_content_sha256 (aw_artifact r) = ev_content_sha256 e) \<and>
      run_organization ts (ev_run_id e) = Some (ew_org w) \<and>
      (\<exists>l. parse_locator (ev_locator e) = Inr l \<and> ew_span w = lo_canonical l))"

definition rows_sound :: "evidence_tables \<Rightarrow> bool" where
  "rows_sound ts \<longleftrightarrow>
     distinct (map (ar_id \<circ> aw_artifact) (et_artifacts ts)) \<and>
     distinct (map (ev_id \<circ> ew_evidence) (et_evidence ts)) \<and>
     distinct (map (\<lambda>w. (ev_run_id (ew_evidence w), ev_snapshot_artifact_id (ew_evidence w), ev_locator (ew_evidence w)))
       (et_evidence ts)) \<and>
     (\<forall>w \<in> set (et_evidence ts). evidence_backed ts w)"

lemma evidence_backed_mono:
  assumes "evidence_backed ts w" "set (et_artifacts ts) \<subseteq> set (et_artifacts ts')" "et_runs ts' = et_runs ts"
  shows "evidence_backed ts' w"
  using assms unfolding evidence_backed_def Let_def run_organization_def by fastforce

lemma create_artifact_Inr:
  "create_artifact U org a ts = Inr ts' \<longleftrightarrow>
     (\<exists>u. normalized U org = Inr u \<and> \<not> artifact_row_rejected ts \<lparr>aw_artifact = a, aw_org = u\<rparr> \<and>
        ts' = ts\<lparr>et_artifacts := et_artifacts ts @ [\<lparr>aw_artifact = a, aw_org = u\<rparr>]\<rparr>)"
  by (auto simp: create_artifact_def Let_def)

lemma create_artifact_sound:
  assumes "create_artifact U org a ts = Inr ts'" "rows_sound ts"
  shows "rows_sound ts'"
proof -
  from assms(1) obtain u where ok: "\<not> artifact_row_rejected ts \<lparr>aw_artifact = a, aw_org = u\<rparr>"
    and ts': "ts' = ts\<lparr>et_artifacts := et_artifacts ts @ [\<lparr>aw_artifact = a, aw_org = u\<rparr>]\<rparr>"
    unfolding create_artifact_Inr by blast
  have "ar_id a \<notin> set (map (ar_id \<circ> aw_artifact) (et_artifacts ts))"
    using ok by (auto simp: artifact_row_rejected_def Let_def list_ex_iff)
  moreover have "evidence_backed ts' w" if "evidence_backed ts w" for w
    by (rule evidence_backed_mono[OF that]) (auto simp: ts')
  ultimately show ?thesis using assms(2) by (simp add: rows_sound_def ts')
qed

lemma record_evidence_InrE:
  assumes "record_evidence U org e ts = Inr ts'"
  obtains u r l where "normalized U org = Inr u" "run_organization ts (ev_run_id e) = Some u"
    "find (\<lambda>r. ar_id (aw_artifact r) = ev_snapshot_artifact_id e \<and> aw_org r = u \<and>
        ar_run_id (aw_artifact r) = ev_run_id e) (et_artifacts ts) = Some r"
    "ar_content_sha256 (aw_artifact r) = ev_content_sha256 e" "parse_locator (ev_locator e) = Inr l"
    "\<not> evidence_row_rejected ts \<lparr>ew_evidence = e, ew_org = u, ew_span = lo_canonical l\<rparr>"
    "ts' = ts\<lparr>et_evidence := et_evidence ts @ [\<lparr>ew_evidence = e, ew_org = u, ew_span = lo_canonical l\<rparr>]\<rparr>"
proof -
  from assms obtain u where u: "normalized U org = Inr u" unfolding record_evidence_def by auto
  note run = assms[unfolded record_evidence_def u bind_result.simps]
  from run have own: "run_organization ts (ev_run_id e) = Some u"
    by (cases "run_organization ts (ev_run_id e)") (simp_all split: if_splits)
  note run = run[unfolded own option.case, simplified]
  from run obtain r where r: "find (\<lambda>r. ar_id (aw_artifact r) = ev_snapshot_artifact_id e \<and> aw_org r = u \<and>
        ar_run_id (aw_artifact r) = ev_run_id e) (et_artifacts ts) = Some r"
    by (cases "find (\<lambda>r. ar_id (aw_artifact r) = ev_snapshot_artifact_id e \<and> aw_org r = u \<and>
        ar_run_id (aw_artifact r) = ev_run_id e) (et_artifacts ts)") simp_all
  note run = run[unfolded r option.case]
  from run obtain l where l: "parse_locator (ev_locator e) = Inr l"
    by (cases "parse_locator (ev_locator e)") (simp_all split: if_splits)
  from run l show ?thesis
    by (intro that[OF u own r _ l]) (simp_all add: Let_def split: if_splits)
qed

lemma record_evidence_sound:
  assumes "record_evidence U org e ts = Inr ts'" "rows_sound ts"
  shows "rows_sound ts'"
proof -
  from assms(1) obtain u r l where n: "run_organization ts (ev_run_id e) = Some u"
    "find (\<lambda>r. ar_id (aw_artifact r) = ev_snapshot_artifact_id e \<and> aw_org r = u \<and>
        ar_run_id (aw_artifact r) = ev_run_id e) (et_artifacts ts) = Some r"
    "ar_content_sha256 (aw_artifact r) = ev_content_sha256 e" "parse_locator (ev_locator e) = Inr l"
    "\<not> evidence_row_rejected ts \<lparr>ew_evidence = e, ew_org = u, ew_span = lo_canonical l\<rparr>"
    "ts' = ts\<lparr>et_evidence := et_evidence ts @ [\<lparr>ew_evidence = e, ew_org = u, ew_span = lo_canonical l\<rparr>]\<rparr>"
    by (rule record_evidence_InrE)
  have r: "r \<in> set (et_artifacts ts)" "ar_id (aw_artifact r) = ev_snapshot_artifact_id e" "aw_org r = u"
    "ar_run_id (aw_artifact r) = ev_run_id e"
    using n(2) by (auto simp: find_Some_iff)
  have new: "evidence_backed ts' \<lparr>ew_evidence = e, ew_org = u, ew_span = lo_canonical l\<rparr>"
    using r n(1,3,4) by (auto simp: evidence_backed_def run_organization_def n(6))
  have old: "\<forall>w \<in> set (et_evidence ts). evidence_backed ts' w"
    using assms(2) by (auto simp: rows_sound_def n(6) intro: evidence_backed_mono)
  have "ev_id e \<notin> set (map (ev_id \<circ> ew_evidence) (et_evidence ts))"
    "(ev_run_id e, ev_snapshot_artifact_id e, ev_locator e) \<notin> set (map (\<lambda>w. (ev_run_id (ew_evidence w),
        ev_snapshot_artifact_id (ew_evidence w), ev_locator (ew_evidence w))) (et_evidence ts))"
    using n(5) by (auto simp: evidence_row_rejected_def Let_def list_ex_iff)
  with assms(2) new old show ?thesis by (simp add: rows_sound_def n(6))
qed

lemma status_transition_sound:
  assumes "record_status_transition U org aid status metadata ts = Inr ts'" "rows_sound ts"
  shows "rows_sound ts'"
proof -
  let ?f = "\<lambda>q. if ar_id (aw_artifact q) = aid
      then q\<lparr>aw_artifact := (aw_artifact q)\<lparr>ar_status := status,
        ar_metadata := (case metadata of None \<Rightarrow> ar_metadata (aw_artifact q) | Some m \<Rightarrow> m)\<rparr>\<rparr> else q"
  have ts': "ts' = ts\<lparr>et_artifacts := map ?f (et_artifacts ts)\<rparr>"
    using assms(1) by (auto simp: record_status_transition_def split: option.splits if_splits)
  have same: "ar_id (aw_artifact (?f q)) = ar_id (aw_artifact q)" "aw_org (?f q) = aw_org q"
    "ar_run_id (aw_artifact (?f q)) = ar_run_id (aw_artifact q)"
    "ar_content_sha256 (aw_artifact (?f q)) = ar_content_sha256 (aw_artifact q)" for q by simp_all
  have backed: "evidence_backed ts' w" if w: "evidence_backed ts w" for w
  proof -
    from w obtain r where r: "r \<in> set (et_artifacts ts)" "ar_id (aw_artifact r) = ev_snapshot_artifact_id (ew_evidence w)"
        "aw_org r = ew_org w" "ar_run_id (aw_artifact r) = ev_run_id (ew_evidence w)"
        "ar_content_sha256 (aw_artifact r) = ev_content_sha256 (ew_evidence w)"
      by (auto simp: evidence_backed_def Let_def)
    have fr: "?f r \<in> set (et_artifacts ts')" using r(1) unfolding ts' by simp
    have "\<exists>q \<in> set (et_artifacts ts'). ar_id (aw_artifact q) = ev_snapshot_artifact_id (ew_evidence w) \<and>
        aw_org q = ew_org w \<and> ar_run_id (aw_artifact q) = ev_run_id (ew_evidence w) \<and>
        ar_content_sha256 (aw_artifact q) = ev_content_sha256 (ew_evidence w)"
      by (rule bexI[OF _ fr])
        (intro conjI trans[OF same(1) r(2)] trans[OF same(2) r(3)] trans[OF same(3) r(4)] trans[OF same(4) r(5)])
    moreover have "run_organization ts' = run_organization ts" by (simp add: ts' run_organization_def fun_eq_iff)
    ultimately show ?thesis using w by (simp add: evidence_backed_def Let_def)
  qed
  have ids: "map (ar_id \<circ> aw_artifact) (et_artifacts ts') = map (ar_id \<circ> aw_artifact) (et_artifacts ts)"
    and rest: "et_evidence ts' = et_evidence ts"
    unfolding ts' by simp_all
  show ?thesis using assms(2) backed unfolding rows_sound_def ids rest by blast
qed

end
