(* ===== verification/Sources.thy ===== *)
theory Sources
  imports Trust Json_Values
begin

text \<open>
  \<^verbatim>\<open>src/core/acquisition/sources.py\<close>: the taxonomy of sources, the trust table keyed by it with the
  check made at import, and what a source said about reuse.
\<close>

subsection \<open>Source types and their trust\<close>

datatype source_type = WebPage | AcademicPaper | SearchResult | ApiResponse | UploadedDocument

definition source_types_all :: "source_type list" where
  "source_types_all = [WebPage, AcademicPaper, SearchResult, ApiResponse, UploadedDocument]"

fun source_type_value :: "source_type \<Rightarrow> string" where
  "source_type_value WebPage = ''web_page''"
| "source_type_value AcademicPaper = ''academic_paper''"
| "source_type_value SearchResult = ''search_result''"
| "source_type_value ApiResponse = ''api_response''"
| "source_type_value UploadedDocument = ''uploaded_document''"

definition trust_by_source_type :: "(source_type \<times> trust) list" where
  "trust_by_source_type =
     [(WebPage, ExternalUntrusted), (AcademicPaper, ExternalUntrusted), (SearchResult, ExternalUntrusted),
      (ApiResponse, ExternalUntrusted), (UploadedDocument, UserSupplied)]"

datatype table_error = NoLabel "string list" | TrustedLabel "string list"

definition validate_trust_table :: "(source_type \<times> trust) list \<Rightarrow> table_error option" where
  "validate_trust_table table =
     (let missing = sort (map source_type_value (filter (\<lambda>s. map_of table s = None) source_types_all));
          elevated = sort (map (source_type_value \<circ> fst) (filter (is_trusted_tier \<circ> snd) table))
      in checks [(missing \<noteq> [], NoLabel missing), (elevated \<noteq> [], TrustedLabel elevated)])"

text \<open>
  An argument where a \<open>SourceType\<close> is expected: a member, or another value, such as a bare string
  that compares equal to one. \<open>None\<close> is the \<open>TypeError\<close>.
\<close>

datatype source_argument = Member source_type | NotMember

definition trust_for_source :: "source_argument \<Rightarrow> trust option" where
  "trust_for_source arg =
     (case arg of NotMember \<Rightarrow> None | Member s \<Rightarrow> map_of trust_by_source_type s)"

lemma source_types_all [simp]: "s \<in> set source_types_all"
  by (cases s) (simp_all add: source_types_all_def)

text \<open>Any table that passes the check is total and keeps every source out of the trusted tier.\<close>

lemma validated_table:
  assumes "validate_trust_table table = None"
  shows "\<exists>t. map_of table s = Some t \<and> \<not> is_trusted_tier t"
proof -
  have sorted_Nil: "sort xs = [] \<longleftrightarrow> xs = []" for xs :: "string list"
    by (metis set_empty set_sort)
  from assms have none: "filter (\<lambda>s. map_of table s = None) source_types_all = []"
    and low: "filter (is_trusted_tier \<circ> snd) table = []"
    by (simp_all add: validate_trust_table_def Let_def sorted_Nil)
  from none obtain t where t: "map_of table s = Some t"
    by (metis (mono_tags, lifting) filter_empty_conv not_None_eq source_types_all)
  then have "(s, t) \<in> set table" by (rule map_of_SomeD)
  with low t show ?thesis by (auto simp: filter_empty_conv)
qed

lemma trust_table_valid: "validate_trust_table trust_by_source_type = None"
  by code_simp

lemma trust_for_member: "\<exists>t. trust_for_source (Member s) = Some t \<and> \<not> is_trusted_tier t"
  using validated_table[OF trust_table_valid, of s] by (simp add: trust_for_source_def)

lemma trust_for_source_untrusted: "trust_for_source arg = Some t \<Longrightarrow> \<not> is_trusted_tier t"
  using trust_for_member[of "case arg of Member s \<Rightarrow> s"] by (cases arg) (auto simp: trust_for_source_def)

subsection \<open>Licenses\<close>

datatype license_declaration = HttpHeader | MetaTag | ApiField | Manifest | Undeclared

fun license_declaration_value :: "license_declaration \<Rightarrow> string" where
  "license_declaration_value HttpHeader = ''http_header''"
| "license_declaration_value MetaTag = ''meta_tag''"
| "license_declaration_value ApiField = ''api_field''"
| "license_declaration_value Manifest = ''manifest''"
| "license_declaration_value Undeclared = ''undeclared''"

record source_license =
  li_identifier :: "string option"
  li_declared_by :: license_declaration
  li_statement :: "string option"

datatype license_error = UndeclaredNamesOne | DeclaredNamesNone license_declaration

definition license_violation :: "source_license \<Rightarrow> license_error option" where
  "license_violation l =
     (if li_declared_by l = Undeclared then checks [(li_identifier l \<noteq> None, UndeclaredNamesOne)]
      else checks [(li_identifier l = None, DeclaredNamesNone (li_declared_by l))])"

definition new_license :: "string option \<Rightarrow> license_declaration \<Rightarrow> string option \<Rightarrow> license_error + source_license" where
  "new_license identifier declared_by statement =
     (let l = \<lparr>li_identifier = identifier, li_declared_by = declared_by, li_statement = statement\<rparr>
      in raise_or (license_violation l) l)"

definition undeclared_license :: source_license where
  "undeclared_license = \<lparr>li_identifier = None, li_declared_by = Undeclared, li_statement = None\<rparr>"

definition permits_redistribution_by_default :: "source_license \<Rightarrow> bool" where
  "permits_redistribution_by_default l = False"

definition optional_str :: "string option \<Rightarrow> pyval" where
  "optional_str m = (case m of None \<Rightarrow> VNone | Some s \<Rightarrow> VStr s)"

definition license_metadata :: "source_license \<Rightarrow> pyval" where
  "license_metadata l =
     VDict [(''identifier'', optional_str (li_identifier l)),
            (''declared_by'', VStr (license_declaration_value (li_declared_by l))),
            (''statement'', optional_str (li_statement l))]"

lemma license_violation_None [simp]:
  "license_violation l = None \<longleftrightarrow> (li_declared_by l = Undeclared \<longleftrightarrow> li_identifier l = None)"
  by (auto simp: license_violation_def)

lemma undeclared_license_ok [simp]: "license_violation undeclared_license = None"
  by (simp add: undeclared_license_def)

lemma license_declaration_value_inj: "license_declaration_value a = license_declaration_value b \<longleftrightarrow> a = b"
  by (cases a; cases b) simp_all

end
