(* ===== verification/Snapshots.thy ===== *)
theory Snapshots
  imports Contract_Base "HOL-Library.Sublist"
begin

text \<open>
  \<^verbatim>\<open>src/core/acquisition/snapshots.py\<close>: the write-once, content-addressed store of acquired bytes. A
  file system is a map from absolute paths (lists of names) to nodes, without symbolic links; SHA-256
  is \<open>H\<close>. \<open>put\<close> is modelled twice: as the function a single caller sees, and as its system calls, so
  that concurrent and crashing writers are covered. \<open>get\<close> is modelled from the characters of its
  argument on: \<open>urlparse\<close>, \<open>unquote\<close> and \<open>Path.resolve\<close> are written out for what the store uses of them.
\<close>

subsection \<open>Files and paths\<close>

type_synonym path = "string list"

text \<open>A regular file has its bytes and its permission bits.\<close>

datatype fs_node = Regular string nat | Folder

type_synonym filesystem = "path \<rightharpoonup> fs_node"

definition read_only_mode :: nat where "read_only_mode = 292"
definition private_mode :: nat where "private_mode = 384"

datatype snapshot_error = EmptySnapshot | SnapshotIntegrity | SnapshotMissing | BadUri | OsError

definition path_text :: "path \<Rightarrow> string" where
  "path_text p = (if p = [] then ''/'' else concat (map (\<lambda>c. CHR ''/'' # c) p))"

definition path_for :: "path \<Rightarrow> digest \<Rightarrow> path" where
  "path_for base d = base @ [take 2 d, d]"

definition to_uri :: "path \<Rightarrow> string" where
  "to_uri p = ''file://'' @ path_text p"

fun is_regular :: "fs_node option \<Rightarrow> bool" where
  "is_regular (Some (Regular b m)) = True"
| "is_regular _ = False"

definition below_file :: "filesystem \<Rightarrow> path \<Rightarrow> bool" where
  "below_file fs p = list_ex (\<lambda>k. is_regular (fs (take k p))) [0..<length p]"

definition read_bytes :: "filesystem \<Rightarrow> path \<Rightarrow> snapshot_error + string" where
  "read_bytes fs p =
     (case fs p of
        Some (Regular b m) \<Rightarrow> Inr b
      | Some Folder \<Rightarrow> Inl OsError
      | None \<Rightarrow> if below_file fs p then Inl OsError else Inl SnapshotMissing)"

text \<open>\<open>mkdir(parents=True, exist_ok=True)\<close>; \<open>None\<close> is an \<open>OSError\<close>.\<close>

fun make_folders :: "path \<Rightarrow> path \<Rightarrow> filesystem \<Rightarrow> filesystem option" where
  "make_folders parents [] fs = Some fs"
| "make_folders parents (c # cs) fs =
     (case fs (parents @ [c]) of
        Some (Regular b m) \<Rightarrow> None
      | Some Folder \<Rightarrow> make_folders (parents @ [c]) cs fs
      | None \<Rightarrow> make_folders (parents @ [c]) cs (fs(parents @ [c] \<mapsto> Folder)))"

subsection \<open>Reading an address\<close>

text \<open>\<open>urlsplit\<close>: cleaning, scheme, authority, then the path up to a fragment or query.\<close>

definition url_clean :: "string \<Rightarrow> string" where
  "url_clean url = filter (\<lambda>c. c \<notin> {CHR 0x09, CHR 0x0A, CHR 0x0D}) (dropWhile (\<lambda>c. code c \<le> 32) url)"

definition scheme_char :: "char \<Rightarrow> bool" where
  "scheme_char c \<longleftrightarrow> is_upper c \<or> is_lower c \<or> is_digit c \<or> c \<in> set ''+-.''"

definition split_scheme :: "string \<Rightarrow> string \<times> string" where
  "split_scheme url =
     (let s = takeWhile (\<lambda>c. c \<noteq> CHR '':'') url in
      if CHR '':'' \<in> set url \<and> s \<noteq> [] \<and> (is_upper (hd s) \<or> is_lower (hd s)) \<and> list_all scheme_char s
      then (py_lower s, drop (length s + 1) url) else ([], url))"

definition split_authority :: "string \<Rightarrow> string \<times> string" where
  "split_authority url =
     (if starts_with ''//'' url
      then (takeWhile (\<lambda>c. c \<notin> set ''/?#'') (drop 2 url), dropWhile (\<lambda>c. c \<notin> set ''/?#'') (drop 2 url))
      else ([], url))"

definition url_path :: "string \<Rightarrow> string" where
  "url_path rest = takeWhile (\<lambda>c. c \<noteq> CHR ''?'') (takeWhile (\<lambda>c. c \<noteq> CHR ''#'') rest)"

text \<open>\<open>N\<close> tells the authorities that \<open>urlsplit\<close> refuses with a \<open>ValueError\<close>; it checks none when empty.\<close>

definition urlparse :: "(string \<Rightarrow> bool) \<Rightarrow> string \<Rightarrow> (string \<times> string) option" where
  "urlparse N uri =
     (let (scheme, rest) = split_scheme (url_clean uri); (authority, tail) = split_authority rest in
      if authority \<noteq> [] \<and> N authority then None else Some (scheme, url_path tail))"

definition hex_digit :: "char \<Rightarrow> nat option" where
  "hex_digit c =
     (if is_digit c then Some (code c - 48)
      else if 65 \<le> code c \<and> code c \<le> 70 then Some (code c - 55)
      else if 97 \<le> code c \<and> code c \<le> 102 then Some (code c - 87) else None)"

fun percent_decode :: "string \<Rightarrow> string" where
  "percent_decode [] = []"
| "percent_decode (c # a # b # cs) =
     (case (c = CHR ''%'', hex_digit a, hex_digit b) of
        (True, Some x, Some y) \<Rightarrow> char_of (16 * x + y) # percent_decode cs
      | _ \<Rightarrow> c # percent_decode (a # b # cs))"
| "percent_decode (c # cs) = c # percent_decode cs"

definition ascii :: "char \<Rightarrow> bool" where
  "ascii c \<longleftrightarrow> code c < 128"

text \<open>\<open>D\<close> is \<open>bytes.decode("utf-8", errors="replace")\<close>, applied to each run of ASCII characters.\<close>

function unquote_runs :: "(string \<Rightarrow> string) \<Rightarrow> string \<Rightarrow> string" where
  "unquote_runs D [] = []"
| "unquote_runs D (c # cs) =
     (if ascii c
      then D (percent_decode (takeWhile ascii (c # cs))) @ unquote_runs D (dropWhile ascii (c # cs))
      else c # unquote_runs D cs)"
  by pat_completeness auto
termination
  by (relation "measure (length \<circ> snd)") (auto simp: le_imp_less_Suc length_dropWhile_le)

definition unquote :: "(string \<Rightarrow> string) \<Rightarrow> string \<Rightarrow> string" where
  "unquote D s = (if CHR ''%'' \<notin> set s then s else unquote_runs D s)"

text \<open>\<open>Path(s).resolve()\<close>; \<open>None\<close> is the \<open>ValueError\<close> for an embedded null character.\<close>

definition enter :: "string \<Rightarrow> path \<Rightarrow> path" where
  "enter c p = (if c = [] \<or> c = ''.'' then p else if c = ''..'' then butlast p else p @ [c])"

definition real_path :: "path \<Rightarrow> string \<Rightarrow> path option" where
  "real_path cwd s =
     (if CHR 0x00 \<in> set s then None
      else Some (fold enter (split_on CHR ''/'' s) (if starts_with ''/'' s then [] else cwd)))"

record uri_reader =
  ur_base :: path
  ur_cwd :: path
  ur_refused :: "string \<Rightarrow> bool"
  ur_decode :: "string \<Rightarrow> string"

definition resolve_uri :: "uri_reader \<Rightarrow> string \<Rightarrow> snapshot_error + path" where
  "resolve_uri ur uri =
     (case urlparse (ur_refused ur) uri of
        None \<Rightarrow> Inl BadUri
      | Some (scheme, p) \<Rightarrow>
          if scheme \<noteq> ''file'' then Inl SnapshotIntegrity
          else
           (case real_path (ur_cwd ur) (unquote (ur_decode ur) p) of
              None \<Rightarrow> Inl BadUri
            | Some candidate \<Rightarrow>
                if prefix (ur_base ur) candidate then Inr candidate else Inl SnapshotIntegrity))"

definition file_name :: "path \<Rightarrow> string" where
  "file_name p = (if p = [] then [] else last p)"

definition get :: "(string \<Rightarrow> digest) \<Rightarrow> uri_reader \<Rightarrow> filesystem \<Rightarrow> string \<Rightarrow> snapshot_error + string" where
  "get H ur fs uri =
     bind_result (resolve_uri ur uri) (\<lambda>p.
     bind_result (read_bytes fs p) (\<lambda>data.
       if H data \<noteq> file_name p then Inl SnapshotIntegrity else Inr data))"

subsection \<open>Storing, as one caller sees it\<close>

definition put_check :: "(string \<Rightarrow> digest) \<Rightarrow> path \<Rightarrow> filesystem \<Rightarrow> string \<Rightarrow> (snapshot_error + string) option" where
  "put_check H base fs data =
     (if data = [] then Some (Inl EmptySnapshot)
      else
       (case fs (path_for base (H data)) of
          Some (Regular b m) \<Rightarrow>
            Some (if b \<noteq> data then Inl SnapshotIntegrity else Inr (to_uri (path_for base (H data))))
        | Some Folder \<Rightarrow> Some (Inl OsError)
        | None \<Rightarrow> None))"

definition bucket :: "(string \<Rightarrow> digest) \<Rightarrow> path \<Rightarrow> string \<Rightarrow> path" where
  "bucket H base data = base @ [take 2 (H data)]"

definition temp_path :: "(string \<Rightarrow> digest) \<Rightarrow> path \<Rightarrow> string \<Rightarrow> string \<Rightarrow> path" where
  "temp_path H base data tag = bucket H base data @ [''.partial-'' @ tag]"

text \<open>The tag is the choice of \<open>mkstemp\<close>; here no system call fails after the directories exist.\<close>

definition put :: "(string \<Rightarrow> digest) \<Rightarrow> path \<Rightarrow> string \<Rightarrow> filesystem \<Rightarrow> string \<Rightarrow> (snapshot_error + string) \<times> filesystem" where
  "put H base tag fs data =
     (case put_check H base fs data of
        Some r \<Rightarrow> (r, fs)
      | None \<Rightarrow>
         (case make_folders [] (bucket H base data) fs of
            None \<Rightarrow> (Inl OsError, fs)
          | Some fs1 \<Rightarrow>
             (let p = path_for base (H data) in
              (Inr (to_uri p), fs1(temp_path H base data tag := None, p \<mapsto> Regular data read_only_mode)))))"

subsection \<open>Storing, call by call\<close>

datatype put_phase =
  Begun | Absent | Ready | Writing path | Synced path | Sealed path
| Placed string | Refused snapshot_error | Crashed

fun put_settled :: "put_phase \<Rightarrow> bool" where
  "put_settled (Placed uri) = True"
| "put_settled (Refused e) = True"
| "put_settled _ = False"

text \<open>
  One system call of one \<open>put\<close> of \<open>data\<close>. A write may be short. Any call after \<open>mkstemp\<close> may fail, and
  then the temporary file is unlinked; a process may die at any moment and leave it behind.
\<close>

inductive put_step :: "(string \<Rightarrow> digest) \<Rightarrow> path \<Rightarrow> string \<Rightarrow> filesystem \<Rightarrow> put_phase \<Rightarrow> filesystem \<Rightarrow> put_phase \<Rightarrow> bool"
  for H base data where
  check_settled: "put_check H base fs data = Some r \<Longrightarrow>
    put_step H base data fs Begun fs (case r of Inl e \<Rightarrow> Refused e | Inr uri \<Rightarrow> Placed uri)"
| check_absent: "put_check H base fs data = None \<Longrightarrow> put_step H base data fs Begun fs Absent"
| folders: "make_folders [] (bucket H base data) fs = Some fs' \<Longrightarrow> put_step H base data fs Absent fs' Ready"
| no_folders: "make_folders [] (bucket H base data) fs = None \<Longrightarrow> put_step H base data fs Absent fs (Refused OsError)"
| make_temp: "fs (temp_path H base data tag) = None \<Longrightarrow>
    put_step H base data fs Ready
      (fs(temp_path H base data tag \<mapsto> Regular [] private_mode)) (Writing (temp_path H base data tag))"
| no_temp: "put_step H base data fs Ready fs (Refused OsError)"
| write_some: "put_step H base data fs (Writing t) (fs(t \<mapsto> Regular (take k data) private_mode)) (Writing t)"
| write_all: "put_step H base data fs (Writing t) (fs(t \<mapsto> Regular data private_mode)) (Synced t)"
| seal: "fs t = Some (Regular b m) \<Longrightarrow>
    put_step H base data fs (Synced t) (fs(t \<mapsto> Regular b read_only_mode)) (Sealed t)"
| publish: "fs (path_for base (H data)) \<noteq> Some Folder \<Longrightarrow>
    put_step H base data fs (Sealed t) (fs(path_for base (H data) := fs t, t := None))
      (Placed (to_uri (path_for base (H data))))"
| fail_writing: "put_step H base data fs (Writing t) (fs(t := None)) (Refused OsError)"
| fail_synced: "put_step H base data fs (Synced t) (fs(t := None)) (Refused OsError)"
| fail_sealed: "put_step H base data fs (Sealed t) (fs(t := None)) (Refused OsError)"
| crash: "\<not> put_settled ph \<Longrightarrow> put_step H base data fs ph fs Crashed"

text \<open>Any number of callers; \<open>D\<close> are the contents they ever bring.\<close>

type_synonym snapshot_system = "filesystem \<times> (string \<times> put_phase) list"

inductive store_step :: "(string \<Rightarrow> digest) \<Rightarrow> path \<Rightarrow> string set \<Rightarrow> snapshot_system \<Rightarrow> snapshot_system \<Rightarrow> bool"
  for H base D where
  begin_put: "data \<in> D \<Longrightarrow> store_step H base D (fs, cs) (fs, cs @ [(data, Begun)])"
| call_step: "i < length cs \<Longrightarrow> cs ! i = (data, ph) \<Longrightarrow> put_step H base data fs ph fs' ph' \<Longrightarrow>
    store_step H base D (fs, cs) (fs', cs[i := (data, ph')])"

abbreviation store_run :: "(string \<Rightarrow> digest) \<Rightarrow> path \<Rightarrow> string set \<Rightarrow> snapshot_system \<Rightarrow> snapshot_system \<Rightarrow> bool" where
  "store_run H base D \<equiv> (store_step H base D)\<^sup>*\<^sup>*"

inductive_cases put_stepE: "put_step H base data fs ph fs' ph'"

subsection \<open>An address names its file\<close>

text \<open>
  Names that a \<open>file://\<close> address without quoting carries unchanged. The root of a store must consist
  of such names, since \<open>put\<close> does not quote and \<open>get\<close> unquotes.
\<close>

definition plain_char :: "char \<Rightarrow> bool" where
  "plain_char c \<longleftrightarrow> c \<notin> set ''/?#%'' \<and> c \<notin> {CHR 0x00, CHR 0x09, CHR 0x0A, CHR 0x0D}"

definition plain_name :: "string \<Rightarrow> bool" where
  "plain_name c \<longleftrightarrow> c \<noteq> [] \<and> c \<noteq> ''.'' \<and> c \<noteq> ''..'' \<and> list_all plain_char c"

lemma enter_plain: "plain_name c \<Longrightarrow> enter c p = p @ [c]"
  by (simp add: enter_def plain_name_def)

lemma fold_enter_plain: "list_all plain_name p \<Longrightarrow> fold enter p q = q @ p"
  by (induction p arbitrary: q) (simp_all add: enter_plain)

lemma path_text_chars:
  "list_all plain_name p \<Longrightarrow> c \<in> set (path_text p) \<Longrightarrow> c = CHR ''/'' \<or> plain_char c"
  by (induction p) (auto simp: path_text_def plain_name_def list_all_iff split: if_splits)

lemma split_path_text: "list_all plain_name p \<Longrightarrow> p \<noteq> [] \<Longrightarrow> split_on CHR ''/'' (path_text p) = [] # p"
proof (induction p)
  case (Cons c p)
  have c: "CHR ''/'' \<notin> set c" using Cons(2) by (auto simp: plain_name_def plain_char_def list_all_iff)
  have hd: "split_on CHR ''/'' (CHR ''/'' # s) = [] # split_on CHR ''/'' s" for s by simp
  show ?case
  proof (cases "p = []")
    case True
    then show ?thesis by (simp add: path_text_def split_on_plain[OF c])
  next
    case False
    with Cons have ih: "split_on CHR ''/'' (path_text p) = [] # p" by simp
    obtain s where s: "path_text p = CHR ''/'' # s" using False by (cases p) (auto simp: path_text_def)
    have "path_text (c # p) = CHR ''/'' # c @ CHR ''/'' # s"
      using s False by (simp add: path_text_def)
    then show ?thesis using ih by (simp only: s hd split_on_append[OF c]) simp
  qed
qed simp

lemma real_path_text:
  assumes "list_all plain_name p" "p \<noteq> []"
  shows "real_path cwd (path_text p) = Some p"
proof -
  have nul: "CHR 0x00 \<notin> set (path_text p)" using path_text_chars[OF assms(1)] by (auto simp: plain_char_def)
  have abs: "starts_with ''/'' (path_text p)" using assms(2) by (cases p) (simp_all add: path_text_def)
  have "fold enter ([] # p) [] = p" by (simp add: fold_enter_plain[OF assms(1)]) (simp add: enter_def)
  then show ?thesis by (simp add: real_path_def nul abs split_path_text[OF assms])
qed

lemma takeWhile_all: "(\<And>c. c \<in> set s \<Longrightarrow> P c) \<Longrightarrow> takeWhile P s = s"
  by (simp add: takeWhile_eq_all_conv)

lemma urlparse_file:
  assumes "list_all plain_name p" "p \<noteq> []"
  shows "urlparse N (to_uri p) = Some (''file'', path_text p)"
proof -
  have chars: "c \<in> set (path_text p) \<Longrightarrow> c \<notin> {CHR 0x09, CHR 0x0A, CHR 0x0D, CHR ''?'', CHR ''#''}" for c
    using path_text_chars[OF assms(1), of c] by (auto simp: plain_char_def)
  have f: "filter (\<lambda>c. c \<notin> {CHR 0x09, CHR 0x0A, CHR 0x0D}) (path_text p) = path_text p"
    using chars by (auto intro!: filter_True)
  have clean: "url_clean (to_uri p) = ''file://'' @ path_text p"
    using f by (simp add: url_clean_def to_uri_def code_def)
  have scheme: "split_scheme (''file://'' @ path_text p) = (''file'', ''//'' @ path_text p)"
    by (simp add: split_scheme_def Let_def scheme_char_def is_lower_def py_lower_def py_lower_char_def code_def)
  obtain s where s: "path_text p = CHR ''/'' # s" using assms(2) by (cases p) (auto simp: path_text_def)
  have auth: "split_authority (''//'' @ path_text p) = ([], path_text p)"
    by (simp add: split_authority_def s)
  have "takeWhile (\<lambda>c. c \<noteq> CHR ''#'') (path_text p) = path_text p" "takeWhile (\<lambda>c. c \<noteq> CHR ''?'') (path_text p) = path_text p"
    using chars by (auto intro!: takeWhile_all)
  then show ?thesis by (simp only: urlparse_def clean scheme auth Let_def prod.case url_path_def) simp
qed

lemma resolve_to_uri:
  assumes "list_all plain_name p" "p \<noteq> []" "prefix (ur_base ur) p"
  shows "resolve_uri ur (to_uri p) = Inr p"
proof -
  have "CHR ''%'' \<notin> set (path_text p)" using path_text_chars[OF assms(1)] by (auto simp: plain_char_def)
  then show ?thesis
    using assms by (simp add: resolve_uri_def urlparse_file unquote_def real_path_text)
qed

lemma hex_plain: "is_hex_lower c \<Longrightarrow> plain_char c"
  by (auto simp: is_hex_lower_def plain_char_def is_digit_def code_def)

lemma hex_name:
  assumes "list_all is_hex_lower s" "s \<noteq> []"
  shows "plain_name s"
proof -
  have "\<not> is_hex_lower CHR ''.''" by code_simp
  with assms show ?thesis by (auto simp: plain_name_def list_all_iff hex_plain)
qed

lemma path_for_plain:
  assumes "content_sha256_ok d" "list_all plain_name base"
  shows "list_all plain_name (path_for base d)"
proof -
  have hex: "list_all is_hex_lower d" "length d = 64" using assms(1) by (simp_all add: content_sha256_ok_def)
  have "list_all is_hex_lower (take 2 d)" using hex(1) by (auto simp: list_all_iff dest: in_set_takeD)
  moreover have "take 2 d \<noteq> []" "d \<noteq> []" using hex(2) by auto
  ultimately show ?thesis using hex assms(2) by (simp add: path_for_def hex_name)
qed

lemma path_for_not_Nil [simp]: "path_for base d \<noteq> []"
  by (simp add: path_for_def)

lemma path_for_inj [simp]: "path_for base d = path_for base e \<longleftrightarrow> d = e"
  by (auto simp: path_for_def)

lemma resolve_path_for:
  "content_sha256_ok d \<Longrightarrow> list_all plain_name (ur_base ur) \<Longrightarrow>
     resolve_uri ur (to_uri (path_for (ur_base ur) d)) = Inr (path_for (ur_base ur) d)"
  by (rule resolve_to_uri) (auto simp: path_for_plain, simp add: path_for_def)

lemma get_stored:
  assumes "content_sha256_ok (H data)" "list_all plain_name (ur_base ur)"
    and "fs (path_for (ur_base ur) (H data)) = Some (Regular data m)"
  shows "get H ur fs (to_uri (path_for (ur_base ur) (H data))) = Inr data"
  using assms by (simp add: get_def resolve_path_for read_bytes_def file_name_def) (simp add: path_for_def)

text \<open>A root with a character that addresses give another meaning makes every snapshot unreadable.\<close>

lemma hash_in_root_unreadable:
  assumes "ur_base ur = [''a#b'']"
  shows "resolve_uri ur (to_uri (path_for (ur_base ur) d)) = Inl SnapshotIntegrity"
proof -
  obtain rest where u: "to_uri (path_for [''a#b''] d) = ''file:///a#b'' @ rest"
    by (simp add: to_uri_def path_text_def path_for_def)
  define rest' where "rest' = filter (\<lambda>c. c \<notin> {CHR 0x09, CHR 0x0A, CHR 0x0D}) rest"
  have clean: "url_clean (''file:///a#b'' @ rest) = ''file:///a#b'' @ rest'"
    by (simp add: url_clean_def code_def rest'_def)
  have scheme: "split_scheme (''file:///a#b'' @ rest') = (''file'', ''///a#b'' @ rest')"
    by (simp add: split_scheme_def Let_def scheme_char_def is_lower_def py_lower_def py_lower_char_def code_def)
  have "urlparse N (''file:///a#b'' @ rest) = Some (''file'', ''/a'')" for N
    unfolding urlparse_def clean scheme Let_def prod.case by (simp add: split_authority_def url_path_def)
  then show ?thesis unfolding assms u by (simp add: resolve_uri_def unquote_def real_path_def enter_def assms)
qed

end
