(* ===== verification/Acquisition.thy ===== *)
theory Acquisition
  imports Evidence_Rows Sources Snapshots Boundary_Invoke
begin

text \<open>
  \<^verbatim>\<open>src/core/acquisition/{fetch_tool,service}.py\<close>: fetching a source through the tool boundary, reading
  its snapshot back, and recording the artifact and the evidence that cites it. What the boundary
  returns is the outcome of \<open>invoke\<close>. The texts of exceptions are \<open>sv_store_text\<close> and \<open>sv_parse_text\<close>; pydantic's coercion of a length that is not an integer is
  \<open>sv_coerce\<close>; the session of the repositories is the state of the tables, which an exception leaves as
  it is for the caller to roll back.
\<close>

subsection \<open>The acquisition tool\<close>

definition source_fetch_tool :: string where
  "source_fetch_tool = ''source.fetch''"

record fetched_source =
  fd_content :: string
  fd_media_type :: string
  fd_final_uri :: string
  fd_license :: source_license

record fetch_handle =
  hd_sha256 :: digest
  hd_storage_uri :: string
  hd_media_type :: string
  hd_byte_length :: int
  hd_final_uri :: string
  hd_license_identifier :: "string option"
  hd_license_declared_by :: license_declaration
  hd_license_statement :: "string option"

text \<open>The handler after the fetcher returned: store first, then answer with a handle.\<close>

definition fetch_handler :: "(string \<Rightarrow> digest) \<Rightarrow> path \<Rightarrow> string \<Rightarrow> filesystem \<Rightarrow> fetched_source \<Rightarrow>
    (snapshot_error + pyval) \<times> filesystem" where
  "fetch_handler H base tag fs fetched =
     (case put H base tag fs (fd_content fetched) of
        (Inl e, fs') \<Rightarrow> (Inl e, fs')
      | (Inr uri, fs') \<Rightarrow>
         (Inr (VDict
           [(''content_sha256'', VStr (H (fd_content fetched))), (''storage_uri'', VStr uri),
            (''media_type'', VStr (fd_media_type fetched)), (''byte_length'', VInt (int (length (fd_content fetched)))),
            (''final_uri'', VStr (fd_final_uri fetched)),
            (''license_identifier'', optional_str (li_identifier (fd_license fetched))),
            (''license_declared_by'', VStr (license_declaration_value (li_declared_by (fd_license fetched)))),
            (''license_statement'', optional_str (li_statement (fd_license fetched)))]), fs'))"

text \<open>\<open>SourceFetchOutput.model_validate\<close>; \<open>None\<close> is the \<open>ValidationError\<close>.\<close>

definition text_field :: "nat \<Rightarrow> (string \<times> pyval) list \<Rightarrow> string \<Rightarrow> string option" where
  "text_field n kvs k = (case map_of kvs k of Some (VStr s) \<Rightarrow> if n \<le> length s then Some s else None | _ \<Rightarrow> None)"

definition optional_field :: "(string \<times> pyval) list \<Rightarrow> string \<Rightarrow> string option option" where
  "optional_field kvs k =
     (case map_of kvs k of None \<Rightarrow> Some None | Some VNone \<Rightarrow> Some None | Some (VStr s) \<Rightarrow> Some (Some s) | _ \<Rightarrow> None)"

definition license_declarations :: "license_declaration list" where
  "license_declarations = [HttpHeader, MetaTag, ApiField, Manifest, Undeclared]"

definition declaration_field :: "(string \<times> pyval) list \<Rightarrow> string \<Rightarrow> license_declaration option" where
  "declaration_field kvs k =
     (case map_of kvs k of
        Some (VStr s) \<Rightarrow> find (\<lambda>d. license_declaration_value d = s) license_declarations | _ \<Rightarrow> None)"

definition length_field :: "(pyval \<Rightarrow> int option) \<Rightarrow> (string \<times> pyval) list \<Rightarrow> string \<Rightarrow> int option" where
  "length_field coerce kvs k =
     (case (case map_of kvs k of None \<Rightarrow> None | Some (VInt i) \<Rightarrow> Some i | Some v \<Rightarrow> coerce v) of
        None \<Rightarrow> None | Some i \<Rightarrow> if 0 < i then Some i else None)"

definition parse_handle :: "(pyval \<Rightarrow> int option) \<Rightarrow> (string \<times> pyval) list \<Rightarrow> fetch_handle option" where
  "parse_handle coerce kvs =
     (case (text_field 64 kvs ''content_sha256'', text_field 1 kvs ''storage_uri'', text_field 1 kvs ''media_type'',
            length_field coerce kvs ''byte_length'', text_field 1 kvs ''final_uri'',
            optional_field kvs ''license_identifier'', declaration_field kvs ''license_declared_by'',
            optional_field kvs ''license_statement'') of
        (Some sha, Some uri, Some media, Some n, Some final, Some lid, Some decl, Some stmt) \<Rightarrow>
          if length sha = 64 then
            Some \<lparr>hd_sha256 = sha, hd_storage_uri = uri, hd_media_type = media, hd_byte_length = n,
                  hd_final_uri = final, hd_license_identifier = lid, hd_license_declared_by = decl,
                  hd_license_statement = stmt\<rparr>
          else None
      | _ \<Rightarrow> None)"

definition handle_license :: "fetch_handle \<Rightarrow> license_error + source_license" where
  "handle_license h = new_license (hd_license_identifier h) (hd_license_declared_by h) (hd_license_statement h)"

subsection \<open>The service\<close>

definition snapshot_artifact_kind :: string where
  "snapshot_artifact_kind = ''source_snapshot''"

text \<open>\<open>_FAILURE_REASONS\<close>; a success has no entry.\<close>

fun failure_reasons :: "outcome_status \<Rightarrow> absent_reason option" where
  "failure_reasons InProgress = Some RetrievalFailed"
| "failure_reasons Denied = Some CapabilityDenied"
| "failure_reasons TimedOut = Some RetrievalFailed"
| "failure_reasons CircuitOpen = Some RetrievalFailed"
| "failure_reasons Failed = Some RetrievalFailed"
| "failure_reasons Cancelled = Some RetrievalFailed"
| "failure_reasons InvalidInput = Some RetrievalFailed"
| "failure_reasons InvalidOutput = Some SourceInaccessible"
| "failure_reasons Succeeded = None"

record excerpt_request =
  er_scheme :: string
  er_start :: int
  er_end :: int
  er_annotations :: "string list"

definition excerpt_locator :: "excerpt_request \<Rightarrow> locator_error + string" where
  "excerpt_locator r = locate (er_scheme r) (er_start r) (er_end r) (er_annotations r)"

datatype acquisition_status = Acquired | Unavailable

record acquisition_outcome =
  ao_status :: acquisition_status
  ao_invocation :: invocation
  ao_artifact :: "artifact option"
  ao_evidence :: "evidence list"
  ao_reason :: "absent_reason option"
  ao_detail :: "string option"
  ao_excerpts :: "string list"

datatype outcome_defect = AcquiredWithoutArtifact | AcquiredWithReason | UnavailableWithoutReason | UnavailableWithBody

definition acquisition_violation :: "acquisition_outcome \<Rightarrow> outcome_defect option" where
  "acquisition_violation ao =
     (if ao_status ao = Acquired then checks
        [(ao_artifact ao = None, AcquiredWithoutArtifact), (ao_reason ao \<noteq> None, AcquiredWithReason)]
      else checks
        [(ao_reason ao = None, UnavailableWithoutReason),
         (ao_artifact ao \<noteq> None \<or> ao_evidence ao \<noteq> [] \<or> ao_excerpts ao \<noteq> [], UnavailableWithBody)])"

datatype source_error =
  Relabelled source_type source_type | RelabelledByOther | NoSourceType string | NotASourceType

datatype acquire_error =
  SourceRefused source_error | BoundaryRaised raised | NoFailureReason | StoreRaised snapshot_error
| LocatorRefused locator_error | SpanUnresolved resolve_error | PromptMissing | LicenseRefused license_error
| SecretsRefused redact_error | ContractRefused contract_error | ClockNaive | RowRefused row_error
| OutcomeRefused outcome_defect | NoArtifactRow string | DigestDisagrees

record acquisition_service =
  sv_types :: "string \<rightharpoonup> source_type"
  sv_hash :: "string \<Rightarrow> digest"
  sv_reader :: uri_reader
  sv_secrets :: "string list"
  sv_coerce :: "pyval \<Rightarrow> int option"
  sv_uuid :: "string \<Rightarrow> string option"
  sv_store_text :: "snapshot_error \<Rightarrow> string \<Rightarrow> string"
  sv_parse_text :: "(string \<times> pyval) list \<Rightarrow> string"

record acquire_args =
  aq_run_id :: string
  aq_task_id :: string
  aq_attempt_id :: string
  aq_org :: "string option"
  aq_source_uri :: string
  aq_scope :: string
  aq_grants :: "grant list"
  aq_prompt :: prompt_argument
  aq_excerpts :: "excerpt_request list"
  aq_input_trust :: trust
  aq_approvals :: "approval list"
  aq_pinned :: "pinned_versions option"
  aq_tool_name :: string
  aq_source_type :: "source_argument option"
  aq_token :: bool

definition source_type_for :: "(string \<rightharpoonup> source_type) \<Rightarrow> string \<Rightarrow> source_argument option \<Rightarrow> source_error + source_argument" where
  "source_type_for types tool declared =
     (case types tool of
        Some s \<Rightarrow>
         (case declared of
            None \<Rightarrow> Inr (Member s)
          | Some (Member d) \<Rightarrow> if d \<noteq> s then Inl (Relabelled s d) else Inr (Member s)
          | Some NotMember \<Rightarrow> Inl RelabelledByOther)
      | None \<Rightarrow> (case declared of None \<Rightarrow> Inl (NoSourceType tool) | Some d \<Rightarrow> Inr d))"

text \<open>\<open>_source_type_for\<close> and then \<open>trust_for_source\<close>, which also rejects what is no source type.\<close>

definition typed_source :: "acquisition_service \<Rightarrow> string \<Rightarrow> source_argument option \<Rightarrow> acquire_error + source_type \<times> trust" where
  "typed_source sv tool declared =
     (case source_type_for (sv_types sv) tool declared of
        Inl e \<Rightarrow> Inl (SourceRefused e)
      | Inr NotMember \<Rightarrow> Inl (SourceRefused NotASourceType)
      | Inr (Member s) \<Rightarrow>
         (case trust_for_source (Member s) of None \<Rightarrow> Inl (SourceRefused NotASourceType) | Some t \<Rightarrow> Inr (s, t)))"

definition acquire_call :: "acquire_args \<Rightarrow> source_type \<Rightarrow> trust \<Rightarrow> call_args" where
  "acquire_call aq s t =
     \<lparr>ca_tool = aq_tool_name aq, ca_run_id = aq_run_id aq, ca_task_id = aq_task_id aq,
      ca_attempt_id = aq_attempt_id aq, ca_org = aq_org aq, ca_scope = aq_scope aq,
      ca_arguments = [(''source_uri'', VStr (aq_source_uri aq)), (''source_type'', VStr (source_type_value s))],
      ca_trust = aq_input_trust aq, ca_grants = aq_grants aq, ca_approvals = aq_approvals aq,
      ca_output_trust = Some t, ca_key = None, ca_prompt = Some (aq_prompt aq), ca_pinned = aq_pinned aq,
      ca_token = aq_token aq\<rparr>"

definition unavailable :: "outcome \<Rightarrow> absent_reason \<Rightarrow> string option \<Rightarrow> acquisition_outcome" where
  "unavailable oc reason detail =
     \<lparr>ao_status = Unavailable, ao_invocation = oc_invocation oc, ao_artifact = None, ao_evidence = [],
      ao_reason = Some reason, ao_detail = detail, ao_excerpts = []\<rparr>"

definition snapshot_metadata :: "acquisition_service \<Rightarrow> source_type \<Rightarrow> string \<Rightarrow> fetch_handle \<Rightarrow> invocation \<Rightarrow> acquire_error + pyval" where
  "snapshot_metadata sv s uri h t =
     (case handle_license h of
        Inl e \<Rightarrow> Inl (LicenseRefused e)
      | Inr l \<Rightarrow>
         (case redact (sv_secrets sv) (VDict
             [(''source_type'', VStr (source_type_value s)), (''source_uri'', VStr uri),
              (''final_uri'', VStr (hd_final_uri h)), (''byte_length'', VInt (hd_byte_length h)),
              (''license'', license_metadata l), (''tool_invocation_id'', VStr (ti_id t)),
              (''tool_name'', VStr (ti_tool_name t)), (''tool_version'', VStr (ti_tool_version t))]) of
            Inl e \<Rightarrow> Inl (SecretsRefused e) | Inr v \<Rightarrow> Inr v))"

definition snapshot_artifact :: "acquire_args \<Rightarrow> string \<Rightarrow> trust \<Rightarrow> fetch_handle \<Rightarrow> pyval \<Rightarrow> instant \<Rightarrow> artifact" where
  "snapshot_artifact aq aid t h metadata now =
     \<lparr>ar_id = aid, ar_run_id = aq_run_id aq, ar_task_id = Some (aq_task_id aq), ar_attempt_id = Some (aq_attempt_id aq),
      ar_kind = snapshot_artifact_kind, ar_media_type = hd_media_type h, ar_storage_uri = hd_storage_uri h,
      ar_content_sha256 = hd_sha256 h, ar_status = ArtFinal, ar_trust = t, ar_producer = aq_tool_name aq,
      ar_producer_kind = SystemProducer, ar_prompt_binding = None, ar_created_at = now, ar_metadata = metadata\<rparr>"

definition excerpt_evidence :: "acquire_args \<Rightarrow> source_type \<Rightarrow> trust \<Rightarrow> artifact \<Rightarrow> prompt_binding \<Rightarrow> instant \<Rightarrow> string \<Rightarrow> string \<Rightarrow> evidence" where
  "excerpt_evidence aq s t a binding now eid locator =
     \<lparr>ev_id = eid, ev_run_id = aq_run_id aq, ev_task_id = aq_task_id aq, ev_source_type = source_type_value s,
      ev_source_uri = aq_source_uri aq, ev_snapshot_artifact_id = ar_id a, ev_content_sha256 = ar_content_sha256 a,
      ev_locator = locator, ev_trust = t, ev_producer_kind = ModelTurn, ev_prompt_binding = Some binding,
      ev_producer_invocation_id = None, ev_parent_ids = [], ev_acquired_at = now\<rparr>"

text \<open>The loop over the located spans; \<open>ids k\<close> is the \<open>k\<close>-th identifier the factory makes.\<close>

fun record_spans :: "acquisition_service \<Rightarrow> string option \<Rightarrow> (string \<Rightarrow> string \<Rightarrow> evidence) \<Rightarrow> (nat \<Rightarrow> string) \<Rightarrow> nat \<Rightarrow>
    string list \<Rightarrow> evidence_tables \<Rightarrow> (acquire_error + evidence list) \<times> evidence_tables" where
  "record_spans sv org mk ids k [] ts = (Inr [], ts)"
| "record_spans sv org mk ids k (l # ls) ts =
     (case evidence_violation (mk (ids k) l) of
        Some e \<Rightarrow> (Inl (ContractRefused e), ts)
      | None \<Rightarrow>
         (case record_evidence (sv_uuid sv) org (mk (ids k) l) ts of
            Inl e \<Rightarrow> (Inl (RowRefused e), ts)
          | Inr ts' \<Rightarrow>
             (case record_spans sv org mk ids (Suc k) ls ts' of
                (Inl e, ts2) \<Rightarrow> (Inl e, ts2)
              | (Inr es, ts2) \<Rightarrow> (Inr (mk (ids k) l # es), ts2))))"

text \<open>What is known of a snapshot before anything is written.\<close>

record located =
  lc_handle :: fetch_handle
  lc_data :: string
  lc_locators :: "string list"
  lc_excerpts :: "string list"
  lc_binding :: prompt_binding

definition handle_items :: "pyval option \<Rightarrow> (string \<times> pyval) list" where
  "handle_items output = (case output of Some (VProxy kvs) \<Rightarrow> kvs | Some (VDict kvs) \<Rightarrow> kvs | _ \<Rightarrow> [])"

definition locate_spans :: "acquisition_service \<Rightarrow> acquire_args \<Rightarrow> filesystem \<Rightarrow> outcome \<Rightarrow>
    acquire_error + (acquisition_outcome + located)" where
  "locate_spans sv aq fs oc =
     (case parse_handle (sv_coerce sv) (handle_items (ti_output (oc_invocation oc))) of
        None \<Rightarrow> Inr (Inl (unavailable oc SourceInaccessible (Some (''acquisition handle is unreadable: '' @
          sv_parse_text sv (handle_items (ti_output (oc_invocation oc)))))))
      | Some h \<Rightarrow>
         (case get (sv_hash sv) (sv_reader sv) fs (hd_storage_uri h) of
            Inl e \<Rightarrow>
              if e = SnapshotMissing \<or> e = SnapshotIntegrity
              then Inr (Inl (unavailable oc SourceInaccessible (Some (sv_store_text sv e (hd_storage_uri h)))))
              else Inl (StoreRaised e)
          | Inr data \<Rightarrow>
              if sv_hash sv data \<noteq> hd_sha256 h
              then Inr (Inl (unavailable oc SourceInaccessible
                (Some ''the acquisition tool reported a digest the snapshot store does not hold'')))
              else
               (case map_result excerpt_locator (aq_excerpts aq) of
                  Inl e \<Rightarrow> Inl (LocatorRefused e)
                | Inr ls \<Rightarrow>
                   (case map_result (\<lambda>l. resolve l data) ls of
                      Inl e \<Rightarrow> Inl (SpanUnresolved e)
                    | Inr xs \<Rightarrow>
                       (case ti_prompt_binding (oc_invocation oc) of
                          None \<Rightarrow> Inl PromptMissing
                        | Some b \<Rightarrow> Inr (Inr \<lparr>lc_handle = h, lc_data = data, lc_locators = ls, lc_excerpts = xs,
                            lc_binding = b\<rparr>))))))"

definition record_snapshot :: "acquisition_service \<Rightarrow> acquire_args \<Rightarrow> source_type \<Rightarrow> trust \<Rightarrow> outcome \<Rightarrow> located \<Rightarrow> py_datetime \<Rightarrow>
    (nat \<Rightarrow> string) \<Rightarrow> evidence_tables \<Rightarrow> (acquire_error + acquisition_outcome) \<times> evidence_tables" where
  "record_snapshot sv aq s t oc lc clock ids ts =
     (case snapshot_metadata sv s (aq_source_uri aq) (lc_handle lc) (oc_invocation oc) of
        Inl e \<Rightarrow> (Inl e, ts)
      | Inr metadata \<Rightarrow>
         (case clock of
            Naive n \<Rightarrow> (Inl ClockNaive, ts)
          | Aware now \<Rightarrow>
             (let a = snapshot_artifact aq (ids 0) t (lc_handle lc) metadata now in
              case artifact_violation a of
                Some e \<Rightarrow> (Inl (ContractRefused e), ts)
              | None \<Rightarrow>
                 (case create_artifact (sv_uuid sv) (aq_org aq) a ts of
                    Inl e \<Rightarrow> (Inl (RowRefused e), ts)
                  | Inr ts1 \<Rightarrow>
                     (case record_spans sv (aq_org aq) (excerpt_evidence aq s t a (lc_binding lc) now) ids 1
                         (lc_locators lc) ts1 of
                        (Inl e, ts2) \<Rightarrow> (Inl e, ts2)
                      | (Inr es, ts2) \<Rightarrow>
                         (let ao = \<lparr>ao_status = Acquired, ao_invocation = oc_invocation oc, ao_artifact = Some a,
                              ao_evidence = es, ao_reason = None, ao_detail = None, ao_excerpts = lc_excerpts lc\<rparr>
                          in (case acquisition_violation ao of
                                Some d \<Rightarrow> (Inl (OutcomeRefused d), ts2) | None \<Rightarrow> (Inr ao, ts2))))))))"

text \<open>Everything after the boundary returned.\<close>

definition finish_acquisition :: "acquisition_service \<Rightarrow> acquire_args \<Rightarrow> filesystem \<Rightarrow> py_datetime \<Rightarrow> (nat \<Rightarrow> string) \<Rightarrow>
    outcome \<Rightarrow> evidence_tables \<Rightarrow> (acquire_error + acquisition_outcome) \<times> evidence_tables" where
  "finish_acquisition sv aq fs clock ids oc ts =
     (if \<not> outcome_succeeded oc then
       (case failure_reasons (oc_status oc) of
          None \<Rightarrow> (Inl NoFailureReason, ts)
        | Some reason \<Rightarrow> (Inr (unavailable oc reason (oc_detail oc)), ts))
      else
       (case typed_source sv (ti_tool_name (oc_invocation oc)) (aq_source_type aq) of
          Inl e \<Rightarrow> (Inl e, ts)
        | Inr (s, t) \<Rightarrow>
           (case locate_spans sv aq fs oc of
              Inl e \<Rightarrow> (Inl e, ts)
            | Inr (Inl ao) \<Rightarrow> (Inr ao, ts)
            | Inr (Inr lc) \<Rightarrow> record_snapshot sv aq s t oc lc clock ids ts)))"

definition acquire :: "deployment \<Rightarrow> answers \<Rightarrow> acquisition_service \<Rightarrow> acquire_args \<Rightarrow> filesystem \<Rightarrow> py_datetime \<Rightarrow>
    (nat \<Rightarrow> string) \<Rightarrow> breakers \<Rightarrow> evidence_tables \<Rightarrow>
    happening list \<times> breakers \<times> (acquire_error + acquisition_outcome) \<times> evidence_tables" where
  "acquire dp an sv aq fs clock ids bs ts =
     (case typed_source sv (aq_tool_name aq) (aq_source_type aq) of
        Inl e \<Rightarrow> ([], bs, Inl e, ts)
      | Inr (s, t) \<Rightarrow>
         (case invoke dp an (acquire_call aq s t) bs of
            (es, bs', Inl e) \<Rightarrow> (es, bs', Inl (BoundaryRaised e), ts)
          | (es, bs', Inr oc) \<Rightarrow>
             (case finish_acquisition sv aq fs clock ids oc ts of (r, ts') \<Rightarrow> (es, bs', r, ts'))))"

text \<open>\<open>read_excerpt\<close>, the exit of the quarantine.\<close>

definition read_excerpt :: "acquisition_service \<Rightarrow> filesystem \<Rightarrow> evidence_tables \<Rightarrow> evidence \<Rightarrow> string option \<Rightarrow> acquire_error + string" where
  "read_excerpt sv fs ts e org =
     (case get_artifact (sv_uuid sv) org (ev_snapshot_artifact_id e) ts of
        Inl x \<Rightarrow> Inl (RowRefused x)
      | Inr None \<Rightarrow> Inl (NoArtifactRow (ev_snapshot_artifact_id e))
      | Inr (Some row) \<Rightarrow>
         (case get (sv_hash sv) (sv_reader sv) fs (ar_storage_uri (aw_artifact row)) of
            Inl x \<Rightarrow> Inl (StoreRaised x)
          | Inr data \<Rightarrow>
              if sv_hash sv data \<noteq> ev_content_sha256 e then Inl DigestDisagrees
              else
               (case resolve (ev_locator e) data of
                  Inl x \<Rightarrow> Inl (SpanUnresolved x)
                | Inr excerpt \<Rightarrow>
                   (case redact (sv_secrets sv) (VStr (ur_decode (sv_reader sv) excerpt)) of
                      Inl x \<Rightarrow> Inl (SecretsRefused x)
                    | Inr v \<Rightarrow> (case v of VStr s \<Rightarrow> Inr s | _ \<Rightarrow> Inr (ur_decode (sv_reader sv) excerpt))))))"

end
