(* ===== verification/Snapshot_Writers.thy ===== *)
theory Snapshot_Writers
  imports Snapshots
begin

text \<open>
  What the snapshot store promises while any number of callers put and processes die at any moment:
  a reader never sees a partial snapshot, and a snapshot once stored reads back for good.
\<close>

subsection \<open>The invariant\<close>

fun own_temp :: "put_phase \<Rightarrow> path option" where
  "own_temp (Writing t) = Some t"
| "own_temp (Synced t) = Some t"
| "own_temp (Sealed t) = Some t"
| "own_temp _ = None"

definition is_temp :: "(string \<Rightarrow> digest) \<Rightarrow> path \<Rightarrow> path \<Rightarrow> bool" where
  "is_temp H base t \<longleftrightarrow> (\<exists>data tag. t = temp_path H base data tag)"

fun call_ok :: "(string \<Rightarrow> digest) \<Rightarrow> path \<Rightarrow> filesystem \<Rightarrow> string \<Rightarrow> put_phase \<Rightarrow> bool" where
  "call_ok H base fs data (Writing t) = (is_temp H base t \<and> fs t \<noteq> None)"
| "call_ok H base fs data (Synced t) = (is_temp H base t \<and> fs t = Some (Regular data private_mode))"
| "call_ok H base fs data (Sealed t) = (is_temp H base t \<and> fs t = Some (Regular data read_only_mode))"
| "call_ok H base fs data (Placed uri) = (uri = to_uri (path_for base (H data)))"
| "call_ok H base fs data _ = True"

text \<open>Every file at the address of a digest has that digest and is read-only.\<close>

definition store_sound :: "(string \<Rightarrow> digest) \<Rightarrow> path \<Rightarrow> filesystem \<Rightarrow> bool" where
  "store_sound H base fs \<longleftrightarrow>
     (\<forall>d b m. content_sha256_ok d \<longrightarrow> fs (path_for base d) = Some (Regular b m) \<longrightarrow> H b = d \<and> m = read_only_mode)"

definition writers_inv :: "(string \<Rightarrow> digest) \<Rightarrow> path \<Rightarrow> snapshot_system \<Rightarrow> bool" where
  "writers_inv H base s \<longleftrightarrow>
     store_sound H base (fst s) \<and>
     (\<forall>i<length (snd s). call_ok H base (fst s) (fst (snd s ! i)) (snd (snd s ! i))) \<and>
     (\<forall>i<length (snd s). \<forall>j<length (snd s). \<forall>t. i \<noteq> j \<longrightarrow>
        own_temp (snd (snd s ! i)) = Some t \<longrightarrow> own_temp (snd (snd s ! j)) \<noteq> Some t)"

lemma temp_not_address:
  assumes "content_sha256_ok d"
  shows "\<not> is_temp H base (path_for base d)"
proof -
  have "d \<noteq> ''.partial-'' @ tag" for tag
  proof
    assume "d = ''.partial-'' @ tag"
    then have "CHR ''.'' \<in> set d" by simp
    moreover have "\<not> is_hex_lower CHR ''.''" by code_simp
    ultimately show False using assms by (auto simp: content_sha256_ok_def list_all_iff)
  qed
  then show ?thesis by (auto simp: is_temp_def temp_path_def bucket_def path_for_def)
qed

lemma make_folders_effect:
  "make_folders ps cs fs = Some fs' \<Longrightarrow> fs' q = fs q \<or> fs q = None \<and> fs' q = Some Folder"
proof (induction ps cs fs rule: make_folders.induct)
  case (2 ps c cs fs)
  then show ?case by (cases "fs (ps @ [c])") (fastforce split: fs_node.splits if_splits)+
qed simp

text \<open>What one system call changes, and what it keeps of its own call.\<close>

lemma put_step_effect:
  assumes "put_step H base data fs ph fs' ph'" "call_ok H base fs data ph"
  shows "fs' q = fs q \<or> fs q = None \<and> fs' q = Some Folder \<or> own_temp ph = Some q \<or>
    own_temp ph' = Some q \<and> fs q = None \<or>
    q = path_for base (H data) \<and> fs q \<noteq> Some Folder \<and> fs' q = Some (Regular data read_only_mode) \<and> ph' = Placed (to_uri q)"
  using assms by cases (auto dest: make_folders_effect[of _ _ _ _ q] split: if_splits)

lemma put_step_own:
  assumes "put_step H base data fs ph fs' ph'" "call_ok H base fs data ph"
  shows "call_ok H base fs' data ph'"
    and "own_temp ph' = Some t \<Longrightarrow> own_temp ph = Some t \<or> fs t = None"
proof -
  have "is_temp H base (temp_path H base data tag)" for tag by (auto simp: is_temp_def)
  with assms show "call_ok H base fs' data ph'"
    by cases (auto simp: put_check_def split: if_splits option.splits fs_node.splits)
  from assms show "own_temp ph' = Some t \<Longrightarrow> own_temp ph = Some t \<or> fs t = None"
    by cases (auto split: sum.splits)
qed

lemma other_call_kept:
  assumes "put_step H base data fs ph fs' ph'" "call_ok H base fs data ph" "content_sha256_ok (H data)"
    and "call_ok H base fs other ph2" "\<And>t. own_temp ph = Some t \<Longrightarrow> own_temp ph2 \<noteq> Some t"
  shows "call_ok H base fs' other ph2"
proof (cases "own_temp ph2")
  case None
  with assms(4) show ?thesis by (cases ph2) auto
next
  case (Some t)
  with assms(4) have t: "is_temp H base t" "fs t \<noteq> None" by (cases ph2; auto)+
  have "fs' t = fs t"
    using put_step_effect[OF assms(1,2), of t] t assms(5)[of t] Some temp_not_address[OF assms(3), of H base]
      put_step_own(2)[OF assms(1,2), of t] by auto
  with Some assms(4) show ?thesis by (cases ph2) auto
qed

lemma store_sound_step:
  assumes "put_step H base data fs ph fs' ph'" "call_ok H base fs data ph" "store_sound H base fs"
    and "\<And>t. own_temp ph = Some t \<Longrightarrow> is_temp H base t" "\<And>t. own_temp ph' = Some t \<Longrightarrow> is_temp H base t"
  shows "store_sound H base fs'"
  unfolding store_sound_def
proof (intro allI impI)
  fix d b m
  assume d: "content_sha256_ok d" "fs' (path_for base d) = Some (Regular b m)"
  have "\<not> is_temp H base (path_for base d)" by (rule temp_not_address[OF d(1)])
  then have "own_temp ph \<noteq> Some (path_for base d)" "own_temp ph' \<noteq> Some (path_for base d)" using assms(4,5) by blast+
  with put_step_effect[OF assms(1,2), of "path_for base d"] d
  consider "fs (path_for base d) = Some (Regular b m)" | "d = H data" "b = data" "m = read_only_mode" by auto
  then show "H b = d \<and> m = read_only_mode" using assms(3) d(1) by cases (auto simp: store_sound_def)
qed

lemma own_temp_is_temp: "call_ok H base fs data ph \<Longrightarrow> own_temp ph = Some t \<Longrightarrow> is_temp H base t"
  by (cases ph) auto

lemma own_temp_exists: "call_ok H base fs data ph \<Longrightarrow> own_temp ph = Some t \<Longrightarrow> fs t \<noteq> None"
  by (cases ph) auto

lemma writers_inv_step:
  assumes hash: "\<And>x. content_sha256_ok (H x)" and "store_step H base D s s'" "writers_inv H base s"
  shows "writers_inv H base s'"
  using assms(2,3)
proof cases
  case (begin_put data fs cs)
  have old: "store_sound H base fs" "\<And>k. k < length cs \<Longrightarrow> call_ok H base fs (fst (cs ! k)) (snd (cs ! k))"
    "\<And>k j t. k < length cs \<Longrightarrow> j < length cs \<Longrightarrow> k \<noteq> j \<Longrightarrow> own_temp (snd (cs ! k)) = Some t \<Longrightarrow>
       own_temp (snd (cs ! j)) \<noteq> Some t"
    using assms(3) by (simp_all add: writers_inv_def begin_put(1))
  have new: "(cs @ [(data, Begun)]) ! k = (if k = length cs then (data, Begun) else cs ! k)" if "k < Suc (length cs)" for k
    using that by (simp add: nth_append)
  have call: "call_ok H base fs (fst ((cs @ [(data, Begun)]) ! k)) (snd ((cs @ [(data, Begun)]) ! k))"
    if k: "k < Suc (length cs)" for k
    using k old(2)[of k] unfolding new[OF k] by simp
  have apart: "own_temp (snd ((cs @ [(data, Begun)]) ! j)) \<noteq> Some t"
    if k: "k < Suc (length cs)" and j: "j < Suc (length cs)" and "k \<noteq> j"
      and t: "own_temp (snd ((cs @ [(data, Begun)]) ! k)) = Some t" for k j t
    using t old(3)[of k j t] k j that(3) unfolding new[OF k] new[OF j]
    by (cases "k = length cs"; cases "j = length cs") simp_all
  from old(1) call apart show ?thesis unfolding writers_inv_def begin_put(2) by simp
next
  case (call_step i cs data ph fs fs' ph')
  note step = call_step(5)
  have ok: "call_ok H base fs data ph" and inv: "writers_inv H base (fs, cs)"
    using assms(3) call_step by (auto simp: writers_inv_def)
  note own = put_step_own[OF step ok]
  have apart: "own_temp ph = Some t \<Longrightarrow> own_temp (snd (cs ! j)) \<noteq> Some t" if "j < length cs" "j \<noteq> i" for j t
    using inv call_step(3,4) that by (force simp: writers_inv_def)
  have exists: "own_temp (snd (cs ! j)) = Some t \<Longrightarrow> fs t \<noteq> None" if "j < length cs" for j t
    using inv that own_temp_exists by (fastforce simp: writers_inv_def)
  have apart': "own_temp ph' = Some t \<Longrightarrow> own_temp (snd (cs ! j)) \<noteq> Some t" if "j < length cs" "j \<noteq> i" for j t
    using own(2)[of t] apart[OF that, of t] exists[OF that(1), of t] by blast
  have "store_sound H base fs'"
    using store_sound_step[OF step ok] inv own_temp_is_temp[OF ok] own_temp_is_temp[OF own(1)]
    by (auto simp: writers_inv_def)
  moreover have "call_ok H base fs' (fst (cs[i := (data, ph')] ! k)) (snd (cs[i := (data, ph')] ! k))"
    if k: "k < length cs" for k
  proof (cases "k = i")
    case True
    with own(1) k show ?thesis by simp
  next
    case False
    have "call_ok H base fs (fst (cs ! k)) (snd (cs ! k))" using inv k by (simp add: writers_inv_def)
    from other_call_kept[OF step ok hash this apart[OF k False]] False show ?thesis by simp
  qed
  moreover have "own_temp (snd (cs[i := (data, ph')] ! j)) \<noteq> Some t"
    if k: "k < length cs" and j: "j < length cs" and kj: "k \<noteq> j"
      and t: "own_temp (snd (cs[i := (data, ph')] ! k)) = Some t" for k j t
  proof -
    have "k \<noteq> i \<Longrightarrow> j \<noteq> i \<Longrightarrow> own_temp (snd (cs ! k)) = Some t \<Longrightarrow> own_temp (snd (cs ! j)) \<noteq> Some t"
      using inv k j kj by (simp add: writers_inv_def)
    then show ?thesis using apart'[OF j, of t] apart'[OF k, of t] kj t j k
      by (cases "k = i"; cases "j = i") auto
  qed
  ultimately show ?thesis unfolding writers_inv_def call_step(2) by simp
qed

lemma writers_inv_run:
  assumes "\<And>x. content_sha256_ok (H x)" "store_run H base D s s'" "writers_inv H base s"
  shows "writers_inv H base s'"
  using assms(2,3) by (induction rule: rtranclp_induct) (auto intro: writers_inv_step[OF assms(1)])

lemma writers_inv_start: "store_sound H base fs \<Longrightarrow> writers_inv H base (fs, [])"
  by (simp add: writers_inv_def)

subsection \<open>What is stored stays\<close>

definition stored_inv :: "(string \<Rightarrow> digest) \<Rightarrow> path \<Rightarrow> string set \<Rightarrow> snapshot_system \<Rightarrow> bool" where
  "stored_inv H base D s \<longleftrightarrow>
     (\<forall>(data, ph) \<in> set (snd s). data \<in> D \<and>
        (\<forall>uri. ph = Placed uri \<longrightarrow> fst s (path_for base (H data)) = Some (Regular data read_only_mode)))"

lemma settled_stored:
  assumes "put_step H base data fs ph fs' (Placed uri)" "call_ok H base fs data ph" "store_sound H base fs"
    "content_sha256_ok (H data)"
  shows "fs' (path_for base (H data)) = Some (Regular data read_only_mode)"
  using assms
proof cases
  case (check_settled r)
  then have "put_check H base fs data = Some (Inr uri)" by (cases r) auto
  then obtain m where "fs (path_for base (H data)) = Some (Regular data m)"
    unfolding put_check_def by (simp split: if_splits option.splits fs_node.splits)
  with assms(3,4) show ?thesis unfolding check_settled(2) store_sound_def by blast
next
  case (publish t)
  have "t \<noteq> path_for base (H data)" using assms(2,4) temp_not_address[of "H data" H base] publish(1) by auto
  with publish assms(2) show ?thesis by simp
qed

lemma stored_kept:
  assumes step: "put_step H base data fs ph fs' ph'" and ok: "call_ok H base fs data ph"
    and hash: "\<And>x. content_sha256_ok (H x)" and "inj_on H D" "data \<in> D" "other \<in> D"
    and old: "fs (path_for base (H other)) = Some (Regular other read_only_mode)"
  shows "fs' (path_for base (H other)) = Some (Regular other read_only_mode)"
proof -
  have "\<not> is_temp H base (path_for base (H other))" by (rule temp_not_address[OF hash])
  then have "own_temp ph \<noteq> Some (path_for base (H other))" using own_temp_is_temp[OF ok] by blast
  with put_step_effect[OF step ok, of "path_for base (H other)"] old show ?thesis
    using inj_onD[OF assms(4), of other data] assms(5,6) by auto
qed

lemma stored_inv_step:
  assumes hash: "\<And>x. content_sha256_ok (H x)" and inj: "inj_on H D"
    and "store_step H base D s s'" "writers_inv H base s" "stored_inv H base D s"
  shows "stored_inv H base D s'"
  using assms(3)
proof cases
  case (begin_put data fs cs)
  with assms(5) show ?thesis by (auto simp: stored_inv_def)
next
  case (call_step i cs data ph fs fs' ph')
  note step = call_step(5)
  have ok: "call_ok H base fs data ph" "store_sound H base fs"
    using assms(4) call_step by (auto simp: writers_inv_def)
  have mem: "(data, ph) \<in> set cs" using call_step(3,4) by (metis nth_mem)
  then have D: "data \<in> D" using assms(5) call_step(1) by (auto simp: stored_inv_def)
  have "x \<in> D \<and> (\<forall>uri. p = Placed uri \<longrightarrow> fs' (path_for base (H x)) = Some (Regular x read_only_mode))"
    if "(x, p) \<in> set (cs[i := (data, ph')])" for x p
  proof (cases "(x, p) = (data, ph')")
    case True
    with D show ?thesis using settled_stored[OF _ ok hash] step by auto
  next
    case False
    with that have "(x, p) \<in> set cs" using set_update_subset_insert by fastforce
    with assms(5) call_step(1) have x: "x \<in> D" "\<And>uri. p = Placed uri \<Longrightarrow> fs (path_for base (H x)) = Some (Regular x read_only_mode)"
      by (auto simp: stored_inv_def)
    then show ?thesis using stored_kept[OF step ok(1) hash inj D x(1)] by blast
  qed
  then show ?thesis using call_step(2) by (auto simp: stored_inv_def)
qed

lemma stored_inv_run:
  assumes hash: "\<And>x. content_sha256_ok (H x)" and inj: "inj_on H D"
    and "store_run H base D s s'" "writers_inv H base s" "stored_inv H base D s"
  shows "stored_inv H base D s'"
  using assms(3)
proof (induction rule: rtranclp_induct)
  case (step t u)
  have "writers_inv H base t" by (rule writers_inv_run[OF hash step(1) assms(4)])
  with step show ?case using stored_inv_step[OF hash inj step(2)] by blast
qed (rule assms(5))

text \<open>A settled call stays where it is, with its answer.\<close>

lemma settled_final: "put_step H base data fs ph fs' ph' \<Longrightarrow> \<not> put_settled ph"
  by (auto elim: put_stepE)

lemma stored_stays:
  assumes "store_run H base D s s'" "i < length (snd s)" "snd s ! i = (data, Placed uri)"
  shows "i < length (snd s') \<and> snd s' ! i = (data, Placed uri)"
  using assms
proof (induction rule: rtranclp_induct)
  case (step t u)
  from step(2) show ?case
  proof cases
    case (begin_put data' fs cs)
    with step(3)[OF step(4,5)] show ?thesis by (auto simp: nth_append)
  next
    case (call_step k cs data' ph fs fs' ph')
    have "k \<noteq> i" using settled_final[OF call_step(5)] step(3)[OF step(4,5)] call_step by auto
    with step(3)[OF step(4,5)] call_step show ?thesis by auto
  qed
qed simp

text \<open>
  Nothing but temporary files ever disappears: what was there is there, unless a content with the same
  digest was published over it.
\<close>

definition keeps_files :: "(string \<Rightarrow> digest) \<Rightarrow> path \<Rightarrow> string set \<Rightarrow> filesystem \<Rightarrow> filesystem \<Rightarrow> bool" where
  "keeps_files H base D fs fs' \<longleftrightarrow>
     (\<forall>q n. fs q = Some n \<longrightarrow> \<not> is_temp H base q \<longrightarrow>
        fs' q = Some n \<or>
        n \<noteq> Folder \<and> (\<exists>x \<in> D. q = path_for base (H x) \<and> fs' q = Some (Regular x read_only_mode)))"

lemma keeps_files_trans:
  assumes "keeps_files H base D fs fs1" "keeps_files H base D fs1 fs2"
  shows "keeps_files H base D fs fs2"
  unfolding keeps_files_def
proof (intro allI impI)
  fix q n assume q: "fs q = Some n" "\<not> is_temp H base q"
  consider "fs1 q = Some n" | x where "n \<noteq> Folder" "x \<in> D" "q = path_for base (H x)" "fs1 q = Some (Regular x read_only_mode)"
    using assms(1) q unfolding keeps_files_def by blast
  then show "fs2 q = Some n \<or> n \<noteq> Folder \<and> (\<exists>x \<in> D. q = path_for base (H x) \<and> fs2 q = Some (Regular x read_only_mode))"
    using assms(2) q(2) unfolding keeps_files_def by cases blast+
qed

lemma keeps_files_step:
  assumes "store_step H base D s s'" "writers_inv H base s" "fst ` set (snd s) \<subseteq> D"
  shows "keeps_files H base D (fst s) (fst s') \<and> fst ` set (snd s') \<subseteq> D"
  using assms(1)
proof cases
  case (begin_put data fs cs)
  with assms(3) show ?thesis by (simp add: keeps_files_def)
next
  case (call_step i cs data ph fs fs' ph')
  have ok: "call_ok H base fs data ph" using assms(2) call_step by (auto simp: writers_inv_def)
  note ok' = put_step_own(1)[OF call_step(5) ok]
  have "(data, ph) \<in> set cs" using call_step(3,4) by (metis nth_mem)
  then have D: "data \<in> D" using assms(3) call_step(1) by force
  have "fs' q = Some n \<or> n \<noteq> Folder \<and> (\<exists>x \<in> D. q = path_for base (H x) \<and> fs' q = Some (Regular x read_only_mode))"
    if q: "fs q = Some n" "\<not> is_temp H base q" for q n
  proof -
    have "own_temp ph \<noteq> Some q" "own_temp ph' \<noteq> Some q" using q(2) own_temp_is_temp[OF ok] own_temp_is_temp[OF ok'] by blast+
    with put_step_effect[OF call_step(5) ok, of q] q(1) D show ?thesis by auto
  qed
  moreover have "fst ` set (cs[i := (data, ph')]) \<subseteq> D"
    using assms(3) call_step(1) D set_update_subset_insert[of cs i "(data, ph')"] by fastforce
  ultimately show ?thesis using call_step(1,2) by (simp add: keeps_files_def)
qed

lemma keeps_files_run:
  assumes hash: "\<And>x. content_sha256_ok (H x)" and "store_run H base D s s'" "writers_inv H base s" "fst ` set (snd s) \<subseteq> D"
  shows "keeps_files H base D (fst s) (fst s') \<and> fst ` set (snd s') \<subseteq> D"
  using assms(2)
proof (induction rule: rtranclp_induct)
  case base
  with assms(4) show ?case by (simp add: keeps_files_def)
next
  case (step t u)
  have "writers_inv H base t" by (rule writers_inv_run[OF hash step(1) assms(3)])
  note one = keeps_files_step[OF step(2) this conjunct2[OF step(3)]]
  from keeps_files_trans[OF conjunct1[OF step(3)] conjunct1[OF one]] conjunct2[OF one] show ?case by (rule conjI)
qed

subsection \<open>The function is a history of its system calls\<close>

lemma make_folders_other:
  "make_folders ps cs fs = Some fs' \<Longrightarrow> length ps + length cs < length q \<Longrightarrow> fs' q = fs q"
proof (induction ps cs fs rule: make_folders.induct)
  case (2 ps c cs fs)
  then have q: "ps @ [c] \<noteq> q" by auto
  show ?case
  proof (cases "fs (ps @ [c])")
    case None
    have "fs' q = (fs(ps @ [c] \<mapsto> Folder)) q" by (rule 2(1)[OF None]) (use 2(3,4) None in \<open>simp_all add: fun_upd_def\<close>)
    with q show ?thesis by simp
  next
    case (Some node)
    with 2(2)[OF Some] 2(3,4) show ?thesis by (cases node) simp_all
  qed
qed simp

lemma call_run:
  assumes "store_run H base D (fs0, cs0) (fs, cs @ [(data, ph)])" "put_step H base data fs ph fs' ph'"
  shows "store_run H base D (fs0, cs0) (fs', cs @ [(data, ph')])"
proof -
  have "store_step H base D (fs, cs @ [(data, ph)]) (fs', (cs @ [(data, ph)])[length cs := (data, ph')])"
    by (rule call_step[OF _ _ assms(2)]) simp_all
  with assms(1) show ?thesis by (simp add: rtranclp.rtrancl_into_rtrancl)
qed

fun answer_phase :: "snapshot_error + string \<Rightarrow> put_phase" where
  "answer_phase (Inl e) = Refused e"
| "answer_phase (Inr uri) = Placed uri"

lemma put_is_run:
  assumes hash: "content_sha256_ok (H data)" and data: "data \<in> D"
    and free: "fs (temp_path H base data tag) = None" and put: "put H base tag fs data = (r, fs')"
  shows "store_run H base D (fs, cs) (fs', cs @ [(data, answer_phase r)])"
proof -
  let ?t = "temp_path H base data tag" and ?p = "path_for base (H data)"
  have begun: "store_run H base D (fs, cs) (fs, cs @ [(data, Begun)])"
    by (rule r_into_rtranclp) (rule begin_put[OF data])
  show ?thesis
  proof (cases "put_check H base fs data")
    case (Some q)
    then have "put_step H base data fs Begun fs (answer_phase q)"
      using check_settled[OF Some] by (cases q) simp_all
    with call_run[OF begun] Some put show ?thesis by (auto simp: put_def)
  next
    case None
    have absent: "fs ?p = None" using None by (auto simp: put_check_def split: if_splits option.splits fs_node.splits)
    note r1 = call_run[OF begun check_absent[OF None]]
    show ?thesis
    proof (cases "make_folders [] (bucket H base data) fs")
      case m: None
      with call_run[OF r1 no_folders[OF m]] None put show ?thesis by (auto simp: put_def)
    next
      case (Some fs1)
      have t1: "fs1 ?t = None"
        using make_folders_other[OF Some, of ?t] free by (simp add: temp_path_def)
      have p1: "fs1 ?p = None"
        using make_folders_other[OF Some, of ?p] absent by (simp add: bucket_def path_for_def)
      have tp: "?t \<noteq> ?p" using temp_not_address[OF hash, of H base] unfolding is_temp_def by metis
      note r2 = call_run[OF r1 folders[OF Some]]
      note r3 = call_run[OF r2 make_temp[where fs = fs1 and H = H and base = base and data = data and tag = tag, OF t1]]
      note r4 = call_run[OF r3 write_all]
      note r5 = call_run[OF r4 seal[of _ ?t data private_mode]]
      have "store_run H base D (fs, cs)
          (fs1(?p \<mapsto> Regular data read_only_mode, ?t := None), cs @ [(data, Placed (to_uri ?p))])"
        using call_run[OF r5 publish] p1 tp t1 by (simp add: fun_upd_twist)
      then show ?thesis using put None Some tp by (auto simp: put_def Let_def fun_upd_twist)
    qed
  qed
qed

subsection \<open>Properties\<close>

lemma resolve_uri_below: "resolve_uri ur uri = Inr p \<Longrightarrow> prefix (ur_base ur) p"
  by (auto simp: resolve_uri_def split: option.splits if_splits prod.splits)

text \<open>
  C11: A snapshot is whole and stays. Starting from a sound store, whatever callers put concurrently,
  however their system calls interleave, are short, fail or end with the death of the process: every
  regular file at the address of a digest has exactly that digest and is read-only; and nothing that
  exists, except temporary files, ever disappears: in every later state it is the same, or it was a
  snapshot and in its place is a read-only content of the same digest that a caller brought. So unless two
  contents share a digest, a snapshot never changes. And whatever the disk holds, even after tampering,
  \<open>get\<close> returns only bytes of a file below the root whose digest is the name of the file; two reads of one
  address, at any times, return contents of one digest.
\<close>

theorem snapshots_never_partial:
  assumes hash: "\<And>x. content_sha256_ok (H x)" and start: "store_sound H base fs0"
    and run: "store_run H base D (fs0, []) (fs, calls)" and later: "store_run H base D (fs, calls) (fs', calls')"
  shows "(\<forall>d b m. content_sha256_ok d \<longrightarrow> fs (path_for base d) = Some (Regular b m) \<longrightarrow> H b = d \<and> m = read_only_mode) \<and>
    (\<forall>q n. fs q = Some n \<longrightarrow> \<not> is_temp H base q \<longrightarrow> fs' q = Some n \<or>
       (\<exists>b b'. q = path_for base (H b) \<and> n = Regular b read_only_mode \<and>
          fs' q = Some (Regular b' read_only_mode) \<and> b' \<in> D \<and> H b' = H b)) \<and>
    (\<forall>d b m. content_sha256_ok d \<longrightarrow> fs (path_for base d) = Some (Regular b m) \<longrightarrow> (\<forall>x \<in> D. H x = H b \<longrightarrow> x = b) \<longrightarrow>
       fs' (path_for base d) = Some (Regular b read_only_mode)) \<and>
    (\<forall>ur disk uri b. get H ur disk uri = Inr b \<longrightarrow>
       (\<exists>p m. prefix (ur_base ur) p \<and> disk p = Some (Regular b m) \<and> H b = file_name p)) \<and>
    (\<forall>ur disk disk' uri b b'. get H ur disk uri = Inr b \<longrightarrow> get H ur disk' uri = Inr b' \<longrightarrow> H b = H b')"
proof -
  have inv: "writers_inv H base (fs, calls)" by (rule writers_inv_run[OF hash run writers_inv_start[OF start]])
  then have 1: "\<forall>d b m. content_sha256_ok d \<longrightarrow> fs (path_for base d) = Some (Regular b m) \<longrightarrow> H b = d \<and> m = read_only_mode"
    by (simp add: writers_inv_def store_sound_def)
  have "fst ` set calls \<subseteq> D" using keeps_files_run[OF hash run writers_inv_start[OF start]] by simp
  then have keep: "keeps_files H base D fs fs'" using keeps_files_run[OF hash later inv] by simp
  have 2: "fs' q = Some n \<or> (\<exists>b b'. q = path_for base (H b) \<and> n = Regular b read_only_mode \<and>
      fs' q = Some (Regular b' read_only_mode) \<and> b' \<in> D \<and> H b' = H b)"
    if q: "fs q = Some n" "\<not> is_temp H base q" for q n
  proof (cases "fs' q = Some n")
    case False
    with keep q obtain x where x: "n \<noteq> Folder" "x \<in> D" "q = path_for base (H x)" "fs' q = Some (Regular x read_only_mode)"
      unfolding keeps_files_def by blast
    from x(1) obtain b m where n: "n = Regular b m" by (cases n) auto
    have "H b = H x \<and> m = read_only_mode" using 1 hash[of x] q(1) x(3) n by blast
    with x n show ?thesis by auto
  qed simp
  have 3: "fs' (path_for base d) = Some (Regular b read_only_mode)"
    if d: "content_sha256_ok d" "fs (path_for base d) = Some (Regular b m)" "\<forall>x \<in> D. H x = H b \<longrightarrow> x = b" for d b m
  proof -
    have "m = read_only_mode" using 1 d by blast
    with 2[OF d(2) temp_not_address[OF d(1)]] d(3) show ?thesis by auto
  qed
  have 4: "\<exists>p m. prefix (ur_base ur) p \<and> disk p = Some (Regular b m) \<and> H b = file_name p \<and> resolve_uri ur uri = Inr p"
    if "get H ur disk uri = Inr b" for ur disk uri b
  proof -
    from that obtain p where p: "resolve_uri ur uri = Inr p" "read_bytes disk p = Inr b" "H b = file_name p"
      by (auto simp: get_def split: if_splits)
    from p(2) obtain m where "disk p = Some (Regular b m)"
      by (auto simp: read_bytes_def split: option.splits fs_node.splits if_splits)
    with p resolve_uri_below[OF p(1)] show ?thesis by blast
  qed
  have 5: "H b = H b'" if "get H ur disk uri = Inr b" "get H ur disk' uri = Inr b'" for ur disk disk' uri b b'
    using 4[OF that(1)] 4[OF that(2)] by auto
  have found: "\<exists>p m. prefix (ur_base ur) p \<and> disk p = Some (Regular b m) \<and> H b = file_name p"
    if "get H ur disk uri = Inr b" for ur disk uri b using 4[OF that] by blast
  show ?thesis
  proof (intro conjI)
    show "\<forall>d b m. content_sha256_ok d \<longrightarrow> fs (path_for base d) = Some (Regular b m) \<longrightarrow> H b = d \<and> m = read_only_mode"
      by (rule 1)
  qed (use 2 in blast, use 3 in blast, use found in blast, use 5 in blast)
qed

text \<open>
  C35: A stored snapshot reads back. When no two contents brought to the store share a digest and the
  names of the root need no quoting, then from the moment a \<open>put\<close> returned its address, in every later
  state of any concurrent history, \<open>get\<close> of that address returns exactly the bytes that were put; and two
  puts return the same address exactly when they stored the same bytes.
\<close>

theorem snapshot_reads_back:
  assumes hash: "\<And>x. content_sha256_ok (H x)" and inj: "inj_on H D" and start: "store_sound H base fs0"
    and run: "store_run H base D (fs0, []) (fs, calls)" and put: "i < length calls" "calls ! i = (data, Placed uri)"
    and later: "store_run H base D (fs, calls) (fs', calls')"
    and ur: "ur_base ur = base" "list_all plain_name base"
  shows "get H ur fs' uri = Inr data \<and>
    (\<forall>data' uri'. (data', Placed uri') \<in> set calls' \<longrightarrow> (uri' = uri \<longleftrightarrow> data' = data))"
proof -
  have all: "store_run H base D (fs0, []) (fs', calls')" using run later by (rule rtranclp_trans)
  note w = writers_inv_start[OF start]
  have inv: "writers_inv H base (fs', calls')" by (rule writers_inv_run[OF hash all w])
  have st: "stored_inv H base D (fs', calls')"
    by (rule stored_inv_run[OF hash inj all w]) (simp add: stored_inv_def)
  have "i < length calls' \<and> calls' ! i = (data, Placed uri)" using stored_stays[OF later, of i data uri] put by simp
  then have mem: "(data, Placed uri) \<in> set calls'" by (metis nth_mem)
  have addr: "x \<in> D \<and> u = to_uri (path_for base (H x)) \<and> fs' (path_for base (H x)) = Some (Regular x read_only_mode)"
    if x: "(x, Placed u) \<in> set calls'" for x u
  proof -
    from x obtain k where "k < length calls'" "calls' ! k = (x, Placed u)" by (metis in_set_conv_nth)
    with inv have "call_ok H base fs' x (Placed u)" by (force simp: writers_inv_def)
    with st x show ?thesis by (auto simp: stored_inv_def)
  qed
  have get: "get H ur fs' u = Inr x" if "(x, Placed u) \<in> set calls'" for x u
    using get_stored[of H x ur fs' read_only_mode, OF hash] ur addr[OF that] by auto
  show ?thesis
  proof (intro conjI allI impI)
    show "get H ur fs' uri = Inr data" by (rule get[OF mem])
    show "uri' = uri \<longleftrightarrow> data' = data" if d: "(data', Placed uri') \<in> set calls'" for data' uri'
    proof
      assume "uri' = uri"
      with get[OF mem] get[OF d] show "data' = data" by simp
    next
      assume "data' = data"
      with conjunct1[OF conjunct2[OF addr[OF mem]]] conjunct1[OF conjunct2[OF addr[OF d]]] show "uri' = uri" by simp
    qed
  qed
qed

subsection \<open>Example\<close>

text \<open>A hash that tells the two contents of the example apart.\<close>

definition snap_hash :: "string \<Rightarrow> digest" where
  "snap_hash s = replicate 63 CHR ''a'' @ (if s = ''page'' then ''0'' else if s = ''paper'' then ''1'' else ''2'')"

definition snap_base :: path where
  "snap_base = [''var'', ''snap shots'']"

definition snap_reader :: uri_reader where
  "snap_reader = \<lparr>ur_base = snap_base, ur_cwd = [], ur_refused = (\<lambda>a. True), ur_decode = (\<lambda>s. s)\<rparr>"

definition snap_disk :: filesystem where
  "snap_disk = snd (put snap_hash snap_base ''x1'' Map.empty ''page'')"

definition snap_uri :: string where
  "snap_uri = to_uri (path_for snap_base (snap_hash ''page''))"

lemma snap_hash_ok: "content_sha256_ok (snap_hash s)"
proof -
  have "list_all is_hex_lower ''012''" "is_hex_lower CHR ''a''" by code_simp+
  then show ?thesis by (simp add: content_sha256_ok_def snap_hash_def list_all_iff)
qed

lemma snap_put: "put snap_hash snap_base ''x1'' Map.empty ''page'' = (Inr snap_uri, snap_disk)"
  by (simp add: put_def put_check_def snap_disk_def snap_uri_def bucket_def snap_base_def Let_def)

lemma snap_run:
  "store_run snap_hash snap_base {''page'', ''paper''} (Map.empty, []) (snap_disk, [(''page'', Placed snap_uri)])"
  using put_is_run[OF snap_hash_ok _ _ snap_put, of "{''page'', ''paper''}" "[]"] by simp

lemma snap_start: "store_sound snap_hash snap_base Map.empty"
  by (simp add: store_sound_def)

text \<open>The first snapshot survives the storing of a second one.\<close>

definition snap_later :: filesystem where
  "snap_later = snd (put snap_hash snap_base ''x2'' snap_disk ''paper'')"

theorem snapshots_never_partial_witness:
  "snap_disk (path_for snap_base (snap_hash ''page'')) = Some (Regular ''page'' read_only_mode) \<and>
   snap_later (path_for snap_base (snap_hash ''page'')) = Some (Regular ''page'' read_only_mode)"
proof -
  have disk: "snap_disk (path_for snap_base (snap_hash ''page'')) = Some (Regular ''page'' read_only_mode)"
    by (simp add: snap_disk_def put_def put_check_def bucket_def snap_base_def Let_def)
  have free: "snap_disk (temp_path snap_hash snap_base ''paper'' ''x2'') = None"
    by (simp add: snap_disk_def put_def put_check_def bucket_def snap_base_def temp_path_def path_for_def snap_hash_def Let_def)
  obtain r where put: "put snap_hash snap_base ''x2'' snap_disk ''paper'' = (r, snap_later)"
    unfolding snap_later_def by (metis prod.collapse)
  have run2: "store_run snap_hash snap_base {''page'', ''paper''} (snap_disk, [(''page'', Placed snap_uri)])
      (snap_later, [(''page'', Placed snap_uri)] @ [(''paper'', answer_phase r)])"
    by (rule put_is_run[OF snap_hash_ok _ free put]) simp
  have apart: "\<forall>x \<in> {''page'', ''paper''}. snap_hash x = snap_hash ''page'' \<longrightarrow> x = ''page''" by (simp add: snap_hash_def)
  from snapshots_never_partial[OF snap_hash_ok snap_start snap_run run2, THEN conjunct2, THEN conjunct2, THEN conjunct1,
      rule_format, OF snap_hash_ok disk] apart disk
  show ?thesis by simp
qed

theorem snapshot_reads_back_witness:
  "get snap_hash snap_reader snap_disk snap_uri = Inr ''page''"
proof -
  have inj: "inj_on snap_hash {''page'', ''paper''}" by (simp add: snap_hash_def)
  have plain: "list_all plain_name snap_base" by code_simp
  have "get snap_hash snap_reader snap_disk snap_uri = Inr ''page'' \<and>
      (\<forall>data' uri'. (data', Placed uri') \<in> set [(''page'', Placed snap_uri)] \<longrightarrow>
         (uri' = snap_uri \<longleftrightarrow> data' = ''page''))"
    by (rule snapshot_reads_back[OF snap_hash_ok inj snap_start snap_run, of 0 _ _ snap_disk])
      (simp_all add: plain snap_reader_def)
  then show ?thesis by simp
qed

end
