(* ===== verification/Acquisition_Props.thy ===== *)
theory Acquisition_Props
  imports Acquisition Snapshot_Writers Boundary_Props
begin

text \<open>What callers of the acquisition service and readers of its evidence rely on.\<close>

subsection \<open>Recording spans\<close>

lemma record_evidence_appends:
  assumes "record_evidence U org e ts = Inr ts'"
  shows "et_artifacts ts' = et_artifacts ts \<and> map ew_evidence (et_evidence ts') = map ew_evidence (et_evidence ts) @ [e]"
  using assms by (rule record_evidence_InrE) simp

text \<open>However the loop ends, it only appends evidence of the given spans, and keeps the tables sound.\<close>

lemma record_spans_appends:
  assumes "record_spans sv org mk ids k ls ts = (r, ts')"
  shows "et_artifacts ts' = et_artifacts ts \<and>
    (\<exists>n \<le> length ls. map ew_evidence (et_evidence ts') =
       map ew_evidence (et_evidence ts) @ map (\<lambda>i. mk (ids (k + i)) (ls ! i)) [0..<n] \<and>
       (\<forall>es. r = Inr es \<longrightarrow> n = length ls \<and> es = map (\<lambda>i. mk (ids (k + i)) (ls ! i)) [0..<n]))"
  using assms
proof (induction ls arbitrary: k ts r ts')
  case (Cons l ls)
  let ?e = "mk (ids k) l"
  consider (refused) x where "r = Inl x" "ts' = ts"
    | (on) ts1 r1 where "record_evidence (sv_uuid sv) org ?e ts = Inr ts1" "record_spans sv org mk ids (Suc k) ls ts1 = (r1, ts')"
        "r = (case r1 of Inl x \<Rightarrow> Inl x | Inr es \<Rightarrow> Inr (?e # es))"
    using Cons(2) by (cases "evidence_violation ?e"; cases "record_evidence (sv_uuid sv) org ?e ts")
      (auto split: prod.splits sum.splits)
  then show ?case
  proof cases
    case refused
    then show ?thesis by (intro conjI exI[of _ 0]) simp_all
  next
    case on
    note one = record_evidence_appends[OF on(1)]
    from Cons(1)[OF on(2)] obtain n where n: "n \<le> length ls"
      "map ew_evidence (et_evidence ts') = map ew_evidence (et_evidence ts1) @ map (\<lambda>i. mk (ids (Suc k + i)) (ls ! i)) [0..<n]"
      "\<forall>es. r1 = Inr es \<longrightarrow> n = length ls \<and> es = map (\<lambda>i. mk (ids (Suc k + i)) (ls ! i)) [0..<n]"
      and arts: "et_artifacts ts' = et_artifacts ts1" by blast
    have shift: "map (\<lambda>i. mk (ids (k + i)) ((l # ls) ! i)) [0..<Suc n] = ?e # map (\<lambda>i. mk (ids (Suc k + i)) (ls ! i)) [0..<n]"
      by (simp add: upt_conv_Cons map_Suc_upt[symmetric] comp_def del: upt_Suc)
    show ?thesis
      using n one arts on(3) shift
      by (intro conjI exI[of _ "Suc n"]) (auto simp del: upt_Suc split: sum.splits)
  qed
qed (auto intro: exI[of _ 0])

lemma record_spans_sound:
  assumes "record_spans sv org mk ids k ls ts = (r, ts')" "rows_sound ts"
  shows "rows_sound ts'"
  using assms
proof (induction ls arbitrary: k ts r ts')
  case (Cons l ls)
  then show ?case
    by (cases "evidence_violation (mk (ids k) l)"; cases "record_evidence (sv_uuid sv) org (mk (ids k) l) ts")
      (auto dest: record_evidence_sound split: prod.splits sum.splits)
qed simp

subsection \<open>Locating spans\<close>

lemma locate_spans_facts:
  assumes "locate_spans sv aq fs oc = Inr (Inr lc)"
  shows "get (sv_hash sv) (sv_reader sv) fs (hd_storage_uri (lc_handle lc)) = Inr (lc_data lc)"
    and "sv_hash sv (lc_data lc) = hd_sha256 (lc_handle lc)"
    and "list_all2 (\<lambda>x l. excerpt_locator x = Inr l) (aq_excerpts aq) (lc_locators lc)"
    and "list_all2 (\<lambda>l x. resolve l (lc_data lc) = Inr x) (lc_locators lc) (lc_excerpts lc)"
    and "ti_prompt_binding (oc_invocation oc) = Some (lc_binding lc)"
  using assms unfolding locate_spans_def
  by (auto split: option.splits sum.splits if_splits simp: map_result_Inr)

lemma locate_spans_unavailable:
  assumes "locate_spans sv aq fs oc = Inr (Inl ao)"
  shows "\<exists>d. ao = unavailable oc SourceInaccessible (Some d)"
  using assms unfolding locate_spans_def by (auto split: option.splits sum.splits if_splits)

lemma typed_source_untrusted: "typed_source sv tool declared = Inr (s, t) \<Longrightarrow> \<not> is_trusted_tier t"
  using trust_for_member[of s]
  by (auto simp: typed_source_def split: sum.splits source_argument.splits option.splits)

subsection \<open>Recording a snapshot\<close>

definition acquired_outcome :: "outcome \<Rightarrow> artifact \<Rightarrow> evidence list \<Rightarrow> string list \<Rightarrow> acquisition_outcome" where
  "acquired_outcome oc a es xs =
     \<lparr>ao_status = Acquired, ao_invocation = oc_invocation oc, ao_artifact = Some a, ao_evidence = es,
      ao_reason = None, ao_detail = None, ao_excerpts = xs\<rparr>"

lemma record_snapshot_cases:
  assumes "record_snapshot sv aq s t oc lc clock ids ts = (r, ts')"
  obtains (nothing) e where "r = Inl e" "ts' = ts"
  | (recorded) metadata now a ts1 r1 where
      "snapshot_metadata sv s (aq_source_uri aq) (lc_handle lc) (oc_invocation oc) = Inr metadata"
      "a = snapshot_artifact aq (ids 0) t (lc_handle lc) metadata now"
      "create_artifact (sv_uuid sv) (aq_org aq) a ts = Inr ts1"
      "record_spans sv (aq_org aq) (excerpt_evidence aq s t a (lc_binding lc) now) ids 1 (lc_locators lc) ts1 = (r1, ts')"
      "r = (case r1 of Inl e \<Rightarrow> Inl e | Inr es \<Rightarrow> Inr (acquired_outcome oc a es (lc_excerpts lc)))"
proof (cases "snapshot_metadata sv s (aq_source_uri aq) (lc_handle lc) (oc_invocation oc)")
  case (Inl e)
  with assms that(1) show ?thesis by (auto simp: record_snapshot_def)
next
  case m: (Inr metadata)
  show ?thesis
  proof (cases clock)
    case (Naive n)
    with assms m that(1) show ?thesis by (auto simp: record_snapshot_def)
  next
    case (Aware now)
    let ?a = "snapshot_artifact aq (ids 0) t (lc_handle lc) metadata now"
    note run = assms[unfolded record_snapshot_def m sum.case Aware py_datetime.case Let_def]
    show ?thesis
    proof (cases "artifact_violation ?a")
      case (Some e)
      with run that(1) show ?thesis by auto
    next
      case ok: None
      show ?thesis
      proof (cases "create_artifact (sv_uuid sv) (aq_org aq) ?a ts")
        case (Inl e)
        with run ok that(1) show ?thesis by auto
      next
        case (Inr ts1)
        obtain r1 ts2 where sp: "record_spans sv (aq_org aq) (excerpt_evidence aq s t ?a (lc_binding lc) now) ids 1
            (lc_locators lc) ts1 = (r1, ts2)" by (cases "record_spans sv (aq_org aq) (excerpt_evidence aq s t ?a (lc_binding lc) now) ids 1
            (lc_locators lc) ts1")
        note run = run[unfolded ok option.case Inr sum.case sp prod.case]
        have "ts' = ts2 \<and> r = (case r1 of Inl e \<Rightarrow> Inl e | Inr es \<Rightarrow> Inr (acquired_outcome oc ?a es (lc_excerpts lc)))"
          using run by (cases r1) (auto simp: acquisition_violation_def acquired_outcome_def checks.simps)
        with that(2)[OF m refl Inr] sp show ?thesis by simp
      qed
    qed
  qed
qed

lemma record_snapshot_sound:
  assumes "record_snapshot sv aq s t oc lc clock ids ts = (r, ts')" "rows_sound ts"
  shows "rows_sound ts'"
  using assms(1)
proof (cases rule: record_snapshot_cases)
  case (recorded metadata now a ts1 r1)
  from create_artifact_sound[OF recorded(3) assms(2)] recorded(4) show ?thesis by (rule record_spans_sound[rotated])
qed (simp add: assms(2))

lemma finish_cases:
  assumes "finish_acquisition sv aq fs clock ids oc ts = (r, ts')"
  obtains (raised) e where "r = Inl e" "ts' = ts" "e \<noteq> NoFailureReason"
  | (absent) reason d where "r = Inr (unavailable oc reason d)" "ts' = ts"
      "(if outcome_succeeded oc then Some SourceInaccessible else failure_reasons (oc_status oc)) = Some reason"
  | (located) s t lc where "outcome_succeeded oc" "locate_spans sv aq fs oc = Inr (Inr lc)"
      "typed_source sv (ti_tool_name (oc_invocation oc)) (aq_source_type aq) = Inr (s, t)"
      "record_snapshot sv aq s t oc lc clock ids ts = (r, ts')"
proof (cases "outcome_succeeded oc")
  case False
  then obtain reason where r: "failure_reasons (oc_status oc) = Some reason"
    by (cases "oc_status oc") (auto simp: outcome_succeeded_def)
  with False assms that(2)[of reason "oc_detail oc"] show ?thesis by (auto simp: finish_acquisition_def)
next
  case ok: True
  show ?thesis
  proof (cases "typed_source sv (ti_tool_name (oc_invocation oc)) (aq_source_type aq)")
    case (Inl e)
    then have "e \<noteq> NoFailureReason"
      by (auto simp: typed_source_def split: sum.splits source_argument.splits option.splits)
    with Inl ok assms that(1) show ?thesis by (auto simp: finish_acquisition_def)
  next
    case (Inr st)
    obtain s t where st: "st = (s, t)" by (cases st)
    note run = assms[unfolded finish_acquisition_def Inr st sum.case prod.case]
    show ?thesis
    proof (cases "locate_spans sv aq fs oc")
      case l: (Inl e)
      then have "e \<noteq> NoFailureReason" unfolding locate_spans_def by (auto split: option.splits sum.splits if_splits)
      with l ok run that(1) show ?thesis by auto
    next
      case l: (Inr q)
      then show ?thesis
        using locate_spans_unavailable[of sv aq fs oc] ok run that(2,3) Inr st by (cases q) auto
    qed
  qed
qed

subsection \<open>An acquired source\<close>

lemma acquired_cases:
  assumes "finish_acquisition sv aq fs clock ids oc ts = (Inr ao, ts')" "ao_status ao = Acquired"
  obtains s t lc metadata now ts1 es where
    "typed_source sv (ti_tool_name (oc_invocation oc)) (aq_source_type aq) = Inr (s, t)"
    "locate_spans sv aq fs oc = Inr (Inr lc)"
    "snapshot_metadata sv s (aq_source_uri aq) (lc_handle lc) (oc_invocation oc) = Inr metadata"
    "create_artifact (sv_uuid sv) (aq_org aq) (snapshot_artifact aq (ids 0) t (lc_handle lc) metadata now) ts = Inr ts1"
    "record_spans sv (aq_org aq) (excerpt_evidence aq s t (snapshot_artifact aq (ids 0) t (lc_handle lc) metadata now)
       (lc_binding lc) now) ids 1 (lc_locators lc) ts1 = (Inr es, ts')"
    "ao = acquired_outcome oc (snapshot_artifact aq (ids 0) t (lc_handle lc) metadata now) es (lc_excerpts lc)"
  using assms(1)
proof (cases rule: finish_cases)
  case (located s t lc)
  from located(4) show ?thesis
  proof (cases rule: record_snapshot_cases)
    case (recorded metadata now a ts1 r1)
    then obtain es where "r1 = Inr es" by (cases r1) auto
    with recorded located that show ?thesis by auto
  qed simp
qed (use assms(2) in \<open>auto simp: unavailable_def\<close>)

lemma all2_nth: "list_all2 P xs ys \<Longrightarrow> i < length xs \<Longrightarrow> P (xs ! i) (ys ! i)"
  by (rule list_all2_nthD)

text \<open>All of it, in the form the following proofs use.\<close>

lemma find_append_fresh:
  assumes "\<forall>r \<in> set rs. ar_id (aw_artifact r) \<noteq> ar_id a" "P u"
  shows "find (\<lambda>r. ar_id (aw_artifact r) = ar_id a \<and> P (aw_org r)) (rs @ [\<lparr>aw_artifact = a, aw_org = u\<rparr>]) =
    Some \<lparr>aw_artifact = a, aw_org = u\<rparr>"
  using assms by (induction rs) auto

lemma acquired_evidence_facts:
  assumes run: "finish_acquisition sv aq fs clock ids oc ts = (Inr ao, ts')" and "ao_status ao = Acquired"
  obtains a s t data u metadata binding where
    "ao_artifact ao = Some a" "typed_source sv (ti_tool_name (oc_invocation oc)) (aq_source_type aq) = Inr (s, t)"
    "ar_trust a = t" "ar_metadata a = metadata" "normalized (sv_uuid sv) (aq_org aq) = Inr u"
    "get (sv_hash sv) (sv_reader sv) fs (ar_storage_uri a) = Inr data" "sv_hash sv data = ar_content_sha256 a"
    "length (ao_evidence ao) = length (aq_excerpts aq)" "length (ao_excerpts ao) = length (aq_excerpts aq)"
    "ti_prompt_binding (oc_invocation oc) = Some binding"
    "\<forall>i < length (aq_excerpts aq).
       excerpt_locator (aq_excerpts aq ! i) = Inr (ev_locator (ao_evidence ao ! i)) \<and>
       resolve (ev_locator (ao_evidence ao ! i)) data = Inr (ao_excerpts ao ! i) \<and>
       ev_trust (ao_evidence ao ! i) = t \<and> ev_snapshot_artifact_id (ao_evidence ao ! i) = ar_id a \<and>
       ev_content_sha256 (ao_evidence ao ! i) = ar_content_sha256 a \<and>
       ev_prompt_binding (ao_evidence ao ! i) = Some binding \<and> ev_source_uri (ao_evidence ao ! i) = aq_source_uri aq"
    "et_artifacts ts' = et_artifacts ts @ [\<lparr>aw_artifact = a, aw_org = u\<rparr>]"
    "map ew_evidence (et_evidence ts') = map ew_evidence (et_evidence ts) @ ao_evidence ao"
    "\<exists>h. snapshot_metadata sv s (aq_source_uri aq) h (oc_invocation oc) = Inr metadata"
proof -
  from assms obtain s t lc metadata now ts1 es where c:
    "typed_source sv (ti_tool_name (oc_invocation oc)) (aq_source_type aq) = Inr (s, t)"
    "locate_spans sv aq fs oc = Inr (Inr lc)"
    "snapshot_metadata sv s (aq_source_uri aq) (lc_handle lc) (oc_invocation oc) = Inr metadata"
    "create_artifact (sv_uuid sv) (aq_org aq) (snapshot_artifact aq (ids 0) t (lc_handle lc) metadata now) ts = Inr ts1"
    "record_spans sv (aq_org aq) (excerpt_evidence aq s t (snapshot_artifact aq (ids 0) t (lc_handle lc) metadata now)
       (lc_binding lc) now) ids 1 (lc_locators lc) ts1 = (Inr es, ts')"
    "ao = acquired_outcome oc (snapshot_artifact aq (ids 0) t (lc_handle lc) metadata now) es (lc_excerpts lc)"
    by (rule acquired_cases)
  let ?a = "snapshot_artifact aq (ids 0) t (lc_handle lc) metadata now"
  note lf = locate_spans_facts[OF c(2)]
  have len: "length (lc_locators lc) = length (aq_excerpts aq)" "length (lc_excerpts lc) = length (aq_excerpts aq)"
    using lf(3,4) by (simp_all add: list_all2_lengthD)
  from record_spans_appends[OF c(5)] len(1) have es:
    "es = map (\<lambda>i. excerpt_evidence aq s t ?a (lc_binding lc) now (ids (1 + i)) (lc_locators lc ! i)) [0..<length (aq_excerpts aq)]"
    and rows: "et_artifacts ts' = et_artifacts ts1" "map ew_evidence (et_evidence ts') = map ew_evidence (et_evidence ts1) @ es"
    by auto
  from c(4) obtain u where u: "normalized (sv_uuid sv) (aq_org aq) = Inr u" and ts1: "ts1 = ts\<lparr>et_artifacts := et_artifacts ts @ [\<lparr>aw_artifact = ?a, aw_org = u\<rparr>]\<rparr>"
    unfolding create_artifact_Inr by blast
  have spans: "excerpt_locator (aq_excerpts aq ! i) = Inr (lc_locators lc ! i) \<and>
      resolve (lc_locators lc ! i) (lc_data lc) = Inr (lc_excerpts lc ! i)" if "i < length (aq_excerpts aq)" for i
    using all2_nth[OF lf(3) that] all2_nth[OF lf(4), of i] that len by simp
  have ev: "ao_evidence ao ! i = excerpt_evidence aq s t ?a (lc_binding lc) now (ids (1 + i)) (lc_locators lc ! i)"
    if "i < length (aq_excerpts aq)" for i using that by (simp add: c(6) acquired_outcome_def es)
  show ?thesis
    by (rule that[of ?a s t metadata u "lc_data lc" "lc_binding lc"])
      (use c(1,3) u lf(1,2,5) len es rows ts1 spans ev in
        \<open>auto simp: c(6) acquired_outcome_def snapshot_artifact_def excerpt_evidence_def\<close>)
qed

text \<open>
  C7: Every piece of acquired evidence resolves, and none of it is trusted. When an acquisition succeeds,
  whatever the tool and the store answered: the label of the artifact and of all its evidence is the one of
  the source type of the tool that ran, never in the trusted tier; the snapshot store holds, at the address
  of the artifact, bytes with the recorded digest; there is one evidence record per requested span, in
  order, under the canonical locator of that span, which resolves in those bytes to the returned excerpt;
  and it names the prompt the boundary verified. Exactly these rows are written.
\<close>

theorem acquired_evidence_resolves:
  assumes run: "finish_acquisition sv aq fs clock ids oc ts = (Inr ao, ts')" and "ao_status ao = Acquired"
  shows "\<exists>a s t data u.
    ao_artifact ao = Some a \<and> typed_source sv (ti_tool_name (oc_invocation oc)) (aq_source_type aq) = Inr (s, t) \<and>
    ar_trust a = t \<and> \<not> is_trusted_tier t \<and>
    get (sv_hash sv) (sv_reader sv) fs (ar_storage_uri a) = Inr data \<and> sv_hash sv data = ar_content_sha256 a \<and>
    length (ao_evidence ao) = length (aq_excerpts aq) \<and> length (ao_excerpts ao) = length (aq_excerpts aq) \<and>
    (\<forall>i < length (aq_excerpts aq). let e = ao_evidence ao ! i in
       excerpt_locator (aq_excerpts aq ! i) = Inr (ev_locator e) \<and> resolve (ev_locator e) data = Inr (ao_excerpts ao ! i) \<and>
       ev_trust e = t \<and> ev_snapshot_artifact_id e = ar_id a \<and> ev_content_sha256 e = ar_content_sha256 a \<and>
       ev_prompt_binding e = ti_prompt_binding (oc_invocation oc) \<and> ev_prompt_binding e \<noteq> None) \<and>
    et_artifacts ts' = et_artifacts ts @ [\<lparr>aw_artifact = a, aw_org = u\<rparr>] \<and>
    map ew_evidence (et_evidence ts') = map ew_evidence (et_evidence ts) @ ao_evidence ao"
  by (rule acquired_evidence_facts[OF assms]) (auto simp: Let_def intro!: exI dest: typed_source_untrusted)

subsection \<open>A source that is not acquired\<close>

lemma record_spans_refused:
  "record_spans sv org mk ids k ls ts = (Inl e, ts') \<Longrightarrow> (\<exists>x. e = RowRefused x) \<or> (\<exists>x. e = ContractRefused x)"
proof (induction ls arbitrary: k ts)
  case (Cons l ls)
  then show ?case
    by (cases "evidence_violation (mk (ids k) l)"; cases "record_evidence (sv_uuid sv) org (mk (ids k) l) ts")
      (auto split: prod.splits sum.splits)
qed simp

text \<open>
  What is in the tables when they changed: the artifact of the handle, and evidence of the first spans,
  of all of them unless a row was refused.
\<close>

definition partly_recorded :: "acquire_error + acquisition_outcome \<Rightarrow> fetch_handle \<Rightarrow> string list \<Rightarrow> evidence_tables \<Rightarrow> evidence_tables \<Rightarrow> bool" where
  "partly_recorded r h ls ts ts' \<longleftrightarrow>
     (\<exists>a u new. ar_storage_uri a = hd_storage_uri h \<and> ar_content_sha256 a = hd_sha256 h \<and>
        et_artifacts ts' = et_artifacts ts @ [\<lparr>aw_artifact = a, aw_org = u\<rparr>] \<and>
        map ew_evidence (et_evidence ts') = map ew_evidence (et_evidence ts) @ new \<and>
        map ev_locator new = take (length new) ls \<and>
        (\<forall>e \<in> set new. ev_snapshot_artifact_id e = ar_id a \<and> ev_content_sha256 e = hd_sha256 h) \<and>
        (case r of
           Inl e \<Rightarrow> (\<exists>x. e = RowRefused x) \<or> (\<exists>x. e = ContractRefused x)
         | Inr ao \<Rightarrow> ao_status ao = Acquired \<and> length new = length ls))"

lemma finish_written:
  assumes "finish_acquisition sv aq fs clock ids oc ts = (r, ts')" "ts' \<noteq> ts"
  shows "\<exists>lc. outcome_succeeded oc \<and> locate_spans sv aq fs oc = Inr (Inr lc) \<and>
    partly_recorded r (lc_handle lc) (lc_locators lc) ts ts'"
  using assms(1)
proof (cases rule: finish_cases)
  case (located s t lc)
  from located(4) show ?thesis
  proof (cases rule: record_snapshot_cases)
    case (recorded metadata now a ts1 r1)
    from recorded(3) obtain u where ts1: "ts1 = ts\<lparr>et_artifacts := et_artifacts ts @ [\<lparr>aw_artifact = a, aw_org = u\<rparr>]\<rparr>"
      unfolding create_artifact_Inr by blast
    let ?mk = "excerpt_evidence aq s t a (lc_binding lc) now"
    from record_spans_appends[OF recorded(4)] ts1 obtain n where n: "n \<le> length (lc_locators lc)"
      "map ew_evidence (et_evidence ts') = map ew_evidence (et_evidence ts) @
         map (\<lambda>i. ?mk (ids (1 + i)) (lc_locators lc ! i)) [0..<n]"
      "et_artifacts ts' = et_artifacts ts @ [\<lparr>aw_artifact = a, aw_org = u\<rparr>]"
      "\<forall>es. r1 = Inr es \<longrightarrow> n = length (lc_locators lc)" by auto
    define new where "new = map (\<lambda>i. ?mk (ids (1 + i)) (lc_locators lc ! i)) [0..<n]"
    have "map ev_locator new = take (length new) (lc_locators lc)"
      using n(1) by (auto simp: new_def excerpt_evidence_def intro!: nth_equalityI)
    moreover have "ev_snapshot_artifact_id e = ar_id a \<and> ev_content_sha256 e = ar_content_sha256 a" if "e \<in> set new" for e
      using that by (auto simp: new_def excerpt_evidence_def)
    moreover have "case r of Inl e \<Rightarrow> (\<exists>x. e = RowRefused x) \<or> (\<exists>x. e = ContractRefused x)
        | Inr ao \<Rightarrow> ao_status ao = Acquired \<and> length new = length (lc_locators lc)"
      using recorded(4,5) n(4) record_spans_refused by (cases r1) (auto simp: acquired_outcome_def new_def)
    moreover have "ar_storage_uri a = hd_storage_uri (lc_handle lc)" "ar_content_sha256 a = hd_sha256 (lc_handle lc)"
      by (simp_all add: recorded(2) snapshot_artifact_def)
    ultimately have "partly_recorded r (lc_handle lc) (lc_locators lc) ts ts'"
      unfolding partly_recorded_def using n(2,3) new_def by (intro exI[of _ a] exI[of _ u] exI[of _ new]) simp
    with located show ?thesis by blast
  qed (use assms(2) in simp)
qed (use assms(2) in simp_all)

lemma locate_spans_handle:
  assumes "locate_spans sv aq fs oc = Inr (Inr lc)"
  shows "parse_handle (sv_coerce sv) (handle_items (ti_output (oc_invocation oc))) = Some (lc_handle lc)"
  using assms unfolding locate_spans_def by (auto split: option.splits sum.splits if_splits)

lemma finish_sound:
  assumes "finish_acquisition sv aq fs clock ids oc ts = (r, ts')" "rows_sound ts"
  shows "rows_sound ts'"
  using assms(1) by (cases rule: finish_cases) (use assms(2) record_snapshot_sound in auto)

lemma finish_unavailable:
  assumes "finish_acquisition sv aq fs clock ids oc ts = (Inr ao, ts')" "ao_status ao = Unavailable"
  shows "ts' = ts \<and> ao_artifact ao = None \<and> ao_evidence ao = [] \<and> ao_excerpts ao = [] \<and>
    ao_reason ao = (if outcome_succeeded oc then Some SourceInaccessible else failure_reasons (oc_status oc)) \<and>
    ao_reason ao \<noteq> None"
  using assms(1)
proof (cases rule: finish_cases)
  case (located s t lc)
  from located(4) show ?thesis
    by (cases rule: record_snapshot_cases) (use assms(2) in \<open>auto simp: acquired_outcome_def split: sum.splits\<close>)
qed (auto simp: unavailable_def)

lemma acquire_cases:
  assumes "acquire dp an sv aq fs clock ids bs ts = (es, bs', r, ts')"
  obtains (early) e where "r = Inl e" "ts' = ts" "e \<noteq> NoFailureReason"
  | (called) s t oc where "typed_source sv (aq_tool_name aq) (aq_source_type aq) = Inr (s, t)"
      "invoke dp an (acquire_call aq s t) bs = (es, bs', Inr oc)"
      "finish_acquisition sv aq fs clock ids oc ts = (r, ts')"
proof (cases "typed_source sv (aq_tool_name aq) (aq_source_type aq)")
  case (Inl e)
  then have "e \<noteq> NoFailureReason"
    by (auto simp: typed_source_def split: sum.splits source_argument.splits option.splits)
  with Inl assms that(1) show ?thesis by (auto simp: acquire_def)
next
  case (Inr st)
  obtain s t where st: "st = (s, t)" by (cases st)
  obtain es1 bs1 q where inv: "invoke dp an (acquire_call aq s t) bs = (es1, bs1, q)" by (metis prod_cases3)
  note run = assms[unfolded acquire_def Inr st sum.case prod.case inv]
  show ?thesis
  proof (cases q)
    case q: (Inl e)
    with run that(1)[of "BoundaryRaised e"] show ?thesis by auto
  next
    case q: (Inr oc)
    with run that(2)[of s t oc] Inr st inv show ?thesis
      by (cases "finish_acquisition sv aq fs clock ids oc ts") auto
  qed
qed

text \<open>
  C36: An acquisition that does not succeed fabricates nothing. Whatever the boundary, the store and the
  clock answer: the tables stay sound, also when a write is refused half way. They change only if the call
  succeeded, its output is a handle at whose address the store holds bytes with exactly the digest the
  handle reports, and every requested span resolves in those bytes; then they gain the artifact of that
  handle and, in order, evidence of the first spans, citing that artifact, its digest and the canonical
  locators: of all spans when the source is acquired, and otherwise up to the row that was refused. So every
  other failure, and every failure before the artifact is written, leaves the tables as they were. An
  unavailable source writes nothing, has no artifact, evidence or excerpt, and always names a typed reason,
  which is the one of the outcome of the call, or inaccessible when the call succeeded and its snapshot
  could not be used.
\<close>

theorem acquisition_fails_cleanly:
  assumes run: "acquire dp an sv aq fs clock ids bs ts = (es, bs', r, ts')" and sound: "rows_sound ts"
  shows "rows_sound ts' \<and>
    (ts' \<noteq> ts \<longrightarrow> (\<exists>s t oc h data ls.
       typed_source sv (aq_tool_name aq) (aq_source_type aq) = Inr (s, t) \<and>
       invoke dp an (acquire_call aq s t) bs = (es, bs', Inr oc) \<and> outcome_succeeded oc \<and>
       parse_handle (sv_coerce sv) (handle_items (ti_output (oc_invocation oc))) = Some h \<and>
       get (sv_hash sv) (sv_reader sv) fs (hd_storage_uri h) = Inr data \<and> sv_hash sv data = hd_sha256 h \<and>
       list_all2 (\<lambda>x l. excerpt_locator x = Inr l \<and> (\<exists>ex. resolve l data = Inr ex)) (aq_excerpts aq) ls \<and>
       partly_recorded r h ls ts ts')) \<and>
    (\<forall>ao. r = Inr ao \<longrightarrow> ao_status ao = Unavailable \<longrightarrow>
       ts' = ts \<and> ao_artifact ao = None \<and> ao_evidence ao = [] \<and> ao_excerpts ao = [] \<and> ao_reason ao \<noteq> None \<and>
       (\<exists>s t oc. invoke dp an (acquire_call aq s t) bs = (es, bs', Inr oc) \<and>
          ao_reason ao = (if outcome_succeeded oc then Some SourceInaccessible else failure_reasons (oc_status oc))))"
  using run
proof (cases rule: acquire_cases)
  case (early e)
  with sound show ?thesis by simp
next
  case (called s t oc)
  have "\<exists>h data ls. outcome_succeeded oc \<and>
       parse_handle (sv_coerce sv) (handle_items (ti_output (oc_invocation oc))) = Some h \<and>
       get (sv_hash sv) (sv_reader sv) fs (hd_storage_uri h) = Inr data \<and> sv_hash sv data = hd_sha256 h \<and>
       list_all2 (\<lambda>x l. excerpt_locator x = Inr l \<and> (\<exists>ex. resolve l data = Inr ex)) (aq_excerpts aq) ls \<and>
       partly_recorded r h ls ts ts'" if changed: "ts' \<noteq> ts"
  proof -
    from finish_written[OF called(3) changed] obtain lc where lc: "outcome_succeeded oc" "locate_spans sv aq fs oc = Inr (Inr lc)"
      "partly_recorded r (lc_handle lc) (lc_locators lc) ts ts'" by blast
    note lf = locate_spans_facts[OF lc(2)]
    have "list_all2 (\<lambda>x l. excerpt_locator x = Inr l \<and> (\<exists>ex. resolve l (lc_data lc) = Inr ex)) (aq_excerpts aq) (lc_locators lc)"
      using lf(3,4) by (auto simp: list_all2_conv_all_nth)
    with lc lf(1,2) locate_spans_handle[OF lc(2)] show ?thesis by blast
  qed
  then show ?thesis
    using called(1,2) finish_sound[OF called(3) sound] finish_unavailable[of sv aq fs clock ids oc ts] called(3) by blast
qed

subsection \<open>Reading an excerpt back\<close>

lemma redact_Inr:
  "redact secrets v = Inr w \<longleftrightarrow> (\<forall>x \<in> set secrets. min_redactable_secret_length \<le> length x) \<and> w = redact_value secrets v"
  by (auto simp: redact_def Let_def filter_empty_conv not_less)

lemma metadata_hides:
  assumes "snapshot_metadata sv s uri h t = Inr metadata"
  shows "\<forall>x \<in> set (sv_secrets sv). min_redactable_secret_length \<le> length x"
    and "separable x \<Longrightarrow> x \<in> set (sv_secrets sv) \<Longrightarrow> \<not> exposed x metadata"
proof -
  from assms obtain v where "redact (sv_secrets sv) v = Inr metadata"
    unfolding snapshot_metadata_def by (auto split: sum.splits)
  then show "\<forall>x \<in> set (sv_secrets sv). min_redactable_secret_length \<le> length x"
    and "separable x \<Longrightarrow> x \<in> set (sv_secrets sv) \<Longrightarrow> \<not> exposed x metadata"
    using redact_hides(1)[of x "sv_secrets sv" v] unfolding redact_Inr by blast+
qed

lemma get_new_artifact:
  assumes "normalized U aorg = Inr u" "org = None \<or> org = aorg" "\<forall>r \<in> set (et_artifacts ts). ar_id (aw_artifact r) \<noteq> ar_id a"
    and "et_artifacts ts' = et_artifacts ts @ [\<lparr>aw_artifact = a, aw_org = u\<rparr>]"
  shows "get_artifact U org (ar_id a) ts' = Inr (Some \<lparr>aw_artifact = a, aw_org = u\<rparr>)"
proof -
  have some: "aorg \<noteq> None" "normalize_organization_id U aorg = Inr u"
    using assms(1) by (auto simp: normalized_def normalize_organization_id_def split: sum.splits option.splits)
  show ?thesis
  proof (cases org)
    case None
    then show ?thesis
      using find_append_fresh[OF assms(3), of "\<lambda>v. True" u] by (simp add: get_artifact_def scope_to_organization_def assms(4))
  next
    case (Some t)
    with assms(2) some have "normalize_organization_id U org = Inr u" by simp
    with Some show ?thesis
      using find_append_fresh[OF assms(3), of "\<lambda>v. v = u" u] by (simp add: get_artifact_def scope_to_organization_def assms(4))
  qed
qed

text \<open>
  C37: An excerpt leaves the quarantine redacted and is the one that was cited. After an acquisition on
  sound tables, reading any of its evidence records back, under its own organization or none and from any
  later state of the store in which the address still reads the same, returns exactly the redaction of the
  decoded excerpt the acquisition located, so no separable held secret is in it.
\<close>

theorem excerpt_round_trip:
  assumes run: "finish_acquisition sv aq fs clock ids oc ts = (Inr ao, ts')" and acq: "ao_status ao = Acquired"
    and sound: "rows_sound ts" and i: "i < length (ao_evidence ao)" and org: "org = None \<or> org = aq_org aq"
    and later: "\<And>uri. get (sv_hash sv) (sv_reader sv) fs uri = Inr data \<Longrightarrow> get (sv_hash sv) (sv_reader sv) fs' uri = Inr data"
    and data: "get (sv_hash sv) (sv_reader sv) fs (ar_storage_uri (the (ao_artifact ao))) = Inr data"
  shows "read_excerpt sv fs' ts' (ao_evidence ao ! i) org =
      Inr (redact_text (sv_secrets sv) (ur_decode (sv_reader sv) (ao_excerpts ao ! i))) \<and>
    (\<forall>x \<in> set (sv_secrets sv). separable x \<longrightarrow>
       \<not> contains x (redact_text (sv_secrets sv) (ur_decode (sv_reader sv) (ao_excerpts ao ! i))))"
proof -
  obtain a s t d u metadata binding where f:
    "ao_artifact ao = Some a" "typed_source sv (ti_tool_name (oc_invocation oc)) (aq_source_type aq) = Inr (s, t)"
    "ar_trust a = t" "ar_metadata a = metadata" "normalized (sv_uuid sv) (aq_org aq) = Inr u"
    "get (sv_hash sv) (sv_reader sv) fs (ar_storage_uri a) = Inr d" "sv_hash sv d = ar_content_sha256 a"
    "length (ao_evidence ao) = length (aq_excerpts aq)" "length (ao_excerpts ao) = length (aq_excerpts aq)"
    "ti_prompt_binding (oc_invocation oc) = Some binding"
    "\<forall>i < length (aq_excerpts aq).
       excerpt_locator (aq_excerpts aq ! i) = Inr (ev_locator (ao_evidence ao ! i)) \<and>
       resolve (ev_locator (ao_evidence ao ! i)) d = Inr (ao_excerpts ao ! i) \<and>
       ev_trust (ao_evidence ao ! i) = t \<and> ev_snapshot_artifact_id (ao_evidence ao ! i) = ar_id a \<and>
       ev_content_sha256 (ao_evidence ao ! i) = ar_content_sha256 a \<and>
       ev_prompt_binding (ao_evidence ao ! i) = Some binding \<and> ev_source_uri (ao_evidence ao ! i) = aq_source_uri aq"
    "et_artifacts ts' = et_artifacts ts @ [\<lparr>aw_artifact = a, aw_org = u\<rparr>]"
    "map ew_evidence (et_evidence ts') = map ew_evidence (et_evidence ts) @ ao_evidence ao"
    "\<exists>h. snapshot_metadata sv s (aq_source_uri aq) h (oc_invocation oc) = Inr metadata"
    by (rule acquired_evidence_facts[OF run acq]) blast
  have d: "d = data" using f(1,6) data by simp
  note e = f(11)[rule_format, OF i[unfolded f(8)], unfolded d]
  have long: "\<forall>x \<in> set (sv_secrets sv). min_redactable_secret_length \<le> length x"
    using f(14) metadata_hides(1) by blast
  have "rows_sound ts'" by (rule finish_sound[OF run sound])
  then have fresh: "\<forall>r \<in> set (et_artifacts ts). ar_id (aw_artifact r) \<noteq> ar_id a"
    by (force simp: rows_sound_def f(12))
  have row: "get_artifact (sv_uuid sv) org (ar_id a) ts' = Inr (Some \<lparr>aw_artifact = a, aw_org = u\<rparr>)"
    by (rule get_new_artifact[OF f(5) org fresh f(12)])
  have read: "get (sv_hash sv) (sv_reader sv) fs' (ar_storage_uri a) = Inr data" by (rule later) (use f(6) d in simp)
  have "read_excerpt sv fs' ts' (ao_evidence ao ! i) org =
      Inr (redact_text (sv_secrets sv) (ur_decode (sv_reader sv) (ao_excerpts ao ! i)))"
  proof -
    have v: "redact (sv_secrets sv) (VStr (ur_decode (sv_reader sv) (ao_excerpts ao ! i))) =
        Inr (VStr (redact_text (sv_secrets sv) (ur_decode (sv_reader sv) (ao_excerpts ao ! i))))"
      using long by (simp add: redact_Inr)
    show ?thesis
      unfolding read_excerpt_def using e f(7) by (simp add: row read d v)
  qed
  then show ?thesis using redact_text_removes by blast
qed

text \<open>
  The address of a source is not redacted in evidence. The metadata of the artifact of an acquisition
  contains no separable held secret; yet every evidence record of the same acquisition carries the
  caller's URI as it was given, with whatever credentials are in it.
\<close>

theorem evidence_uri_unredacted:
  assumes run: "finish_acquisition sv aq fs clock ids oc ts = (Inr ao, ts')" and acq: "ao_status ao = Acquired"
    and x: "x \<in> set (sv_secrets sv)" "separable x"
  shows "\<not> exposed x (ar_metadata (the (ao_artifact ao))) \<and>
    (\<forall>e \<in> set (ao_evidence ao). ev_source_uri e = aq_source_uri aq)"
proof -
  obtain a s metadata where f: "ao_artifact ao = Some a" "ar_metadata a = metadata"
    "length (ao_evidence ao) = length (aq_excerpts aq)"
    "\<forall>i < length (aq_excerpts aq). ev_source_uri (ao_evidence ao ! i) = aq_source_uri aq"
    "\<exists>h. snapshot_metadata sv s (aq_source_uri aq) h (oc_invocation oc) = Inr metadata"
    by (rule acquired_evidence_facts[OF run acq]) blast
  from f(5) metadata_hides(2)[OF _ x(2,1)] have "\<not> exposed x metadata" by blast
  with f show ?thesis by (auto simp: in_set_conv_nth)
qed

subsection \<open>The handle of a fetch\<close>

lemma put_get:
  assumes hash: "content_sha256_ok (H data)" and put: "put H (ur_base ur) tag fs data = (Inr uri, fs')"
    and plain: "list_all plain_name (ur_base ur)"
  shows "get H ur fs' uri = Inr data" and "data \<noteq> []"
proof -
  have "\<exists>m. fs' (path_for (ur_base ur) (H data)) = Some (Regular data m) \<and> uri = to_uri (path_for (ur_base ur) (H data)) \<and> data \<noteq> []"
  proof (cases "put_check H (ur_base ur) fs data")
    case (Some r)
    with put have "r = Inr uri" "fs' = fs" by (simp_all add: put_def)
    with Some show ?thesis by (auto simp: put_check_def split: if_splits option.splits fs_node.splits)
  next
    case None
    then have ne: "data \<noteq> []" by (auto simp: put_check_def split: if_splits)
    from None put show ?thesis by (auto simp: put_def Let_def ne split: option.splits)
  qed
  with get_stored[of H data ur fs', OF hash plain] show "get H ur fs' uri = Inr data" "data \<noteq> []" by auto
qed

lemma declaration_found: "find (\<lambda>d. license_declaration_value d = license_declaration_value x) license_declarations = Some x"
  by (cases x) (simp_all add: license_declarations_def)

text \<open>
  The handle a fetch answers with names what was fetched. Whenever the handler of the acquisition
  tool stores a source, the service reads its answer, as long as redaction leaves it as it is, as a handle
  whose address reads back exactly the fetched content, with its digest, its length and its license.
\<close>

theorem fetch_handle_round_trip:
  assumes hash: "\<And>x. content_sha256_ok (H x)" and plain: "list_all plain_name (ur_base ur)"
    and run: "fetch_handler H (ur_base ur) tag fs fetched = (Inr answer, fs')"
    and fetched: "license_violation (fd_license fetched) = None" "fd_media_type fetched \<noteq> []" "fd_final_uri fetched \<noteq> []"
  shows "\<exists>h. parse_handle coerce (handle_items (Some answer)) = Some h \<and>
    get H ur fs' (hd_storage_uri h) = Inr (fd_content fetched) \<and> hd_sha256 h = H (fd_content fetched) \<and>
    hd_byte_length h = int (length (fd_content fetched)) \<and> handle_license h = Inr (fd_license fetched)"
proof -
  let ?c = "fd_content fetched" and ?l = "fd_license fetched"
  obtain r fs1 where put: "put H (ur_base ur) tag fs ?c = (r, fs1)" by (cases "put H (ur_base ur) tag fs ?c")
  with run obtain uri where r: "r = Inr uri" "fs1 = fs'" by (cases r) (auto simp: fetch_handler_def)
  note pg = put_get[OF hash put[unfolded r] plain]
  have uri: "uri \<noteq> []" using pg(1) by (auto simp: get_def resolve_uri_def urlparse_def url_clean_def
        split_scheme_def split_authority_def)
  have len: "length (H ?c) = 64" using hash[of ?c] by (simp add: content_sha256_ok_def)
  define h where "h = \<lparr>hd_sha256 = H ?c, hd_storage_uri = uri, hd_media_type = fd_media_type fetched,
      hd_byte_length = int (length ?c), hd_final_uri = fd_final_uri fetched, hd_license_identifier = li_identifier ?l,
      hd_license_declared_by = li_declared_by ?l, hd_license_statement = li_statement ?l\<rparr>"
  have opt: "(case Some (optional_str m) of None \<Rightarrow> Some None | Some VNone \<Rightarrow> Some None | Some (VStr s) \<Rightarrow> Some (Some s) | _ \<Rightarrow> None) = Some m"
    for m by (cases m) (simp_all add: optional_str_def)
  have ne: "0 < int (length ?c)" "1 \<le> length uri" "1 \<le> length (fd_media_type fetched)" "1 \<le> length (fd_final_uri fetched)"
    using pg(2) uri fetched(2,3) by (cases ?c; cases uri; cases "fd_media_type fetched"; cases "fd_final_uri fetched"; simp)+
  have "parse_handle coerce (handle_items (Some answer)) = Some h"
    using run put r opt ne
    by (auto simp: fetch_handler_def handle_items_def parse_handle_def text_field_def optional_field_def
        declaration_field_def length_field_def len declaration_found h_def)
  moreover have "handle_license h = Inr ?l"
    using fetched(1) by (auto simp: handle_license_def new_license_def h_def Let_def)
  ultimately show ?thesis using pg(1) by (intro exI[of _ h]) (simp add: h_def)
qed

end
