(* ===== verification/Acquisition_Examples.thy ===== *)
theory Acquisition_Examples
  imports Acquisition_Props
begin

text \<open>A fetch and its acquisition at concrete values, with the properties applied to them.\<close>

definition acq_fetched :: fetched_source where
  "acq_fetched = \<lparr>fd_content = ''page'', fd_media_type = ''text/html'', fd_final_uri = ''h'',
     fd_license = undeclared_license\<rparr>"

definition acq_answer :: pyval where
  "acq_answer = VDict
     [(''content_sha256'', VStr (snap_hash ''page'')), (''storage_uri'', VStr snap_uri), (''media_type'', VStr ''text/html''),
      (''byte_length'', VInt 4), (''final_uri'', VStr ''h''), (''license_identifier'', VNone),
      (''license_declared_by'', VStr ''undeclared''), (''license_statement'', VNone)]"

lemma acq_fetch: "fetch_handler snap_hash snap_base ''x1'' Map.empty acq_fetched = (Inr acq_answer, snap_disk)"
  by (simp add: fetch_handler_def acq_fetched_def snap_put acq_answer_def undeclared_license_def optional_str_def)

lemma snap_plain: "list_all plain_name (ur_base snap_reader)"
  by (simp add: snap_reader_def) code_simp

lemma snap_reader_base: "snap_base = ur_base snap_reader"
  by (simp add: snap_reader_def)

theorem fetch_handle_round_trip_witness:
  "\<exists>h. parse_handle (\<lambda>v. None) (handle_items (Some acq_answer)) = Some h \<and>
     get snap_hash snap_reader snap_disk (hd_storage_uri h) = Inr ''page'' \<and> hd_byte_length h = 4"
proof -
  have base: "snap_base = ur_base snap_reader" by (simp add: snap_reader_def)
  have "fd_content acq_fetched = ''page''" by (simp add: acq_fetched_def)
  with fetch_handle_round_trip[OF snap_hash_ok snap_plain acq_fetch[unfolded base], of "\<lambda>v. None"]
  show ?thesis by (auto simp: acq_fetched_def)
qed

definition acq_service :: acquisition_service where
  "acq_service = \<lparr>sv_types = [''f'' \<mapsto> WebPage], sv_hash = snap_hash, sv_reader = snap_reader,
     sv_secrets = [''hunter22''], sv_coerce = (\<lambda>v. None), sv_uuid = Some,
     sv_store_text = (\<lambda>e u. u), sv_parse_text = (\<lambda>kvs. [])\<rparr>"

definition acq_args :: acquire_args where
  "acq_args = \<lparr>aq_run_id = ''r'', aq_task_id = ''t'', aq_attempt_id = ''a'', aq_org = Some ''o'',
     aq_source_uri = ''x?hunter22'', aq_scope = ''web'', aq_grants = [],
     aq_prompt = RenderedArg \<lparr>rp_template_source = ''Ask $q'', rp_text = ''Ask why'',
       rp_binding = \<lparr>pb_id = ''p'', pb_version = ''1'', pb_template = replicate 64 CHR ''0'', pb_rendered = replicate 64 CHR ''0''\<rparr>\<rparr>,
     aq_excerpts = [\<lparr>er_scheme = ''bytes'', er_start = 1, er_end = 3, er_annotations = []\<rparr>],
     aq_input_trust = UserSupplied, aq_approvals = [], aq_pinned = None, aq_tool_name = ''f'',
     aq_source_type = None, aq_token = False\<rparr>"

definition acq_boundary_outcome :: outcome where
  "acq_boundary_outcome = \<lparr>oc_status = Succeeded,
     oc_invocation = example_invocation\<lparr>ti_tool_name := ''f'', ti_output := Some acq_answer,
       ti_producer_kind := ModelTurn, ti_prompt_binding := Some
         \<lparr>pb_id = ''p'', pb_version = ''1'', pb_template = replicate 64 CHR ''0'', pb_rendered = replicate 64 CHR ''0''\<rparr>\<rparr>,
     oc_retry = Terminal, oc_decision = None, oc_detail = None\<rparr>"

definition acq_tables :: evidence_tables where
  "acq_tables = \<lparr>et_runs = [''r'' \<mapsto> Some ''o''], et_tasks = {''t''}, et_attempts = {''a''}, et_invocations = {},
     et_artifacts = [], et_evidence = []\<rparr>"

definition acq_ids :: "nat \<Rightarrow> string" where
  "acq_ids n = CHR ''e'' # replicate n CHR ''x''"

definition acq_run :: "(acquire_error + acquisition_outcome) \<times> evidence_tables" where
  "acq_run = finish_acquisition acq_service acq_args snap_disk (Aware 7) acq_ids acq_boundary_outcome acq_tables"

definition acq_handle :: fetch_handle where
  "acq_handle = \<lparr>hd_sha256 = snap_hash ''page'', hd_storage_uri = snap_uri, hd_media_type = ''text/html'',
     hd_byte_length = 4, hd_final_uri = ''h'', hd_license_identifier = None, hd_license_declared_by = Undeclared,
     hd_license_statement = None\<rparr>"

lemma acq_parse: "parse_handle (\<lambda>v. None) (handle_items (Some acq_answer)) = Some acq_handle"
proof -
  have len: "length (snap_hash ''page'') = 64" using snap_hash_ok[of "''page''"] by (simp add: content_sha256_ok_def)
  have "snap_uri \<noteq> []" by (simp add: snap_uri_def to_uri_def)
  then have uri: "Suc 0 \<le> length snap_uri" by (simp add: Suc_le_eq)
  show ?thesis
    by (simp add: parse_handle_def handle_items_def acq_answer_def text_field_def optional_field_def length_field_def
        declaration_field_def len uri license_declarations_def acq_handle_def)
qed

definition acq_metadata :: pyval where
  "acq_metadata = VDict
     [(''source_type'', VStr ''web_page''), (''source_uri'', VStr ''x?[REDACTED]''), (''final_uri'', VStr ''h''),
      (''byte_length'', VInt 4),
      (''license'', VDict [(''identifier'', VNone), (''declared_by'', VStr ''undeclared''), (''statement'', VNone)]),
      (''tool_invocation_id'', VStr ''i''), (''tool_name'', VStr ''f''), (''tool_version'', VStr ''1'')]"

lemma acq_text_type: "redact_text [''hunter22''] ''web_page'' = ''web_page''" by code_simp
lemma acq_text_uri: "redact_text [''hunter22''] ''x?hunter22'' = ''x?[REDACTED]''" by code_simp
lemma acq_text_license: "redact_text [''hunter22''] ''undeclared'' = ''undeclared''" by code_simp
lemma acq_text_short: "redact_text [''hunter22''] ''h'' = ''h''" "redact_text [''hunter22''] ''i'' = ''i''"
  "redact_text [''hunter22''] ''f'' = ''f''" "redact_text [''hunter22''] ''1'' = ''1''" by code_simp+

lemmas acq_texts = acq_text_type acq_text_uri acq_text_license acq_text_short

lemma acq_keys:
  "\<not> is_credential_key ''source_type''" "\<not> is_credential_key ''source_uri''" "\<not> is_credential_key ''final_uri''"
  "\<not> is_credential_key ''byte_length''" "\<not> is_credential_key ''license''" "\<not> is_credential_key ''identifier''"
  "\<not> is_credential_key ''declared_by''" "\<not> is_credential_key ''statement''" "\<not> is_credential_key ''tool_invocation_id''"
  "\<not> is_credential_key ''tool_name''" "\<not> is_credential_key ''tool_version''"
  by code_simp+

lemma not_secret_ref:
  assumes "k \<in> set (map fst kvs)" "k \<notin> {''$secret'', ''secret_id'', ''schema_version''}"
  shows "\<not> is_secret_ref kvs"
proof -
  have "set (map fst kvs) \<noteq> {''$secret''}" "\<not> set (map fst kvs) \<subseteq> {''schema_version'', ''secret_id''}" using assms by blast+
  then show ?thesis by (simp only: is_secret_ref_def Let_def if_False simp_thms)
qed

lemma redact_ok: "\<forall>x \<in> set secrets. min_redactable_secret_length \<le> length x \<Longrightarrow> redact secrets v = Inr (redact_value secrets v)"
  by (simp add: redact_Inr)

lemma acq_metadata_made:
  "snapshot_metadata acq_service WebPage ''x?hunter22'' acq_handle (oc_invocation acq_boundary_outcome) = Inr acq_metadata"
proof -
  have secrets: "\<forall>x \<in> set [''hunter22'']. min_redactable_secret_length \<le> length x"
    by (simp add: min_redactable_secret_length_def)
  have t: "ti_id (oc_invocation acq_boundary_outcome) = ''i''" "ti_tool_name (oc_invocation acq_boundary_outcome) = ''f''"
    "ti_tool_version (oc_invocation acq_boundary_outcome) = ''1''"
    by (simp_all add: acq_boundary_outcome_def example_invocation_def)
  have l: "handle_license acq_handle = Inr undeclared_license"
    by (simp add: handle_license_def new_license_def acq_handle_def Let_def undeclared_license_def raise_or_def)
  have h: "hd_final_uri acq_handle = ''h''" "hd_byte_length acq_handle = 4" "sv_secrets acq_service = [''hunter22'']"
    by (simp_all add: acq_handle_def acq_service_def)
  have v: "redact_value [''hunter22''] (VDict
      [(''source_type'', VStr (source_type_value WebPage)), (''source_uri'', VStr ''x?hunter22''), (''final_uri'', VStr ''h''),
       (''byte_length'', VInt 4), (''license'', license_metadata undeclared_license), (''tool_invocation_id'', VStr ''i''),
       (''tool_name'', VStr ''f''), (''tool_version'', VStr ''1'')]) = acq_metadata"
    by (simp add: acq_metadata_def license_metadata_def undeclared_license_def optional_str_def acq_texts acq_keys
        not_secret_ref[of "''source_type''"] not_secret_ref[of "''identifier''"])
  show ?thesis
    unfolding snapshot_metadata_def l sum.case t h redact_ok[OF secrets] v by (rule refl)
qed

definition acq_binding :: prompt_binding where
  "acq_binding = \<lparr>pb_id = ''p'', pb_version = ''1'', pb_template = replicate 64 CHR ''0'', pb_rendered = replicate 64 CHR ''0''\<rparr>"

definition acq_located :: located where
  "acq_located = \<lparr>lc_handle = acq_handle, lc_data = ''page'', lc_locators = [''bytes:1-3''], lc_excerpts = [''ag''],
     lc_binding = acq_binding\<rparr>"

lemma acq_locator: "locate ''bytes'' 1 3 [] = Inr ''bytes:1-3''" "resolve ''bytes:1-3'' ''page'' = Inr ''ag''"
  "parse_locator ''bytes:1-3'' = Inr \<lparr>lo_canonical = \<lparr>sp_scheme = ''bytes'', sp_start = 1, sp_end = 3\<rparr>, lo_annotations = []\<rparr>"
  by code_simp+

lemma acq_get: "get snap_hash snap_reader snap_disk snap_uri = Inr ''page''"
  by (rule put_get(1)[OF snap_hash_ok snap_put[unfolded snap_reader_base] snap_plain])

lemma acq_locate: "locate_spans acq_service acq_args snap_disk acq_boundary_outcome = Inr (Inr acq_located)"
proof -
  have f: "sv_coerce acq_service = (\<lambda>v. None)" "sv_hash acq_service = snap_hash" "sv_reader acq_service = snap_reader"
    "ti_output (oc_invocation acq_boundary_outcome) = Some acq_answer" "hd_storage_uri acq_handle = snap_uri"
    "hd_sha256 acq_handle = snap_hash ''page''" "ti_prompt_binding (oc_invocation acq_boundary_outcome) = Some acq_binding"
    by (simp_all add: acq_service_def acq_boundary_outcome_def acq_handle_def acq_binding_def)
  have x: "map_result excerpt_locator (aq_excerpts acq_args) = Inr [''bytes:1-3'']"
    by (simp add: acq_args_def excerpt_locator_def acq_locator(1))
  show ?thesis
    unfolding locate_spans_def f acq_parse option.case acq_get sum.case x by (simp add: acq_locator(2) acq_located_def)
qed

definition acq_artifact :: artifact where
  "acq_artifact = snapshot_artifact acq_args (acq_ids 0) ExternalUntrusted acq_handle acq_metadata 7"

definition acq_evidence :: evidence where
  "acq_evidence = excerpt_evidence acq_args WebPage ExternalUntrusted acq_artifact acq_binding 7 (acq_ids (Suc 0)) ''bytes:1-3''"

lemma acq_artifact_ok: "artifact_violation acq_artifact = None"
proof -
  have "validate_json_object acq_metadata \<noteq> None" unfolding acq_metadata_def by code_simp
  then show ?thesis
    using snap_hash_ok[of "''page''"]
    by (simp add: artifact_violation_def acq_artifact_def snapshot_artifact_def acq_args_def acq_handle_def contract_id_ok_def
        acq_ids_def snapshot_artifact_kind_def snap_uri_def to_uri_def)
qed

lemma acq_evidence_ok: "evidence_violation acq_evidence = None"
  using snap_hash_ok[of "''page''"]
  by (simp add: evidence_violation_def acq_evidence_def excerpt_evidence_def acq_artifact_def snapshot_artifact_def acq_args_def
      acq_handle_def contract_id_ok_def acq_ids_def acq_locator(3))

definition acq_tables1 :: evidence_tables where
  "acq_tables1 = acq_tables\<lparr>et_artifacts := [\<lparr>aw_artifact = acq_artifact, aw_org = ''o''\<rparr>]\<rparr>"

definition acq_tables2 :: evidence_tables where
  "acq_tables2 = acq_tables1\<lparr>et_evidence := [\<lparr>ew_evidence = acq_evidence, ew_org = ''o'',
     ew_span = \<lparr>sp_scheme = ''bytes'', sp_start = 1, sp_end = 3\<rparr>\<rparr>]\<rparr>"

lemma acq_org: "normalized (sv_uuid acq_service) (aq_org acq_args) = Inr ''o''"
  by (simp add: normalized_def normalize_organization_id_def acq_service_def acq_args_def)

lemma acq_create: "create_artifact (sv_uuid acq_service) (aq_org acq_args) acq_artifact acq_tables = Inr acq_tables1"
  unfolding create_artifact_def acq_org
  using snap_hash_ok[of "''page''"]
  by (simp add: Let_def artifact_row_rejected_def acq_tables1_def acq_tables_def acq_artifact_def snapshot_artifact_def
      acq_args_def acq_handle_def binding_columns_ok_def content_sha256_ok_def)

lemma acq_record: "record_evidence (sv_uuid acq_service) (aq_org acq_args) acq_evidence acq_tables1 = Inr acq_tables2"
  unfolding record_evidence_def acq_org
  using snap_hash_ok[of "''page''"]
  by (simp add: Let_def evidence_row_rejected_def acq_tables2_def acq_tables1_def acq_tables_def acq_evidence_def excerpt_evidence_def
      acq_artifact_def snapshot_artifact_def acq_args_def acq_handle_def binding_columns_ok_def content_sha256_ok_def
      run_organization_def acq_locator(3) canonical_schemes_def bigint_limit_def max_locator_length_def)

definition acq_outcome :: acquisition_outcome where
  "acq_outcome = acquired_outcome acq_boundary_outcome acq_artifact [acq_evidence] [''ag'']"

lemma acq_run:
  "finish_acquisition acq_service acq_args snap_disk (Aware 7) acq_ids acq_boundary_outcome acq_tables = (Inr acq_outcome, acq_tables2)"
proof -
  have typed: "typed_source acq_service (ti_tool_name (oc_invocation acq_boundary_outcome)) (aq_source_type acq_args) =
      Inr (WebPage, ExternalUntrusted)"
    by (simp add: typed_source_def source_type_for_def acq_service_def acq_boundary_outcome_def acq_args_def trust_for_source_def
        trust_by_source_type_def)
  have ok: "outcome_succeeded acq_boundary_outcome = True" by (simp add: outcome_succeeded_def acq_boundary_outcome_def)
  have uri: "aq_source_uri acq_args = ''x?hunter22''" by (simp add: acq_args_def)
  have lc: "lc_handle acq_located = acq_handle" "lc_binding acq_located = acq_binding" "lc_locators acq_located = [''bytes:1-3'']"
    "lc_excerpts acq_located = [''ag'']" by (simp_all add: acq_located_def)
  have spans: "record_spans acq_service (aq_org acq_args) (excerpt_evidence acq_args WebPage ExternalUntrusted acq_artifact acq_binding 7)
      acq_ids 1 [''bytes:1-3''] acq_tables1 = (Inr [acq_evidence], acq_tables2)"
    by (simp add: acq_evidence_ok[unfolded acq_evidence_def] acq_record[unfolded acq_evidence_def] acq_evidence_def)
  show ?thesis
    unfolding finish_acquisition_def ok typed acq_locate sum.case prod.case record_snapshot_def lc uri acq_metadata_made
      py_datetime.case Let_def acq_artifact_def[symmetric] acq_artifact_ok option.case acq_create spans
    by (simp add: acquisition_violation_def checks.simps acq_outcome_def acquired_outcome_def)
qed

lemma acq_acquired: "ao_status acq_outcome = Acquired"
  by (simp add: acq_outcome_def acquired_outcome_def)

theorem acquired_evidence_resolves_witness:
  "\<exists>data. get snap_hash snap_reader snap_disk snap_uri = Inr data \<and> resolve ''bytes:1-3'' data = Inr ''ag'' \<and>
     \<not> is_trusted_tier (ev_trust acq_evidence)"
proof -
  have o: "ao_artifact acq_outcome = Some acq_artifact" "ao_evidence acq_outcome = [acq_evidence]" "ao_excerpts acq_outcome = [''ag'']"
    by (simp_all add: acq_outcome_def acquired_outcome_def)
  have e: "ev_locator acq_evidence = ''bytes:1-3''" "ar_storage_uri acq_artifact = snap_uri" "length (aq_excerpts acq_args) = 1"
    "sv_reader acq_service = snap_reader" "sv_hash acq_service = snap_hash"
    by (simp_all add: acq_evidence_def excerpt_evidence_def acq_artifact_def snapshot_artifact_def acq_handle_def acq_args_def acq_service_def)
  show ?thesis using acquired_evidence_resolves[OF acq_run acq_acquired] unfolding o e by (auto simp: Let_def e)
qed

theorem excerpt_round_trip_witness:
  "read_excerpt acq_service snap_disk acq_tables2 acq_evidence (Some ''o'') = Inr (redact_text [''hunter22''] ''ag'')"
proof -
  have sound: "rows_sound acq_tables" by (simp add: rows_sound_def acq_tables_def)
  have o: "ao_evidence acq_outcome ! 0 = acq_evidence" "ao_excerpts acq_outcome ! 0 = ''ag''" "0 < length (ao_evidence acq_outcome)"
    "ar_storage_uri (the (ao_artifact acq_outcome)) = snap_uri" "sv_secrets acq_service = [''hunter22'']"
    "ur_decode (sv_reader acq_service) = (\<lambda>s. s)" "Some ''o'' = None \<or> Some ''o'' = aq_org acq_args"
    by (simp_all add: acq_outcome_def acquired_outcome_def acq_artifact_def snapshot_artifact_def acq_handle_def acq_args_def
        acq_service_def snap_reader_def)
  have data: "get (sv_hash acq_service) (sv_reader acq_service) snap_disk (ar_storage_uri (the (ao_artifact acq_outcome))) = Inr ''page''"
    unfolding o(4) using acq_get by (simp add: acq_service_def)
  show ?thesis
    using excerpt_round_trip[OF acq_run acq_acquired sound o(3) o(7) _ data, of snap_disk] unfolding o by simp
qed

theorem evidence_uri_unredacted_witness:
  "\<not> exposed ''hunter22'' (ar_metadata acq_artifact) \<and> contains ''hunter22'' (ev_source_uri acq_evidence)"
proof -
  have s: "''hunter22'' \<in> set (sv_secrets acq_service)" "separable ''hunter22''"
    by (simp_all add: acq_service_def separable_def min_redactable_secret_length_def)
  have o: "ao_artifact acq_outcome = Some acq_artifact" "ao_evidence acq_outcome = [acq_evidence]"
    "aq_source_uri acq_args = ''x?hunter22''"
    by (simp_all add: acq_outcome_def acquired_outcome_def acq_args_def)
  have "contains ''hunter22'' ''x?hunter22''" by code_simp
  with evidence_uri_unredacted[OF acq_run acq_acquired s] show ?thesis unfolding o by simp
qed

subsection \<open>A denied acquisition\<close>

definition acq_deployment :: deployment where
  "acq_deployment = example_deployment\<lparr>dp_specs := [''f'' \<mapsto> example_spec\<lparr>sp_name := ''f''\<rparr>],
     dp_hash := (\<lambda>m. replicate 64 CHR ''0''), dp_verifier := Some example_registry\<rparr>"

definition acq_denied_call :: "happening list \<times> breakers \<times> (raised + outcome)" where
  "acq_denied_call = invoke acq_deployment example_answers (acquire_call acq_args WebPage ExternalUntrusted) Map.empty"

lemma acq_denied: "case snd (snd acq_denied_call) of Inr oc \<Rightarrow> oc_status oc = Denied | Inl e \<Rightarrow> False"
  by code_simp

theorem acquisition_fails_cleanly_witness:
  "\<exists>es bs' ao. acquire acq_deployment example_answers acq_service acq_args snap_disk (Aware 7) acq_ids Map.empty acq_tables =
      (es, bs', Inr ao, acq_tables) \<and> ao_status ao = Unavailable \<and> ao_evidence ao = [] \<and> ao_reason ao = Some CapabilityDenied"
proof -
  have typed: "typed_source acq_service (aq_tool_name acq_args) (aq_source_type acq_args) = Inr (WebPage, ExternalUntrusted)"
    by (simp add: typed_source_def source_type_for_def acq_service_def acq_args_def trust_for_source_def trust_by_source_type_def)
  obtain es bs' r where inv: "invoke acq_deployment example_answers (acquire_call acq_args WebPage ExternalUntrusted) Map.empty = (es, bs', r)"
    by (metis prod_cases3)
  with acq_denied obtain oc where r: "r = Inr oc" "oc_status oc = Denied"
    by (cases r) (simp_all add: acq_denied_call_def)
  have run: "acquire acq_deployment example_answers acq_service acq_args snap_disk (Aware 7) acq_ids Map.empty acq_tables =
      (es, bs', Inr (unavailable oc CapabilityDenied (oc_detail oc)), acq_tables)"
    by (simp add: acquire_def typed inv r finish_acquisition_def outcome_succeeded_def)
  have sound: "rows_sound acq_tables" by (simp add: rows_sound_def acq_tables_def)
  from acquisition_fails_cleanly[OF run sound] run show ?thesis
    by (auto simp: unavailable_def)
qed

end
