(* ===== verification/Outbox.thy ===== *)
theory Outbox
  imports Event_Stream "HOL-Library.Multiset"
begin

text \<open>
  \<^verbatim>\<open>src/api/services/outbox_relay.py\<close>: the relay that drains the outbox of the event stream, over the
  delivery columns of \<^verbatim>\<open>src/models/db/run_event.py\<close>. Every statement and transaction is an operation on
  the table of deliveries; \<open>run_once\<close> composes them, and \<open>relay_step\<close> lets any number of relays take
  them in any order and die between them. Instants are microseconds.
\<close>

subsection \<open>Rows\<close>

datatype delivery_status = DeliveryPending | InFlight | Delivered | DeliveryFailed

record delivery =
  dl_id :: nat
  dl_row :: outbox_row
  dl_org :: "string option"
  dl_status :: delivery_status
  dl_attempts :: nat
  dl_available_at :: instant
  dl_claimed_at :: "instant option"
  dl_claimed_by :: "string option"
  dl_delivered_at :: "instant option"
  dl_last_error :: "string option"

text \<open>What \<open>append_event\<close> inserts: the columns it does not set have their defaults.\<close>

definition new_delivery :: "instant \<Rightarrow> nat \<Rightarrow> outbox_row \<Rightarrow> delivery" where
  "new_delivery now i ob =
     \<lparr>dl_id = i, dl_row = ob, dl_org = Some (ob_org ob), dl_status = DeliveryPending, dl_attempts = 0,
      dl_available_at = now, dl_claimed_at = None, dl_claimed_by = None, dl_delivered_at = None,
      dl_last_error = None\<rparr>"

record relay_config =
  rc_batch :: nat
  rc_max :: nat
  rc_lease :: int

definition max_backoff_seconds :: nat where "max_backoff_seconds = 300"

subsection \<open>Claiming\<close>

definition lease_over :: "relay_config \<Rightarrow> instant \<Rightarrow> delivery \<Rightarrow> bool" where
  "lease_over cfg now r \<longleftrightarrow>
     (case dl_claimed_at r of None \<Rightarrow> True | Some t \<Rightarrow> t \<le> now - rc_lease cfg)"

definition claimable :: "relay_config \<Rightarrow> instant \<Rightarrow> delivery \<Rightarrow> bool" where
  "claimable cfg now r \<longleftrightarrow>
     dl_attempts r < rc_max cfg \<and>
     ((dl_status r \<in> {DeliveryPending, DeliveryFailed} \<and> dl_available_at r \<le> now) \<or>
      (dl_status r = InFlight \<and> lease_over cfg now r))"

definition select_ids :: "relay_config \<Rightarrow> instant \<Rightarrow> delivery list \<Rightarrow> nat list" where
  "select_ids cfg now tbl = take (rc_batch cfg) (sort (map dl_id (filter (claimable cfg now) tbl)))"

definition claim_delivery :: "string \<Rightarrow> instant \<Rightarrow> delivery \<Rightarrow> delivery" where
  "claim_delivery worker now r =
     r\<lparr>dl_status := InFlight, dl_claimed_at := Some now, dl_claimed_by := Some worker,
       dl_attempts := dl_attempts r + 1\<rparr>"

text \<open>The \<open>UPDATE\<close> checks again, so only the rows it changes are returned.\<close>

definition claim_ids :: "relay_config \<Rightarrow> string \<Rightarrow> instant \<Rightarrow> nat list \<Rightarrow> delivery list \<Rightarrow> delivery list \<times> delivery list" where
  "claim_ids cfg worker now ids tbl =
     (let hit = (\<lambda>r. dl_id r \<in> set ids \<and> claimable cfg now r) in
      (map (claim_delivery worker now) (filter hit tbl), map (\<lambda>r. if hit r then claim_delivery worker now r else r) tbl))"

definition claim_batch :: "relay_config \<Rightarrow> string \<Rightarrow> instant \<Rightarrow> delivery list \<Rightarrow> delivery list \<times> delivery list" where
  "claim_batch cfg worker now tbl = claim_ids cfg worker now (select_ids cfg now tbl) tbl"

subsection \<open>Claims abandoned at the ceiling\<close>

definition abandoned_at_ceiling :: "relay_config \<Rightarrow> instant \<Rightarrow> delivery \<Rightarrow> bool" where
  "abandoned_at_ceiling cfg now r \<longleftrightarrow>
     dl_status r = InFlight \<and> rc_max cfg \<le> dl_attempts r \<and> lease_over cfg now r"

definition dead_letter_message :: "relay_config \<Rightarrow> nat \<Rightarrow> string \<Rightarrow> string" where
  "dead_letter_message cfg attempts error =
     ''dead-lettered after '' @ nat_str attempts @ '' attempts (max_attempts='' @ nat_str (rc_max cfg) @ ''): '' @ error"

definition dead_letter_row :: "relay_config \<Rightarrow> delivery \<Rightarrow> delivery" where
  "dead_letter_row cfg r =
     r\<lparr>dl_status := DeliveryFailed, dl_last_error := Some (dead_letter_message cfg (dl_attempts r)
         ''claim abandoned by a relay that died before recording an outcome'')\<rparr>"

definition dead_letter_abandoned :: "relay_config \<Rightarrow> instant \<Rightarrow> delivery list \<Rightarrow> delivery list" where
  "dead_letter_abandoned cfg now tbl =
     map (\<lambda>r. if abandoned_at_ceiling cfg now r then dead_letter_row cfg r else r) tbl"

subsection \<open>Delivering\<close>

text \<open>\<open>publish_run_event\<close>: what it hands to Redis, and what the client answers.\<close>

record run_message =
  rm_run_id :: string
  rm_event_type :: string
  rm_payload :: pyval
  rm_occurred_at :: instant
  rm_event_id :: string
  rm_sequence :: int
  rm_key :: string

datatype redis_answer = NoClient | PublishRaised | PublishAccepted

datatype notice = Sent run_message | Woken string string

definition publish_run_event :: "redis_answer \<Rightarrow> run_message \<Rightarrow> notice list \<times> bool" where
  "publish_run_event answer m = (if answer = PublishAccepted then ([Sent m], True) else ([], False))"

definition message_of :: "delivery \<Rightarrow> run_message" where
  "message_of r =
     (let e = ob_payload (dl_row r) in
      \<lparr>rm_run_id = ob_run_id (dl_row r), rm_event_type = re_event_type e, rm_payload = re_payload e,
       rm_occurred_at = re_occurred_at e, rm_event_id = ob_event_id (dl_row r), rm_sequence = re_sequence e,
       rm_key = ob_key (dl_row r)\<rparr>)"

definition deliver :: "redis_answer \<Rightarrow> delivery \<Rightarrow> notice list \<times> bool" where
  "deliver answer r =
     (if ob_destination (dl_row r) = ''redis'' then publish_run_event answer (message_of r)
      else if ob_destination (dl_row r) = ''websocket'' then
        (case dl_org r of None \<Rightarrow> ([], False) | Some org \<Rightarrow> ([Woken org (ob_run_id (dl_row r))], True))
      else ([], False))"

text \<open>\<open>repr\<close> of an ASCII string.\<close>

definition hex_char :: "nat \<Rightarrow> char" where
  "hex_char n = (if n < 10 then char_of (48 + n) else char_of (87 + n))"

definition repr_char :: "char \<Rightarrow> char \<Rightarrow> string" where
  "repr_char q c =
     (if c = q \<or> c = CHR 0x5C then [CHR 0x5C, c]
      else if c = CHR 0x09 then [CHR 0x5C, CHR ''t'']
      else if c = CHR 0x0A then [CHR 0x5C, CHR ''n'']
      else if c = CHR 0x0D then [CHR 0x5C, CHR ''r'']
      else if of_char c < (32 :: nat) \<or> of_char c = (127 :: nat) then
        [CHR 0x5C, CHR ''x'', hex_char (of_char c div 16), hex_char (of_char c mod 16)]
      else [c])"

definition repr_text :: "string \<Rightarrow> string" where
  "repr_text s =
     (let q = (if CHR 0x27 \<in> set s \<and> CHR 0x22 \<notin> set s then CHR 0x22 else CHR 0x27) in
      q # concat (map (repr_char q) s) @ [q])"

definition failure_text :: "delivery \<Rightarrow> string" where
  "failure_text r =
     (if ob_destination (dl_row r) = ''redis'' then ''redis publish unavailable or failed''
      else if ob_destination (dl_row r) = ''websocket'' then ''stream row has no organization to notify''
      else ''unknown destination '' @ repr_text (ob_destination (dl_row r)))"

definition backoff :: "nat \<Rightarrow> int" where
  "backoff attempts = int (min (2 ^ attempts) max_backoff_seconds) * 1000000"

text \<open>\<open>row\<close> is the row as the relay claimed it, \<open>r\<close> the row of the table with its identifier.\<close>

definition finalize_row :: "relay_config \<Rightarrow> instant \<Rightarrow> delivery \<Rightarrow> bool \<Rightarrow> delivery \<Rightarrow> delivery" where
  "finalize_row cfg now row delivered r =
     (if delivered then r\<lparr>dl_status := Delivered, dl_delivered_at := Some now\<rparr>
      else if rc_max cfg \<le> dl_attempts row then
        r\<lparr>dl_status := DeliveryFailed,
          dl_last_error := Some (dead_letter_message cfg (dl_attempts row) (failure_text row))\<rparr>
      else
        r\<lparr>dl_status := DeliveryFailed, dl_available_at := now + backoff (dl_attempts row),
          dl_last_error := Some (failure_text row)\<rparr>)"

definition finalize :: "relay_config \<Rightarrow> instant \<Rightarrow> delivery \<Rightarrow> bool \<Rightarrow> delivery list \<Rightarrow> delivery list" where
  "finalize cfg now row delivered tbl =
     map (\<lambda>r. if dl_id r = dl_id row then finalize_row cfg now row delivered r else r) tbl"

text \<open>One wakeup per run the batch touched, whatever became of the deliveries.\<close>

definition notify_stream_subscribers :: "delivery list \<Rightarrow> notice list" where
  "notify_stream_subscribers rows =
     rev (remdups (rev (concat (map (\<lambda>r. case dl_org r of None \<Rightarrow> [] | Some org \<Rightarrow> [Woken org (ob_run_id (dl_row r))]) rows))))"

fun deliver_rows :: "relay_config \<Rightarrow> (nat \<Rightarrow> redis_answer) \<Rightarrow> (nat \<Rightarrow> instant) \<Rightarrow> nat \<Rightarrow> delivery list \<Rightarrow> delivery list \<Rightarrow>
    notice list \<times> nat \<times> delivery list" where
  "deliver_rows cfg answers clocks k [] tbl = ([], 0, tbl)"
| "deliver_rows cfg answers clocks k (r # rs) tbl =
     (case deliver (answers k) r of (notes, ok) \<Rightarrow>
      case deliver_rows cfg answers clocks (Suc k) rs (finalize cfg (clocks k) r ok tbl) of (notes', n, tbl') \<Rightarrow>
        (notes @ notes', if ok then Suc n else n, tbl'))"

definition run_once :: "relay_config \<Rightarrow> string \<Rightarrow> instant \<Rightarrow> instant \<Rightarrow> (nat \<Rightarrow> redis_answer) \<Rightarrow> (nat \<Rightarrow> instant) \<Rightarrow>
    delivery list \<Rightarrow> notice list \<times> nat \<times> delivery list" where
  "run_once cfg worker now later answers clocks tbl =
     (case claim_batch cfg worker now tbl of (rows, tbl1) \<Rightarrow>
      case deliver_rows cfg answers clocks 0 rows (dead_letter_abandoned cfg later tbl1) of (notes, n, tbl2) \<Rightarrow>
        (notes @ notify_stream_subscribers rows, n, tbl2))"

subsection \<open>Any number of relays\<close>

datatype relay_phase =
  RelayIdle | Chosen instant "nat list" | Holding "delivery list" | Answered delivery bool "delivery list"

text \<open>\<open>ry_accepted\<close> lists the deliveries a destination accepted, in order.\<close>

record relay_system =
  ry_stream :: stream
  ry_table :: "delivery list"
  ry_relays :: "relay_phase list"
  ry_accepted :: "nat list"

inductive relay_step :: "relay_config \<Rightarrow> (nat \<Rightarrow> string) \<Rightarrow> relay_system \<Rightarrow> relay_system \<Rightarrow> bool"
  for cfg workers where
  enqueue: "append_event (ry_stream s) org e ds = Inr st' \<Longrightarrow>
    length ids = length (drop (length (st_outbox (ry_stream s))) (st_outbox st')) \<Longrightarrow>
    sorted_wrt (<) (map dl_id (ry_table s) @ ids) \<Longrightarrow>
    relay_step cfg workers s (s\<lparr>ry_stream := st', ry_table := ry_table s @
      map2 (new_delivery now) ids (drop (length (st_outbox (ry_stream s))) (st_outbox st'))\<rparr>)"
| choose: "i < length (ry_relays s) \<Longrightarrow> ry_relays s ! i = RelayIdle \<Longrightarrow>
    relay_step cfg workers s
      (s\<lparr>ry_relays := (ry_relays s)[i := Chosen now (select_ids cfg now (ry_table s))]\<rparr>)"
| claim: "i < length (ry_relays s) \<Longrightarrow> ry_relays s ! i = Chosen now ids \<Longrightarrow>
    claim_ids cfg (workers i) now ids (ry_table s) = (rows, tbl) \<Longrightarrow> mset rows' = mset rows \<Longrightarrow>
    relay_step cfg workers s
      (s\<lparr>ry_relays := (ry_relays s)[i := Holding rows'], ry_table := dead_letter_abandoned cfg later tbl\<rparr>)"
| send: "i < length (ry_relays s) \<Longrightarrow> ry_relays s ! i = Holding (r # rs) \<Longrightarrow> deliver answer r = (notes, ok) \<Longrightarrow>
    relay_step cfg workers s
      (s\<lparr>ry_relays := (ry_relays s)[i := Answered r ok rs],
         ry_accepted := ry_accepted s @ (if ok then [dl_id r] else [])\<rparr>)"
| settle: "i < length (ry_relays s) \<Longrightarrow> ry_relays s ! i = Answered r ok rs \<Longrightarrow>
    relay_step cfg workers s
      (s\<lparr>ry_relays := (ry_relays s)[i := Holding rs], ry_table := finalize cfg now r ok (ry_table s)\<rparr>)"
| rest: "i < length (ry_relays s) \<Longrightarrow> ry_relays s ! i = Holding [] \<Longrightarrow>
    relay_step cfg workers s (s\<lparr>ry_relays := (ry_relays s)[i := RelayIdle]\<rparr>)"
| die: "i < length (ry_relays s) \<Longrightarrow>
    relay_step cfg workers s (s\<lparr>ry_relays := (ry_relays s)[i := RelayIdle]\<rparr>)"

abbreviation relay_run :: "relay_config \<Rightarrow> (nat \<Rightarrow> string) \<Rightarrow> relay_system \<Rightarrow> relay_system \<Rightarrow> bool" where
  "relay_run cfg workers \<equiv> (relay_step cfg workers)\<^sup>*\<^sup>*"

definition relay_start :: "(string \<rightharpoonup> string option) \<Rightarrow> nat \<Rightarrow> relay_system" where
  "relay_start runs n =
     \<lparr>ry_stream = empty_stream runs, ry_table = [], ry_relays = replicate n RelayIdle, ry_accepted = []\<rparr>"

end
