(* ===== verification/Outbox_Laws.thy ===== *)
theory Outbox_Laws
  imports Outbox
begin

text \<open>Invariants of the outbox under any number of relays, and under one.\<close>

subsection \<open>Single rows\<close>

lemma claim_delivery_simps [simp]:
  "dl_id (claim_delivery w t r) = dl_id r" "dl_row (claim_delivery w t r) = dl_row r" "dl_org (claim_delivery w t r) = dl_org r"
  "dl_status (claim_delivery w t r) = InFlight" "dl_attempts (claim_delivery w t r) = Suc (dl_attempts r)"
  "dl_last_error (claim_delivery w t r) = dl_last_error r" "dl_delivered_at (claim_delivery w t r) = dl_delivered_at r"
  by (simp_all add: claim_delivery_def)

lemma dead_letter_row_simps [simp]:
  "dl_id (dead_letter_row cfg r) = dl_id r" "dl_row (dead_letter_row cfg r) = dl_row r"
  "dl_org (dead_letter_row cfg r) = dl_org r" "dl_status (dead_letter_row cfg r) = DeliveryFailed"
  "dl_attempts (dead_letter_row cfg r) = dl_attempts r" "dl_delivered_at (dead_letter_row cfg r) = dl_delivered_at r"
  by (simp_all add: dead_letter_row_def)

lemma finalize_row_simps [simp]:
  "dl_id (finalize_row cfg t row ok r) = dl_id r" "dl_row (finalize_row cfg t row ok r) = dl_row r"
  "dl_org (finalize_row cfg t row ok r) = dl_org r" "dl_attempts (finalize_row cfg t row ok r) = dl_attempts r"
  by (simp_all add: finalize_row_def)

lemma claim_ids_keeps:
  assumes "claim_ids cfg w t ids tbl = (rows, tbl')"
  shows "map dl_id tbl' = map dl_id tbl" "map dl_row tbl' = map dl_row tbl" "map dl_org tbl' = map dl_org tbl"
  using assms by (auto simp: claim_ids_def Let_def)

lemma dead_letter_abandoned_keeps:
  "map dl_id (dead_letter_abandoned cfg t tbl) = map dl_id tbl"
  "map dl_row (dead_letter_abandoned cfg t tbl) = map dl_row tbl"
  "map dl_org (dead_letter_abandoned cfg t tbl) = map dl_org tbl"
  "map dl_attempts (dead_letter_abandoned cfg t tbl) = map dl_attempts tbl"
  by (auto simp: dead_letter_abandoned_def)

lemma finalize_keeps:
  "map dl_id (finalize cfg t row ok tbl) = map dl_id tbl" "map dl_row (finalize cfg t row ok tbl) = map dl_row tbl"
  "map dl_org (finalize cfg t row ok tbl) = map dl_org tbl"
  "map dl_attempts (finalize cfg t row ok tbl) = map dl_attempts tbl"
  by (auto simp: finalize_def)

lemmas table_keeps = claim_ids_keeps dead_letter_abandoned_keeps finalize_keeps

lemma new_deliveries:
  assumes "length ids = length rows"
  shows "map dl_id (map2 (new_delivery t) ids rows) = ids" "map dl_row (map2 (new_delivery t) ids rows) = rows"
  using assms by (auto simp: new_delivery_def intro!: nth_equalityI)

lemma new_delivery_mem:
  "r \<in> set (map2 (new_delivery t) ids rows) \<Longrightarrow>
   dl_status r = DeliveryPending \<and> dl_attempts r = 0 \<and> dl_id r \<in> set ids \<and> dl_org r = Some (ob_org (dl_row r))"
  by (auto simp: new_delivery_def dest: set_zip_leftD)

text \<open>A table with distinct identifiers has at most one row of an identifier.\<close>

lemma row_of_id: "distinct (map dl_id tbl) \<Longrightarrow> r \<in> set tbl \<Longrightarrow> q \<in> set tbl \<Longrightarrow> dl_id r = dl_id q \<Longrightarrow> r = q"
  by (metis eq_key_imp_eq_value distinct_map inj_onD)

subsection \<open>The copies a relay holds\<close>

fun held :: "relay_phase \<Rightarrow> delivery list" where
  "held (Holding rs) = rs"
| "held (Answered r ok rs) = rs"
| "held RelayIdle = []"
| "held (Chosen t ids) = []"

definition pending_copies :: "nat \<Rightarrow> relay_phase \<Rightarrow> nat" where
  "pending_copies i ph = count_list (map dl_id (held ph)) i"

fun answered_ok :: "nat list \<Rightarrow> relay_phase \<Rightarrow> bool" where
  "answered_ok acc (Answered r ok rs) \<longleftrightarrow> (ok \<longrightarrow> dl_id r \<in> set acc)"
| "answered_ok acc ph \<longleftrightarrow> True"

definition spent :: "relay_system \<Rightarrow> nat \<Rightarrow> nat" where
  "spent s i = count_list (ry_accepted s) i + sum_list (map (pending_copies i) (ry_relays s))"

definition row_inv :: "relay_config \<Rightarrow> relay_system \<Rightarrow> delivery \<Rightarrow> bool" where
  "row_inv cfg s r \<longleftrightarrow>
     dl_org r = Some (ob_org (dl_row r)) \<and> dl_attempts r \<le> rc_max cfg \<and> spent s (dl_id r) \<le> dl_attempts r \<and>
     (dl_status r = DeliveryPending \<longrightarrow> dl_attempts r = 0) \<and>
     (dl_status r = Delivered \<longrightarrow> dl_id r \<in> set (ry_accepted s) \<and> dl_delivered_at r \<noteq> None) \<and>
     (dl_status r = DeliveryFailed \<longrightarrow> dl_last_error r \<noteq> None)"

text \<open>
  The invariant under any number of relays: the table is the outbox of the stream; a destination accepted
  a row at most as often as it was claimed, counting the copies still to be sent; a row is delivered
  only if it was accepted; and what has failed says why.
\<close>

definition relay_inv :: "relay_config \<Rightarrow> relay_system \<Rightarrow> bool" where
  "relay_inv cfg s \<longleftrightarrow>
     stream_ok (ry_stream s) \<and> map dl_row (ry_table s) = st_outbox (ry_stream s) \<and>
     sorted_wrt (<) (map dl_id (ry_table s)) \<and>
     (\<forall>r \<in> set (ry_table s). row_inv cfg s r) \<and>
     (\<forall>i. i \<notin> set (map dl_id (ry_table s)) \<longrightarrow> spent s i = 0) \<and>
     (\<forall>ph \<in> set (ry_relays s). answered_ok (ry_accepted s) ph)"

lemma sum_list_change:
  fixes f :: "'b \<Rightarrow> nat"
  assumes "k < length xs"
  shows "sum_list (map f (xs[k := x])) + f (xs ! k) = sum_list (map f xs) + f x"
  using assms
proof (induction xs arbitrary: k)
  case (Cons y ys)
  show ?case
  proof (cases k)
    case (Suc j)
    with Cons.IH[of j] Cons.prems show ?thesis by simp
  qed simp
qed simp

lemma relay_invI:
  assumes "stream_ok (ry_stream s)" "map dl_row (ry_table s) = st_outbox (ry_stream s)" "sorted_wrt (<) (map dl_id (ry_table s))"
    "\<And>r. r \<in> set (ry_table s) \<Longrightarrow> row_inv cfg s r"
    "\<And>i. i \<notin> set (map dl_id (ry_table s)) \<Longrightarrow> spent s i = 0"
    "\<And>ph. ph \<in> set (ry_relays s) \<Longrightarrow> answered_ok (ry_accepted s) ph"
  shows "relay_inv cfg s"
  using assms unfolding relay_inv_def by blast

lemma relay_invD:
  assumes "relay_inv cfg s"
  shows "stream_ok (ry_stream s)" "map dl_row (ry_table s) = st_outbox (ry_stream s)" "sorted_wrt (<) (map dl_id (ry_table s))"
    "r \<in> set (ry_table s) \<Longrightarrow> row_inv cfg s r"
    "i \<notin> set (map dl_id (ry_table s)) \<Longrightarrow> spent s i = 0"
    "ph \<in> set (ry_relays s) \<Longrightarrow> answered_ok (ry_accepted s) ph"
  using assms unfolding relay_inv_def by blast+

lemma relay_distinct: "relay_inv cfg s \<Longrightarrow> distinct (map dl_id (ry_table s))"
  by (metis relay_invD(3) strict_sorted_iff)

text \<open>A relay that changes its phase without more copies in hand, nothing else changed.\<close>

lemma spent_less:
  assumes "k < length (ry_relays s)" "ry_relays s' = (ry_relays s)[k := ph]" "ry_accepted s' = ry_accepted s"
    "pending_copies i ph \<le> pending_copies i (ry_relays s ! k)"
  shows "spent s' i \<le> spent s i"
  using sum_list_change[OF assms(1), of "pending_copies i" ph] assms(2-4) by (simp add: spent_def)

lemma answered_ok_mono: "answered_ok acc ph \<Longrightarrow> answered_ok (acc @ acc') ph"
  by (cases ph) auto

lemma change_phase_inv:
  assumes inv: "relay_inv cfg s" and k: "k < length (ry_relays s)"
    and s': "s' = s\<lparr>ry_relays := (ry_relays s)[k := ph], ry_table := tbl\<rparr>"
    and less: "\<And>i. pending_copies i ph \<le> pending_copies i (ry_relays s ! k)" and ok: "answered_ok (ry_accepted s) ph"
    and ids: "map dl_id tbl = map dl_id (ry_table s)" "map dl_row tbl = map dl_row (ry_table s)"
    and rows: "\<And>r. r \<in> set tbl \<Longrightarrow> \<exists>q \<in> set (ry_table s). dl_id r = dl_id q \<and> (row_inv cfg s q \<longrightarrow> row_inv cfg s r)"
  shows "relay_inv cfg s'"
proof (rule relay_invI)
  have sp: "spent s' i \<le> spent s i" for i by (rule spent_less[OF k, of _ ph]) (simp_all add: s' less)
  show "row_inv cfg s' r" if r: "r \<in> set (ry_table s')" for r
  proof -
    from rows r relay_invD(4)[OF inv] have "row_inv cfg s r" by (force simp: s')
    with sp[of "dl_id r"] show ?thesis by (auto simp: row_inv_def s')
  qed
  show "spent s' i = 0" if "i \<notin> set (map dl_id (ry_table s'))" for i
  proof -
    have "i \<notin> set (map dl_id (ry_table s))" using that ids(1) by (simp add: s' del: set_map)
    with relay_invD(5)[OF inv] sp[of i] show ?thesis by simp
  qed
  show "answered_ok (ry_accepted s') p" if p: "p \<in> set (ry_relays s')" for p
  proof -
    from p have "p = ph \<or> p \<in> set (ry_relays s)" using set_update_subset_insert by (fastforce simp: s')
    with ok relay_invD(6)[OF inv] show ?thesis by (auto simp: s')
  qed
qed (use relay_invD(1-3)[OF inv] ids in \<open>simp_all add: s'\<close>)

lemma finalize_row_inv:
  assumes "row_inv cfg s r" "dl_id r = dl_id row" "ok \<longrightarrow> dl_id row \<in> set (ry_accepted s)"
  shows "row_inv cfg s (finalize_row cfg t row ok r)"
  using assms by (auto simp: row_inv_def finalize_row_def)

lemma settle_inv:
  assumes inv: "relay_inv cfg s" and k: "k < length (ry_relays s)" "ry_relays s ! k = Answered r ok rs"
  shows "relay_inv cfg (s\<lparr>ry_relays := (ry_relays s)[k := Holding rs], ry_table := finalize cfg t r ok (ry_table s)\<rparr>)"
proof (rule change_phase_inv[OF inv k(1) refl])
  have "answered_ok (ry_accepted s) (ry_relays s ! k)" using relay_invD(6)[OF inv] k(1) by simp
  then have ok: "ok \<longrightarrow> dl_id r \<in> set (ry_accepted s)" using k(2) by simp
  show "\<exists>p \<in> set (ry_table s). dl_id q = dl_id p \<and> (row_inv cfg s p \<longrightarrow> row_inv cfg s q)"
    if "q \<in> set (finalize cfg t r ok (ry_table s))" for q
  proof -
    from that obtain p where p: "p \<in> set (ry_table s)"
      "q = (if dl_id p = dl_id r then finalize_row cfg t r ok p else p)" by (auto simp: finalize_def)
    then have "row_inv cfg s p \<longrightarrow> row_inv cfg s q" using finalize_row_inv[of cfg s p r ok t] ok by simp
    moreover have "dl_id q = dl_id p" by (simp add: p(2))
    ultimately show ?thesis using p(1) by blast
  qed
qed (simp_all add: pending_copies_def k(2) finalize_keeps)

lemma choose_inv:
  assumes "relay_inv cfg s" "k < length (ry_relays s)" "ph = RelayIdle \<or> (\<exists>t ids. ph = Chosen t ids)"
  shows "relay_inv cfg (s\<lparr>ry_relays := (ry_relays s)[k := ph]\<rparr>)"
  by (rule change_phase_inv[OF assms(1,2), where ph = ph and tbl = "ry_table s"]) (use assms(3) in \<open>auto simp: pending_copies_def\<close>)

lemma send_inv:
  assumes inv: "relay_inv cfg s" and k: "k < length (ry_relays s)" "ry_relays s ! k = Holding (r # rs)"
  shows "relay_inv cfg (s\<lparr>ry_relays := (ry_relays s)[k := Answered r ok rs],
      ry_accepted := ry_accepted s @ (if ok then [dl_id r] else [])\<rparr>)" (is "relay_inv cfg ?s")
proof (rule relay_invI)
  have sp: "spent ?s i \<le> spent s i" for i
    using sum_list_change[OF k(1), of "pending_copies i" "Answered r ok rs"]
    by (auto simp: spent_def pending_copies_def k(2) split: if_splits)
  show "row_inv cfg ?s q" if "q \<in> set (ry_table ?s)" for q
    using relay_invD(4)[OF inv, of q] that sp[of "dl_id q"] by (auto simp: row_inv_def)
  show "spent ?s i = 0" if "i \<notin> set (map dl_id (ry_table ?s))" for i
    using relay_invD(5)[OF inv, of i] that sp[of i] by simp
  show "answered_ok (ry_accepted ?s) p" if p: "p \<in> set (ry_relays ?s)" for p
  proof -
    from p have "p = Answered r ok rs \<or> p \<in> set (ry_relays s)" using set_update_subset_insert by fastforce
    then show ?thesis using relay_invD(6)[OF inv] answered_ok_mono by auto
  qed
qed (use relay_invD(1-3)[OF inv] in simp_all)

lemma enqueue_inv:
  assumes inv: "relay_inv cfg s" and app: "append_event (ry_stream s) org e ds = Inr st'"
    and ids: "length ids = length (drop (length (st_outbox (ry_stream s))) (st_outbox st'))"
      "sorted_wrt (<) (map dl_id (ry_table s) @ ids)"
  shows "relay_inv cfg (s\<lparr>ry_stream := st', ry_table := ry_table s @
      map2 (new_delivery t) ids (drop (length (st_outbox (ry_stream s))) (st_outbox st'))\<rparr>)" (is "relay_inv cfg ?s")
proof -
  from app obtain rows where rows: "st_outbox st' = st_outbox (ry_stream s) @ rows" by (auto simp: append_event_Inr)
  then have len: "length ids = length rows" using ids(1) by simp
  note mem = new_delivery_mem
  show ?thesis
  proof (rule relay_invI)
    have sp: "spent ?s = spent s" by (rule ext) (simp add: spent_def)
    show "row_inv cfg ?s q" if q: "q \<in> set (ry_table ?s)" for q
    proof (cases "q \<in> set (ry_table s)")
      case True
      with relay_invD(4)[OF inv, of q] show ?thesis by (simp add: row_inv_def sp)
    next
      case False
      with q rows have "q \<in> set (map2 (new_delivery t) ids rows)" by simp
      from mem[OF this] have n: "dl_status q = DeliveryPending" "dl_attempts q = 0" "dl_id q \<in> set ids"
        "dl_org q = Some (ob_org (dl_row q))" by simp_all
      have "dl_id q \<notin> set (map dl_id (ry_table s))"
        using ids(2) n(3) by (force simp: sorted_wrt_append)
      then have "spent s (dl_id q) = 0" by (rule relay_invD(5)[OF inv])
      with n show ?thesis by (simp add: row_inv_def sp)
    qed
    show "spent ?s i = 0" if "i \<notin> set (map dl_id (ry_table ?s))" for i
      using relay_invD(5)[OF inv, of i] that by (simp add: sp del: set_map)
    show "stream_ok (ry_stream ?s)" using append_event_ok[OF relay_invD(1)[OF inv] app] by simp
  qed (use relay_invD(2,3,6)[OF inv] ids new_deliveries[OF len] in \<open>simp_all add: rows del: map_map\<close>)
qed

text \<open>The claim: every copy handed out is paid for by an attempt of its row.\<close>

lemma claim_ids_parts:
  assumes "claim_ids cfg w t ids tbl = (rows, tbl')"
  shows "rows = map (claim_delivery w t) (filter (\<lambda>r. dl_id r \<in> set ids \<and> claimable cfg t r) tbl)"
    and "tbl' = map (\<lambda>r. if dl_id r \<in> set ids \<and> claimable cfg t r then claim_delivery w t r else r) tbl"
  using assms by (simp_all add: claim_ids_def)

lemma claimed_once:
  assumes "distinct (map dl_id tbl)" "r \<in> set tbl"
  shows "count_list (map dl_id (filter P tbl)) (dl_id r) = (if P r then 1 else 0)"
  using assms
proof (induction tbl)
  case (Cons x xs)
  have none: "count_list (map dl_id (filter P xs)) (dl_id x) = 0" if "dl_id x \<notin> dl_id ` set xs" for x
    using that by (auto simp: count_list_0_iff)
  show ?case
  proof (cases "r = x")
    case True
    with Cons.prems none[of x] show ?thesis by auto
  next
    case False
    with Cons show ?thesis by auto
  qed
qed simp

lemma claimed_none: "i \<notin> dl_id ` set tbl \<Longrightarrow> count_list (map dl_id (filter P tbl)) i = 0"
  by (auto simp: count_list_0_iff)

lemma dead_letter_row_inv: "row_inv cfg s r \<Longrightarrow> row_inv cfg s (if P then dead_letter_row cfg r else r)"
  by (auto simp: row_inv_def dead_letter_row_def)

lemma claim_inv:
  assumes inv: "relay_inv cfg s" and k: "k < length (ry_relays s)" "ry_relays s ! k = Chosen t ids"
    and claim: "claim_ids cfg w t ids (ry_table s) = (rows, tbl)" and perm: "mset rows' = mset rows"
  shows "relay_inv cfg (s\<lparr>ry_relays := (ry_relays s)[k := Holding rows'],
      ry_table := dead_letter_abandoned cfg u tbl\<rparr>)" (is "relay_inv cfg ?s")
proof (rule relay_invI)
  let ?hit = "\<lambda>r. dl_id r \<in> set ids \<and> claimable cfg t r"
  note parts = claim_ids_parts[OF claim] and dist = relay_distinct[OF inv]
  have "count_list (map dl_id rows') i = count_list (map dl_id rows) i" for i
    using arg_cong[OF arg_cong[OF perm, of "image_mset dl_id"], of "\<lambda>M. count M i"] by (simp flip: mset_map add: count_mset)
  then have cnt: "count_list (map dl_id rows') i = count_list (map dl_id (filter ?hit (ry_table s))) i" for i
    by (simp add: parts(1) comp_def)
  have sp: "spent ?s i = spent s i + count_list (map dl_id (filter ?hit (ry_table s))) i" for i
    using sum_list_change[OF k(1), of "pending_copies i" "Holding rows'"]
    by (simp add: spent_def pending_copies_def k(2) cnt)
  have keeps: "map dl_id (ry_table ?s) = map dl_id (ry_table s)" "map dl_row (ry_table ?s) = map dl_row (ry_table s)"
    using claim_ids_keeps[OF claim] dead_letter_abandoned_keeps by simp_all
  show "row_inv cfg ?s q" if q: "q \<in> set (ry_table ?s)" for q
  proof -
    from q obtain p where p: "p \<in> set (ry_table s)"
      "q = (if abandoned_at_ceiling cfg u (if ?hit p then claim_delivery w t p else p)
            then dead_letter_row cfg (if ?hit p then claim_delivery w t p else p) else (if ?hit p then claim_delivery w t p else p))"
      by (auto simp: dead_letter_abandoned_def parts(2))
    note pinv = relay_invD(4)[OF inv p(1)] and one = claimed_once[OF dist p(1), of ?hit]
    have "row_inv cfg ?s (if ?hit p then claim_delivery w t p else p)"
      using pinv one by (auto simp: row_inv_def sp claimable_def)
    then show ?thesis unfolding p(2) by (rule dead_letter_row_inv)
  qed
  show "spent ?s i = 0" if "i \<notin> set (map dl_id (ry_table ?s))" for i
    using that relay_invD(5)[OF inv, of i] claimed_none[of i "ry_table s" ?hit] unfolding keeps sp by simp
  show "answered_ok (ry_accepted ?s) p" if p: "p \<in> set (ry_relays ?s)" for p
  proof -
    from p have "p = Holding rows' \<or> p \<in> set (ry_relays s)" using set_update_subset_insert by fastforce
    then show ?thesis using relay_invD(6)[OF inv] by auto
  qed
qed (use relay_invD(1-3)[OF inv] claim_ids_keeps[OF claim] dead_letter_abandoned_keeps in simp_all)

theorem relay_step_inv: "relay_step cfg workers s s' \<Longrightarrow> relay_inv cfg s \<Longrightarrow> relay_inv cfg s'"
proof (induction rule: relay_step.induct)
  case (enqueue s org e ds st' ids t)
  then show ?case by (blast intro: enqueue_inv)
next
  case (choose i s t)
  then show ?case by (blast intro: choose_inv)
next
  case (claim i s t ids rows tbl rows' u)
  then show ?case by (blast intro: claim_inv)
next
  case (send i s r rs answer ns ok)
  then show ?case by (blast intro: send_inv)
next
  case (settle i s r ok rs t)
  then show ?case by (blast intro: settle_inv)
qed (blast intro: choose_inv)+

lemma relay_start_inv: "relay_inv cfg (relay_start runs n)"
  by (rule relay_invI) (simp_all add: relay_start_def empty_stream_ok spent_def pending_copies_def sum_list_replicate empty_stream_def[THEN arg_cong, of st_outbox])

lemma relay_run_inv: "relay_run cfg workers s s' \<Longrightarrow> relay_inv cfg s \<Longrightarrow> relay_inv cfg s'"
  by (induction rule: rtranclp_induct) (auto intro: relay_step_inv)

subsection \<open>One relay, which may die and be restarted\<close>

fun copies :: "relay_phase \<Rightarrow> delivery list" where
  "copies (Answered r ok rs) = r # rs"
| "copies ph = held ph"

definition says_dead :: "relay_config \<Rightarrow> delivery \<Rightarrow> bool" where
  "says_dead cfg r \<longleftrightarrow> (\<exists>e. dl_last_error r = Some (dead_letter_message cfg (rc_max cfg) e))"

definition copy_ok :: "delivery list \<Rightarrow> delivery \<Rightarrow> bool" where
  "copy_ok tbl r \<longleftrightarrow> dl_id r \<in> set (map dl_id tbl) \<and> (\<forall>q \<in> set tbl. dl_id q = dl_id r \<longrightarrow> dl_attempts q = dl_attempts r \<and> dl_status q \<noteq> Delivered)"

definition dead_ok :: "relay_config \<Rightarrow> delivery \<Rightarrow> bool" where
  "dead_ok cfg r \<longleftrightarrow> (dl_status r = DeliveryFailed \<and> dl_attempts r = rc_max cfg \<longrightarrow> says_dead cfg r)"

definition single_inv :: "relay_config \<Rightarrow> relay_system \<Rightarrow> bool" where
  "single_inv cfg s \<longleftrightarrow> relay_inv cfg s \<and>
     (\<exists>ph. ry_relays s = [ph] \<and> distinct (map dl_id (copies ph)) \<and> (\<forall>r \<in> set (copies ph). copy_ok (ry_table s) r)) \<and>
     (\<forall>r \<in> set (ry_table s). dead_ok cfg r)"

lemma single_claim:
  assumes inv: "relay_inv cfg s" and dead: "\<forall>r \<in> set (ry_table s). dead_ok cfg r"
    and claim: "claim_ids cfg w t ids (ry_table s) = (rows, tbl)" and perm: "mset rows' = mset rows"
  shows "distinct (map dl_id rows')" "\<forall>r \<in> set rows'. copy_ok (dead_letter_abandoned cfg u tbl) r"
    "\<forall>r \<in> set (dead_letter_abandoned cfg u tbl). dead_ok cfg r"
    "\<forall>r \<in> set (ry_table s). dl_status r = Delivered \<longrightarrow> r \<in> set (dead_letter_abandoned cfg u tbl)"
proof -
  let ?hit = "\<lambda>r. dl_id r \<in> set ids \<and> claimable cfg t r"
  note parts = claim_ids_parts[OF claim] and dist = relay_distinct[OF inv]
  have "distinct (map dl_id rows)" using dist by (simp add: parts(1) comp_def distinct_map_filter)
  then show "distinct (map dl_id rows')" using perm by (metis mset_eq_imp_distinct_iff mset_map)
  have sets: "set rows' = set rows" using perm by (rule mset_eq_setD)
  show "\<forall>r \<in> set rows'. copy_ok (dead_letter_abandoned cfg u tbl) r"
    unfolding sets copy_ok_def
  proof (intro ballI conjI impI)
    fix r
    assume "r \<in> set rows"
    then have "dl_id r \<in> set (map dl_id (ry_table s))" by (auto simp: parts(1))
    then show "dl_id r \<in> set (map dl_id (dead_letter_abandoned cfg u tbl))"
      by (metis claim_ids_keeps(1)[OF claim] dead_letter_abandoned_keeps(1))
  next
    fix r q
    assume r: "r \<in> set rows" and q: "q \<in> set (dead_letter_abandoned cfg u tbl)" "dl_id q = dl_id r"
    from r obtain p where p: "p \<in> set (ry_table s)" "?hit p" "r = claim_delivery w t p" by (auto simp: parts(1))
    from q obtain p' where p': "p' \<in> set (ry_table s)"
      "q = (if abandoned_at_ceiling cfg u (if ?hit p' then claim_delivery w t p' else p')
            then dead_letter_row cfg (if ?hit p' then claim_delivery w t p' else p') else (if ?hit p' then claim_delivery w t p' else p'))"
      by (auto simp: dead_letter_abandoned_def parts(2))
    have "dl_id p' = dl_id p" using q(2) by (simp add: p' p(3) split: if_splits)
    then have "p' = p" using row_of_id[OF dist p'(1) p(1)] by simp
    then show "dl_attempts q = dl_attempts r" "dl_status q \<noteq> Delivered" using p(2) by (simp_all add: p' p(3))
  qed
  have dead1: "dead_ok cfg (if abandoned_at_ceiling cfg u r then dead_letter_row cfg r else r)"
    if "dead_ok cfg r" for r
    using that by (auto simp: dead_ok_def says_dead_def dead_letter_row_def)
  have "dead_ok cfg r" if "r \<in> set tbl" for r
    using that dead by (auto simp: parts(2) dead_ok_def)
  then show "\<forall>r \<in> set (dead_letter_abandoned cfg u tbl). dead_ok cfg r"
    using dead1 unfolding dead_letter_abandoned_def set_map by blast
  show "\<forall>r \<in> set (ry_table s). dl_status r = Delivered \<longrightarrow> r \<in> set (dead_letter_abandoned cfg u tbl)"
  proof (intro ballI impI)
    fix r
    assume r: "r \<in> set (ry_table s)" "dl_status r = Delivered"
    have "r \<in> set tbl" using r by (force simp: parts(2) claimable_def)
    then show "r \<in> set (dead_letter_abandoned cfg u tbl)"
      using r(2) by (force simp: dead_letter_abandoned_def abandoned_at_ceiling_def)
  qed
qed

lemma single_settle:
  assumes inv: "relay_inv cfg s" and dead: "\<forall>r \<in> set (ry_table s). dead_ok cfg r"
    and copy: "\<forall>q \<in> set (r # rs). copy_ok (ry_table s) q" and dist: "distinct (map dl_id (r # rs))"
  shows "\<forall>q \<in> set rs. copy_ok (finalize cfg t r ok (ry_table s)) q"
    "\<forall>q \<in> set (finalize cfg t r ok (ry_table s)). dead_ok cfg q"
    "\<forall>q \<in> set (ry_table s). dl_status q = Delivered \<longrightarrow> q \<in> set (finalize cfg t r ok (ry_table s))"
proof -
  have r: "dl_attempts p = dl_attempts r \<and> dl_status p \<noteq> Delivered" if "p \<in> set (ry_table s)" "dl_id p = dl_id r" for p
    using copy that by (simp add: copy_ok_def)
  show "\<forall>q \<in> set rs. copy_ok (finalize cfg t r ok (ry_table s)) q"
    using copy dist finalize_keeps(1)[of cfg t r ok "ry_table s"] by (auto simp: copy_ok_def finalize_def)
  have "dead_ok cfg (finalize_row cfg t r ok p)" if p: "p \<in> set (ry_table s)" "dl_id p = dl_id r" for p
    using r[OF p] by (auto simp: dead_ok_def says_dead_def finalize_row_def)
  then show "\<forall>q \<in> set (finalize cfg t r ok (ry_table s)). dead_ok cfg q"
    using dead by (auto simp: finalize_def)
  show "\<forall>q \<in> set (ry_table s). dl_status q = Delivered \<longrightarrow> q \<in> set (finalize cfg t r ok (ry_table s))"
    using r by (force simp: finalize_def)
qed

lemma single_step:
  assumes "relay_step cfg workers s s'" "single_inv cfg s" "0 < rc_max cfg"
  shows "single_inv cfg s' \<and> (\<forall>r \<in> set (ry_table s). dl_status r = Delivered \<longrightarrow> r \<in> set (ry_table s'))"
proof -
  from assms(2) obtain ph where inv: "relay_inv cfg s" and ph: "ry_relays s = [ph]" "distinct (map dl_id (copies ph))"
    "\<forall>r \<in> set (copies ph). copy_ok (ry_table s) r" and dead: "\<forall>r \<in> set (ry_table s). dead_ok cfg r"
    by (auto simp: single_inv_def)
  have inv': "relay_inv cfg s'" by (rule relay_step_inv[OF assms(1) inv])
  from assms(1) show ?thesis
  proof cases
    case (enqueue org e ds st' ids t)
    let ?new = "map2 (new_delivery t) ids (drop (length (st_outbox (ry_stream s))) (st_outbox st'))"
    have "dl_id q \<notin> set (map dl_id (ry_table s)) \<and> dl_status q = DeliveryPending" if "q \<in> set ?new" for q
      using new_delivery_mem[OF that] enqueue(4) by (force simp: sorted_wrt_append)
    then obtain new where new: "ry_table s' = ry_table s @ new" "ry_relays s' = ry_relays s"
      "\<forall>q \<in> set new. dl_id q \<notin> set (map dl_id (ry_table s)) \<and> dl_status q = DeliveryPending"
      unfolding enqueue(1) by simp
    have "\<forall>r \<in> set (copies ph). copy_ok (ry_table s') r" using ph(3) new(3) unfolding new(1) by (force simp: copy_ok_def)
    moreover have "\<forall>r \<in> set (ry_table s'). dead_ok cfg r" using dead new(3) unfolding new(1) by (auto simp: dead_ok_def)
    ultimately show ?thesis using ph inv' new(1,2) by (auto simp: single_inv_def)
  next
    case (claim i t ids rows tbl rows' u)
    with ph have "i = 0" by simp
    with claim ph single_claim(1)[OF inv dead claim(4,5)] single_claim(2-4)[OF inv dead claim(4,5), of u] inv' show ?thesis by (auto simp: single_inv_def)
  next
    case (settle i r ok rs t)
    with ph have "i = 0" "ph = Answered r ok rs" by simp_all
    with settle ph single_settle[OF inv dead, of r rs t ok] inv' show ?thesis by (auto simp: single_inv_def)
  qed (use ph dead inv' in \<open>auto simp: single_inv_def\<close>)
qed

end
