(* ===== verification/Outbox_Props.thy ===== *)
theory Outbox_Props
  imports Outbox_Laws
begin

text \<open>What producers, consumers and operators of the outbox rely on.\<close>

subsection \<open>Rows stay\<close>

lemma step_keeps_rows:
  assumes "relay_step cfg workers s s'"
  shows "\<exists>new. map (\<lambda>r. (dl_id r, dl_row r)) (ry_table s') = map (\<lambda>r. (dl_id r, dl_row r)) (ry_table s) @ new"
  using assms
proof cases
  case (enqueue org e ds st' ids t)
  then show ?thesis by simp
next
  case (claim i t ids rows tbl rows' u)
  then show ?thesis
    by (auto simp: dead_letter_abandoned_def claim_ids_parts(2)[OF claim(4)] intro!: exI[of _ "[]"])
next
  case (settle i r ok rs t)
  then show ?thesis by (auto simp: finalize_def intro!: exI[of _ "[]"])
qed auto

lemma run_keeps_rows:
  assumes "relay_run cfg workers s s'"
  shows "\<exists>new. map (\<lambda>r. (dl_id r, dl_row r)) (ry_table s') = map (\<lambda>r. (dl_id r, dl_row r)) (ry_table s) @ new"
  using assms
proof (induction rule: rtranclp_induct)
  case (step s1 s2)
  from step_keeps_rows[OF step.hyps(2)] step.IH show ?case by auto
qed simp

lemma row_kept:
  assumes "relay_run cfg workers s s'" "r \<in> set (ry_table s)"
  shows "\<exists>r' \<in> set (ry_table s'). dl_id r' = dl_id r \<and> dl_row r' = dl_row r"
proof -
  obtain new where "map (\<lambda>r. (dl_id r, dl_row r)) (ry_table s') = map (\<lambda>r. (dl_id r, dl_row r)) (ry_table s) @ new"
    using run_keeps_rows[OF assms(1)] by blast
  then have "(dl_id r, dl_row r) \<in> set (map (\<lambda>r. (dl_id r, dl_row r)) (ry_table s'))" using assms(2) by auto
  then show ?thesis by auto
qed

text \<open>A row that is not settled is taken up again once its window or its lease is over.\<close>

lemma row_not_stuck:
  assumes "row_inv cfg s r" "0 < rc_max cfg" "dl_status r \<noteq> Delivered"
  shows "(\<exists>t. \<forall>now \<ge> t. claimable cfg now r) \<or> (\<exists>t. \<forall>now \<ge> t. abandoned_at_ceiling cfg now r) \<or>
    (dl_status r = DeliveryFailed \<and> dl_attempts r = rc_max cfg \<and> dl_last_error r \<noteq> None)"
proof -
  have lease: "\<forall>now \<ge> (case dl_claimed_at r of None \<Rightarrow> 0 | Some t \<Rightarrow> t + rc_lease cfg). lease_over cfg now r"
    by (auto simp: lease_over_def split: option.splits)
  show ?thesis
  proof (cases "dl_attempts r < rc_max cfg")
    case True
    show ?thesis
    proof (cases "dl_status r = InFlight")
      case inflight: True
      with True lease show ?thesis by (auto simp: claimable_def)
    next
      case False
      with True assms(3) have "\<forall>now \<ge> dl_available_at r. claimable cfg now r"
        by (cases "dl_status r") (auto simp: claimable_def)
      then show ?thesis by blast
    qed
  next
    case False
    with assms have "dl_attempts r = rc_max cfg" "dl_status r \<noteq> DeliveryPending" by (auto simp: row_inv_def)
    with assms lease show ?thesis by (cases "dl_status r") (auto simp: row_inv_def abandoned_at_ceiling_def)
  qed
qed

text \<open>
  C8: No event is lost between the stream and its consumers, and none is delivered without bound.
  Whatever any number of relays do, in any order, with any clocks, deaths and answers: the table holds
  exactly one row for every outbox entry that was committed with its event, and keeps it; a destination
  accepts a row at most as often as it was claimed, which is at most \<open>max_attempts\<close> times; a row is
  marked delivered only if it was accepted; and any other row is either taken up again by every relay
  that looks after some moment, to be claimed or dead-lettered, or is a failure after all attempts.
\<close>

theorem outbox_never_loses:
  assumes run: "relay_run cfg workers (relay_start runs n) s" and row: "r \<in> set (ry_table s)"
    and max: "0 < rc_max cfg"
  shows "map dl_row (ry_table s) = st_outbox (ry_stream s) \<and>
    (\<forall>s'. relay_run cfg workers s s' \<longrightarrow> (\<exists>r' \<in> set (ry_table s'). dl_id r' = dl_id r \<and> dl_row r' = dl_row r)) \<and>
    count_list (ry_accepted s) (dl_id r) \<le> dl_attempts r \<and> dl_attempts r \<le> rc_max cfg \<and>
    (dl_status r = Delivered \<longrightarrow> 0 < count_list (ry_accepted s) (dl_id r)) \<and>
    (dl_status r \<noteq> Delivered \<longrightarrow>
       (\<exists>t. \<forall>now \<ge> t. claimable cfg now r) \<or> (\<exists>t. \<forall>now \<ge> t. abandoned_at_ceiling cfg now r) \<or>
       (dl_status r = DeliveryFailed \<and> dl_attempts r = rc_max cfg \<and> dl_last_error r \<noteq> None))"
proof -
  have inv: "relay_inv cfg s" by (rule relay_run_inv[OF run relay_start_inv])
  note ri = relay_invD(4)[OF inv row]
  have "count_list (ry_accepted s) (dl_id r) \<le> dl_attempts r" "dl_attempts r \<le> rc_max cfg"
    "dl_status r = Delivered \<longrightarrow> 0 < count_list (ry_accepted s) (dl_id r)"
    using ri by (auto simp: row_inv_def spent_def count_list_0_iff intro!: gr0I)
  with relay_invD(2)[OF inv] row_kept[OF _ row] row_not_stuck[OF ri max] show ?thesis by blast
qed

text \<open>
  C38: With one relay, which may die at any moment and be restarted, delivery is final and giving up is
  loud. Once a row is marked delivered nothing in any later history changes it; and every row that
  failed with all its attempts used says in \<open>last_error\<close> that it was dead-lettered.
\<close>

theorem single_relay_settles:
  assumes run: "relay_run cfg workers (relay_start runs 1) s" and row: "r \<in> set (ry_table s)"
    and max: "0 < rc_max cfg"
  shows "(dl_status r = Delivered \<longrightarrow> (\<forall>s'. relay_run cfg workers s s' \<longrightarrow> r \<in> set (ry_table s'))) \<and>
    (dl_status r = DeliveryFailed \<and> dl_attempts r = rc_max cfg \<longrightarrow>
       (\<exists>e. dl_last_error r = Some (dead_letter_message cfg (rc_max cfg) e)))"
proof -
  have start: "single_inv cfg (relay_start runs 1)"
    using relay_start_inv[of cfg runs 1] by (simp add: single_inv_def relay_start_def)
  have keep: "single_inv cfg s2 \<and> (\<forall>q \<in> set (ry_table s1). dl_status q = Delivered \<longrightarrow> q \<in> set (ry_table s2))"
    if "relay_run cfg workers s1 s2" "single_inv cfg s1" for s1 s2
    using that
  proof (induction rule: rtranclp_induct)
    case (step s2 s3)
    then show ?case using single_step[OF step.hyps(2) _ max] by blast
  qed simp
  have "single_inv cfg s" using keep[OF run start] by blast
  moreover from this have "dead_ok cfg r" using row unfolding single_inv_def by blast
  ultimately show ?thesis using keep[of s] row unfolding dead_ok_def says_dead_def by blast
qed

subsection \<open>One round\<close>

lemma deliver_rows_effect:
  assumes "deliver_rows cfg answers clocks k rows tbl = (ns, n, tbl')" "distinct (map dl_id rows)"
  shows "\<exists>g. tbl' = map g tbl \<and> (\<forall>r. dl_id (g r) = dl_id r \<and> dl_row (g r) = dl_row r \<and> dl_org (g r) = dl_org r \<and>
      dl_attempts (g r) = dl_attempts r \<and> (dl_id r \<notin> dl_id ` set rows \<longrightarrow> g r = r) \<and>
      ((\<forall>q \<in> set rows. \<forall>j. snd (deliver (answers j) q)) \<longrightarrow> dl_id r \<in> dl_id ` set rows \<longrightarrow> dl_status (g r) = Delivered)) \<and>
      ((\<forall>q \<in> set rows. \<forall>j. snd (deliver (answers j) q)) \<longrightarrow> n = length rows)"
  using assms
proof (induction rows arbitrary: k tbl ns n)
  case Nil
  then show ?case by (auto intro!: exI[of _ "\<lambda>r. r"])
next
  case (Cons q rows)
  obtain ns1 ok where d: "deliver (answers k) q = (ns1, ok)" by (cases "deliver (answers k) q")
  obtain ns2 n2 where rest: "deliver_rows cfg answers clocks (Suc k) rows (finalize cfg (clocks k) q ok tbl) = (ns2, n2, tbl')"
    and n: "n = (if ok then Suc n2 else n2)" using Cons.prems(1) d by (auto split: prod.splits)
  from Cons.prems(2) have dist: "distinct (map dl_id rows)" "dl_id q \<notin> dl_id ` set rows" by simp_all
  from Cons.IH[OF rest dist(1)] obtain g where g: "tbl' = map g (finalize cfg (clocks k) q ok tbl)"
    "\<And>r. dl_id (g r) = dl_id r" "\<And>r. dl_row (g r) = dl_row r" "\<And>r. dl_org (g r) = dl_org r"
    "\<And>r. dl_attempts (g r) = dl_attempts r" "\<And>r. dl_id r \<notin> dl_id ` set rows \<Longrightarrow> g r = r"
    "\<And>r. (\<forall>q \<in> set rows. \<forall>j. snd (deliver (answers j) q)) \<Longrightarrow> dl_id r \<in> dl_id ` set rows \<Longrightarrow> dl_status (g r) = Delivered"
    "(\<forall>q \<in> set rows. \<forall>j. snd (deliver (answers j) q)) \<longrightarrow> n2 = length rows" by blast
  define h where "h r = g (if dl_id r = dl_id q then finalize_row cfg (clocks k) q ok r else r)" for r
  have ok: "ok" if "\<forall>p \<in> set (q # rows). \<forall>j. snd (deliver (answers j) p)"
    using that d by (metis list.set_intros(1) snd_conv)
  have done1: "dl_status (h r) = Delivered" if "\<forall>p \<in> set (q # rows). \<forall>j. snd (deliver (answers j) p)"
      "dl_id r \<in> dl_id ` set (q # rows)" for r
  proof (cases "dl_id r = dl_id q")
    case True
    with dist(2) ok[OF that(1)] g(6)[of "finalize_row cfg (clocks k) q ok r"] show ?thesis
      by (simp add: h_def finalize_row_def)
  next
    case False
    with that g(7)[of r] show ?thesis by (simp add: h_def)
  qed
  have "tbl' = map h tbl" by (simp add: g(1) finalize_def h_def)
  moreover have "n = Suc (length rows)" if "\<forall>p \<in> set (q # rows). \<forall>j. snd (deliver (answers j) p)"
    using that ok[OF that] g(8) n by simp
  ultimately show ?case
    using done1 g(2-6) by (intro exI[of _ h]) (simp add: h_def)
qed

definition undelivered :: "delivery list \<Rightarrow> delivery list" where
  "undelivered tbl = filter (\<lambda>r. dl_status r \<noteq> Delivered) tbl"

definition attempts_left :: "relay_config \<Rightarrow> delivery list \<Rightarrow> nat" where
  "attempts_left cfg tbl = sum_list (map (\<lambda>r. rc_max cfg - dl_attempts r) tbl)"

lemma claim_budget:
  assumes "claim_ids cfg w t ids tbl = (rows, tbl')"
  shows "attempts_left cfg tbl' + length rows = attempts_left cfg tbl"
proof -
  note parts = claim_ids_parts[OF assms]
  have "sum_list (map (\<lambda>r. rc_max cfg - dl_attempts (if P r \<and> claimable cfg t r then claim_delivery w t r else r)) xs) +
      length (filter (\<lambda>r. P r \<and> claimable cfg t r) xs) = sum_list (map (\<lambda>r. rc_max cfg - dl_attempts r) xs)" for P xs
    by (induction xs) (auto simp: claimable_def)
  then show ?thesis by (simp add: parts attempts_left_def comp_def)
qed

lemma attempts_left_attempts: "map dl_attempts tbl' = map dl_attempts tbl \<Longrightarrow> attempts_left cfg tbl' = attempts_left cfg tbl"
  unfolding attempts_left_def by (metis (no_types, lifting) list.map_comp map_eq_conv comp_def)

text \<open>The polling loop: a list of rounds, with the number of rows they handed to a destination.\<close>

type_synonym round = "instant \<times> instant \<times> (nat \<Rightarrow> redis_answer) \<times> (nat \<Rightarrow> instant)"

fun relay_rounds :: "relay_config \<Rightarrow> string \<Rightarrow> round list \<Rightarrow> delivery list \<Rightarrow> nat \<times> delivery list" where
  "relay_rounds cfg worker [] tbl = (0, tbl)"
| "relay_rounds cfg worker ((now, later, answers, clocks) # rds) tbl =
     (case run_once cfg worker now later answers clocks tbl of (ns, n, tbl1) \<Rightarrow>
      case relay_rounds cfg worker rds tbl1 of (m, tbl2) \<Rightarrow> (length (fst (claim_batch cfg worker now tbl)) + m, tbl2))"

lemma run_once_parts:
  assumes "run_once cfg worker now later answers clocks tbl = (ns, n, tbl')" "distinct (map dl_id tbl)"
  obtains rows tbl1 g where "claim_batch cfg worker now tbl = (rows, tbl1)"
    "tbl' = map g (dead_letter_abandoned cfg later tbl1)" "distinct (map dl_id rows)"
    "\<And>r. dl_id (g r) = dl_id r" "\<And>r. dl_row (g r) = dl_row r" "\<And>r. dl_org (g r) = dl_org r"
    "\<And>r. dl_attempts (g r) = dl_attempts r" "\<And>r. dl_id r \<notin> dl_id ` set rows \<Longrightarrow> g r = r"
    "(\<forall>q \<in> set rows. \<forall>j. snd (deliver (answers j) q)) \<Longrightarrow>
      n = length rows \<and> (\<forall>r. dl_id r \<in> dl_id ` set rows \<longrightarrow> dl_status (g r) = Delivered)"
proof -
  obtain rows tbl1 where c: "claim_batch cfg worker now tbl = (rows, tbl1)" by (cases "claim_batch cfg worker now tbl")
  obtain ns1 where d: "deliver_rows cfg answers clocks 0 rows (dead_letter_abandoned cfg later tbl1) = (ns1, n, tbl')"
    using assms(1) c by (auto simp: run_once_def split: prod.splits)
  have dist: "distinct (map dl_id rows)"
    using assms(2) claim_ids_parts(1)[OF c[unfolded claim_batch_def]] by (simp add: comp_def distinct_map_filter)
  from deliver_rows_effect[OF d dist] show ?thesis using that[OF c _ dist] by blast
qed

lemma run_once_keeps:
  assumes "run_once cfg worker now later answers clocks tbl = (ns, n, tbl')" "distinct (map dl_id tbl)"
  shows "map dl_id tbl' = map dl_id tbl" "attempts_left cfg tbl' + length (fst (claim_batch cfg worker now tbl)) = attempts_left cfg tbl"
proof -
  from run_once_parts[OF assms] obtain rows tbl1 g where r: "claim_batch cfg worker now tbl = (rows, tbl1)"
    "tbl' = map g (dead_letter_abandoned cfg later tbl1)" "\<And>r. dl_id (g r) = dl_id r" "\<And>r. dl_attempts (g r) = dl_attempts r"
    by metis
  have "map dl_id tbl' = map dl_id (dead_letter_abandoned cfg later tbl1)" by (simp add: r(2,3))
  then show "map dl_id tbl' = map dl_id tbl"
    using claim_ids_keeps(1)[OF r(1)[unfolded claim_batch_def]] dead_letter_abandoned_keeps(1) by simp
  have "dl_attempts \<circ> g = dl_attempts" by (rule ext) (simp add: r(4))
  then have "map dl_attempts tbl' = map dl_attempts tbl1"
    using dead_letter_abandoned_keeps(4)[of cfg later tbl1] by (simp add: r(2))
  then have "attempts_left cfg tbl' = attempts_left cfg tbl1" by (rule attempts_left_attempts)
  then show "attempts_left cfg tbl' + length (fst (claim_batch cfg worker now tbl)) = attempts_left cfg tbl"
    using claim_budget[OF r(1)[unfolded claim_batch_def]] r(1) by simp
qed

text \<open>
  The relay cannot work forever on what cannot be delivered. For any number of polls, with any clocks
  and answers, the deliveries it makes together with the attempts that remain are exactly the
  attempts that remained before; so it makes at most \<open>max_attempts\<close> deliveries per row, and of any
  sequence of polls all but so many claim nothing.
\<close>

theorem relay_work_bounded:
  assumes "distinct (map dl_id tbl)" and "relay_rounds cfg worker rds tbl = (m, tbl')"
  shows "m + attempts_left cfg tbl' = attempts_left cfg tbl \<and> m \<le> rc_max cfg * length tbl"
proof -
  have "m + attempts_left cfg tbl' = attempts_left cfg tbl" using assms
  proof (induction cfg worker rds tbl arbitrary: m rule: relay_rounds.induct)
    case (2 cfg worker now later answers clocks rds tbl)
    obtain ns n tbl1 where o1: "run_once cfg worker now later answers clocks tbl = (ns, n, tbl1)"
      by (cases "run_once cfg worker now later answers clocks tbl")
    obtain m2 where o2: "relay_rounds cfg worker rds tbl1 = (m2, tbl')"
      and m: "m = length (fst (claim_batch cfg worker now tbl)) + m2"
      using "2.prems"(2) o1 by (auto split: prod.splits)
    note keeps = run_once_keeps[OF o1 "2.prems"(1)]
    from "2.IH"[OF o1[symmetric] refl _ o2] keeps m "2.prems"(1) show ?case by simp
  qed simp
  moreover have "attempts_left cfg tbl \<le> rc_max cfg * length tbl"
    unfolding attempts_left_def by (induction tbl) (auto simp: trans_le_add1 add_le_mono)
  ultimately show ?thesis by simp
qed

definition deliverable :: "delivery \<Rightarrow> bool" where
  "deliverable r \<longleftrightarrow> ob_destination (dl_row r) = ''redis'' \<or>
     (ob_destination (dl_row r) = ''websocket'' \<and> dl_org r \<noteq> None)"

lemma deliverable_accepted: "deliverable r \<Longrightarrow> snd (deliver PublishAccepted r)"
  by (auto simp: deliverable_def deliver_def publish_run_event_def)

lemma select_ids_mem: "set (select_ids cfg now tbl) \<subseteq> dl_id ` set (filter (claimable cfg now) tbl)"
  using set_take_subset by (fastforce simp: select_ids_def)

lemma drain_round:
  assumes run: "run_once cfg worker now later (\<lambda>k. PublishAccepted) clocks tbl = (ns, n, tbl')"
    and dist: "distinct (map dl_id tbl)" and batch: "0 < rc_batch cfg"
    and ready: "\<forall>r \<in> set tbl. dl_status r \<noteq> Delivered \<longrightarrow> claimable cfg now r \<and> deliverable r"
  shows "(\<forall>r \<in> set tbl'. dl_status r \<noteq> Delivered \<longrightarrow> claimable cfg now r \<and> deliverable r) \<and>
    length (undelivered tbl') \<le> length (undelivered tbl) - 1"
proof -
  obtain rows tbl1 g where r: "claim_batch cfg worker now tbl = (rows, tbl1)"
    "tbl' = map g (dead_letter_abandoned cfg later tbl1)" "\<And>r. dl_id (g r) = dl_id r"
    "\<And>r. dl_id r \<notin> dl_id ` set rows \<Longrightarrow> g r = r"
    "(\<forall>q \<in> set rows. \<forall>j::nat. snd (deliver PublishAccepted q)) \<Longrightarrow>
       n = length rows \<and> (\<forall>r. dl_id r \<in> dl_id ` set rows \<longrightarrow> dl_status (g r) = Delivered)"
    by (rule run_once_parts[OF run dist]) (rule that)
  let ?ids = "select_ids cfg now tbl"
  let ?hit = "\<lambda>r. dl_id r \<in> set ?ids \<and> claimable cfg now r"
  note parts = claim_ids_parts[OF r(1)[unfolded claim_batch_def]]
  have unclaimed: "\<not> claimable cfg now q" if "q \<in> set tbl" "dl_status q = Delivered" for q
    using that by (simp add: claimable_def)
  have good: "deliverable q" if "q \<in> set rows" for q
  proof -
    from that obtain p where p: "p \<in> set tbl" "claimable cfg now p" "q = claim_delivery worker now p" by (auto simp: parts(1))
    have "dl_status p \<noteq> Delivered" using p(2) by (auto simp: claimable_def)
    with ready p(1) have "deliverable p" by simp
    then show ?thesis by (simp add: deliverable_def p(3))
  qed
  then have status: "dl_status (g q) = Delivered" if "dl_id q \<in> dl_id ` set rows" for q
    using r(5) deliverable_accepted that by blast
  define f where "f q = g (let q1 = (if ?hit q then claim_delivery worker now q else q) in
      if abandoned_at_ceiling cfg later q1 then dead_letter_row cfg q1 else q1)" for q
  have tbl': "tbl' = map f tbl" by (simp add: r(2) parts(2) dead_letter_abandoned_def f_def Let_def)
  have hit: "dl_status (f q) = Delivered" if "q \<in> set tbl" "?hit q" for q
  proof -
    have "claim_delivery worker now q \<in> set rows" unfolding parts(1) using that by simp
    then have "dl_id q \<in> dl_id ` set rows" by (metis claim_delivery_simps(1) image_eqI)
    then show ?thesis unfolding f_def Let_def by (intro status) simp
  qed
  have miss: "f q = q" if q: "q \<in> set tbl" "\<not> ?hit q" for q
  proof -
    have "dl_id q \<notin> dl_id ` set rows"
    proof
      assume "dl_id q \<in> dl_id ` set rows"
      then obtain p where p: "p \<in> set tbl" "?hit p" "dl_id q = dl_id p" by (auto simp: parts(1))
      with row_of_id[OF dist q(1) p(1)] q(2) show False by simp
    qed
    moreover have "\<not> abandoned_at_ceiling cfg later q"
      using ready q(1) unclaimed by (auto simp: abandoned_at_ceiling_def claimable_def)
    moreover have e: "(if ?hit q then claim_delivery worker now q else q) = q" using q(2) by (rule if_not_P)
    ultimately show ?thesis unfolding f_def Let_def e using r(4)[of q] by simp
  qed
  have kept: "f q = q" if "q \<in> set tbl" "dl_status (f q) \<noteq> Delivered" for q
    using that hit miss by blast
  have 1: "\<forall>r \<in> set tbl'. dl_status r \<noteq> Delivered \<longrightarrow> claimable cfg now r \<and> deliverable r"
    using ready kept by (fastforce simp: tbl')
  have same: "dl_status (f q) \<noteq> Delivered \<longrightarrow> dl_status q \<noteq> Delivered" if "q \<in> set tbl" for q
    using kept[OF that] by auto
  have eq: "undelivered tbl' = filter (\<lambda>q. \<not> ?hit q) (undelivered tbl)"
  proof -
    have "undelivered (map f qs) = filter (\<lambda>q. \<not> ?hit q) (undelivered qs)" if "set qs \<subseteq> set tbl" for qs
      using that
    proof (induction qs)
      case (Cons q qs)
      with hit[of q] miss[of q] unclaimed[of q] show ?case by (cases "?hit q") (auto simp: undelivered_def)
    qed (simp add: undelivered_def)
    then show ?thesis by (simp add: tbl')
  qed
  have 2: "length (undelivered tbl') \<le> length (undelivered tbl) - 1"
  proof (cases "undelivered tbl = []")
    case True
    then show ?thesis by (simp add: eq)
  next
    case False
    have "filter (claimable cfg now) tbl \<noteq> []"
      using False ready by (fastforce simp: undelivered_def filter_empty_conv)
    then have "sort (map dl_id (filter (claimable cfg now) tbl)) \<noteq> []"
      by (metis length_0_conv length_map length_sort)
    then have "?ids \<noteq> []" using batch by (simp add: select_ids_def)
    then obtain i where "i \<in> set ?ids" by (cases ?ids) auto
    with select_ids_mem[of cfg now tbl] obtain q where q: "q \<in> set tbl" "?hit q" by auto
    then have "q \<in> set (undelivered tbl)" using unclaimed by (auto simp: undelivered_def)
    with q(2) have "length (filter (\<lambda>q. \<not> ?hit q) (undelivered tbl)) < length (undelivered tbl)"
      by (intro length_filter_less) auto
    then show ?thesis by (simp add: eq)
  qed
  from 1 2 show ?thesis ..
qed

text \<open>
  C40: A working destination gets everything. When every row that is not delivered is due at some moment and
  has a destination the relay knows, then as many polls at that moment as there are such rows, with
  a client that accepts, leave every row delivered, whatever the size of the batch.
\<close>

theorem relay_drains:
  assumes "distinct (map dl_id tbl)" and "0 < rc_batch cfg"
    and "\<forall>r \<in> set tbl. dl_status r \<noteq> Delivered \<longrightarrow> claimable cfg now r \<and> deliverable r"
    and "length (undelivered tbl) \<le> length rds"
    and "\<forall>rd \<in> set rds. \<exists>later clocks. rd = (now, later, \<lambda>k. PublishAccepted, clocks)"
    and "relay_rounds cfg worker rds tbl = (m, tbl')"
  shows "\<forall>r \<in> set tbl'. dl_status r = Delivered"
  using assms
proof (induction rds arbitrary: tbl m)
  case Nil
  then show ?case by (simp add: undelivered_def filter_empty_conv)
next
  case (Cons rd rds)
  from Cons.prems(5) obtain later clocks where rd: "rd = (now, later, \<lambda>k. PublishAccepted, clocks)" by auto
  obtain ns n tbl1 where o1: "run_once cfg worker now later (\<lambda>k. PublishAccepted) clocks tbl = (ns, n, tbl1)"
    by (cases "run_once cfg worker now later (\<lambda>k. PublishAccepted) clocks tbl")
  obtain m2 where o2: "relay_rounds cfg worker rds tbl1 = (m2, tbl')"
    using Cons.prems(6) o1 by (auto simp: rd split: prod.splits)
  note round = drain_round[OF o1 Cons.prems(1-3)] and keeps = run_once_keeps(1)[OF o1 Cons.prems(1)]
  show ?case
    by (rule Cons.IH[OF _ Cons.prems(2) _ _ _ o2]) (use round keeps Cons.prems(1,4,5) in auto)
qed

end
