(* ===== verification/Outbox_Examples.thy ===== *)
theory Outbox_Examples
  imports Outbox_Props
begin

text \<open>\<open>run_once\<close> as steps of a relay, two relays that meet on a row, and the properties at concrete histories.\<close>

subsection \<open>A round is a run of steps\<close>

lemma deliver_rows_run:
  assumes "i < length (ry_relays s)" "ry_relays s ! i = Holding rows"
    and "deliver_rows cfg answers clocks k rows (ry_table s) = (ns, n, tbl')"
  shows "\<exists>acc. relay_run cfg workers s (s\<lparr>ry_relays := (ry_relays s)[i := Holding []], ry_table := tbl',
      ry_accepted := ry_accepted s @ acc\<rparr>) \<and> length acc = n"
  using assms
proof (induction rows arbitrary: s k ns n)
  case Nil
  have "s\<lparr>ry_relays := (ry_relays s)[i := Holding []], ry_table := ry_table s, ry_accepted := ry_accepted s @ []\<rparr> = s"
    using list_update_id[of "ry_relays s" i] Nil(2) by simp
  with Nil show ?case by (intro exI[of _ "[]"]) simp
next
  case (Cons r rows)
  obtain ns1 ok where d: "deliver (answers k) r = (ns1, ok)" by (cases "deliver (answers k) r")
  obtain ns2 n2 where rest: "deliver_rows cfg answers clocks (Suc k) rows (finalize cfg (clocks k) r ok (ry_table s)) = (ns2, n2, tbl')"
    and n: "n = (if ok then Suc n2 else n2)" using Cons.prems(3) d by (auto split: prod.splits)
  let ?a = "if ok then [dl_id r] else []"
  let ?s1 = "s\<lparr>ry_relays := (ry_relays s)[i := Answered r ok rows], ry_accepted := ry_accepted s @ ?a\<rparr>"
  let ?s2 = "?s1\<lparr>ry_relays := (ry_relays ?s1)[i := Holding rows], ry_table := finalize cfg (clocks k) r ok (ry_table ?s1)\<rparr>"
  have 1: "relay_step cfg workers s ?s1" by (rule relay_step.send[OF Cons.prems(1,2) d])
  have 2: "relay_step cfg workers ?s1 ?s2" by (rule relay_step.settle) (use Cons.prems(1) in simp_all)
  have "\<exists>acc. relay_run cfg workers ?s2 (?s2\<lparr>ry_relays := (ry_relays ?s2)[i := Holding []], ry_table := tbl',
      ry_accepted := ry_accepted ?s2 @ acc\<rparr>) \<and> length acc = n2"
    by (rule Cons.IH) (use Cons.prems(1) rest in simp_all)
  then obtain acc where acc: "length acc = n2" "relay_run cfg workers ?s2 (?s2\<lparr>ry_relays := (ry_relays ?s2)[i := Holding []],
      ry_table := tbl', ry_accepted := ry_accepted ?s2 @ acc\<rparr>)" by blast
  have "relay_run cfg workers s (?s2\<lparr>ry_relays := (ry_relays ?s2)[i := Holding []],
      ry_table := tbl', ry_accepted := ry_accepted ?s2 @ acc\<rparr>)"
    using 1 2 acc(2) by (meson converse_rtranclp_into_rtranclp)
  then show ?case using acc(1) n by (intro exI[of _ "?a @ acc"]) simp
qed

text \<open>
  C39: \<open>run_once\<close> implements the relay protocol. From any state of the system in which a relay is idle, one
  \<open>run_once\<close> of that relay is a sequence of its steps that leaves it idle again, with the table
  \<open>run_once\<close> computes, and as many accepted deliveries as it returns; so what holds of all
  interleavings of steps holds of the loop that runs it.
\<close>

theorem run_once_is_run:
  assumes i: "i < length (ry_relays s)" "ry_relays s ! i = RelayIdle"
    and run: "run_once cfg (workers i) now later answers clocks (ry_table s) = (ns, n, tbl')"
  shows "\<exists>acc. relay_run cfg workers s (s\<lparr>ry_table := tbl', ry_accepted := ry_accepted s @ acc\<rparr>) \<and> length acc = n"
proof -
  let ?ids = "select_ids cfg now (ry_table s)"
  obtain rows tbl1 where c: "claim_ids cfg (workers i) now ?ids (ry_table s) = (rows, tbl1)"
    by (cases "claim_ids cfg (workers i) now ?ids (ry_table s)")
  obtain ns1 where d: "deliver_rows cfg answers clocks 0 rows (dead_letter_abandoned cfg later tbl1) = (ns1, n, tbl')"
    using run c by (auto simp: run_once_def claim_batch_def split: prod.splits)
  let ?s1 = "s\<lparr>ry_relays := (ry_relays s)[i := Chosen now ?ids]\<rparr>"
  let ?s2 = "?s1\<lparr>ry_relays := (ry_relays ?s1)[i := Holding rows], ry_table := dead_letter_abandoned cfg later tbl1\<rparr>"
  have 1: "relay_step cfg workers s ?s1" by (rule relay_step.choose[OF i])
  have 2: "relay_step cfg workers ?s1 ?s2" by (rule relay_step.claim) (use i c in simp_all)
  have "\<exists>acc. relay_run cfg workers ?s2 (?s2\<lparr>ry_relays := (ry_relays ?s2)[i := Holding []], ry_table := tbl',
      ry_accepted := ry_accepted ?s2 @ acc\<rparr>) \<and> length acc = n"
    by (rule deliver_rows_run) (use i d in simp_all)
  then obtain acc where acc: "length acc = n" "relay_run cfg workers ?s2 (?s2\<lparr>ry_relays := (ry_relays ?s2)[i := Holding []],
      ry_table := tbl', ry_accepted := ry_accepted ?s2 @ acc\<rparr>)" by blast
  let ?s3 = "?s2\<lparr>ry_relays := (ry_relays ?s2)[i := Holding []], ry_table := tbl', ry_accepted := ry_accepted ?s2 @ acc\<rparr>"
  have 3: "relay_step cfg workers ?s3 (?s3\<lparr>ry_relays := (ry_relays ?s3)[i := RelayIdle]\<rparr>)"
    by (rule relay_step.rest) (use i in simp_all)
  have eq: "?s3\<lparr>ry_relays := (ry_relays ?s3)[i := RelayIdle]\<rparr> = s\<lparr>ry_table := tbl', ry_accepted := ry_accepted s @ acc\<rparr>"
    using list_update_id[of "ry_relays s" i] i(2) by simp
  have "relay_run cfg workers s ?s3" using 1 2 acc(2) by (meson converse_rtranclp_into_rtranclp)
  from this 3 have "relay_run cfg workers s (?s3\<lparr>ry_relays := (ry_relays ?s3)[i := RelayIdle]\<rparr>)"
    by (rule rtranclp.rtrancl_into_rtrancl)
  with acc(1) show ?thesis unfolding eq by blast
qed

subsection \<open>Two relays on one row\<close>

definition relay_runs :: "string \<rightharpoonup> string option" where
  "relay_runs = [''r'' \<mapsto> Some ''o'']"

definition relay_appended :: "stream_error + stream" where
  "relay_appended = append_event (empty_stream relay_runs) ''o'' (example_event ''e1'' ''k1'') [''redis'']"

definition relay_stream :: stream where
  "relay_stream = (case relay_appended of Inl e \<Rightarrow> empty_stream relay_runs | Inr s \<Rightarrow> s)"

definition relay_entry :: outbox_row where "relay_entry = hd (st_outbox relay_stream)"

lemma relay_entry_redis: "ob_destination relay_entry = ''redis''" by code_simp

lemma relay_outbox: "st_outbox relay_stream = [relay_entry]"
proof -
  have "length (st_outbox relay_stream) = 1" by code_simp
  then show ?thesis by (cases "st_outbox relay_stream") (simp_all add: relay_entry_def)
qed

lemma relay_append: "append_event (ry_stream (relay_start relay_runs n)) ''o'' (example_event ''e1'' ''k1'') [''redis''] = Inr relay_stream"
proof -
  have "\<not> isl relay_appended" by code_simp
  then show ?thesis by (cases relay_appended) (simp_all add: relay_stream_def relay_start_def relay_appended_def)
qed

definition relay_cfg :: relay_config where "relay_cfg = \<lparr>rc_batch = 5, rc_max = 2, rc_lease = 10\<rparr>"

definition relay_workers :: "nat \<Rightarrow> string" where "relay_workers i = (if i = 0 then ''a'' else ''b'')"

definition relay_sys :: "delivery list \<Rightarrow> relay_phase list \<Rightarrow> nat list \<Rightarrow> relay_system" where
  "relay_sys tbl phs acc = \<lparr>ry_stream = relay_stream, ry_table = tbl, ry_relays = phs, ry_accepted = acc\<rparr>"

definition row_new :: delivery where "row_new = new_delivery 0 0 relay_entry"
definition row_first :: delivery where "row_first = claim_delivery ''a'' 0 row_new"
definition row_second :: delivery where "row_second = claim_delivery ''b'' 100 row_first"
definition row_done :: delivery where "row_done = finalize_row relay_cfg 101 row_second True row_second"
definition row_undone :: delivery where "row_undone = finalize_row relay_cfg 102 row_first False row_done"

lemmas relay_defs = relay_cfg_def relay_sys_def row_new_def row_first_def row_second_def row_done_def row_undone_def
  new_delivery_def claim_delivery_def claim_ids_def select_ids_def claimable_def lease_over_def finalize_def finalize_row_def
  dead_letter_abandoned_def abandoned_at_ceiling_def relay_workers_def deliver_def publish_run_event_def relay_entry_redis
  failure_text_def dead_letter_message_def

lemma relay_enqueued:
  "relay_step relay_cfg relay_workers (relay_start relay_runs n) (relay_sys [row_new] (replicate n RelayIdle) [])"
  using relay_step.enqueue[OF relay_append, where ids = "[0]" and cfg = relay_cfg and workers = relay_workers and now = 0 and n1 = n]
  by (simp add: relay_start_def empty_stream_def relay_outbox relay_sys_def row_new_def)

lemma two_relays_meet:
  "relay_run relay_cfg relay_workers (relay_start relay_runs 2) (relay_sys [row_done] [Holding [row_first], Holding []] [0])"
proof -
  let ?R = "relay_step relay_cfg relay_workers"
  have 2: "replicate 2 RelayIdle = [RelayIdle, RelayIdle]" by (simp add: numeral_2_eq_2)
  have s1: "?R (relay_start relay_runs 2) (relay_sys [row_new] [RelayIdle, RelayIdle] [])"
    using relay_enqueued[of 2] by (simp add: 2)
  have s2: "?R (relay_sys [row_new] [RelayIdle, RelayIdle] []) (relay_sys [row_new] [Chosen 0 [0], RelayIdle] [])"
    using relay_step.choose[where i = 0 and s = "relay_sys [row_new] [RelayIdle, RelayIdle] []" and cfg = relay_cfg and workers = relay_workers and now = 0]
    by (simp add: relay_defs)
  have s3: "?R (relay_sys [row_new] [Chosen 0 [0], RelayIdle] []) (relay_sys [row_first] [Holding [row_first], RelayIdle] [])"
    using relay_step.claim[where i = 0 and s = "relay_sys [row_new] [Chosen 0 [0], RelayIdle] []" and now = 0 and ids = "[0]" and cfg = relay_cfg
      and workers = relay_workers and rows = "[row_first]" and rows' = "[row_first]" and tbl = "[row_first]" and later = 0] by (simp add: relay_defs)
  have s4: "?R (relay_sys [row_first] [Holding [row_first], RelayIdle] []) (relay_sys [row_first] [Holding [row_first], Chosen 100 [0]] [])"
    using relay_step.choose[where i = 1 and s = "relay_sys [row_first] [Holding [row_first], RelayIdle] []" and cfg = relay_cfg and workers = relay_workers and now = 100]
    by (simp add: relay_defs)
  have s5: "?R (relay_sys [row_first] [Holding [row_first], Chosen 100 [0]] [])
      (relay_sys [row_second] [Holding [row_first], Holding [row_second]] [])"
    using relay_step.claim[where i = 1 and s = "relay_sys [row_first] [Holding [row_first], Chosen 100 [0]] []" and now = 100 and ids = "[0]" and cfg = relay_cfg
      and workers = relay_workers and rows = "[row_second]" and rows' = "[row_second]" and tbl = "[row_second]" and later = 100] by (simp add: relay_defs)
  have s6: "?R (relay_sys [row_second] [Holding [row_first], Holding [row_second]] [])
      (relay_sys [row_second] [Holding [row_first], Answered row_second True []] [0])"
    using relay_step.send[where i = 1 and s = "relay_sys [row_second] [Holding [row_first], Holding [row_second]] []" and r = row_second and rs = "[]" and answer = PublishAccepted
      and ok = True and cfg = relay_cfg and workers = relay_workers] by (simp add: relay_defs)
  have s7: "?R (relay_sys [row_second] [Holding [row_first], Answered row_second True []] [0])
      (relay_sys [row_done] [Holding [row_first], Holding []] [0])"
    using relay_step.settle[where i = 1 and s = "relay_sys [row_second] [Holding [row_first], Answered row_second True []] [0]" and r = row_second and ok = True and rs = "[]"
      and cfg = relay_cfg and workers = relay_workers and now = 101] by (simp add: relay_defs)
  from s1 s2 s3 s4 s5 s6 s7 show ?thesis by (meson converse_rtranclp_into_rtranclp rtranclp.rtrancl_refl)
qed

lemma late_relay_settles:
  "relay_run relay_cfg relay_workers (relay_sys [row_done] [Holding [row_first], Holding []] [0])
     (relay_sys [row_undone] [Holding [], Holding []] [0])"
proof -
  let ?R = "relay_step relay_cfg relay_workers"
  have s1: "?R (relay_sys [row_done] [Holding [row_first], Holding []] [0])
      (relay_sys [row_done] [Answered row_first False [], Holding []] [0])"
    using relay_step.send[where i = 0 and s = "relay_sys [row_done] [Holding [row_first], Holding []] [0]" and r = row_first and rs = "[]" and answer = PublishRaised
      and ok = False and cfg = relay_cfg and workers = relay_workers] by (simp add: relay_defs)
  have s2: "?R (relay_sys [row_done] [Answered row_first False [], Holding []] [0])
      (relay_sys [row_undone] [Holding [], Holding []] [0])"
    using relay_step.settle[where i = 0 and s = "relay_sys [row_done] [Answered row_first False [], Holding []] [0]" and r = row_first and ok = False and rs = "[]"
      and cfg = relay_cfg and workers = relay_workers and now = 102] by (simp add: relay_defs)
  from s1 s2 show ?thesis by (meson converse_rtranclp_into_rtranclp rtranclp.rtrancl_refl)
qed

text \<open>
  A late relay undoes a delivery. \<open>_finalize\<close> updates the row by its identifier alone: with two relays,
  one that lost its lease during a publish can still report its failure after the other delivered
  the row. The delivered row is then marked failed with all attempts used, never to be claimed again,
  and its \<open>last_error\<close> does not say that it was dead-lettered.
\<close>

theorem late_relay_undoes_delivery:
  "\<exists>s s' r r'. relay_run relay_cfg relay_workers (relay_start relay_runs 2) s \<and> relay_run relay_cfg relay_workers s s' \<and>
     ry_table s = [r] \<and> dl_status r = Delivered \<and> ry_table s' = [r'] \<and> dl_id r' = dl_id r \<and>
     dl_status r' = DeliveryFailed \<and> dl_attempts r' = rc_max relay_cfg \<and>
     dl_last_error r' = Some ''redis publish unavailable or failed'' \<and> (\<forall>now. \<not> claimable relay_cfg now r')"
proof -
  have "dl_status row_done = Delivered" "dl_status row_undone = DeliveryFailed" "dl_id row_undone = dl_id row_done"
    "dl_attempts row_undone = rc_max relay_cfg" "dl_last_error row_undone = Some ''redis publish unavailable or failed''"
    "\<forall>now. \<not> claimable relay_cfg now row_undone"
    by (simp_all add: relay_defs)
  then show ?thesis using two_relays_meet late_relay_settles
    by (intro exI[of _ "relay_sys [row_done] [Holding [row_first], Holding []] [0]"]
        exI[of _ "relay_sys [row_undone] [Holding [], Holding []] [0]"] exI[of _ row_done] exI[of _ row_undone])
      (simp add: relay_sys_def)
qed

subsection \<open>The properties at these histories\<close>

theorem outbox_never_loses_witness:
  "map dl_row [row_done] = [relay_entry] \<and> 0 < count_list [0::nat] (dl_id row_done) \<and> dl_attempts row_done \<le> rc_max relay_cfg"
proof -
  have r: "row_done \<in> set (ry_table (relay_sys [row_done] [Holding [row_first], Holding []] [0]))" and m: "0 < rc_max relay_cfg"
    and d: "dl_status row_done = Delivered" by (simp_all add: relay_defs)
  from outbox_never_loses[OF two_relays_meet r m] d show ?thesis by (simp add: relay_sys_def relay_outbox)
qed

definition row_sent :: delivery where
  "row_sent = finalize_row relay_cfg 1 (claim_delivery ''a'' 0 row_new) True (claim_delivery ''a'' 0 row_new)"

lemma first_poll:
  "run_once relay_cfg (relay_workers 0) 0 0 (\<lambda>k. PublishAccepted) (\<lambda>k. 1) [row_new] =
     ([Sent (message_of row_new), Woken ''o'' (ob_run_id relay_entry)], 1, [row_sent])"
proof -
  have "ob_org relay_entry = ''o''" by code_simp
  then show ?thesis
    by (simp add: run_once_def claim_batch_def relay_defs row_sent_def notify_stream_subscribers_def message_of_def)
qed

theorem run_once_is_run_witness:
  "\<exists>acc. relay_run relay_cfg relay_workers (relay_sys [row_new] [RelayIdle] []) (relay_sys [row_sent] [RelayIdle] acc) \<and> length acc = 1"
  using run_once_is_run[of 0 "relay_sys [row_new] [RelayIdle] []" relay_cfg relay_workers 0 0 "\<lambda>k. PublishAccepted" "\<lambda>k. 1"]
    first_poll by (simp add: relay_sys_def)

theorem single_relay_settles_witness:
  "\<exists>acc. relay_run relay_cfg relay_workers (relay_start relay_runs 1) (relay_sys [row_sent] [RelayIdle] acc) \<and>
     row_sent \<in> set (ry_table (relay_sys [row_sent] [RelayIdle] acc))"
proof -
  let ?s = "relay_sys [row_new] [RelayIdle] []"
  have "\<exists>acc. relay_run relay_cfg relay_workers ?s (?s\<lparr>ry_table := [row_sent], ry_accepted := ry_accepted ?s @ acc\<rparr>) \<and> length acc = 1"
    by (rule run_once_is_run[where i = 0]) (use first_poll in \<open>auto simp: relay_sys_def\<close>)
  then obtain acc where acc: "relay_run relay_cfg relay_workers ?s (relay_sys [row_sent] [RelayIdle] acc)"
    by (auto simp: relay_sys_def)
  have "relay_step relay_cfg relay_workers (relay_start relay_runs 1) ?s" using relay_enqueued[of 1] by simp
  then have run: "relay_run relay_cfg relay_workers (relay_start relay_runs 1) (relay_sys [row_sent] [RelayIdle] acc)"
    using acc by (rule converse_rtranclp_into_rtranclp)
  have "row_sent \<in> set (ry_table (relay_sys [row_sent] [RelayIdle] acc))" "0 < rc_max relay_cfg" "dl_status row_sent = Delivered"
    by (simp_all add: relay_sys_def relay_cfg_def row_sent_def finalize_row_def)
  with single_relay_settles[OF run, of row_sent] run show ?thesis by blast
qed

theorem relay_work_bounded_witness:
  "fst (relay_rounds relay_cfg ''a'' (replicate 5 (0, 0, \<lambda>k. PublishRaised, \<lambda>k. 0)) [row_new]) \<le> 2"
  using relay_work_bounded[of "[row_new]" relay_cfg "''a''" "replicate 5 (0, 0, \<lambda>k. PublishRaised, \<lambda>k. 0)", OF _ prod.collapse[symmetric]]
  by (simp add: relay_cfg_def)

theorem relay_drains_witness:
  "list_all (\<lambda>r. dl_status r = Delivered)
     (snd (relay_rounds relay_cfg ''a'' [(0, 0, \<lambda>k. PublishAccepted, \<lambda>k. 1)] [row_new]))"
proof -
  let ?rds = "[(0, 0, \<lambda>k. PublishAccepted, \<lambda>k. 1)]"
  obtain m tbl where r: "relay_rounds relay_cfg ''a'' ?rds [row_new] = (m, tbl)"
    by (cases "relay_rounds relay_cfg ''a'' ?rds [row_new]")
  have "\<forall>q \<in> set tbl. dl_status q = Delivered"
    by (rule relay_drains[OF _ _ _ _ _ r, where now = 0]) (simp_all add: relay_defs undelivered_def deliverable_def)
  then show ?thesis by (simp only: r snd_conv list_all_iff)
qed

end
