(* ===== verification/Run_Stream.thy ===== *)
theory Run_Stream
  imports Event_Stream Contract_States "HOL-Library.AList"
begin

text \<open>
  \<^verbatim>\<open>src/api/websocket/run_stream.py\<close>: the live stream of a run, read back from its durable events. A
  reader makes one query after another against a database that goes on changing: query \<open>k\<close> sees the
  state \<open>dbs k\<close>. The generator is a function of these states and of which waits were woken, with a
  bound on its rounds; \<open>None\<close> as its end says that it is still running.
\<close>

subsection \<open>Entitlement\<close>

record stream_entitlement =
  se_org :: string
  se_user :: "string option"

datatype stream_refusal = NoTenantClaim | BadTenantClaim | NotVisible | CursorForOther | CursorInvalid contract_error

definition from_organization_claim :: "(string \<Rightarrow> string option) \<Rightarrow> string option \<Rightarrow> string option \<Rightarrow> stream_refusal + stream_entitlement" where
  "from_organization_claim U claim user =
     (case claim of
        None \<Rightarrow> Inl NoTenantClaim
      | Some c \<Rightarrow>
          if py_strip c = [] then Inl NoTenantClaim
          else (case U (py_strip c) of
                  None \<Rightarrow> Inl BadTenantClaim
                | Some org \<Rightarrow> Inr \<lparr>se_org = org, se_user = user\<rparr>))"

subsection \<open>The hub\<close>

text \<open>Waiters by organization and run, an event being its number, and the events that are set.\<close>

record stream_hub =
  hb_waiters :: "((string \<times> string) \<times> nat list) list"
  hb_set :: "nat set"

definition empty_hub :: stream_hub where
  "empty_hub = \<lparr>hb_waiters = [], hb_set = {}\<rparr>"

definition waiters_of :: "stream_hub \<Rightarrow> string \<Rightarrow> string \<Rightarrow> nat list" where
  "waiters_of h org run = (case map_of (hb_waiters h) (org, run) of None \<Rightarrow> [] | Some ws \<Rightarrow> ws)"

definition waiter_count :: "stream_hub \<Rightarrow> nat" where
  "waiter_count h = sum_list (map (length \<circ> snd) (hb_waiters h))"

definition notify :: "stream_hub \<Rightarrow> string \<Rightarrow> string \<Rightarrow> nat \<times> stream_hub" where
  "notify h org run =
     (length (waiters_of h org run), h\<lparr>hb_set := hb_set h \<union> set (waiters_of h org run)\<rparr>)"

text \<open>Entering \<open>subscribe\<close> with a new event, and leaving it.\<close>

definition enter_subscription :: "stream_hub \<Rightarrow> string \<Rightarrow> string \<Rightarrow> nat \<Rightarrow> stream_hub" where
  "enter_subscription h org run event =
     h\<lparr>hb_waiters := AList.update (org, run) (List.insert event (waiters_of h org run)) (hb_waiters h)\<rparr>"

definition leave_subscription :: "stream_hub \<Rightarrow> string \<Rightarrow> string \<Rightarrow> nat \<Rightarrow> stream_hub" where
  "leave_subscription h org run event =
     (case map_of (hb_waiters h) (org, run) of
        None \<Rightarrow> h
      | Some ws \<Rightarrow>
          if removeAll event ws = [] then h\<lparr>hb_waiters := AList.delete (org, run) (hb_waiters h)\<rparr>
          else h\<lparr>hb_waiters := AList.update (org, run) (removeAll event ws) (hb_waiters h)\<rparr>)"

subsection \<open>Frames\<close>

record stream_frame =
  sf_run_id :: string
  sf_sequence :: int
  sf_event_id :: string
  sf_event_type :: string
  sf_occurred_at :: instant
  sf_payload :: pyval
  sf_cursor :: cursor
  sf_destination :: string
  sf_deduplication_key :: string

text \<open>The wire form; \<open>encode\<close> is the text of a cursor and \<open>isoformat\<close> that of an instant.\<close>

definition to_message :: "(cursor \<Rightarrow> string) \<Rightarrow> (instant \<Rightarrow> string) \<Rightarrow> stream_frame \<Rightarrow> contract_error + (string \<times> pyval) list" where
  "to_message encode isoformat f =
     bind_result (delivery_idempotency_key (sf_deduplication_key f) (sf_destination f)) (\<lambda>key. Inr
       [(''run_id'', VStr (sf_run_id f)), (''sequence'', VInt (sf_sequence f)), (''event_id'', VStr (sf_event_id f)),
        (''event_type'', VStr (sf_event_type f)), (''occurred_at'', VStr (isoformat (sf_occurred_at f))),
        (''payload'', sf_payload f), (''cursor'', VStr (encode (sf_cursor f))), (''idempotency_key'', VStr key)])"

subsection \<open>The reader\<close>

text \<open>The event tables with the statuses of the runs.\<close>

record run_db =
  db_stream :: stream
  db_status :: "string \<Rightarrow> run_status"

record stream_reader =
  sr_entitlement :: stream_entitlement
  sr_destination :: string
  sr_poll :: int
  sr_limit :: nat

text \<open>\<open>get_run\<close> within an organization: the status of the run, if it is there.\<close>

definition visible_run :: "run_db \<Rightarrow> string \<Rightarrow> string \<Rightarrow> run_status option" where
  "visible_run db org run =
     (case st_runs (db_stream db) run of
        Some (Some o', n) \<Rightarrow> if o' = org then Some (db_status db run) else None
      | _ \<Rightarrow> None)"

definition authorize_stream :: "stream_reader \<Rightarrow> run_db \<Rightarrow> string \<Rightarrow> stream_refusal option" where
  "authorize_stream rd db run =
     (if visible_run db (se_org (sr_entitlement rd)) run = None then Some NotVisible else None)"

fun make_frames :: "string \<Rightarrow> run_event list \<Rightarrow> cursor \<Rightarrow> contract_error + stream_frame list \<times> cursor" where
  "make_frames destination [] c = Inr ([], c)"
| "make_frames destination (e # es) c =
     (case advanced_to c (re_sequence e) of
        Inl err \<Rightarrow> Inl err
      | Inr c1 \<Rightarrow>
         (case make_frames destination es c1 of
            Inl err \<Rightarrow> Inl err
          | Inr (fs, c2) \<Rightarrow> Inr
             (\<lparr>sf_run_id = re_run_id e, sf_sequence = re_sequence e, sf_event_id = re_id e,
               sf_event_type = re_event_type e, sf_occurred_at = re_occurred_at e, sf_payload = re_payload e,
               sf_cursor = c1, sf_destination = destination, sf_deduplication_key = re_deduplication_key e\<rparr> # fs, c2)))"

definition read_batch :: "stream_reader \<Rightarrow> run_db \<Rightarrow> cursor \<Rightarrow> contract_error + stream_frame list \<times> cursor" where
  "read_batch rd db c =
     make_frames (sr_destination rd)
       (read_events_after (db_stream db) (cu_run_id c) (cu_last_sequence c) (sr_limit rd)
         (Some (se_org (sr_entitlement rd)))) c"

definition is_run_terminal :: "stream_reader \<Rightarrow> run_db \<Rightarrow> string \<Rightarrow> bool" where
  "is_run_terminal rd db run =
     (case visible_run db (se_org (sr_entitlement rd)) run of
        None \<Rightarrow> True | Some st \<Rightarrow> st \<in> terminal_run_statuses)"

subsection \<open>The generator\<close>

datatype stream_end = RunEnded | StreamIdle | StreamRaised contract_error

record stream_options =
  so_stop_when_terminal :: bool
  so_max_idle :: "int option"

definition gave_up :: "stream_options \<Rightarrow> int \<Rightarrow> bool" where
  "gave_up opts idle = (case so_max_idle opts of None \<Rightarrow> False | Some bound \<Rightarrow> bound \<le> idle)"

text \<open>
  \<open>q\<close> counts the queries and \<open>w\<close> the waits: \<open>woken w\<close> says whether a notification ended the wait before
  its timeout. What is yielded goes to the consumer as it is made.
\<close>

fun stream_loop :: "stream_reader \<Rightarrow> stream_options \<Rightarrow> (nat \<Rightarrow> run_db) \<Rightarrow> (nat \<Rightarrow> bool) \<Rightarrow> nat \<Rightarrow> nat \<Rightarrow> nat \<Rightarrow> cursor \<Rightarrow> int \<Rightarrow>
    stream_frame list \<times> stream_end option" where
  "stream_loop rd opts dbs woken 0 q w c idle = ([], None)"
| "stream_loop rd opts dbs woken (Suc n) q w c idle =
     (case read_batch rd (dbs q) c of
        Inl err \<Rightarrow> ([], Some (StreamRaised err))
      | Inr (frames, c1) \<Rightarrow>
          if frames \<noteq> [] \<and> sr_limit rd \<le> length frames then
            (case stream_loop rd opts dbs woken n (q + 1) w c1 0 of (fs, e) \<Rightarrow> (frames @ fs, e))
          else if frames = [] \<and> so_stop_when_terminal opts \<and> is_run_terminal rd (dbs (q + 1)) (cu_run_id c) then
            (case read_batch rd (dbs (q + 2)) c1 of
               Inl err \<Rightarrow> ([], Some (StreamRaised err))
             | Inr (frames2, c2) \<Rightarrow> (frames2, Some RunEnded))
          else
            (let q' = (if frames = [] \<and> so_stop_when_terminal opts then q + 2 else q + 1);
                 idle1 = (if frames \<noteq> [] then 0 else idle) in
             if woken w then
               (case stream_loop rd opts dbs woken n q' (w + 1) c1 idle1 of (fs, e) \<Rightarrow> (frames @ fs, e))
             else if gave_up opts (idle1 + sr_poll rd) then (frames, Some StreamIdle)
             else
               (case stream_loop rd opts dbs woken n q' (w + 1) c1 (idle1 + sr_poll rd) of
                  (fs, e) \<Rightarrow> (frames @ fs, e))))"

text \<open>\<open>stream\<close>: \<open>authorize\<close> is query 0.\<close>

definition open_stream :: "stream_reader \<Rightarrow> run_db \<Rightarrow> string \<Rightarrow> cursor option \<Rightarrow> stream_refusal + cursor" where
  "open_stream rd db run resume =
     (case authorize_stream rd db run of
        Some refusal \<Rightarrow> Inl refusal
      | None \<Rightarrow>
          (case resume of
             None \<Rightarrow>
               (let c = \<lparr>cu_run_id = run, cu_last_sequence = 0\<rparr> in
                case cursor_violation c of Some err \<Rightarrow> Inl (CursorInvalid err) | None \<Rightarrow> Inr c)
           | Some c \<Rightarrow> if cu_run_id c \<noteq> run then Inl CursorForOther else Inr c))"

definition stream_run :: "stream_reader \<Rightarrow> stream_options \<Rightarrow> (nat \<Rightarrow> run_db) \<Rightarrow> (nat \<Rightarrow> bool) \<Rightarrow> nat \<Rightarrow> string \<Rightarrow> cursor option \<Rightarrow>
    stream_refusal + stream_frame list \<times> stream_end option" where
  "stream_run rd opts dbs woken n run resume =
     (case open_stream rd (dbs 0) run resume of
        Inl refusal \<Rightarrow> Inl refusal
      | Inr c \<Rightarrow> Inr (stream_loop rd opts dbs woken n 1 0 c 0))"

end
