(* ===== verification/Run_Stream_Props.thy ===== *)
theory Run_Stream_Props
  imports Run_Stream "HOL-Library.Sublist"
begin

text \<open>What a subscriber of the live stream relies on.\<close>

subsection \<open>The history of the database\<close>

definition db_history :: "(string \<rightharpoonup> string option) \<Rightarrow> (nat \<Rightarrow> run_db) \<Rightarrow> bool" where
  "db_history runs dbs \<longleftrightarrow>
     (\<exists>ops. db_stream (dbs 0) = append_all (empty_stream runs) ops) \<and>
     (\<forall>k. \<exists>ops. db_stream (dbs (Suc k)) = append_all (db_stream (dbs k)) ops)"

abbreviation seen :: "(nat \<Rightarrow> run_db) \<Rightarrow> nat \<Rightarrow> string \<Rightarrow> run_event list" where
  "seen dbs k run \<equiv> events_of (db_stream (dbs k)) run"

lemma append_all_prefix: "prefix (events_of s run) (events_of (append_all s ops) run)"
proof (induction s ops rule: append_all.induct)
  case (2 s org e ds ops)
  then show ?case
    by (cases "append_event s org e ds")
      (auto simp: append_event_events intro: prefix_order.trans[rotated] split: if_splits)
qed simp

lemma append_event_orgs: "append_event s org e ds = Inr s' \<Longrightarrow> map_option fst (st_runs s' r) = map_option fst (st_runs s r)"
  by (auto simp: append_event_Inr)

lemma append_all_orgs: "map_option fst (st_runs (append_all s ops) r) = map_option fst (st_runs s r)"
  by (induction s ops rule: append_all.induct) (auto dest: append_event_orgs split: sum.split)

lemma db_history_ok: "db_history runs dbs \<Longrightarrow> stream_ok (db_stream (dbs k))"
proof (induction k)
  case 0
  then show ?case using append_all_ok[OF empty_stream_ok] by (auto simp: db_history_def)
next
  case (Suc k)
  then obtain ops where "db_stream (dbs (Suc k)) = append_all (db_stream (dbs k)) ops" unfolding db_history_def by blast
  with Suc append_all_ok show ?case by simp
qed

lemma history_prefix: "db_history runs dbs \<Longrightarrow> j \<le> k \<Longrightarrow> prefix (seen dbs j run) (seen dbs k run)"
proof (induction k)
  case (Suc k)
  from Suc.prems(1) obtain ops where s: "db_stream (dbs (Suc k)) = append_all (db_stream (dbs k)) ops"
    unfolding db_history_def by blast
  show ?case
  proof (cases "j = Suc k")
    case False
    with Suc have "prefix (seen dbs j run) (seen dbs k run)" by simp
    from this append_all_prefix[of "db_stream (dbs k)" run ops] show ?thesis unfolding s by (rule prefix_order.trans)
  qed simp
qed simp

lemma history_orgs: "db_history runs dbs \<Longrightarrow> map_option fst (st_runs (db_stream (dbs k)) r) = runs r"
proof (induction k)
  case 0
  then obtain ops where "db_stream (dbs 0) = append_all (empty_stream runs) ops" unfolding db_history_def by blast
  then show ?case by (simp add: append_all_orgs) (simp add: empty_stream_def option.map_comp comp_def option.map_ident)
next
  case (Suc k)
  then obtain ops where "db_stream (dbs (Suc k)) = append_all (db_stream (dbs k)) ops" unfolding db_history_def by blast
  with Suc show ?case by (simp add: append_all_orgs)
qed

lemma visible_iff:
  assumes "db_history runs dbs"
  shows "visible_run (dbs k) org run = (if runs run = Some (Some org) then Some (db_status (dbs k) run) else None)"
  using history_orgs[OF assms, of k run]
  by (auto simp: visible_run_def split: option.splits)

subsection \<open>One page\<close>

text \<open>The organization filter shows all of a run's events or none.\<close>

lemma events_of_org:
  assumes "stream_ok s" "(o', e) \<in> set (st_events s)"
  shows "map_option fst (st_runs s (re_run_id e)) = Some (Some o')"
  using assms unfolding stream_ok_def by fastforce

lemma read_scoped:
  assumes ok: "stream_ok s" and org: "map_option fst (st_runs s run) = Some (Some org)" and pos: "0 \<le> after"
  shows "read_events_after s run after limit (Some org) = take limit (drop (nat after) (events_of s run))"
proof -
  have "filter (\<lambda>(o', e). re_run_id e = run \<and> after < re_sequence e \<and> (Some org = None \<or> Some org = Some o')) (st_events s) =
      filter (\<lambda>(o', e). re_run_id e = run \<and> after < re_sequence e \<and> ((None :: string option) = None \<or> None = Some o')) (st_events s)"
  proof (rule filter_cong[OF refl])
    fix x
    assume x: "x \<in> set (st_events s)"
    obtain o' e where e: "x = (o', e)" by (cases x)
    have "o' = org" if "re_run_id e = run" using events_of_org[OF ok x[unfolded e]] org that by simp
    then show "(case x of (o', e) \<Rightarrow> re_run_id e = run \<and> after < re_sequence e \<and> (Some org = None \<or> Some org = Some o')) =
        (case x of (o', e) \<Rightarrow> re_run_id e = run \<and> after < re_sequence e \<and> ((None :: string option) = None \<or> None = Some o'))"
      by (auto simp: e)
  qed
  then have "read_events_after s run after limit (Some org) = read_events_after s run after limit None"
    by (simp only: read_events_after_def)
  with read_events_after_window[OF ok pos] show ?thesis by simp
qed

definition frame_for :: "string \<Rightarrow> string \<Rightarrow> run_event \<Rightarrow> stream_frame" where
  "frame_for destination run e =
     \<lparr>sf_run_id = re_run_id e, sf_sequence = re_sequence e, sf_event_id = re_id e,
      sf_event_type = re_event_type e, sf_occurred_at = re_occurred_at e, sf_payload = re_payload e,
      sf_cursor = \<lparr>cu_run_id = run, cu_last_sequence = re_sequence e\<rparr>, sf_destination = destination,
      sf_deduplication_key = re_deduplication_key e\<rparr>"

lemma make_frames_exact:
  assumes "cursor_violation c = None" "map re_sequence es = map (\<lambda>i. cu_last_sequence c + 1 + int i) [0..<length es]"
  shows "make_frames d es c = Inr (map (frame_for d (cu_run_id c)) es, c\<lparr>cu_last_sequence := cu_last_sequence c + int (length es)\<rparr>)"
  using assms
proof (induction es arbitrary: c)
  case (Cons e es)
  have seqs: "re_sequence e = cu_last_sequence c + 1"
    "map re_sequence es = map (\<lambda>i. cu_last_sequence c + 1 + int i) [1..<Suc (length es)]"
    using Cons.prems(2) by (simp_all add: upt_conv_Cons del: upt_Suc)
  let ?c = "c\<lparr>cu_last_sequence := cu_last_sequence c + 1\<rparr>"
  have adv: "advanced_to c (re_sequence e) = Inr ?c" "cursor_violation ?c = None"
    using Cons.prems(1) by (auto simp: seqs(1) advanced_to_def cursor_violation_def)
  have "map re_sequence es = map (\<lambda>i. cu_last_sequence ?c + 1 + int i) [0..<length es]"
    using seqs(2) by (simp add: map_Suc_upt[symmetric] algebra_simps comp_def del: upt_Suc)
  from Cons.IH[OF adv(2) this] adv(1) seqs(1) show ?case by (simp add: frame_for_def)
qed simp

lemma window_sequences:
  assumes ok: "stream_ok s" and pos: "0 \<le> k"
  shows "map re_sequence (take m (drop (nat k) (events_of s run))) =
    map (\<lambda>i. k + 1 + int i) [0..<length (take m (drop (nat k) (events_of s run)))]"
proof (rule nth_equalityI)
  fix i
  assume i: "i < length (map re_sequence (take m (drop (nat k) (events_of s run))))"
  have seqs: "map re_sequence (events_of s run) = map int [1..<Suc (nat (last_sequence s run))]"
    using ok unfolding stream_ok_def by blast
  have "nat k + i < length (map re_sequence (events_of s run))" using i by (simp, linarith)
  moreover from this have "map re_sequence (events_of s run) ! (nat k + i) = int (1 + (nat k + i))"
    unfolding seqs by (simp del: upt_Suc)
  ultimately show "map re_sequence (take m (drop (nat k) (events_of s run))) ! i =
      map (\<lambda>i. k + 1 + int i) [0..<length (take m (drop (nat k) (events_of s run)))] ! i"
    using i pos by simp
qed simp

lemma read_batch_exact:
  assumes h: "db_history runs dbs" and run: "runs run = Some (Some (se_org (sr_entitlement rd)))"
    and c: "cursor_violation c = None" "cu_run_id c = run"
  shows "read_batch rd (dbs k) c =
    (let es = take (sr_limit rd) (drop (nat (cu_last_sequence c)) (seen dbs k run)) in
     Inr (map (frame_for (sr_destination rd) run) es, c\<lparr>cu_last_sequence := cu_last_sequence c + int (length es)\<rparr>))"
proof -
  have pos: "0 \<le> cu_last_sequence c" using c(1) by (simp add: cursor_violation_def)
  have "read_events_after (db_stream (dbs k)) run (cu_last_sequence c) (sr_limit rd) (Some (se_org (sr_entitlement rd))) =
      take (sr_limit rd) (drop (nat (cu_last_sequence c)) (seen dbs k run))"
    using read_scoped[OF db_history_ok[OF h] _ pos] history_orgs[OF h] run by simp
  with make_frames_exact[OF c(1) window_sequences[OF db_history_ok[OF h] pos]] c(2) show ?thesis
    by (simp add: read_batch_def Let_def)
qed

subsection \<open>The whole stream\<close>

text \<open>\<open>yielded\<close>: the frames are the next events after the position, as every later state shows them.\<close>

definition yielded :: "stream_reader \<Rightarrow> (nat \<Rightarrow> run_db) \<Rightarrow> string \<Rightarrow> nat \<Rightarrow> stream_frame list \<Rightarrow> bool" where
  "yielded rd dbs run p fs \<longleftrightarrow>
     (\<exists>k. \<forall>j \<ge> k. fs = map (frame_for (sr_destination rd) run) (take (length fs) (drop p (seen dbs j run))))"

lemma yielded_batch:
  assumes "db_history runs dbs"
  shows "yielded rd dbs run p (map (frame_for (sr_destination rd) run) (take m (drop p (seen dbs k run))))"
  unfolding yielded_def
proof (intro exI allI impI)
  fix j
  assume "k \<le> j"
  then obtain zs where "seen dbs j run = seen dbs k run @ zs" using history_prefix[OF assms, of k j run] by (auto simp: prefix_def)
  then show "map (frame_for (sr_destination rd) run) (take m (drop p (seen dbs k run))) =
      map (frame_for (sr_destination rd) run)
        (take (length (map (frame_for (sr_destination rd) run) (take m (drop p (seen dbs k run))))) (drop p (seen dbs j run)))"
    by (simp add: min_def)
qed

lemma yielded_append:
  assumes "yielded rd dbs run p fs" "yielded rd dbs run (p + length fs) gs"
  shows "yielded rd dbs run p (fs @ gs)"
proof -
  let ?f = "map (frame_for (sr_destination rd) run)"
  from assms obtain k1 k2 where k: "\<And>j. j \<ge> k1 \<Longrightarrow> fs = ?f (take (length fs) (drop p (seen dbs j run)))"
    "\<And>j. j \<ge> k2 \<Longrightarrow> gs = ?f (take (length gs) (drop (p + length fs) (seen dbs j run)))"
    unfolding yielded_def by blast
  have "fs @ gs = ?f (take (length (fs @ gs)) (drop p (seen dbs j run)))" if "j \<ge> max k1 k2" for j
  proof -
    have "?f (take (length (fs @ gs)) (drop p (seen dbs j run))) =
        ?f (take (length fs) (drop p (seen dbs j run))) @ ?f (take (length gs) (drop (p + length fs) (seen dbs j run)))"
      by (simp add: take_add add.commute)
    with k[of j] that show ?thesis by simp
  qed
  then show ?thesis unfolding yielded_def by blast
qed

text \<open>One round of the generator: it reads a page, and then ends, or goes on from the end of the page.\<close>

lemma stream_round:
  assumes h: "db_history runs dbs" and run: "runs run = Some (Some (se_org (sr_entitlement rd)))"
    and c: "cursor_violation c = None" "cu_run_id c = run"
    and loop: "stream_loop rd opts dbs woken (Suc n) q w c idle = (fs, e)"
  obtains
    (ended) "take (sr_limit rd) (drop (nat (cu_last_sequence c)) (seen dbs q run)) = []"
      "is_run_terminal rd (dbs (q + 1)) run" "e = Some RunEnded"
      "fs = map (frame_for (sr_destination rd) run)
         (take (sr_limit rd) (drop (nat (cu_last_sequence c)) (seen dbs (q + 2) run)))"
  | (idle) "e = Some StreamIdle"
      "fs = map (frame_for (sr_destination rd) run)
         (take (sr_limit rd) (drop (nat (cu_last_sequence c)) (seen dbs q run)))"
  | (further) es gs c1 q' w' idle' where
      "es = take (sr_limit rd) (drop (nat (cu_last_sequence c)) (seen dbs q run))" "q < q'"
      "c1 = c\<lparr>cu_last_sequence := cu_last_sequence c + int (length es)\<rparr>" "cursor_violation c1 = None"
      "stream_loop rd opts dbs woken n q' w' c1 idle' = (gs, e)" "fs = map (frame_for (sr_destination rd) run) es @ gs"
      "es = [] \<Longrightarrow> so_stop_when_terminal opts \<Longrightarrow> \<not> is_run_terminal rd (dbs (q + 1)) run"
proof -
  define es where "es = take (sr_limit rd) (drop (nat (cu_last_sequence c)) (seen dbs q run))"
  let ?c1 = "c\<lparr>cu_last_sequence := cu_last_sequence c + int (length es)\<rparr>"
  let ?fr = "map (frame_for (sr_destination rd) run) es"
  note batch = read_batch_exact[OF h run c]
  have r: "read_batch rd (dbs q) c = Inr (?fr, ?c1)" by (simp add: batch Let_def es_def)
  have c1: "cursor_violation ?c1 = None" using c(1) by (simp add: cursor_violation_def)
  show ?thesis
  proof (cases "es \<noteq> [] \<and> sr_limit rd \<le> length es")
    case True
    obtain gs e' where g: "stream_loop rd opts dbs woken n (q + 1) w ?c1 0 = (gs, e')"
      by (cases "stream_loop rd opts dbs woken n (q + 1) w ?c1 0")
    have "fs = ?fr @ gs" "e' = e" using loop r g True by (simp_all split: if_splits)
    then show ?thesis using further[OF es_def _ refl c1, of "q + 1" w 0 gs] g True by simp
  next
    case full: False
    show ?thesis
    proof (cases "es = [] \<and> so_stop_when_terminal opts \<and> is_run_terminal rd (dbs (q + 1)) run")
      case True
      have "?c1 = c" using True by simp
      then have r2: "read_batch rd (dbs (q + 2)) ?c1 =
          Inr (map (frame_for (sr_destination rd) run) (take (sr_limit rd) (drop (nat (cu_last_sequence c)) (seen dbs (q + 2) run))),
            c\<lparr>cu_last_sequence := cu_last_sequence c + int (length (take (sr_limit rd) (drop (nat (cu_last_sequence c)) (seen dbs (q + 2) run))))\<rparr>)"
        by (simp only: batch Let_def)
      show ?thesis using loop r r2 True c(2) by (intro ended) (auto simp: es_def[symmetric])
    next
      case False
      define q' where "q' = (if es = [] \<and> so_stop_when_terminal opts then q + 2 else q + 1)"
      define idle1 where "idle1 = (if es \<noteq> [] then 0 else idle)"
      have body: "(fs, e) = (if woken w then (case stream_loop rd opts dbs woken n q' (w + 1) ?c1 idle1 of (fs, e) \<Rightarrow> (?fr @ fs, e))
          else if gave_up opts (idle1 + sr_poll rd) then (?fr, Some StreamIdle)
          else (case stream_loop rd opts dbs woken n q' (w + 1) ?c1 (idle1 + sr_poll rd) of (fs, e) \<Rightarrow> (?fr @ fs, e)))"
        using loop r full False c(2) unfolding q'_def idle1_def
        by (cases "es = []"; cases "woken w"; cases "gave_up opts (idle + sr_poll rd)") (simp_all add: Let_def split: if_splits)
      have q': "q < q'" by (simp add: q'_def)
      have nt: "es = [] \<Longrightarrow> so_stop_when_terminal opts \<Longrightarrow> \<not> is_run_terminal rd (dbs (q + 1)) run" using False by blast
      consider "\<not> woken w \<and> gave_up opts (idle1 + sr_poll rd)"
        | i where "(fs, e) = (case stream_loop rd opts dbs woken n q' (w + 1) ?c1 i of (fs, e) \<Rightarrow> (?fr @ fs, e))"
        using body by (cases "woken w"; cases "gave_up opts (idle1 + sr_poll rd)") auto
      then show ?thesis
      proof cases
        case 1
        with body show ?thesis by (intro idle) (simp_all add: es_def)
      next
        case (2 i)
        obtain gs e' where g: "stream_loop rd opts dbs woken n q' (w + 1) ?c1 i = (gs, e')"
          by (cases "stream_loop rd opts dbs woken n q' (w + 1) ?c1 i")
        with 2 have "fs = ?fr @ gs" "e' = e" by simp_all
        with further[OF es_def q' refl c1, of "w + 1" i gs] g nt show ?thesis by simp
      qed
    qed
  qed
qed

lemma stream_loop_yields:
  assumes h: "db_history runs dbs" and run: "runs run = Some (Some (se_org (sr_entitlement rd)))"
    and c: "cursor_violation c = None" "cu_run_id c = run"
    and loop: "stream_loop rd opts dbs woken n q w c idle = (fs, e)"
  shows "yielded rd dbs run (nat (cu_last_sequence c)) fs \<and> (\<forall>err. e \<noteq> Some (StreamRaised err))"
  using c loop
proof (induction n arbitrary: q w c idle fs)
  case 0
  then show ?case by (simp add: yielded_def)
next
  case (Suc n)
  note pages = yielded_batch[OF h]
  show ?case
  proof (cases rule: stream_round[OF h run Suc.prems, case_names ended idle further])
    case ended
    then show ?thesis using pages by simp
  next
    case idle
    then show ?thesis using pages by simp
  next
    case (further es gs c1 q' w' idle')
    have "cu_run_id c1 = run" using Suc.prems(2) by (simp add: further(3))
    from Suc.IH[OF further(4) this further(5)]
    have gs: "yielded rd dbs run (nat (cu_last_sequence c1)) gs" "\<forall>err. e \<noteq> Some (StreamRaised err)" by simp_all
    have "0 \<le> cu_last_sequence c" using Suc.prems(1) by (simp add: cursor_violation_def)
    then have "nat (cu_last_sequence c1) = nat (cu_last_sequence c) + length (map (frame_for (sr_destination rd) run) es)"
      by (simp add: further(3) nat_add_distrib)
    then have gs': "yielded rd dbs run (nat (cu_last_sequence c) + length (map (frame_for (sr_destination rd) run) es)) gs"
      using gs(1) by simp
    have "yielded rd dbs run (nat (cu_last_sequence c)) (map (frame_for (sr_destination rd) run) es)"
      unfolding further(1) by (rule pages)
    from yielded_append[OF this gs'] gs(2) show ?thesis by (simp add: further(6))
  qed
qed

lemma stream_loop_complete:
  assumes h: "db_history runs dbs" and run: "runs run = Some (Some (se_org (sr_entitlement rd)))"
    and limit: "0 < sr_limit rd"
    and final: "\<And>k j. is_run_terminal rd (dbs k) run \<Longrightarrow> k \<le> j \<Longrightarrow> seen dbs j run = seen dbs k run"
    and arrivals: "\<And>k. length (seen dbs (k + 2) run) \<le> length (seen dbs k run) + sr_limit rd"
    and c: "cursor_violation c = None" "cu_run_id c = run"
    and loop: "stream_loop rd opts dbs woken n q w c idle = (fs, Some RunEnded)"
  shows "length (seen dbs j run) \<le> nat (cu_last_sequence c) + length fs"
  using c loop
proof (induction n arbitrary: q w c idle fs)
  case (Suc n)
  show ?case
  proof (cases rule: stream_round[OF h run Suc.prems, case_names ended idle further])
    case ended
    let ?p = "nat (cu_last_sequence c)"
    have small: "length (seen dbs q run) \<le> ?p" using ended(1) limit by simp
    have stop: "seen dbs (max j (q + 1)) run = seen dbs (q + 2) run"
      using final[OF ended(2), of "max j (q + 1)"] final[OF ended(2), of "q + 2"] by simp
    have "length (seen dbs j run) \<le> length (seen dbs (max j (q + 1)) run)"
      by (rule prefix_length_le[OF history_prefix[OF h]]) simp
    then have j: "length (seen dbs j run) \<le> length (seen dbs (q + 2) run)" by (simp only: stop)
    have "length fs = min (length (seen dbs (q + 2) run) - ?p) (sr_limit rd)" by (simp add: ended(4))
    with j small arrivals[of q] show ?thesis by linarith
  next
    case (further es gs c1 q' w' idle')
    have "cu_run_id c1 = run" using Suc.prems(2) by (simp add: further(3))
    from Suc.IH[OF further(4) this further(5)] have "length (seen dbs j run) \<le> nat (cu_last_sequence c1) + length gs" .
    moreover have "0 \<le> cu_last_sequence c" using Suc.prems(1) by (simp add: cursor_violation_def)
    ultimately show ?thesis by (simp add: further(3,6) nat_add_distrib)
  qed simp
qed simp

lemma stream_loop_ends:
  assumes h: "db_history runs dbs" and run: "runs run = Some (Some (se_org (sr_entitlement rd)))"
    and limit: "0 < sr_limit rd" and stop: "so_stop_when_terminal opts"
    and final: "\<And>k. k0 \<le> k \<Longrightarrow> is_run_terminal rd (dbs k) run \<and> seen dbs k run = seen dbs k0 run"
    and c: "cursor_violation c = None" "cu_run_id c = run"
    and fuel: "(k0 - q) + (length (seen dbs k0 run) - nat (cu_last_sequence c)) < n"
    and loop: "stream_loop rd opts dbs woken n q w c idle = (fs, e)"
  shows "e \<noteq> None"
  using c fuel loop
proof (induction n arbitrary: q w c idle fs)
  case (Suc n)
  show ?case
  proof (cases rule: stream_round[OF h run Suc.prems(1,2,4), case_names ended idle further])
    case (further es gs c1 q' w' idle')
    have id: "cu_run_id c1 = run" using Suc.prems(2) by (simp add: further(3))
    have pos: "nat (cu_last_sequence c1) = nat (cu_last_sequence c) + length es"
      using Suc.prems(1) by (simp add: further(3) cursor_violation_def nat_add_distrib)
    have "(k0 - q') + (length (seen dbs k0 run) - nat (cu_last_sequence c1)) < n"
    proof (cases "k0 \<le> q")
      case True
      with final[of "q + 1"] further(7) stop have "es \<noteq> []" by auto
      moreover have "es = take (sr_limit rd) (drop (nat (cu_last_sequence c)) (seen dbs k0 run))"
        using final[OF True] by (simp add: further(1))
      ultimately have "0 < length es" "nat (cu_last_sequence c) < length (seen dbs k0 run)" by auto
      with Suc.prems(3) True further(2) pos show ?thesis by linarith
    next
      case False
      with Suc.prems(3) further(2) pos show ?thesis by simp
    qed
    from Suc.IH[OF further(4) id this further(5)] show ?thesis .
  qed simp_all
qed simp

subsection \<open>The properties\<close>

definition resume_position :: "cursor option \<Rightarrow> nat" where
  "resume_position resume = (case resume of None \<Rightarrow> 0 | Some c \<Rightarrow> nat (cu_last_sequence c))"

lemma stream_run_Inr:
  assumes h: "db_history runs dbs" and resume: "\<forall>c. resume = Some c \<longrightarrow> cursor_violation c = None"
    and run: "stream_run rd opts dbs woken n run resume = Inr (fs, e)"
  obtains c where "runs run = Some (Some (se_org (sr_entitlement rd)))" "cursor_violation c = None" "cu_run_id c = run"
    "nat (cu_last_sequence c) = resume_position resume" "stream_loop rd opts dbs woken n 1 0 c 0 = (fs, e)"
proof -
  from run have vis: "visible_run (dbs 0) (se_org (sr_entitlement rd)) run \<noteq> None"
    by (auto simp: stream_run_def open_stream_def authorize_stream_def split: if_splits)
  then have "runs run = Some (Some (se_org (sr_entitlement rd)))" by (simp add: visible_iff[OF h] split: if_splits)
  with run resume show ?thesis
    by (cases resume) (auto simp: stream_run_def open_stream_def authorize_stream_def resume_position_def Let_def
        split: if_splits option.splits intro: that)
qed

text \<open>
  C18: A live stream is the durable stream. A run that does not exist and a run of another tenant are refused
  alike, whatever cursor is presented. Otherwise, however the database grows and the waits end, what has
  been yielded at any moment are the events of the run after the presented cursor, from the next one
  on, in sequence order without gap or repetition, each with the cursor to resume after it; all of
  them are recorded for the caller's organization; and the generator never fails.
\<close>

theorem stream_frames_exact:
  assumes h: "db_history runs dbs" and resume: "\<forall>c. resume = Some c \<longrightarrow> cursor_violation c = None"
  shows "(stream_run rd opts dbs woken n run resume = Inl NotVisible \<longleftrightarrow>
      runs run \<noteq> Some (Some (se_org (sr_entitlement rd)))) \<and>
    (\<forall>fs e. stream_run rd opts dbs woken n run resume = Inr (fs, e) \<longrightarrow>
      (\<exists>k. \<forall>j \<ge> k. fs = map (frame_for (sr_destination rd) run)
          (take (length fs) (drop (resume_position resume) (seen dbs j run)))) \<and>
      map sf_sequence fs = map (\<lambda>i. int (resume_position resume) + 1 + int i) [0..<length fs] \<and>
      (\<forall>f \<in> set fs. \<exists>j ev. f = frame_for (sr_destination rd) run ev \<and>
         (se_org (sr_entitlement rd), ev) \<in> set (st_events (db_stream (dbs j)))) \<and>
      (\<forall>err. e \<noteq> Some (StreamRaised err)))"
proof (intro conjI allI impI)
  show "stream_run rd opts dbs woken n run resume = Inl NotVisible \<longleftrightarrow>
      runs run \<noteq> Some (Some (se_org (sr_entitlement rd)))"
    by (auto simp: stream_run_def open_stream_def authorize_stream_def visible_iff[OF h] Let_def split: option.splits if_splits)
next
  fix fs e
  assume "stream_run rd opts dbs woken n run resume = Inr (fs, e)"
  from stream_run_Inr[OF h resume this] obtain c where c:
    "runs run = Some (Some (se_org (sr_entitlement rd)))" "cursor_violation c = None" "cu_run_id c = run"
    "nat (cu_last_sequence c) = resume_position resume" "stream_loop rd opts dbs woken n 1 0 c 0 = (fs, e)" by blast
  let ?p = "resume_position resume"
  note y = stream_loop_yields[OF h c(1-3,5), unfolded c(4)]
  then obtain k where k: "\<And>j. j \<ge> k \<Longrightarrow> fs = map (frame_for (sr_destination rd) run) (take (length fs) (drop ?p (seen dbs j run)))"
    unfolding yielded_def by blast
  then show "\<exists>k. \<forall>j \<ge> k. fs = map (frame_for (sr_destination rd) run) (take (length fs) (drop ?p (seen dbs j run)))" by blast
  define es where "es = take (length fs) (drop ?p (seen dbs k run))"
  have fs: "fs = map (frame_for (sr_destination rd) run) es" using k[of k] by (simp add: es_def)
  have "map sf_sequence fs = map re_sequence es" unfolding fs by (simp add: frame_for_def)
  also have "\<dots> = map (\<lambda>i. int ?p + 1 + int i) [0..<length es]"
    using window_sequences[OF db_history_ok[OF h, of k], of "int ?p" "length fs" run] by (simp add: es_def)
  finally show "map sf_sequence fs = map (\<lambda>i. int ?p + 1 + int i) [0..<length fs]" by (simp add: fs)
  show "\<forall>f \<in> set fs. \<exists>j ev. f = frame_for (sr_destination rd) run ev \<and>
      (se_org (sr_entitlement rd), ev) \<in> set (st_events (db_stream (dbs j)))"
  proof (intro ballI)
    fix f
    assume f: "f \<in> set fs"
    from f obtain ev where ev: "f = frame_for (sr_destination rd) run ev" "ev \<in> set es" by (auto simp: fs)
    then have "ev \<in> set (seen dbs k run)" using set_take_subset set_drop_subset by (fastforce simp: es_def)
    then obtain o' where o': "(o', ev) \<in> set (st_events (db_stream (dbs k)))" "re_run_id ev = run" by (auto simp: events_of_def)
    have "o' = se_org (sr_entitlement rd)"
      using events_of_org[OF db_history_ok[OF h] o'(1)] history_orgs[OF h, of k run] c(1) o'(2) by simp
    with ev(1) o'(1) show "\<exists>j ev. f = frame_for (sr_destination rd) run ev \<and>
        (se_org (sr_entitlement rd), ev) \<in> set (st_events (db_stream (dbs j)))" by blast
  qed
  show "e \<noteq> Some (StreamRaised err)" for err using y by blast
qed

text \<open>
  C9: A stream that ends because its run ended has shown everything. When a run that is terminal gets no
  further events, and no more than one page of events is committed during one poll, then a stream
  that stops because the run is terminal has yielded every event of the run after its cursor, the
  one that made the run terminal included; and once the run is terminal the stream stops, after a
  number of rounds that the history bounds.
\<close>

theorem stream_complete:
  assumes h: "db_history runs dbs" and resume: "\<forall>c. resume = Some c \<longrightarrow> cursor_violation c = None"
    and limit: "0 < sr_limit rd" and stop: "so_stop_when_terminal opts"
    and final: "\<And>k j. is_run_terminal rd (dbs k) run \<Longrightarrow> k \<le> j \<Longrightarrow>
      seen dbs j run = seen dbs k run \<and> is_run_terminal rd (dbs j) run"
    and arrivals: "\<And>k. length (seen dbs (k + 2) run) \<le> length (seen dbs k run) + sr_limit rd"
    and run: "stream_run rd opts dbs woken n run resume = Inr (fs, e)"
  shows "(e = Some RunEnded \<longrightarrow> (\<exists>k. \<forall>j \<ge> k. fs = map (frame_for (sr_destination rd) run)
        (drop (resume_position resume) (seen dbs j run)))) \<and>
    (\<forall>k. is_run_terminal rd (dbs k) run \<longrightarrow> k + length (seen dbs k run) < n \<longrightarrow> e \<noteq> None)"
proof -
  from stream_run_Inr[OF h resume run] obtain c where c:
    "runs run = Some (Some (se_org (sr_entitlement rd)))" "cursor_violation c = None" "cu_run_id c = run"
    "nat (cu_last_sequence c) = resume_position resume" "stream_loop rd opts dbs woken n 1 0 c 0 = (fs, e)" by blast
  let ?p = "resume_position resume"
  from stream_loop_yields[OF h c(1-3,5), unfolded c(4)] obtain k where
    k: "\<And>j. j \<ge> k \<Longrightarrow> fs = map (frame_for (sr_destination rd) run) (take (length fs) (drop ?p (seen dbs j run)))"
    unfolding yielded_def by blast
  have "fs = map (frame_for (sr_destination rd) run) (drop ?p (seen dbs j run))" if "e = Some RunEnded" "k \<le> j" for j
  proof -
    have "stream_loop rd opts dbs woken n 1 0 c 0 = (fs, Some RunEnded)" using c(5) that(1) by simp
    from stream_loop_complete[OF h c(1) limit _ arrivals c(2,3) this, of j] final
    have "length (seen dbs j run) \<le> ?p + length fs" unfolding c(4) by blast
    then have all: "take (length fs) (drop ?p (seen dbs j run)) = drop ?p (seen dbs j run)" by simp
    from k[OF that(2)] show ?thesis unfolding all .
  qed
  moreover have "e \<noteq> None" if "is_run_terminal rd (dbs m) run" "m + length (seen dbs m run) < n" for m
  proof (rule stream_loop_ends[OF h c(1) limit stop _ c(2,3) _ c(5), of m])
    show "is_run_terminal rd (dbs i) run \<and> seen dbs i run = seen dbs m run" if "m \<le> i" for i
      using final[OF \<open>is_run_terminal rd (dbs m) run\<close> that] by blast
    show "m - 1 + (length (seen dbs m run) - nat (cu_last_sequence c)) < n" using that(2) by simp
  qed
  ultimately show ?thesis by blast
qed

end
