(* ===== verification/Run_Stream_Examples.thy ===== *)
theory Run_Stream_Examples
  imports Run_Stream_Props
begin

text \<open>The subscriptions of the hub, a page that is cut off, and the properties at a concrete stream.\<close>

subsection \<open>Subscriptions\<close>

definition hub_ok :: "stream_hub \<Rightarrow> bool" where
  "hub_ok h \<longleftrightarrow> distinct (map fst (hb_waiters h)) \<and> [] \<notin> snd ` set (hb_waiters h)"

lemma update_new: "k \<notin> fst ` set al \<Longrightarrow> AList.update k v al = al @ [(k, v)]"
  by (induction al) auto

lemma delete_new: "k \<notin> fst ` set al \<Longrightarrow> AList.delete k (al @ [(k, v)]) = al"
  by (induction al) (auto simp: AList.delete_eq)

lemma update_back: "distinct (map fst al) \<Longrightarrow> map_of al k = Some v \<Longrightarrow> AList.update k v al = al"
  by (induction al) (auto dest: map_of_SomeD)

lemma waiters_enter:
  "waiters_of (enter_subscription h org run i) o' r' =
     (if (o', r') = (org, run) then List.insert i (waiters_of h org run) else waiters_of h o' r')"
  by (auto simp: waiters_of_def enter_subscription_def AList.update_conv')

text \<open>
  A subscription wakes its own subscriber and leaves nothing behind. Between entering and leaving, a
  notification of a run in an organization wakes exactly the waiters of this pair, and the new
  waiter if it is its pair; leaving restores the hub as it was, without an empty entry.
\<close>

theorem subscription_leaves_no_trace:
  assumes ok: "hub_ok h" and fresh: "i \<notin> set (waiters_of h org run)"
  shows "leave_subscription (enter_subscription h org run i) org run i = h \<and>
    hub_ok (enter_subscription h org run i) \<and>
    notify (enter_subscription h org run i) o' r' =
      (if (o', r') = (org, run) then
         (Suc (fst (notify h org run)),
          (enter_subscription h org run i)\<lparr>hb_set := insert i (hb_set (snd (notify h org run)))\<rparr>)
       else (fst (notify h o' r'), (enter_subscription h org run i)\<lparr>hb_set := hb_set (snd (notify h o' r'))\<rparr>))"
proof (intro conjI)
  let ?k = "(org, run)"
  have dist: "distinct (map fst (hb_waiters h))" and ne: "[] \<notin> snd ` set (hb_waiters h)" using ok by (auto simp: hub_ok_def)
  have ins: "List.insert i (waiters_of h org run) = i # waiters_of h org run" using fresh by simp
  show "leave_subscription (enter_subscription h org run i) org run i = h"
  proof (cases "map_of (hb_waiters h) ?k")
    case None
    then have k: "?k \<notin> fst ` set (hb_waiters h)" by (simp add: map_of_eq_None_iff)
    with None show ?thesis
      by (simp add: leave_subscription_def enter_subscription_def AList.update_conv' waiters_of_def update_new delete_new map_add_def)
  next
    case (Some ws)
    then have "ws \<noteq> []" using ne by (force dest: map_of_SomeD)
    moreover have "removeAll i ws = ws" using fresh Some by (simp add: waiters_of_def)
    ultimately show ?thesis using Some fresh
      by (simp add: leave_subscription_def enter_subscription_def AList.update_conv' waiters_of_def update_back[OF dist Some])
  qed
  show "hub_ok (enter_subscription h org run i)"
  proof -
    have "snd ` set (AList.update ?k v al) \<subseteq> insert v (snd ` set al)" for v and al :: "((string \<times> string) \<times> nat list) list"
      by (induction al) auto
    then show ?thesis using dist ne ins
      by (auto simp: hub_ok_def enter_subscription_def AList.distinct_update)
  qed
  show "notify (enter_subscription h org run i) o' r' =
      (if (o', r') = (org, run) then
         (Suc (fst (notify h org run)),
          (enter_subscription h org run i)\<lparr>hb_set := insert i (hb_set (snd (notify h org run)))\<rparr>)
       else (fst (notify h o' r'), (enter_subscription h org run i)\<lparr>hb_set := hb_set (snd (notify h o' r'))\<rparr>))"
    by (auto simp: notify_def waiters_enter ins) (simp_all add: enter_subscription_def)
qed

theorem subscription_leaves_no_trace_witness:
  "leave_subscription (enter_subscription empty_hub ''o'' ''r'' 7) ''o'' ''r'' 7 = empty_hub"
  using subscription_leaves_no_trace[of empty_hub 7 "''o''" "''r''"]
  by (simp add: hub_ok_def empty_hub_def waiters_of_def)

subsection \<open>A run that ends between two queries\<close>

definition live_runs :: "string \<rightharpoonup> string option" where "live_runs = [''r'' \<mapsto> Some ''o'']"

text \<open>Two events, the terminal one among them, are committed after query 1.\<close>

definition live_dbs :: "nat \<Rightarrow> run_db" where
  "live_dbs k = (if k \<le> 1 then \<lparr>db_stream = empty_stream live_runs, db_status = (\<lambda>r. RunRunning)\<rparr>
     else \<lparr>db_stream = example_stream, db_status = (\<lambda>r. RunSucceeded)\<rparr>)"

definition live_reader :: "nat \<Rightarrow> stream_reader" where
  "live_reader limit = \<lparr>sr_entitlement = \<lparr>se_org = ''o'', se_user = None\<rparr>, sr_destination = ''sse'', sr_poll = 1,
     sr_limit = limit\<rparr>"

definition live_options :: stream_options where
  "live_options = \<lparr>so_stop_when_terminal = True, so_max_idle = None\<rparr>"

lemma live_history: "db_history live_runs live_dbs"
proof -
  have commit: "\<exists>ops. example_stream = append_all (empty_stream live_runs) ops"
    unfolding example_stream_def live_runs_def by (rule exI) (rule refl)
  have "\<exists>ops. db_stream (live_dbs (Suc k)) = append_all (db_stream (live_dbs k)) ops" for k
  proof (cases "k = 1")
    case True
    with commit show ?thesis by (simp add: live_dbs_def)
  next
    case False
    then show ?thesis by (intro exI[of _ "[]"]) (simp add: live_dbs_def)
  qed
  moreover have "db_stream (live_dbs 0) = append_all (empty_stream live_runs) []" by (simp add: live_dbs_def)
  ultimately show ?thesis unfolding db_history_def by blast
qed

lemma live_events: "seen live_dbs k ''r'' = (if k \<le> 1 then [] else events_of example_stream ''r'')"
  by (simp add: live_dbs_def events_of_def empty_stream_def)

lemma example_ids: "map re_id (events_of example_stream ''r'') = [''e1'', ''e4'']" by code_simp

lemma example_count: "length (events_of example_stream ''r'') = 2"
  using arg_cong[OF example_ids, of length] by simp

lemma live_terminal: "is_run_terminal (live_reader limit) (live_dbs k) ''r'' \<longleftrightarrow> 2 \<le> k"
  using visible_iff[OF live_history, of k "''o''" "''r''"]
  by (auto simp: is_run_terminal_def live_reader_def live_runs_def terminal_run_statuses_def live_dbs_def)

text \<open>
  The last page can cut a stream short. With a page of one event, when two events are committed
  between a read and the check that finds the run terminal, the stream reads one more page, yields the first of
  them and ends because the run is terminal: the terminal event is never delivered.
\<close>

theorem final_page_cut_off:
  "\<exists>f. stream_run (live_reader 1) live_options live_dbs (\<lambda>w. False) 3 ''r'' None = Inr ([f], Some RunEnded) \<and>
     sf_event_id f = ''e1'' \<and> map re_id (seen live_dbs 3 ''r'') = [''e1'', ''e4'']"
proof -
  have "map_sum id (\<lambda>(fs, e). (map sf_event_id fs, e))
      (stream_run (live_reader 1) live_options live_dbs (\<lambda>w. False) 3 ''r'' None) = Inr ([''e1''], Some RunEnded)"
    by code_simp
  then show ?thesis
    by (cases "stream_run (live_reader 1) live_options live_dbs (\<lambda>w. False) 3 ''r'' None")
      (auto simp: live_events example_ids)
qed

lemma live_stream_ends:
  "\<exists>fs. stream_run (live_reader 2) live_options live_dbs (\<lambda>w. False) 5 ''r'' None = Inr (fs, Some RunEnded)"
proof -
  have "map_sum id (\<lambda>(fs, e). (map sf_event_id fs, e))
      (stream_run (live_reader 2) live_options live_dbs (\<lambda>w. False) 5 ''r'' None) = Inr ([''e1'', ''e4''], Some RunEnded)"
    by code_simp
  then show ?thesis
    by (cases "stream_run (live_reader 2) live_options live_dbs (\<lambda>w. False) 5 ''r'' None") auto
qed

theorem stream_complete_witness:
  "\<exists>fs. stream_run (live_reader 2) live_options live_dbs (\<lambda>w. False) 5 ''r'' None = Inr (fs, Some RunEnded) \<and>
     map sf_event_id fs = [''e1'', ''e4'']"
proof -
  obtain fs where fs: "stream_run (live_reader 2) live_options live_dbs (\<lambda>w. False) 5 ''r'' None = Inr (fs, Some RunEnded)"
    using live_stream_ends by blast
  have none: "\<forall>c. None = Some c \<longrightarrow> cursor_violation c = None" by simp
  have limit: "0 < sr_limit (live_reader 2)" by (simp add: live_reader_def)
  have stop: "so_stop_when_terminal live_options" by (simp add: live_options_def)
  have final: "seen live_dbs j ''r'' = seen live_dbs k ''r'' \<and> is_run_terminal (live_reader 2) (live_dbs j) ''r''"
    if "is_run_terminal (live_reader 2) (live_dbs k) ''r''" "k \<le> j" for k j
    using that by (simp add: live_terminal live_events)
  have arrivals: "length (seen live_dbs (k + 2) ''r'') \<le> length (seen live_dbs k ''r'') + sr_limit (live_reader 2)" for k
    by (simp add: live_events example_count live_reader_def)
  have "\<exists>k. \<forall>j \<ge> k. fs = map (frame_for (sr_destination (live_reader 2)) ''r'')
      (drop (resume_position None) (seen live_dbs j ''r''))"
    using stream_complete[OF live_history none limit stop final arrivals fs] by blast
  then obtain k where "\<And>j. j \<ge> k \<Longrightarrow> fs = map (frame_for (sr_destination (live_reader 2)) ''r'')
      (drop (resume_position None) (seen live_dbs j ''r''))" by blast
  from this[of "k + 2"] have "map sf_event_id fs = map re_id (events_of example_stream ''r'')"
    by (simp add: live_events resume_position_def frame_for_def comp_def)
  with fs example_ids show ?thesis by simp
qed

theorem stream_frames_exact_witness:
  "stream_run (live_reader 2) live_options live_dbs (\<lambda>w. False) 5 ''x'' None = Inl NotVisible \<and>
   (\<exists>fs. stream_run (live_reader 2) live_options live_dbs (\<lambda>w. False) 5 ''r'' None = Inr (fs, Some RunEnded) \<and>
     map sf_sequence fs = [1..int (length fs)])"
proof -
  have none: "\<forall>c. None = Some c \<longrightarrow> cursor_violation c = None" by simp
  note exact = stream_frames_exact[OF live_history none]
  have "stream_run (live_reader 2) live_options live_dbs (\<lambda>w. False) 5 ''x'' None = Inl NotVisible"
    using exact[of "live_reader 2" live_options "\<lambda>w. False" 5 "''x''"] by (simp add: live_runs_def)
  moreover obtain fs where fs: "stream_run (live_reader 2) live_options live_dbs (\<lambda>w. False) 5 ''r'' None = Inr (fs, Some RunEnded)"
    using live_stream_ends by blast
  have "map sf_sequence fs = map (\<lambda>i. int (resume_position None) + 1 + int i) [0..<length fs]"
    using exact[of "live_reader 2" live_options "\<lambda>w. False" 5 "''r''"] fs by blast
  then have "map sf_sequence fs = [1..int (length fs)]"
    by (intro nth_equalityI) (simp_all add: resume_position_def)
  with fs calculation show ?thesis by blast
qed

end
