(* ===== verification/Run_Rows.thy ===== *)
theory Run_Rows
  imports Task_Lifecycle Claim_Resolution
begin

text \<open>
  \<^verbatim>\<open>src/repositories/run_lifecycle_repository.py\<close> over the tables of \<^verbatim>\<open>src/models/db/run_lifecycle.py\<close>: the
  rows of runs, tasks and attempts. Tables are in insertion order, which is that of \<open>created_at\<close>; a
  row that breaks a unique constraint, a foreign key or a check is \<open>LifeRowRejected\<close>. An operation
  that raises leaves no trace. \<open>U\<close> is the parser of UUIDs.
\<close>

subsection \<open>Rows and tables\<close>

record 's life_columns =
  lw_status :: 's
  lw_started_at :: "instant option"
  lw_completed_at :: "instant option"
  lw_status_reason :: "string option"
  lw_cancel_at :: "instant option"
  lw_cancel_reason :: "string option"

record run_row =
  rn_id :: string
  rn_tenant_id :: string
  rn_org :: string
  rn_workflow :: "string \<times> string"
  rn_policy :: "string \<times> string"
  rn_key :: string
  rn_requested_by :: string
  rn_life :: "run_status life_columns"

record task_row =
  tk_id :: string
  tk_run_id :: string
  tk_org :: string
  tk_key :: string
  tk_type :: string
  tk_objective :: string
  tk_idempotency_key :: string
  tk_dependency_ids :: "string list"
  tk_worker :: "string option"
  tk_input :: pyval
  tk_life :: "task_status life_columns"

record attempt_row =
  at_id :: string
  at_task_id :: string
  at_run_id :: string
  at_org :: string
  at_ordinal :: int
  at_key :: string
  at_executor :: "string option"
  at_journal :: "pyval option"
  at_life :: "attempt_status life_columns"

record life_tables =
  lt_runs :: "run_row list"
  lt_tasks :: "task_row list"
  lt_attempts :: "attempt_row list"

datatype life_row_error =
  NoTenantContext record_error | TenantDiffers string | RowAbsent string | RowOfOther string | LifeRowRejected | StatusHasNoValue | NotSerializable

subsection \<open>Tenant scope\<close>

definition context_organization :: "(string \<Rightarrow> string option) \<Rightarrow> string option \<Rightarrow> life_row_error + string" where
  "context_organization U org =
     (case normalize_organization_id U org of Inl e \<Rightarrow> Inl (NoTenantContext e) | Inr u \<Rightarrow> Inr u)"

definition enforce_tenant_identity :: "(string \<Rightarrow> string option) \<Rightarrow> string \<Rightarrow> string \<Rightarrow> life_row_error option" where
  "enforce_tenant_identity U tenant u = (if U tenant = Some u then None else Some (TenantDiffers tenant))"

text \<open>The optional filter of a query.\<close>

definition in_scope :: "(string \<Rightarrow> string option) \<Rightarrow> string option \<Rightarrow> life_row_error + (string \<Rightarrow> bool)" where
  "in_scope U org =
     (if org = None then Inr (\<lambda>u. True) else bind_result (context_organization U org) (\<lambda>u. Inr (\<lambda>v. v = u)))"

text \<open>The columns a transition writes; \<open>status.value\<close> needs an enum member.\<close>

definition columns_of :: "('s, 'm) life_scheme \<Rightarrow> life_row_error + 's life_columns" where
  "columns_of r =
     (case lf_status r of
        Member s \<Rightarrow> Inr \<lparr>lw_status = s, lw_started_at = lf_started_at r, lw_completed_at = lf_completed_at r,
          lw_status_reason = lf_status_reason r, lw_cancel_at = lf_cancel_at r, lw_cancel_reason = lf_cancel_reason r\<rparr>
      | _ \<Rightarrow> Inl StatusHasNoValue)"

text \<open>
  What \<open>json.dumps\<close> accepts for a JSON column: plain mappings and sequences, not the read-only views a frozen
  contract holds. A column is read back as what was written, with lists for tuples.
\<close>

fun json_writable :: "pyval \<Rightarrow> bool"
  and json_writable_items :: "(string \<times> pyval) list \<Rightarrow> bool"
  and json_writable_list :: "pyval list \<Rightarrow> bool" where
  "json_writable (VDict kvs) = json_writable_items kvs"
| "json_writable (VProxy kvs) = False"
| "json_writable (VBytes s) = False"
| "json_writable (VList vs) = json_writable_list vs"
| "json_writable (VTuple vs) = json_writable_list vs"
| "json_writable v = True"
| "json_writable_items [] = True"
| "json_writable_items ((k, v) # kvs) = (json_writable v \<and> json_writable_items kvs)"
| "json_writable_list [] = True"
| "json_writable_list (v # vs) = (json_writable v \<and> json_writable_list vs)"

definition json_column :: "pyval \<Rightarrow> life_row_error + pyval" where
  "json_column v = (if json_writable v then Inr (serialize_value v) else Inl NotSerializable)"

text \<open>\<open>dict(...)\<close> of a mapping: the mapping itself becomes plain, its values stay what they are.\<close>

fun plain_dict :: "pyval \<Rightarrow> pyval" where
  "plain_dict (VProxy kvs) = VDict kvs"
| "plain_dict v = v"

subsection \<open>Runs\<close>

definition find_run :: "life_tables \<Rightarrow> string \<Rightarrow> run_row option" where
  "find_run ts i = find (\<lambda>r. rn_id r = i) (lt_runs ts)"

definition insert_run :: "run_row \<Rightarrow> life_tables \<Rightarrow> life_row_error + life_tables" where
  "insert_run r ts =
     (if list_ex (\<lambda>q. rn_id q = rn_id r \<or> (rn_tenant_id q = rn_tenant_id r \<and> rn_key q = rn_key r)) (lt_runs ts)
      then Inl LifeRowRejected else Inr (ts\<lparr>lt_runs := lt_runs ts @ [r]\<rparr>))"

definition create_run :: "(string \<Rightarrow> string option) \<Rightarrow> run \<Rightarrow> string option \<Rightarrow> life_tables \<Rightarrow> life_row_error + life_tables" where
  "create_run U r org ts =
     bind_result (context_organization U org) (\<lambda>u.
     case enforce_tenant_identity U (run_tenant_id r) u of Some e \<Rightarrow> Inl e | None \<Rightarrow>
     bind_result (columns_of r) (\<lambda>life.
       insert_run \<lparr>rn_id = run_id r, rn_tenant_id = run_tenant_id r, rn_org = u,
         rn_workflow = (run_workflow_definition_id r, run_workflow_definition_version r),
         rn_policy = (run_routing_policy_id r, run_routing_policy_version r), rn_key = run_idempotency_key r,
         rn_requested_by = run_requested_by r, rn_life = life\<rparr> ts))"

definition record_run_transition :: "(string \<Rightarrow> string option) \<Rightarrow> run \<Rightarrow> string option \<Rightarrow> life_tables \<Rightarrow> life_row_error + life_tables" where
  "record_run_transition U r org ts =
     bind_result (context_organization U org) (\<lambda>u.
     case enforce_tenant_identity U (run_tenant_id r) u of Some e \<Rightarrow> Inl e | None \<Rightarrow>
     (case find_run ts (run_id r) of
        None \<Rightarrow> Inl (RowAbsent (run_id r))
      | Some row \<Rightarrow>
          if rn_org row \<noteq> u then Inl (RowOfOther (run_id r))
          else bind_result (columns_of r) (\<lambda>life.
            Inr (ts\<lparr>lt_runs := map (\<lambda>q. if rn_id q = run_id r then q\<lparr>rn_life := life\<rparr> else q) (lt_runs ts)\<rparr>))))"

definition get_run :: "(string \<Rightarrow> string option) \<Rightarrow> string \<Rightarrow> string option \<Rightarrow> life_tables \<Rightarrow> life_row_error + run_row option" where
  "get_run U i org ts =
     bind_result (in_scope U org) (\<lambda>ok. Inr (find (\<lambda>r. rn_id r = i \<and> ok (rn_org r)) (lt_runs ts)))"

definition list_non_terminal_runs :: "(string \<Rightarrow> string option) \<Rightarrow> string option \<Rightarrow> life_tables \<Rightarrow> life_row_error + run_row list" where
  "list_non_terminal_runs U org ts =
     bind_result (in_scope U org) (\<lambda>ok. Inr
       (filter (\<lambda>r. lw_status (rn_life r) \<notin> terminal_run_statuses \<and> ok (rn_org r)) (lt_runs ts)))"

subsection \<open>Tasks\<close>

definition find_task :: "life_tables \<Rightarrow> string \<Rightarrow> task_row option" where
  "find_task ts i = find (\<lambda>r. tk_id r = i) (lt_tasks ts)"

definition insert_task :: "task_row \<Rightarrow> life_tables \<Rightarrow> life_row_error + life_tables" where
  "insert_task r ts =
     (if list_ex (\<lambda>q. tk_id q = tk_id r \<or>
          (tk_run_id q = tk_run_id r \<and> (tk_idempotency_key q = tk_idempotency_key r \<or> tk_key q = tk_key r))) (lt_tasks ts)
         \<or> find_run ts (tk_run_id r) = None
      then Inl LifeRowRejected else Inr (ts\<lparr>lt_tasks := lt_tasks ts @ [r]\<rparr>))"

definition new_task_row :: "task \<Rightarrow> string \<Rightarrow> pyval \<Rightarrow> task_status life_columns \<Rightarrow> task_row" where
  "new_task_row t org input life =
     \<lparr>tk_id = task_id t, tk_run_id = task_run_id t, tk_org = org, tk_key = task_key t, tk_type = task_type t,
      tk_objective = task_objective t, tk_idempotency_key = task_idempotency_key t,
      tk_dependency_ids = task_dependency_ids t, tk_worker = task_assigned_worker_type t, tk_input = input,
      tk_life = life\<rparr>"

definition create_task :: "(string \<Rightarrow> string option) \<Rightarrow> task \<Rightarrow> string option \<Rightarrow> life_tables \<Rightarrow> life_row_error + life_tables" where
  "create_task U t org ts =
     bind_result (context_organization U org) (\<lambda>u.
     case find_run ts (task_run_id t) of
       None \<Rightarrow> Inl (RowAbsent (task_run_id t))
     | Some parent \<Rightarrow>
         if rn_org parent \<noteq> u then Inl (RowOfOther (task_run_id t))
         else bind_result (columns_of t) (\<lambda>life.
           bind_result (json_column (plain_dict (task_input t))) (\<lambda>input.
           insert_task (new_task_row t (rn_org parent) input life) ts)))"

definition record_task_transition :: "(string \<Rightarrow> string option) \<Rightarrow> task \<Rightarrow> string option \<Rightarrow> life_tables \<Rightarrow> life_row_error + life_tables" where
  "record_task_transition U t org ts =
     bind_result (context_organization U org) (\<lambda>u.
     case find_task ts (task_id t) of
       None \<Rightarrow> Inl (RowAbsent (task_id t))
     | Some row \<Rightarrow>
         if tk_org row \<noteq> u then Inl (RowOfOther (task_id t))
         else bind_result (columns_of t) (\<lambda>life.
           Inr (ts\<lparr>lt_tasks := map (\<lambda>q. if tk_id q = task_id t then q\<lparr>tk_life := life\<rparr> else q) (lt_tasks ts)\<rparr>)))"

definition get_tasks_for_run :: "(string \<Rightarrow> string option) \<Rightarrow> string \<Rightarrow> string option \<Rightarrow> life_tables \<Rightarrow> life_row_error + task_row list" where
  "get_tasks_for_run U run org ts =
     bind_result (in_scope U org) (\<lambda>ok. Inr (filter (\<lambda>r. tk_run_id r = run \<and> ok (tk_org r)) (lt_tasks ts)))"

subsection \<open>Attempts\<close>

definition find_attempt :: "life_tables \<Rightarrow> string \<Rightarrow> attempt_row option" where
  "find_attempt ts i = find (\<lambda>r. at_id r = i) (lt_attempts ts)"

definition insert_attempt :: "attempt_row \<Rightarrow> life_tables \<Rightarrow> life_row_error + life_tables" where
  "insert_attempt r ts =
     (if list_ex (\<lambda>q. at_id q = at_id r \<or>
          (at_task_id q = at_task_id r \<and> (at_key q = at_key r \<or> at_ordinal q = at_ordinal r))) (lt_attempts ts)
         \<or> find_run ts (at_run_id r) = None \<or> find_task ts (at_task_id r) = None \<or> at_ordinal r < 1
      then Inl LifeRowRejected else Inr (ts\<lparr>lt_attempts := lt_attempts ts @ [r]\<rparr>))"

definition new_attempt_row :: "attempt \<Rightarrow> string \<Rightarrow> string \<Rightarrow> attempt_status life_columns \<Rightarrow> attempt_row" where
  "new_attempt_row a run org life =
     \<lparr>at_id = attempt_id a, at_task_id = attempt_task_id a, at_run_id = run, at_org = org,
      at_ordinal = attempt_ordinal a, at_key = attempt_idempotency_key a, at_executor = attempt_executor_id a,
      at_journal = None, at_life = life\<rparr>"

definition create_attempt :: "(string \<Rightarrow> string option) \<Rightarrow> attempt \<Rightarrow> string \<Rightarrow> string option \<Rightarrow> life_tables \<Rightarrow> life_row_error + life_tables" where
  "create_attempt U a run org ts =
     bind_result (context_organization U org) (\<lambda>u.
     case find_run ts run of
       None \<Rightarrow> Inl (RowAbsent run)
     | Some parent \<Rightarrow>
         if rn_org parent \<noteq> u then Inl (RowOfOther run)
         else bind_result (columns_of a) (\<lambda>life.
           insert_attempt (new_attempt_row a run (rn_org parent) life) ts))"

text \<open>The guard the two updates of an attempt share.\<close>

definition own_attempt :: "(string \<Rightarrow> string option) \<Rightarrow> string \<Rightarrow> string option \<Rightarrow> life_tables \<Rightarrow> life_row_error + attempt_row" where
  "own_attempt U i org ts =
     bind_result (context_organization U org) (\<lambda>u.
     case find_attempt ts i of
       None \<Rightarrow> Inl (RowAbsent i)
     | Some row \<Rightarrow> if at_org row \<noteq> u then Inl (RowOfOther i) else Inr row)"

definition record_attempt_transition :: "(string \<Rightarrow> string option) \<Rightarrow> attempt \<Rightarrow> string option \<Rightarrow> life_tables \<Rightarrow> life_row_error + life_tables" where
  "record_attempt_transition U a org ts =
     bind_result (own_attempt U (attempt_id a) org ts) (\<lambda>row.
     bind_result (columns_of a) (\<lambda>life.
       Inr (ts\<lparr>lt_attempts := map (\<lambda>q. if at_id q = attempt_id a then q\<lparr>at_life := life\<rparr> else q) (lt_attempts ts)\<rparr>)))"

definition write_journaled_result :: "(string \<Rightarrow> string option) \<Rightarrow> string \<Rightarrow> string option \<Rightarrow> pyval \<Rightarrow> life_tables \<Rightarrow> life_row_error + life_tables" where
  "write_journaled_result U i org result ts =
     bind_result (own_attempt U i org ts) (\<lambda>row.
     bind_result (json_column result) (\<lambda>written.
       Inr (ts\<lparr>lt_attempts := map (\<lambda>q. if at_id q = i then q\<lparr>at_journal := Some written\<rparr> else q) (lt_attempts ts)\<rparr>)))"

definition get_attempts_for_task :: "(string \<Rightarrow> string option) \<Rightarrow> string \<Rightarrow> string option \<Rightarrow> life_tables \<Rightarrow> life_row_error + attempt_row list" where
  "get_attempts_for_task U task org ts =
     bind_result (in_scope U org) (\<lambda>ok. Inr
       (sort_key at_ordinal (filter (\<lambda>r. at_task_id r = task \<and> ok (at_org r)) (lt_attempts ts))))"

end
