(* ===== verification/Run_Rows_Props.thy ===== *)
theory Run_Rows_Props
  imports Run_Rows
begin

text \<open>What the durable record of runs, tasks and attempts guarantees, and what it leaves to its callers.\<close>

subsection \<open>Histories\<close>

datatype life_op =
  CreateRun run | RecordRun run | CreateTask task | RecordTask task
| CreateAttempt attempt string | RecordAttempt attempt | Journal string pyval

fun apply_op :: "(string \<Rightarrow> string option) \<Rightarrow> string option \<Rightarrow> life_op \<Rightarrow> life_tables \<Rightarrow> life_row_error + life_tables" where
  "apply_op U org (CreateRun r) ts = create_run U r org ts"
| "apply_op U org (RecordRun r) ts = record_run_transition U r org ts"
| "apply_op U org (CreateTask t) ts = create_task U t org ts"
| "apply_op U org (RecordTask t) ts = record_task_transition U t org ts"
| "apply_op U org (CreateAttempt a run) ts = create_attempt U a run org ts"
| "apply_op U org (RecordAttempt a) ts = record_attempt_transition U a org ts"
| "apply_op U org (Journal i result) ts = write_journaled_result U i org result ts"

text \<open>An operation that raises is rolled back.\<close>

fun life_history :: "(string \<Rightarrow> string option) \<Rightarrow> (string option \<times> life_op) list \<Rightarrow> life_tables \<Rightarrow> life_tables" where
  "life_history U [] ts = ts"
| "life_history U ((org, op) # ops) ts =
     (case apply_op U org op ts of Inl e \<Rightarrow> life_history U ops ts | Inr ts' \<Rightarrow> life_history U ops ts')"

definition empty_tables :: life_tables where
  "empty_tables = \<lparr>lt_runs = [], lt_tasks = [], lt_attempts = []\<rparr>"

text \<open>
  Keys are unique; a run is filed under the organization its tenant names, a task under that of its run,
  an attempt under that of its run, and their parents exist.
\<close>

definition life_rows_ok :: "(string \<Rightarrow> string option) \<Rightarrow> life_tables \<Rightarrow> bool" where
  "life_rows_ok U ts \<longleftrightarrow>
     distinct (map rn_id (lt_runs ts)) \<and> distinct (map (\<lambda>r. (rn_tenant_id r, rn_key r)) (lt_runs ts)) \<and>
     distinct (map tk_id (lt_tasks ts)) \<and> distinct (map (\<lambda>t. (tk_run_id t, tk_key t)) (lt_tasks ts)) \<and>
     distinct (map at_id (lt_attempts ts)) \<and> distinct (map (\<lambda>a. (at_task_id a, at_ordinal a)) (lt_attempts ts)) \<and>
     (\<forall>r \<in> set (lt_runs ts). U (rn_tenant_id r) = Some (rn_org r)) \<and>
     (\<forall>t \<in> set (lt_tasks ts). \<exists>r \<in> set (lt_runs ts). rn_id r = tk_run_id t \<and> tk_org t = rn_org r) \<and>
     (\<forall>a \<in> set (lt_attempts ts). 1 \<le> at_ordinal a \<and> (\<exists>r \<in> set (lt_runs ts). rn_id r = at_run_id a \<and> at_org a = rn_org r) \<and>
        (\<exists>t \<in> set (lt_tasks ts). tk_id t = at_task_id a))"

text \<open>What a row keeps for ever: everything but the columns a transition writes and the journal.\<close>

definition run_columns :: "run_row \<Rightarrow> string \<times> string \<times> string \<times> (string \<times> string) \<times> (string \<times> string) \<times> string \<times> string" where
  "run_columns r = (rn_id r, rn_tenant_id r, rn_org r, rn_workflow r, rn_policy r, rn_key r, rn_requested_by r)"

definition task_columns where
  "task_columns t = (tk_id t, tk_run_id t, tk_org t, tk_key t, tk_type t, tk_objective t, tk_idempotency_key t,
     tk_dependency_ids t, tk_worker t, tk_input t)"

definition attempt_columns where
  "attempt_columns a = (at_id a, at_task_id a, at_run_id a, at_org a, at_ordinal a, at_key a, at_executor a)"

definition grows :: "life_tables \<Rightarrow> life_tables \<Rightarrow> bool" where
  "grows ts ts' \<longleftrightarrow>
     (\<exists>rs ks as. map run_columns (lt_runs ts') = map run_columns (lt_runs ts) @ rs \<and>
        map task_columns (lt_tasks ts') = map task_columns (lt_tasks ts) @ ks \<and>
        map attempt_columns (lt_attempts ts') = map attempt_columns (lt_attempts ts) @ as)"

text \<open>The rows of the other organizations.\<close>

definition others :: "string \<Rightarrow> life_tables \<Rightarrow> run_row list \<times> task_row list \<times> attempt_row list" where
  "others u ts = (filter (\<lambda>r. rn_org r \<noteq> u) (lt_runs ts), filter (\<lambda>t. tk_org t \<noteq> u) (lt_tasks ts),
     filter (\<lambda>a. at_org a \<noteq> u) (lt_attempts ts))"

subsection \<open>One operation\<close>

lemma find_row: "find P xs = Some x \<Longrightarrow> x \<in> set xs \<and> P x"
  by (auto simp: find_Some_iff)

lemmas life_find = find_run_def find_task_def find_attempt_def

lemmas life_ops = create_run_def record_run_transition_def create_task_def record_task_transition_def
  create_attempt_def record_attempt_transition_def write_journaled_result_def own_attempt_def insert_run_def
  insert_task_def insert_attempt_def

lemma context_Inr: "context_organization U org = Inr u \<longleftrightarrow> (\<exists>t. org = Some t \<and> U t = Some u)"
  by (auto simp: context_organization_def normalize_organization_id_def split: option.splits)

lemma enforce_None [simp]: "enforce_tenant_identity U tenant u = None \<longleftrightarrow> U tenant = Some u"
  by (simp add: enforce_tenant_identity_def)

lemma columns_of_Inr: "columns_of r = Inr life \<Longrightarrow> lf_status r = Member (lw_status life)"
  by (auto simp: columns_of_def split: status_val.splits)

text \<open>Every operation is an insertion of one row or an update of the rows with one identifier.\<close>

lemma apply_op_cases:
  assumes "apply_op U org op ts = Inr ts'"
  obtains
    (run) u r where "context_organization U org = Inr u" "ts' = ts\<lparr>lt_runs := lt_runs ts @ [r]\<rparr>" "rn_org r = u"
      "U (rn_tenant_id r) = Some u" "\<forall>q \<in> set (lt_runs ts). rn_id q \<noteq> rn_id r \<and> (rn_tenant_id q, rn_key q) \<noteq> (rn_tenant_id r, rn_key r)"
  | (run_life) u i life where "context_organization U org = Inr u"
      "ts' = ts\<lparr>lt_runs := map (\<lambda>q. if rn_id q = i then q\<lparr>rn_life := life\<rparr> else q) (lt_runs ts)\<rparr>"
      "\<exists>r \<in> set (lt_runs ts). rn_id r = i \<and> rn_org r = u"
  | (task) u t where "context_organization U org = Inr u" "ts' = ts\<lparr>lt_tasks := lt_tasks ts @ [t]\<rparr>"
      "\<exists>r \<in> set (lt_runs ts). rn_id r = tk_run_id t \<and> tk_org t = rn_org r \<and> rn_org r = u"
      "\<forall>q \<in> set (lt_tasks ts). tk_id q \<noteq> tk_id t \<and> (tk_run_id q, tk_key q) \<noteq> (tk_run_id t, tk_key t)"
  | (task_life) u i life where "context_organization U org = Inr u"
      "ts' = ts\<lparr>lt_tasks := map (\<lambda>q. if tk_id q = i then q\<lparr>tk_life := life\<rparr> else q) (lt_tasks ts)\<rparr>"
      "\<exists>t \<in> set (lt_tasks ts). tk_id t = i \<and> tk_org t = u"
  | (attempt) u a where "context_organization U org = Inr u" "ts' = ts\<lparr>lt_attempts := lt_attempts ts @ [a]\<rparr>"
      "\<exists>r \<in> set (lt_runs ts). rn_id r = at_run_id a \<and> at_org a = rn_org r \<and> rn_org r = u"
      "\<exists>t \<in> set (lt_tasks ts). tk_id t = at_task_id a" "1 \<le> at_ordinal a"
      "\<forall>q \<in> set (lt_attempts ts). at_id q \<noteq> at_id a \<and> (at_task_id q, at_ordinal q) \<noteq> (at_task_id a, at_ordinal a)"
  | (attempt_life) u i f where "context_organization U org = Inr u"
      "ts' = ts\<lparr>lt_attempts := map (\<lambda>q. if at_id q = i then f q else q) (lt_attempts ts)\<rparr>"
      "\<And>q. attempt_columns (f q) = attempt_columns q" "\<exists>a \<in> set (lt_attempts ts). at_id a = i \<and> at_org a = u"
proof (cases op)
  case (CreateRun r)
  with assms show ?thesis
    by (auto simp: create_run_def insert_run_def list_ex_iff split: option.splits if_splits intro!: run)
next
  case (RecordRun r)
  with assms obtain u life row where "context_organization U org = Inr u" "find_run ts (run_id r) = Some row" "rn_org row = u"
    "ts' = ts\<lparr>lt_runs := map (\<lambda>q. if rn_id q = run_id r then q\<lparr>rn_life := life\<rparr> else q) (lt_runs ts)\<rparr>"
    by (auto simp: record_run_transition_def split: option.splits if_splits)
  then show ?thesis by (intro run_life[of u "run_id r" life]) (auto simp: find_run_def dest!: find_row)
next
  case (CreateTask t)
  with assms obtain u parent input life where c: "context_organization U org = Inr u" "find_run ts (task_run_id t) = Some parent"
    "rn_org parent = u" "insert_task (new_task_row t u input life) ts = Inr ts'"
    by (auto simp: create_task_def split: option.splits if_splits)
  have "\<exists>r \<in> set (lt_runs ts). rn_id r = task_run_id t \<and> rn_org r = u" using c(2,3) by (auto simp: find_run_def dest!: find_row)
  with c(1,4) show ?thesis
    by (intro task[of u "new_task_row t u input life"]) (auto simp: insert_task_def new_task_row_def list_ex_iff split: if_splits)
next
  case (RecordTask t)
  with assms obtain u life row where "context_organization U org = Inr u" "find_task ts (task_id t) = Some row" "tk_org row = u"
    "ts' = ts\<lparr>lt_tasks := map (\<lambda>q. if tk_id q = task_id t then q\<lparr>tk_life := life\<rparr> else q) (lt_tasks ts)\<rparr>"
    by (auto simp: record_task_transition_def split: option.splits if_splits)
  then show ?thesis by (intro task_life[of u "task_id t" life]) (auto simp: find_task_def dest!: find_row)
next
  case (CreateAttempt a r)
  with assms obtain u parent life where c: "context_organization U org = Inr u" "find_run ts r = Some parent"
    "rn_org parent = u" "insert_attempt (new_attempt_row a r u life) ts = Inr ts'"
    by (auto simp: create_attempt_def split: option.splits if_splits)
  have "\<exists>q \<in> set (lt_runs ts). rn_id q = r \<and> rn_org q = u" using c(2,3) by (auto simp: find_run_def dest!: find_row)
  moreover have "\<exists>t \<in> set (lt_tasks ts). tk_id t = attempt_task_id a" using c(4)
    by (auto simp: insert_attempt_def new_attempt_row_def find_task_def dest!: find_row split: if_splits)
  ultimately show ?thesis using c(1,4)
    by (intro attempt[of u "new_attempt_row a r u life"])
      (auto simp: insert_attempt_def new_attempt_row_def list_ex_iff split: if_splits)
next
  case (RecordAttempt a)
  with assms obtain u life row where "context_organization U org = Inr u" "find_attempt ts (attempt_id a) = Some row" "at_org row = u"
    "ts' = ts\<lparr>lt_attempts := map (\<lambda>q. if at_id q = attempt_id a then q\<lparr>at_life := life\<rparr> else q) (lt_attempts ts)\<rparr>"
    by (auto simp: record_attempt_transition_def own_attempt_def split: option.splits if_splits)
  then show ?thesis
    by (intro attempt_life[of u "attempt_id a" "\<lambda>q. q\<lparr>at_life := life\<rparr>"])
      (auto simp: attempt_columns_def find_attempt_def dest!: find_row)
next
  case (Journal i result)
  with assms obtain u row written where "context_organization U org = Inr u" "find_attempt ts i = Some row" "at_org row = u"
    "ts' = ts\<lparr>lt_attempts := map (\<lambda>q. if at_id q = i then q\<lparr>at_journal := Some written\<rparr> else q) (lt_attempts ts)\<rparr>"
    by (auto simp: write_journaled_result_def own_attempt_def split: option.splits if_splits)
  then show ?thesis
    by (intro attempt_life[of u i "\<lambda>q. q\<lparr>at_journal := Some written\<rparr>"])
      (auto simp: attempt_columns_def find_attempt_def dest!: find_row)
qed

subsection \<open>Every operation\<close>

lemma filter_update:
  assumes "distinct (map key xs)" "x \<in> set xs" "key x = i" "\<not> P x" "\<And>q. P (f q) = P q"
  shows "filter P (map (\<lambda>q. if key q = i then f q else q) xs) = filter P xs"
  using assms(1-3)
proof (induction xs)
  case (Cons y ys)
  have other: "map (\<lambda>q. if key q = i then f q else q) ys = ys" if "key y = i"
  proof (rule map_idI)
    fix q
    assume "q \<in> set ys"
    then have "key q \<in> key ` set ys" by simp
    with Cons.prems(1) that have "key q \<noteq> i" by auto
    then show "(if key q = i then f q else q) = q" by simp
  qed
  have here: "\<not> P y" if "key y = i"
  proof -
    have "x \<notin> set ys" using Cons.prems(1,3) that by auto
    with Cons.prems(2) assms(4) show ?thesis by simp
  qed
  show ?case
  proof (cases "key y = i")
    case True
    with other here assms(5) show ?thesis by simp
  next
    case False
    with Cons show ?thesis by auto
  qed
qed simp

lemma map_update: "(\<And>q. g (f q) = g q) \<Longrightarrow> map g (map (\<lambda>q. if P q then f q else q) xs) = map g xs"
  by simp

lemma op_grows:
  assumes "apply_op U org op ts = Inr ts'"
  shows "grows ts ts'"
  using assms
proof (cases rule: apply_op_cases)
  case (run_life u i life)
  have "lt_runs ts' = map (\<lambda>q. if rn_id q = i then q\<lparr>rn_life := life\<rparr> else q) (lt_runs ts)" by (simp add: run_life(2))
  then have "map run_columns (lt_runs ts') = map run_columns (lt_runs ts)"
    by (simp only:) (rule map_update, simp add: run_columns_def)
  moreover have "lt_tasks ts' = lt_tasks ts" "lt_attempts ts' = lt_attempts ts" by (simp_all add: run_life(2))
  ultimately show ?thesis by (metis append_Nil2 grows_def)
next
  case (task_life u i life)
  have "lt_tasks ts' = map (\<lambda>q. if tk_id q = i then q\<lparr>tk_life := life\<rparr> else q) (lt_tasks ts)" by (simp add: task_life(2))
  then have "map task_columns (lt_tasks ts') = map task_columns (lt_tasks ts)"
    by (simp only:) (rule map_update, simp add: task_columns_def)
  moreover have "lt_runs ts' = lt_runs ts" "lt_attempts ts' = lt_attempts ts" by (simp_all add: task_life(2))
  ultimately show ?thesis by (metis append_Nil2 grows_def)
next
  case (attempt_life u i f)
  have "lt_attempts ts' = map (\<lambda>q. if at_id q = i then f q else q) (lt_attempts ts)" by (simp add: attempt_life(2))
  then have "map attempt_columns (lt_attempts ts') = map attempt_columns (lt_attempts ts)"
    by (simp only:) (rule map_update, rule attempt_life(3))
  moreover have "lt_runs ts' = lt_runs ts" "lt_tasks ts' = lt_tasks ts" by (simp_all add: attempt_life(2))
  ultimately show ?thesis by (metis append_Nil2 grows_def)
qed (simp_all add: grows_def)

lemma op_others:
  assumes "apply_op U org op ts = Inr ts'" "life_rows_ok U ts" "context_organization U org = Inr u"
  shows "others u ts' = others u ts"
proof -
  have dist: "distinct (map rn_id (lt_runs ts))" "distinct (map tk_id (lt_tasks ts))" "distinct (map at_id (lt_attempts ts))"
    using assms(2) by (simp_all add: life_rows_ok_def)
  from assms(1) show ?thesis
  proof (cases rule: apply_op_cases)
    case (run_life u' i life)
    then obtain r where r: "r \<in> set (lt_runs ts)" "rn_id r = i" "rn_org r = u" using assms(3) by auto
    have "filter (\<lambda>r. rn_org r \<noteq> u) (map (\<lambda>q. if rn_id q = i then q\<lparr>rn_life := life\<rparr> else q) (lt_runs ts)) =
        filter (\<lambda>r. rn_org r \<noteq> u) (lt_runs ts)"
      by (rule filter_update[OF dist(1) r(1,2)]) (use r(3) in simp_all)
    then show ?thesis by (simp only: others_def run_life(2) life_tables.simps) simp
  next
    case (task_life u' i life)
    then obtain r where r: "r \<in> set (lt_tasks ts)" "tk_id r = i" "tk_org r = u" using assms(3) by auto
    have "filter (\<lambda>r. tk_org r \<noteq> u) (map (\<lambda>q. if tk_id q = i then q\<lparr>tk_life := life\<rparr> else q) (lt_tasks ts)) =
        filter (\<lambda>r. tk_org r \<noteq> u) (lt_tasks ts)"
      by (rule filter_update[OF dist(2) r(1,2)]) (use r(3) in simp_all)
    then show ?thesis by (simp only: others_def task_life(2) life_tables.simps) simp
  next
    case (attempt_life u' i f)
    then obtain r where r: "r \<in> set (lt_attempts ts)" "at_id r = i" "at_org r = u" using assms(3) by auto
    have "at_org (f q) = at_org q" for q using attempt_life(3)[of q] by (simp add: attempt_columns_def)
    then have "filter (\<lambda>r. at_org r \<noteq> u) (map (\<lambda>q. if at_id q = i then f q else q) (lt_attempts ts)) =
        filter (\<lambda>r. at_org r \<noteq> u) (lt_attempts ts)"
      by (intro filter_update[OF dist(3) r(1,2)]) (use r(3) in simp_all)
    then show ?thesis by (simp only: others_def attempt_life(2) life_tables.simps) simp
  qed (use assms(3) in \<open>auto simp: others_def\<close>)
qed

lemma op_ok:
  assumes "apply_op U org op ts = Inr ts'" "life_rows_ok U ts"
  shows "life_rows_ok U ts'"
  using assms(1)
proof (cases rule: apply_op_cases)
  case (run u r)
  with assms(2) show ?thesis by (auto simp: life_rows_ok_def)
next
  case (run_life u i life)
  have "map rn_id (lt_runs ts') = map rn_id (lt_runs ts)"
    "map (\<lambda>r. (rn_tenant_id r, rn_key r)) (lt_runs ts') = map (\<lambda>r. (rn_tenant_id r, rn_key r)) (lt_runs ts)"
    by (auto simp: run_life(2))
  moreover have "map (\<lambda>r. (rn_id r, rn_org r)) (lt_runs ts') = map (\<lambda>r. (rn_id r, rn_org r)) (lt_runs ts)"
    by (auto simp: run_life(2))
  from arg_cong[OF this, of set]
  have "(\<exists>r \<in> set (lt_runs ts'). rn_id r = j \<and> o' = rn_org r) \<longleftrightarrow> (\<exists>r \<in> set (lt_runs ts). rn_id r = j \<and> o' = rn_org r)" for j o'
    by (auto simp: set_eq_iff image_iff) metis+
  moreover have "\<forall>r \<in> set (lt_runs ts'). U (rn_tenant_id r) = Some (rn_org r)"
    using assms(2) by (auto simp: run_life(2) life_rows_ok_def)
  moreover have same: "lt_tasks ts' = lt_tasks ts" "lt_attempts ts' = lt_attempts ts" by (simp_all add: run_life(2))
  ultimately show ?thesis using assms(2) unfolding life_rows_ok_def same by simp
next
  case (task u t)
  with assms(2) show ?thesis by (auto simp: life_rows_ok_def)
next
  case (task_life u i life)
  have "map tk_id (lt_tasks ts') = map tk_id (lt_tasks ts)"
    "map (\<lambda>t. (tk_run_id t, tk_key t)) (lt_tasks ts') = map (\<lambda>t. (tk_run_id t, tk_key t)) (lt_tasks ts)"
    by (auto simp: task_life(2))
  moreover have "\<forall>t \<in> set (lt_tasks ts'). \<exists>r \<in> set (lt_runs ts). rn_id r = tk_run_id t \<and> tk_org t = rn_org r"
    using assms(2) by (auto simp: task_life(2) life_rows_ok_def)
  moreover from arg_cong[OF calculation(1), of set]
  have "(\<exists>t \<in> set (lt_tasks ts'). tk_id t = j) \<longleftrightarrow> (\<exists>t \<in> set (lt_tasks ts). tk_id t = j)" for j
    by (auto simp: set_eq_iff image_iff) metis+
  moreover have same: "lt_runs ts' = lt_runs ts" "lt_attempts ts' = lt_attempts ts" by (simp_all add: task_life(2))
  ultimately show ?thesis using assms(2) unfolding life_rows_ok_def same by simp
next
  case (attempt u a)
  with assms(2) show ?thesis by (auto simp: life_rows_ok_def)
next
  case (attempt_life u i f)
  have f: "at_id (f q) = at_id q" "at_task_id (f q) = at_task_id q" "at_ordinal (f q) = at_ordinal q"
    "at_run_id (f q) = at_run_id q" "at_org (f q) = at_org q" for q
    using attempt_life(3)[of q] by (simp_all add: attempt_columns_def)
  have "map at_id (lt_attempts ts') = map at_id (lt_attempts ts)"
    "map (\<lambda>a. (at_task_id a, at_ordinal a)) (lt_attempts ts') = map (\<lambda>a. (at_task_id a, at_ordinal a)) (lt_attempts ts)"
    by (auto simp: attempt_life(2) f)
  moreover have "\<forall>a \<in> set (lt_attempts ts'). 1 \<le> at_ordinal a \<and>
      (\<exists>r \<in> set (lt_runs ts). rn_id r = at_run_id a \<and> at_org a = rn_org r) \<and> (\<exists>t \<in> set (lt_tasks ts). tk_id t = at_task_id a)"
    using assms(2) by (auto simp: attempt_life(2) f life_rows_ok_def)
  moreover have same: "lt_runs ts' = lt_runs ts" "lt_tasks ts' = lt_tasks ts" by (simp_all add: attempt_life(2))
  ultimately show ?thesis using assms(2) unfolding life_rows_ok_def same by simp
qed

lemma grows_trans: "grows a b \<Longrightarrow> grows b c \<Longrightarrow> grows a c"
  unfolding grows_def by (metis append_assoc)

lemma grows_refl: "grows a a"
  by (simp add: grows_def)

subsection \<open>The properties\<close>

text \<open>
  C10: Tenants never mix in the durable record, and nothing in it is lost. After any history of operations
  under any organizations, failed ones included: keys are unique, a run is filed under the
  organization its tenant names, tasks and attempts under that of their run; every later history
  keeps every row with its identity; and an operation of one organization, whatever it is given,
  leaves every row of every other organization exactly as it was.
\<close>

theorem tenants_never_mix:
  assumes "ts = life_history U ops empty_tables"
  shows "life_rows_ok U ts \<and> (\<forall>more. grows ts (life_history U more ts)) \<and>
    (\<forall>org op u ts'. context_organization U org = Inr u \<longrightarrow> apply_op U org op ts = Inr ts' \<longrightarrow> others u ts' = others u ts)"
proof -
  have ok: "life_rows_ok U (life_history U ops s)" if "life_rows_ok U s" for s
    using that
  proof (induction U ops s rule: life_history.induct)
    case (2 U org op ops s)
    then show ?case by (auto intro: op_ok split: sum.split)
  qed simp
  have grow: "grows s (life_history U more s)" for more s
  proof (induction U more s rule: life_history.induct)
    case (2 U org op ops s)
    then show ?case by (auto intro: grows_trans op_grows split: sum.split)
  qed (simp add: grows_refl)
  have "life_rows_ok U empty_tables" by (simp add: life_rows_ok_def empty_tables_def)
  from ok[OF this] have "life_rows_ok U ts" by (simp add: assms)
  with grow op_others show ?thesis by blast
qed

lemma find_update:
  "(\<And>q. key (f q) = key q) \<Longrightarrow>
   find (\<lambda>q. key q = i) (map (\<lambda>q. if key q = i then f q else q) xs) = map_option f (find (\<lambda>q. key q = i) xs)"
  by (induction xs) auto

text \<open>
  C19: The rows refine the contracts. If the columns of a run's row show the contract a worker holds, and the
  contract takes a transition, then under the run's organization the write succeeds, its row shows
  the new contract with everything else kept, its status moved along one legal edge out of a status that is
  not terminal, and the recovery sweep of all tenants finds the run exactly as long as it is not terminal.
\<close>

theorem recorded_transition_refines:
  assumes row: "find_run ts (run_id r) = Some row" and shows_row: "columns_of r = Inr (rn_life row)"
    and org: "context_organization U org = Inr (rn_org row)" "U (run_tenant_id r) = Some (rn_org row)"
    and step: "run_transition_to r (Member t) at_time why = Inr r'"
  shows "\<exists>ts' row' rs. record_run_transition U r' org ts = Inr ts' \<and> find_run ts' (run_id r) = Some row' \<and>
    columns_of r' = Inr (rn_life row') \<and> run_columns row' = run_columns row \<and>
    lw_status (rn_life row') = t \<and> t \<in> run_transitions (lw_status (rn_life row)) \<and>
    lw_status (rn_life row) \<notin> terminal_run_statuses \<and>
    list_non_terminal_runs U None ts' = Inr rs \<and> (row' \<in> set rs \<longleftrightarrow> t \<notin> terminal_run_statuses)"
proof -
  from step obtain s a w where s: "lf_status r = Member s" "s \<notin> terminal_run_statuses" "t \<in> run_transitions s"
    and r': "run_model_validate (run_apply_updates r t a w) = Inr r'"
    by (auto simp: run_transition_Inr)
  from r' have eq: "r' = (run_apply_updates r t a w)\<lparr>lf_status := Member t\<rparr>"
    by (auto simp: run_model_validate_Inr)
  have id: "run_id r' = run_id r" "run_tenant_id r' = run_tenant_id r" by (simp_all add: eq)
  have st: "lf_status r' = Member t" by (simp add: eq)
  obtain life where life: "columns_of r' = Inr life" "lw_status life = t" using st by (simp add: columns_of_def)
  define ts' where "ts' = ts\<lparr>lt_runs := map (\<lambda>q. if rn_id q = run_id r then q\<lparr>rn_life := life\<rparr> else q) (lt_runs ts)\<rparr>"
  have w: "record_run_transition U r' org ts = Inr ts'"
    using row org life(1) by (simp add: record_run_transition_def id ts'_def)
  have f: "find_run ts' (run_id r) = Some (row\<lparr>rn_life := life\<rparr>)"
    using find_update[of rn_id "\<lambda>q. q\<lparr>rn_life := life\<rparr>" "run_id r" "lt_runs ts"] row by (simp add: find_run_def ts'_def)
  then have mem: "row\<lparr>rn_life := life\<rparr> \<in> set (lt_runs ts')" by (auto simp: find_run_def dest: find_row)
  have old: "lw_status (rn_life row) = s" using columns_of_Inr[OF shows_row] s(1) by simp
  have "list_non_terminal_runs U None ts' = Inr (filter (\<lambda>r. lw_status (rn_life r) \<notin> terminal_run_statuses) (lt_runs ts'))"
    by (simp add: list_non_terminal_runs_def in_scope_def)
  with w f life mem old s show ?thesis
    by (intro exI[of _ ts'] exI[of _ "row\<lparr>rn_life := life\<rparr>"] exI) (auto simp: run_columns_def)
qed

end
