(* ===== verification/Run_Rows_Examples.thy ===== *)
theory Run_Rows_Examples
  imports Run_Rows_Props
begin

text \<open>Concrete histories of the durable record: the properties, a stale write, and a task of another tenant.\<close>

definition life_tenant :: "string option" where "life_tenant = Some ''t''"

definition life_example :: life_tables where
  "life_example = life_history Some [(life_tenant, CreateRun run_example), (life_tenant, CreateTask task_example),
     (life_tenant, CreateAttempt attempt_example ''run-1''), (Some ''x'', RecordRun run_example)] empty_tables"

definition life_stored :: run_row where
  "life_stored = \<lparr>rn_id = ''run-1'', rn_tenant_id = ''t'', rn_org = ''t'', rn_workflow = (''wf'', ''1''), rn_policy = (''rp'', ''1''),
     rn_key = ''k'', rn_requested_by = ''u'', rn_life = \<lparr>lw_status = RunRunning, lw_started_at = Some 20,
     lw_completed_at = None, lw_status_reason = None, lw_cancel_at = None, lw_cancel_reason = None\<rparr>\<rparr>"

lemma life_example_run: "find_run life_example ''run-1'' = Some life_stored" by code_simp

lemma life_example_sizes: "length (lt_tasks life_example) = 1 \<and> length (lt_attempts life_example) = 1" by code_simp

text \<open>The contract of the row, succeeding, and being cancelled.\<close>

definition life_finished :: run where
  "life_finished = (case run_transition_to run_example (Member RunSucceeded) (Aware 40) None of Inr r \<Rightarrow> r | Inl e \<Rightarrow> run_example)"

definition life_cancelling :: run where
  "life_cancelling = (case run_transition_to run_example (Member RunCancelling) (Aware 50) (Some ''stop'') of
     Inr r \<Rightarrow> r | Inl e \<Rightarrow> run_example)"

lemma life_finished: "run_transition_to run_example (Member RunSucceeded) (Aware 40) None = Inr life_finished"
proof -
  have "\<not> isl (run_transition_to run_example (Member RunSucceeded) (Aware 40) None)" by code_simp
  then show ?thesis by (cases "run_transition_to run_example (Member RunSucceeded) (Aware 40) None") (simp_all add: life_finished_def)
qed

lemma life_cancelling: "run_transition_to run_example (Member RunCancelling) (Aware 50) (Some ''stop'') = Inr life_cancelling"
proof -
  have "\<not> isl (run_transition_to run_example (Member RunCancelling) (Aware 50) (Some ''stop''))" by code_simp
  then show ?thesis
    by (cases "run_transition_to run_example (Member RunCancelling) (Aware 50) (Some ''stop'')") (simp_all add: life_cancelling_def)
qed

theorem tenants_never_mix_witness:
  "life_rows_ok Some life_example \<and> length (lt_attempts life_example) = 1"
  using tenants_never_mix[OF life_example_def] life_example_sizes by blast

theorem recorded_transition_refines_witness:
  "\<exists>ts' row'. record_run_transition Some life_finished life_tenant life_example = Inr ts' \<and>
     find_run ts' ''run-1'' = Some row' \<and> lw_status (rn_life row') = RunSucceeded"
proof -
  have id: "run_id run_example = ''run-1''" "run_tenant_id run_example = ''t''" by (simp_all add: run_example_def)
  have c: "columns_of run_example = Inr (rn_life life_stored)"
    by (simp add: columns_of_def run_example_def life_stored_def)
  have o: "context_organization Some life_tenant = Inr (rn_org life_stored)" "Some (run_tenant_id run_example) = Some (rn_org life_stored)"
    by (simp_all add: context_Inr life_tenant_def life_stored_def id)
  show ?thesis
    using recorded_transition_refines[OF life_example_run[folded id(1)] c o life_finished] unfolding id(1) by blast
qed

text \<open>
  A stale contract reopens a finished run. Two workers hold the contract of a running run and each takes a
  legal transition of it, one to succeeded, one to cancelling. Both writes are accepted in
  this order: the row, already succeeded, is cancelling afterwards, a move no contract allows.
\<close>

theorem stale_contract_reopens_run:
  "\<exists>r1 r2 ts1 ts2 row1 row2.
     run_transition_to run_example (Member RunSucceeded) (Aware 40) None = Inr r1 \<and>
     run_transition_to run_example (Member RunCancelling) (Aware 50) (Some ''stop'') = Inr r2 \<and>
     record_run_transition Some r1 life_tenant life_example = Inr ts1 \<and> find_run ts1 ''run-1'' = Some row1 \<and>
     lw_status (rn_life row1) = RunSucceeded \<and>
     record_run_transition Some r2 life_tenant ts1 = Inr ts2 \<and> find_run ts2 ''run-1'' = Some row2 \<and>
     lw_status (rn_life row2) = RunCancelling \<and> RunCancelling \<notin> run_transitions RunSucceeded"
proof -
  let ?one = "record_run_transition Some life_finished life_tenant life_example"
  let ?two = "bind_result ?one (record_run_transition Some life_cancelling life_tenant)"
  let ?status = "\<lambda>x. map_sum id (\<lambda>ts. map_option (lw_status \<circ> rn_life) (find_run ts ''run-1'')) x"
  have "?status ?one = Inr (Some RunSucceeded)" "?status ?two = Inr (Some RunCancelling)" by code_simp+
  moreover from this obtain ts1 where "?one = Inr ts1" by (cases ?one) auto
  moreover from calculation obtain ts2 where "record_run_transition Some life_cancelling life_tenant ts1 = Inr ts2"
    by (cases "record_run_transition Some life_cancelling life_tenant ts1") auto
  ultimately show ?thesis using life_finished life_cancelling by auto
qed

text \<open>
  A task whose input has a nested mapping cannot be stored: the contract freezes nested mappings, and
  \<open>dict(task.input)\<close> makes only the outermost one plain again.
\<close>

theorem nested_input_unstorable:
  assumes "task_input t = VProxy kvs" "(k, VProxy inner) \<in> set kvs"
  shows "\<exists>e. create_task U t org ts = Inl e"
proof -
  have "\<not> json_writable_items kvs" using assms(2) by (induction kvs) auto
  then have "json_column (plain_dict (task_input t)) = Inl NotSerializable" by (simp add: json_column_def assms(1))
  then show ?thesis
    by (cases "context_organization U org"; cases "columns_of t"; cases "find_run ts (task_run_id t)")
      (auto simp: create_task_def)
qed

theorem nested_input_unstorable_witness:
  "\<exists>e. create_task Some (task_example\<lparr>task_input := VProxy [(''filter'', VProxy [])]\<rparr>) life_tenant life_example = Inl e"
  using nested_input_unstorable[of "task_example\<lparr>task_input := VProxy [(''filter'', VProxy [])]\<rparr>" "[(''filter'', VProxy [])]" "''filter''" "[]"]
  by simp

text \<open>
  An attempt can be filed under the run of one tenant and the task of another. \<open>create_attempt\<close> checks the
  run it is given and that the task exists, not that the task is one of this run.
\<close>

theorem attempt_of_foreign_task:
  "\<exists>ts a t. ts = life_history Some [(life_tenant, CreateRun run_example), (life_tenant, CreateTask task_example),
       (Some ''x'', CreateRun (run_example\<lparr>run_id := ''run-2'', run_tenant_id := ''x''\<rparr>)),
       (Some ''x'', CreateAttempt attempt_example ''run-2'')] empty_tables \<and>
     lt_attempts ts = [a] \<and> lt_tasks ts = [t] \<and> at_task_id a = tk_id t \<and> at_org a = ''x'' \<and> tk_org t = ''t'' \<and>
     at_run_id a \<noteq> tk_run_id t"
proof -
  let ?ts = "life_history Some [(life_tenant, CreateRun run_example), (life_tenant, CreateTask task_example),
       (Some ''x'', CreateRun (run_example\<lparr>run_id := ''run-2'', run_tenant_id := ''x''\<rparr>)),
       (Some ''x'', CreateAttempt attempt_example ''run-2'')] empty_tables"
  have "map (\<lambda>a. (at_task_id a, at_org a, at_run_id a)) (lt_attempts ?ts) = [(''task-2'', ''x'', ''run-2'')]"
    "map (\<lambda>t. (tk_id t, tk_org t, tk_run_id t)) (lt_tasks ?ts) = [(''task-2'', ''t'', ''run-1'')]" by code_simp+
  then show ?thesis by (auto simp: map_eq_Cons_conv)
qed

end
