(* ===== verification/Spec2Isabelle.thy ===== *)
theory Spec2Isabelle
  imports Task_Lifecycle Plan_Topology Issuer Store_Props Claim_Resolution Citation_Render Bounded_Runner Component_Registry Acquisition_Examples
    Outbox_Examples Run_Stream_Examples Run_Rows_Examples
begin

text \<open>
  Verification library of the durable core of the repository: a service that runs research
  workflows as plans of workers, mediates every tool call they make, and records what they did so
  that claims can be traced to evidence. The core is under \<^verbatim>\<open>src/core\<close>; the plan compiler and the
  topology executor are under \<^verbatim>\<open>src/ai_brain\<close>, the durable store under \<^verbatim>\<open>src/agents/tools\<close>.

  How the parts interact. A \<^bold>\<open>run\<close> consists of \<^bold>\<open>tasks\<close>, each with \<^bold>\<open>attempts\<close>; their records move
  through state machines. A run executes an \<^bold>\<open>execution plan\<close>, compiled from the authority a user was
  granted and from a routing proposal, and scheduled by the topology executor. For each worker of
  the plan the \<^bold>\<open>issuer\<close> makes capability grants. A worker reaches a tool only through the \<^bold>\<open>tool
  boundary\<close>, which validates and redacts the input, asks for a \<^bold>\<open>capability decision\<close> under those
  grants, reserves the call in the audit store, runs the handler under a deadline, a lease and a
  \<^bold>\<open>circuit breaker\<close>, validates and redacts the output and records the \<^bold>\<open>outcome\<close>. What is recorded
  names its \<^bold>\<open>provenance\<close>: the prompt, the trust label of the input and output, the evidence, with
  \<^bold>\<open>locators\<close> into snapshots of sources.

  Theories, in the order of the code:

  \<^item> \<open>Prelude\<close>: validators as ordered lists of guarded raises, results, characters and strings.
  \<^item> \<open>Json_Values\<close>, \<open>Contract_Base\<close> (\<^verbatim>\<open>core/contracts/base.py\<close>): JSON values, freezing and thawing,
    constrained strings.
  \<^item> \<open>Contract_States\<close>, \<open>Lifecycle\<close>, \<open>Task_Lifecycle\<close> (\<^verbatim>\<open>core/contracts/{states,lifecycle,
    task_lifecycle}.py\<close>): the transition tables, the records and their operations. The locale
    \<open>lifecycle_machine\<close> states what a lifecycle contract promises; run, task and attempt interpret it.
    Shown: the exact behaviour of every transition, and that every history keeps the record valid.
  \<^item> \<open>Trust\<close> (\<^verbatim>\<open>core/contracts/trust.py\<close>): labels as a linear order, propagation without laundering.
  \<^item> \<open>Execution_Plan\<close> (\<^verbatim>\<open>core/contracts/{definitions,execution_plan}.py\<close>,
    \<^verbatim>\<open>models/execution_authority.py\<close>, \<^verbatim>\<open>ai_brain/router/execution_plan_compiler.py\<close>) and \<open>Plan_Topology\<close>
    (\<^verbatim>\<open>ai_brain/integration/execution_plan_topology.py\<close>): plans, their compilation, admission by
    depth-first search and the batch scheduler. Shown: a compiled plan has exactly the authority's
    content; admission accepts exactly the flat and acyclic shapes; an admitted plan never gets stuck.
  \<^item> \<open>Capabilities\<close>, \<open>Issuer\<close> (\<^verbatim>\<open>core/contracts/capabilities.py\<close>, \<^verbatim>\<open>core/capabilities/issuer.py\<close>): the
    decision and the grants. Shown: allowed exactly when a grant is satisfied; sensitive sinks need a
    live approval of this very request; the decision does not depend on orders; issued grants confine.
  \<^item> \<open>Locators\<close>, \<open>Locator_Resolution\<close> (\<^verbatim>\<open>core/contracts/locators.py\<close>, \<^verbatim>\<open>core/acquisition/resolution.py\<close>):
    grammar and resolution. Shown: one spelling per span, and excerpts are verbatim quotations.
  \<^item> \<open>Regex\<close>, \<open>Redaction\<close> (\<^verbatim>\<open>core/contracts/redaction.py\<close>): a matcher for the credential patterns and
    the redaction of payloads. Shown: held secrets are removed, clean payloads are kept.
  \<^item> \<open>Provenance\<close>, \<open>Records\<close> (\<^verbatim>\<open>core/contracts/{provenance,pinning,streaming,outcomes,citation}.py\<close>):
    the durable records and their validators.
  \<^item> \<open>Prompts\<close>, \<open>Circuit\<close>, \<open>Outcome\<close>, \<open>Tool_Spec\<close> (\<^verbatim>\<open>core/tools/{secrets,prompts,circuit,outcome,spec}.py\<close>):
    the parts of the boundary. Shown: a verified prompt is the one it names; the discipline of the
    breaker; the durable record determines the outcome; the audits of a tool's model classes end and
    accept exactly the sound ones.
  \<^item> \<open>Boundary_Base\<close>, \<open>Boundary\<close>, \<open>Boundary_Invoke\<close> (\<^verbatim>\<open>core/tools/{audit,boundary}.py\<close>): one mediated call as
    an action over the breakers with a trace of effects. \<open>Boundary_Laws\<close> refines it to a protocol,
    \<open>Boundary_Props\<close> reads off what callers rely on: no effect before the decision, their order, where the
    outcome of a call comes from, and how the probe of a breaker is lost for good.
  \<^item> \<open>Event_Stream\<close> (\<^verbatim>\<open>repositories/run_event_repository.py\<close>): the append-only events of a run. Shown:
    numbering without gaps, and replay from a cursor that neither skips nor repeats.
  \<^item> \<open>Outbox\<close>, \<open>Outbox_Laws\<close>, \<open>Outbox_Props\<close>, \<open>Outbox_Examples\<close> (\<^verbatim>\<open>api/services/outbox_relay.py\<close>): the relay that
    delivers the outbox of the events, as statements on its table, as one poll, and as any number of relays
    that interleave and die. Shown: no entry is lost or delivered without bound, one relay settles a row for
    good, a poll refines the steps, and what a late relay of several can undo.
  \<^item> \<open>Run_Stream\<close>, \<open>Run_Stream_Props\<close>, \<open>Run_Stream_Examples\<close> (\<^verbatim>\<open>api/websocket/run_stream.py\<close>): the live
    stream of a run, read page by page from a database that goes on changing. Shown: it yields exactly the
    durable events after the cursor, of the caller's organization, and all of them when it ends.
  \<^item> \<open>Run_Rows\<close>, \<open>Run_Rows_Props\<close>, \<open>Run_Rows_Examples\<close> (\<^verbatim>\<open>repositories/run_lifecycle_repository.py\<close>,
    \<^verbatim>\<open>models/db/run_lifecycle.py\<close>): the rows of runs, tasks and attempts. Shown: tenants never mix, a
    recorded transition refines the contract's, what a stale contract can overwrite, and that a nested input
    cannot be stored.
  \<^item> \<open>Durable_Store\<close> (\<^verbatim>\<open>agents/tools/durable_audit.py\<close>, \<^verbatim>\<open>repositories/tool_invocation_repository.py\<close>): the
    transactions of the durable audit store on its tables. \<open>Store_Laws\<close> shows that every one lets the
    tables evolve soundly, \<open>Store_History\<close> lifts that to histories through the locale \<open>lasting_rows\<close>,
    and \<open>Store_Props\<close> states what readers, workers and the boundary rely on; the locale
    \<open>denial_safe_store\<close> is the interface between the boundary and the store.
  \<^item> \<open>Materiality\<close>, \<open>Claim_Resolution\<close>, \<open>Citation_Render\<close> (\<^verbatim>\<open>core/claims/{materiality,resolution,recording,
    citation_render}.py\<close>, \<^verbatim>\<open>repositories/claim_support_repository.py\<close>): the claims of a report. Shown: the
    inventory accounts for every character of the source, the identifier of a claim resolves to its
    text, every claim gets exactly one verdict, leaving one out never flatters the report, and what is
    recorded is the resolution.
  \<^item> \<open>Sources\<close>, \<open>Snapshots\<close>, \<open>Snapshot_Writers\<close> (\<^verbatim>\<open>core/acquisition/{sources,snapshots}.py\<close>): the source
    taxonomy and the content-addressed snapshot store, with \<open>put\<close> as one operation and as the system calls
    of any number of callers that interleave, fail and crash. Shown: no file at an address is ever partial,
    none disappears or changes, what was stored reads back, and the operation refines the system calls.
  \<^item> \<open>Evidence_Rows\<close> (\<^verbatim>\<open>repositories/{artifact,evidence}_repository.py\<close>, \<^verbatim>\<open>models/db/{artifact,evidence}.py\<close>):
    the rows of artifacts and evidence. Shown: every operation keeps the tables sound.
  \<^item> \<open>Acquisition\<close>, \<open>Acquisition_Props\<close>, \<open>Acquisition_Examples\<close> (\<^verbatim>\<open>core/acquisition/{fetch_tool,service}.py\<close>):
    acquiring a source through the boundary and reading an excerpt back. Shown: acquired evidence resolves
    in the stored snapshot, the tables change only for bytes that were read back with the reported digest, and
    excerpts leave the quarantine redacted.
  \<^item> \<open>Bounded_Runner\<close>, \<open>Component_Registry\<close> (\<^verbatim>\<open>core/kernel/{bounded_concurrency,registry,
    component_keys}.py\<close>): bounded concurrency as a step relation, and the typed registry. Shown: the
    bound holds at every moment, items are admitted in order and once, every run ends, and one that returns is the map of the operation;
    registered keys resolve to their own component only.

  Conventions. A constructor of a contract is a validator that returns the first error it raises. A
  Python exception is the left side of a sum, or \<open>None\<close>. Instants are microseconds, an aware
  \<open>datetime\<close> being the instant it denotes. Text is a list of code points below 256. SHA-256,
  \<open>json.dumps\<close>, pydantic's parsing against a tool's models, identifier factories and the answers of
  stores, publishers, clocks and handlers are parameters or quantified over; no property assumes
  more of them than its statement says. The iteration order of Python sets is a list or a parameter.

  Bounds. The traversal of a tool's model classes takes a depth; a depth above the number of classes
  is enough, which is part of its property. The generator of a live stream takes a number of rounds:
  what it yields is stated for every number, and that it ends for one the history bounds. All other recursions are structural or have a measure.

  Not modelled: symbolic links below the snapshot root and the fetchers that retrieve a source; the
  HTTP API and its services, other database models, migrations and repositories, provider
  clients, agents and their prompts, the experimentation and evaluation code, the command line and the
  web client: they call the core or are input and output. Of the modelled files the logging, the
  telemetry and the bookkeeping of \<open>asyncio\<close> tasks are left out, as are a timeout that is not a number, a
  second cancellation of one call, and the refusal of a row whose text exceeds the width of its column.
\<close>

end
